(* ===== verification/Prelude.thy ===== *)
theory Prelude
  imports Main "HOL-Library.Word" "HOL-Library.List_Lexorder"
begin

text \<open>
  Shared material of the development: UTF-16 strings as the browser has them, the list and option
  lemmas the components use, the errors a script can raise, and the two generic interfaces for
  components that run as event-driven machines (a deterministic step function over a list of
  events, and a step relation with reachable states).
\<close>

section \<open>Collections of facts\<close>

named_theorems step_inv \<open>preservation of an invariant by one operation\<close>

section \<open>Strings\<close>

text \<open>
  A JavaScript string is a sequence of 16-bit code units. \<open>js\<close> embeds an ASCII literal of the
  source. Comparison of strings (\<open>"1" <= key\<close>) is lexicographic on code units, which is the
  order that List\_Lexorder gives to lists of words.
\<close>

type_synonym unit16 = "16 word"
type_synonym jstr = "unit16 list"

definition chr16 :: "char \<Rightarrow> unit16" where
  "chr16 c = word_of_nat (of_char c)"

definition js :: "string \<Rightarrow> jstr" where
  "js s = map chr16 s"

lemma of_char_less_256: "(of_char c :: nat) < 256"
  by (cases c) (simp split: if_splits)

lemma unat_chr16: "unat (chr16 c) = of_char c"
proof -
  have "(of_char c :: nat) < 2 ^ 16"
    by (rule less_trans [OF of_char_less_256]) simp
  then show ?thesis
    by (simp add: chr16_def unat_of_nat)
qed

lemma inj_chr16: "inj chr16"
proof (rule injI)
  fix c d assume "chr16 c = chr16 d"
  then have "(of_char c :: nat) = of_char d"
    by (metis unat_chr16)
  then show "c = d"
    by simp
qed

lemma chr16_eq_iff [simp]: "chr16 c = chr16 d \<longleftrightarrow> c = d"
  using inj_chr16 by (auto dest: injD)

lemma js_Nil [simp]: "js [] = []"
  by (simp add: js_def)

lemma js_eq_iff [simp]: "js s = js t \<longleftrightarrow> s = t"
  unfolding js_def by (rule inj_map_eq_map [OF inj_chr16])

lemma js_eq_Nil_iff [simp]: "js s = [] \<longleftrightarrow> s = []"
  by (simp add: js_def)

lemma length_js [simp]: "length (js s) = length s"
  by (simp add: js_def)

lemma js_append: "js (s @ t) = js s @ js t"
  by (simp add: js_def)


lemma js_Cons: "js (c # s) = chr16 c # js s"
  by (simp add: js_def)

subsection \<open>Character classes\<close>

text \<open>
  \<open>is_word\<close> is the class of \<open>\w\<close> (and of \<open>[a-zA-Z0-9_]\<close>); \<open>is_white_space\<close> is
  \<open>\p{White_Space}\<close> (every code point of that property lies in the basic plane); \<open>is_trim_space\<close>
  is what \<open>String.prototype.trim\<close> removes: the white space and line terminators of ECMAScript,
  which has the byte order mark and lacks U+0085.
\<close>

definition is_word :: "unit16 \<Rightarrow> bool" where
  "is_word c \<longleftrightarrow> (let n = unat c in
     48 \<le> n \<and> n \<le> 57 \<or> 65 \<le> n \<and> n \<le> 90 \<or> 97 \<le> n \<and> n \<le> 122 \<or> n = 95)"

definition is_white_space :: "unit16 \<Rightarrow> bool" where
  "is_white_space c \<longleftrightarrow> (let n = unat c in
     9 \<le> n \<and> n \<le> 13 \<or> n = 32 \<or> n = 0x85 \<or> n = 0xA0 \<or> n = 0x1680 \<or>
     0x2000 \<le> n \<and> n \<le> 0x200A \<or> n = 0x2028 \<or> n = 0x2029 \<or> n = 0x202F \<or> n = 0x205F \<or>
     n = 0x3000)"

definition is_trim_space :: "unit16 \<Rightarrow> bool" where
  "is_trim_space c \<longleftrightarrow> unat c = 0xFEFF \<or> unat c \<noteq> 0x85 \<and> is_white_space c"

subsection \<open>String operations of the standard library\<close>

text \<open>
  \<open>s.substring(0, i)\<close> and \<open>s.substring(i)\<close> clamp a negative index to 0, as \<open>nat\<close> does.
\<close>

definition substring_to :: "jstr \<Rightarrow> int \<Rightarrow> jstr" where
  "substring_to s i = take (nat i) s"

definition substring_from :: "jstr \<Rightarrow> int \<Rightarrow> jstr" where
  "substring_from s i = drop (nat i) s"

definition trailing :: "(unit16 \<Rightarrow> bool) \<Rightarrow> jstr \<Rightarrow> jstr" where
  "trailing p s = rev (takeWhile p (rev s))"

definition trim :: "jstr \<Rightarrow> jstr" where
  "trim s = rev (dropWhile is_trim_space (rev (dropWhile is_trim_space s)))"

definition startsWith :: "jstr \<Rightarrow> jstr \<Rightarrow> bool" where
  "startsWith s p \<longleftrightarrow> take (length p) s = p"

definition lastIndexOf :: "jstr \<Rightarrow> unit16 \<Rightarrow> int" where
  "lastIndexOf s c =
     (if c \<in> set s then int (length s) - 1 - int (length (takeWhile (\<lambda>d. d \<noteq> c) (rev s))) else -1)"

text \<open>\<open>String(n)\<close> for a non-negative integer: its decimal digits.\<close>

fun decimal :: "nat \<Rightarrow> jstr" where
  "decimal n = (if n < 10 then [word_of_nat (48 + n)]
                else decimal (n div 10) @ [word_of_nat (48 + n mod 10)])"

declare decimal.simps [simp del]

text \<open>\<open>xs.join(sep)\<close>.\<close>

fun join :: "jstr \<Rightarrow> jstr list \<Rightarrow> jstr" where
  "join sep [] = []"
| "join sep [s] = s"
| "join sep (s # t # ss) = s @ sep @ join sep (t # ss)"

lemma trailing_decomp:
  obtains p where "s = p @ trailing P s" "p \<noteq> [] \<Longrightarrow> \<not> P (last p)"
proof
  let ?p = "rev (dropWhile P (rev s))"
  have "takeWhile P (rev s) @ dropWhile P (rev s) = rev s"
    by simp
  then show "s = ?p @ trailing P s"
    unfolding trailing_def by (metis rev_append rev_rev_ident)
  show "\<not> P (last ?p)" if "?p \<noteq> []"
    using that by (simp add: last_rev hd_dropWhile)
qed

lemma trailing_all: "c \<in> set (trailing P s) \<Longrightarrow> P c"
  by (auto simp: trailing_def dest: set_takeWhileD)

lemma trailing_append_stop:
  "\<not> P c \<Longrightarrow> (\<forall>d \<in> set w. P d) \<Longrightarrow> trailing P (p @ c # w) = w"
  by (simp add: trailing_def takeWhile_append)

lemma lastIndexOf_append:
  "c \<notin> set w \<Longrightarrow> lastIndexOf (p @ c # w) c = int (length p)"
proof -
  assume "c \<notin> set w"
  then have "takeWhile (\<lambda>d. d \<noteq> c) (rev w @ c # rev p) = rev w"
    by (simp add: takeWhile_append)
  then show ?thesis
    by (simp add: lastIndexOf_def)
qed

lemma lastIndexOf_range: "-1 \<le> lastIndexOf s c \<and> lastIndexOf s c < int (length s) \<or> s = []"
  using length_takeWhile_le [of "\<lambda>d. d \<noteq> c" "rev s"]
  by (cases "c \<in> set s") (auto simp: lastIndexOf_def dest: takeWhile_eq_all_conv [THEN iffD1])

lemma decimal_nonempty [simp]: "decimal n \<noteq> []"
  by (subst decimal.simps) simp

lemma dropWhile_rev_last: "xs \<noteq> [] \<Longrightarrow> \<not> P (last xs) \<Longrightarrow> dropWhile P (rev xs) = rev xs"
  by (metis dropWhile_eq_self_iff hd_rev)

lemma find_Some_split:
  "List.find P xs = Some x \<Longrightarrow> \<exists>ys zs. xs = ys @ x # zs \<and> P x \<and> list_all (\<lambda>y. \<not> P y) ys"
proof (induction xs)
  case (Cons y xs)
  show ?case
  proof (cases "P y")
    case True
    with Cons.prems show ?thesis by (intro exI [of _ "[]"] exI [of _ xs]) auto
  next
    case False
    with Cons obtain ys zs where "xs = ys @ x # zs" "P x" "list_all (\<lambda>y. \<not> P y) ys" by auto
    with False show ?thesis by (intro exI [of _ "y # ys"] exI [of _ zs]) simp
  qed
qed simp

section \<open>Errors of a script\<close>

text \<open>
  Reading a property of \<open>null\<close> or \<open>undefined\<close> raises a TypeError and abandons the handler;
  what the handler did before stays done. A handler that can raise returns its state together with
  the error, in a sum whose left side is the error.
\<close>

datatype js_error = TypeError | SyntaxError | GeneralError

type_synonym 's outcome = "(js_error \<times> 's) + 's"

fun final_state :: "'s outcome \<Rightarrow> 's" where
  "final_state (Inl (e, s)) = s"
| "final_state (Inr s) = s"

text \<open>Going on after a call that may have raised.\<close>

fun and_then :: "'s outcome \<Rightarrow> ('s \<Rightarrow> 's outcome) \<Rightarrow> 's outcome" where
  "and_then (Inl e) f = Inl e"
| "and_then (Inr s) f = f s"

lemma and_then_Inr_iff: "and_then r f = Inr t \<longleftrightarrow> (\<exists>s. r = Inr s \<and> f s = Inr t)"
  by (cases r) auto

section \<open>Machines\<close>

text \<open>
  A component that reacts to events is a step function; what every step keeps, every run keeps.
\<close>

locale machine =
  fixes step :: "'s \<Rightarrow> 'e \<Rightarrow> 's"
    and inv :: "'s \<Rightarrow> bool"
  assumes inv_step: "inv s \<Longrightarrow> inv (step s e)"
begin

lemma inv_run: "inv s \<Longrightarrow> inv (foldl step s es)"
  by (induction es arbitrary: s) (auto intro: inv_step)

lemma inv_prefix: "inv s \<Longrightarrow> inv (foldl step s (take n es))"
  by (rule inv_run)

end

text \<open>
  A component with concurrent activities is a step relation; \<open>reachable\<close> is the set of states its
  interleavings can produce.
\<close>

inductive reachable :: "('s \<Rightarrow> bool) \<Rightarrow> ('s \<Rightarrow> 's \<Rightarrow> bool) \<Rightarrow> 's \<Rightarrow> bool"
  for init :: "'s \<Rightarrow> bool" and step :: "'s \<Rightarrow> 's \<Rightarrow> bool" where
  start: "init s \<Longrightarrow> reachable init step s"
| move: "reachable init step s \<Longrightarrow> step s t \<Longrightarrow> reachable init step t"

locale transition_system =
  fixes init :: "'s \<Rightarrow> bool"
    and step :: "'s \<Rightarrow> 's \<Rightarrow> bool"
    and inv :: "'s \<Rightarrow> bool"
  assumes inv_init: "init s \<Longrightarrow> inv s"
    and inv_move: "inv s \<Longrightarrow> step s t \<Longrightarrow> inv t"
begin

lemma reachable_inv: "reachable init step s \<Longrightarrow> inv s"
  by (induction rule: reachable.induct) (auto intro: inv_init inv_move)

lemma reachable_move_inv: "reachable init step s \<Longrightarrow> step s t \<Longrightarrow> inv s \<and> inv t"
  by (auto intro: reachable_inv reachable.move)

end

end
