(* ===== verification/DirectMessages.thy ===== *)
theory DirectMessages
  imports Complex_Main Prelude
begin

text \<open>
  The \<open>directMessageHistory\<close> component of assets/app.js: the live refresh of a conversation and the
  loading of older messages, two asynchronous activities on one list of messages. The state holds the
  fields of the component, the parts of the page it reads and writes, and the position of every
  activity that is suspended at an \<open>await\<close>. One live refresh runs at a time (\<open>refreshNew\<close> with
  \<open>appendNew\<close> inside it); calls of \<open>loadOlder\<close> are a list, each with its link and its position.

  A step is what the browser runs without interruption: an event handler, or the code from one
  \<open>await\<close> to the next. A call of \<open>loadOlder\<close> that waited for the live request is resumed by a
  microtask, so the calls that are woken run before any other step: every other rule of the step
  relation requires that no call is in the position \<open>OWoken\<close>.

  \<open>mj\<close> tells whether MathJax is present. Failures of requests and of typesetting, the presence of
  the cursor element, the scroll position and the connectedness of elements are choices of the rules.
\<close>

section \<open>State\<close>

text \<open>Positions of the live refresh: at \<open>$nextTick\<close>, \<open>$ajax\<close>, \<open>typesetPromise\<close> or the animation
  frame; the flag is the local variable \<open>atBottom\<close>.\<close>

datatype live_pc = LIdle | LTick bool | LAjax bool | LTypeset bool | LFrame

text \<open>Positions of a call of \<open>loadOlder\<close>: waiting for a live request (by its number), woken from
  that wait, and then at its request, the typesetting or the animation frame.\<close>

datatype older_pc = OWait nat | OWoken | ORequest | OTypeset | OFrame

type_synonym link = nat

record dm =
  loadingOlder :: bool
  loadingNew :: bool
  receivedNew :: bool
  refreshPending :: bool
  liveRequest :: "nat option"
  destroyed :: bool
  anchor :: "jstr option"
  anchorDocumentTop :: rat
  previousOverflowAnchor :: jstr
  live :: live_pc
  runs :: nat
  olders :: "(link \<times> older_pc) list"
  doc_hidden :: bool
  overflowAnchor :: jstr
  history :: "jstr list"
  scrolls :: nat
  failed :: bool

text \<open>
  \<open>runs\<close> numbers the promises of \<open>refreshNew\<close>; \<open>scrolls\<close> counts the jumps to the end of the
  conversation; \<open>failed\<close> records that the last refresh ended in its \<open>catch\<close> branch.
\<close>

definition dm_start :: "jstr \<Rightarrow> jstr list \<Rightarrow> dm \<Rightarrow> bool" where
  "dm_start orig msgs s \<longleftrightarrow>
     s = \<lparr>loadingOlder = False, loadingNew = False, receivedNew = False, refreshPending = False,
          liveRequest = None, destroyed = False, anchor = None, anchorDocumentTop = 0,
          previousOverflowAnchor = [], live = LIdle, runs = 0, olders = [],
          doc_hidden = doc_hidden s, overflowAnchor = orig, history = msgs, scrolls = 0,
          failed = False\<rparr>"

section \<open>The live refresh\<close>

text \<open>The end of \<open>refreshNew\<close>: the \<open>finally\<close> branch, and the promise settles.\<close>

fun wake :: "nat \<Rightarrow> link \<times> older_pc \<Rightarrow> link \<times> older_pc" where
  "wake n (l, OWait m) = (l, if m = n then OWoken else OWait m)"
| "wake n p = p"

definition settle :: "dm \<Rightarrow> dm" where
  "settle s = s\<lparr>loadingNew := False, live := LIdle, olders := map (wake (runs s)) (olders s)\<rparr>"

text \<open>The head of the loop, up to the first \<open>await\<close> of \<open>appendNew\<close>.\<close>

definition loop_head :: "bool \<Rightarrow> dm \<Rightarrow> dm" where
  "loop_head atBottom s =
     (if refreshPending s \<and> \<not> destroyed s \<and> \<not> doc_hidden s
      then s\<lparr>refreshPending := False, receivedNew := False, live := LTick atBottom\<rparr>
      else settle s)"

definition refreshNew :: "bool \<Rightarrow> dm \<Rightarrow> dm" where
  "refreshNew atBottom s =
     loop_head atBottom (s\<lparr>loadingNew := True, runs := runs s + 1, failed := False\<rparr>)"

definition queueRefresh :: "bool \<Rightarrow> dm \<Rightarrow> dm" where
  "queueRefresh atBottom s =
     (let s1 = s\<lparr>refreshPending := True\<rparr>
      in if destroyed s1 \<or> doc_hidden s1 \<or> loadingOlder s1 \<or> loadingNew s1 then s1
         else (let s2 = refreshNew atBottom s1 in s2\<lparr>liveRequest := Some (runs s2)\<rparr>))"

definition live_catch :: "dm \<Rightarrow> dm" where
  "live_catch s = settle (s\<lparr>refreshPending := True, failed := True\<rparr>)"

text \<open>
  After \<open>appendNew\<close>: the cursor is read only when no refresh is pending yet; a missing cursor
  raises. \<open>more\<close> is none when the element is missing.
\<close>

definition after_append :: "bool option \<Rightarrow> bool \<Rightarrow> dm \<Rightarrow> dm" where
  "after_append hasMore atBottom' s =
     (if refreshPending s then loop_head atBottom' s
      else (case hasMore of None \<Rightarrow> live_catch s
            | Some m \<Rightarrow> loop_head atBottom' (s\<lparr>refreshPending := m\<rparr>)))"

definition after_typeset :: "bool \<Rightarrow> bool option \<Rightarrow> bool \<Rightarrow> dm \<Rightarrow> dm" where
  "after_typeset atBottom hasMore atBottom' s =
     (if atBottom then s\<lparr>live := LFrame\<rparr> else after_append hasMore atBottom' s)"

definition after_ajax :: "bool \<Rightarrow> bool \<Rightarrow> bool \<Rightarrow> bool option \<Rightarrow> bool \<Rightarrow> dm \<Rightarrow> dm" where
  "after_ajax mj isConn atBottom hasMore atBottom' s =
     (if \<not> destroyed s \<and> isConn \<and> receivedNew s
      then if mj then s\<lparr>live := LTypeset atBottom\<rparr> else after_typeset atBottom hasMore atBottom' s
      else after_append hasMore atBottom' s)"

definition after_frame :: "bool option \<Rightarrow> bool \<Rightarrow> dm \<Rightarrow> dm" where
  "after_frame hasMore atBottom' s =
     after_append hasMore atBottom' (if destroyed s then s else s\<lparr>scrolls := scrolls s + 1\<rparr>)"

definition destroy :: "dm \<Rightarrow> dm" where
  "destroy s = s\<lparr>destroyed := True\<rparr>"

section \<open>Merging messages\<close>

text \<open>
  \<open>beforeOlderMerge\<close> runs before the response's messages are merged into the list: it drops those
  that are already in the document. \<open>bottom_of\<close> and \<open>top_of\<close> are the rectangles of the messages
  and \<open>scroll\<close> the scroll position of the body at that moment. The template of the list
  (routes/messages.rs) merges with append while \<open>loadingNew\<close> is set and with prepend otherwise.
  The listener returns at once for a merge into another element (its test of \<open>event.target.id\<close>), so
  such a merge is no step of this component.
\<close>

definition beforeOlderMerge ::
  "(jstr \<Rightarrow> rat) \<Rightarrow> (jstr \<Rightarrow> rat) \<Rightarrow> rat \<Rightarrow> jstr list \<Rightarrow> dm \<Rightarrow> jstr list \<times> dm" where
  "beforeOlderMerge bottom_of top_of scroll content s =
     (let fresh = filter (\<lambda>m. m \<notin> set (history s)) content
      in if loadingNew s then (fresh, s\<lparr>receivedNew := fresh \<noteq> []\<rparr>)
         else (let a = List.find (\<lambda>m. bottom_of m > 0) (history s)
               in (fresh, s\<lparr>anchor := a,
                    anchorDocumentTop := (case a of None \<Rightarrow> 0 | Some m \<Rightarrow> scroll + top_of m)\<rparr>)))"

definition merge_history :: "jstr list \<Rightarrow> dm \<Rightarrow> dm" where
  "merge_history fresh s =
     s\<lparr>history := (if loadingNew s then history s @ fresh else fresh @ history s)\<rparr>"

section \<open>Loading older messages\<close>

definition finish_older :: "bool \<Rightarrow> dm \<Rightarrow> dm" where
  "finish_older atBottom s =
     (let s1 = s\<lparr>overflowAnchor := previousOverflowAnchor s, loadingOlder := False, anchor := None\<rparr>
      in if refreshPending s1 then queueRefresh atBottom s1 else s1)"

text \<open>The code after the wait; \<open>isConn\<close> is \<open>link.isConnected\<close>.\<close>

definition older_body :: "bool \<Rightarrow> link \<Rightarrow> dm \<Rightarrow> dm" where
  "older_body isConn l s =
     (if loadingOlder s \<or> destroyed s \<or> \<not> isConn then s
      else s\<lparr>loadingOlder := True, previousOverflowAnchor := overflowAnchor s,
             overflowAnchor := js ''none'', olders := olders s @ [(l, ORequest)]\<rparr>)"

definition loadOlder :: "bool \<Rightarrow> link \<Rightarrow> dm \<Rightarrow> dm" where
  "loadOlder isConn l s =
     (if loadingNew s
      then s\<lparr>olders := olders s @
             [(l, if liveRequest s = Some (runs s) then OWait (runs s) else OWoken)]\<rparr>
      else older_body isConn l s)"

definition drop_older :: "link \<times> older_pc \<Rightarrow> dm \<Rightarrow> dm" where
  "drop_older p s = s\<lparr>olders := remove1 p (olders s)\<rparr>"

definition older_after_request :: "bool \<Rightarrow> bool \<Rightarrow> bool \<Rightarrow> link \<Rightarrow> dm \<Rightarrow> dm" where
  "older_after_request mj isConn atBottom l s =
     (let s1 = drop_older (l, ORequest) s
      in if \<not> isConn
         then s1\<lparr>olders := olders s1 @ [(l, if mj then OTypeset else OFrame)]\<rparr>
         else finish_older atBottom s1)"

definition older_after_typeset :: "link \<Rightarrow> dm \<Rightarrow> dm" where
  "older_after_typeset l s =
     (let s1 = drop_older (l, OTypeset) s in s1\<lparr>olders := olders s1 @ [(l, OFrame)]\<rparr>)"

text \<open>The correction of the scroll position that \<open>loadOlder\<close> applies, when the anchor is still in
  the document, so that the anchor message stays where it was on screen.\<close>

definition anchor_shift :: "(jstr \<Rightarrow> rat) \<Rightarrow> rat \<Rightarrow> dm \<Rightarrow> rat option" where
  "anchor_shift top_of scroll s =
     map_option (\<lambda>a. scroll + top_of a - anchorDocumentTop s) (anchor s)"

section \<open>The steps\<close>

definition has_woken :: "dm \<Rightarrow> bool" where
  "has_woken s \<longleftrightarrow> list_ex (\<lambda>p. snd p = OWoken) (olders s)"

definition first_woken :: "dm \<Rightarrow> link option" where
  "first_woken s = map_option fst (List.find (\<lambda>p. snd p = OWoken) (olders s))"

inductive dm_step :: "bool \<Rightarrow> dm \<Rightarrow> dm \<Rightarrow> bool" for mj :: bool where
  woken: "first_woken s = Some l \<Longrightarrow>
     dm_step mj s (older_body isConn l (drop_older (l, OWoken) s))"
| changed: "\<not> has_woken s \<Longrightarrow> dm_step mj s (queueRefresh b s)"
| visibility: "\<not> has_woken s \<Longrightarrow> dm_step mj s (queueRefresh b (s\<lparr>doc_hidden := h\<rparr>))"
| destroyed: "\<not> has_woken s \<Longrightarrow> dm_step mj s (destroy s)"
| tick: "\<not> has_woken s \<Longrightarrow> live s = LTick b \<Longrightarrow> dm_step mj s (s\<lparr>live := LAjax b\<rparr>)"
| ajax_ok: "\<not> has_woken s \<Longrightarrow> live s = LAjax b \<Longrightarrow>
     dm_step mj s (after_ajax mj isConn b hasMore b' s)"
| ajax_fail: "\<not> has_woken s \<Longrightarrow> live s = LAjax b \<Longrightarrow> dm_step mj s (live_catch s)"
| typeset_ok: "\<not> has_woken s \<Longrightarrow> live s = LTypeset b \<Longrightarrow> dm_step mj s (after_typeset b hasMore b' s)"
| typeset_fail: "\<not> has_woken s \<Longrightarrow> live s = LTypeset b \<Longrightarrow> dm_step mj s (live_catch s)"
| frame: "\<not> has_woken s \<Longrightarrow> live s = LFrame \<Longrightarrow> dm_step mj s (after_frame hasMore b' s)"
| merge: "\<not> has_woken s \<Longrightarrow>
     (\<exists>b. live s = LAjax b) \<or> (\<exists>l. (l, ORequest) \<in> set (olders s)) \<Longrightarrow> distinct content \<Longrightarrow>
     beforeOlderMerge bt tp sc content s = (fresh, s') \<Longrightarrow> dm_step mj s (merge_history fresh s')"
| call_older: "\<not> has_woken s \<Longrightarrow> dm_step mj s (loadOlder isConn l s)"
| request_ok: "\<not> has_woken s \<Longrightarrow> (l, ORequest) \<in> set (olders s) \<Longrightarrow>
     dm_step mj s (older_after_request mj isConn b l s)"
| request_fail: "\<not> has_woken s \<Longrightarrow> (l, ORequest) \<in> set (olders s) \<Longrightarrow>
     dm_step mj s (finish_older b (drop_older (l, ORequest) s))"
| older_typeset_ok: "\<not> has_woken s \<Longrightarrow> (l, OTypeset) \<in> set (olders s) \<Longrightarrow>
     dm_step mj s (older_after_typeset l s)"
| older_typeset_fail: "\<not> has_woken s \<Longrightarrow> (l, OTypeset) \<in> set (olders s) \<Longrightarrow>
     dm_step mj s (finish_older b (drop_older (l, OTypeset) s))"
| older_frame: "\<not> has_woken s \<Longrightarrow> (l, OFrame) \<in> set (olders s) \<Longrightarrow>
     dm_step mj s (finish_older b (drop_older (l, OFrame) s))"

text \<open>
  One page of a backlog, for a run of the live refresh that is at its tick: the request goes out, its
  messages are merged, the request is answered, and the typesetting and the animation frame pass
  where the code waits for them. \<open>hasMore\<close> is the flag of the new cursor, \<open>b'\<close> whether the reader is
  at the bottom when the next request starts. \<open>serve_pages\<close> answers requests as long as the code
  makes them; it returns the pages nobody asked for. The last page is the one whose cursor says that
  there is no more.
\<close>

definition serve_page ::
  "bool \<Rightarrow> (jstr \<Rightarrow> rat) \<Rightarrow> (jstr \<Rightarrow> rat) \<Rightarrow> rat \<Rightarrow> jstr list \<Rightarrow> bool \<Rightarrow> bool \<Rightarrow> dm \<Rightarrow> dm" where
  "serve_page mj bt tp sc content hasMore b' s =
     (case live s of
        LTick b \<Rightarrow>
          (let (fresh, s1) = beforeOlderMerge bt tp sc content (s\<lparr>live := LAjax b\<rparr>);
               s2 = after_ajax mj True b (Some hasMore) b' (merge_history fresh s1);
               s3 = (case live s2 of LTypeset c \<Rightarrow> after_typeset c (Some hasMore) b' s2 | _ \<Rightarrow> s2)
           in (case live s3 of LFrame \<Rightarrow> after_frame (Some hasMore) b' s3 | _ \<Rightarrow> s3))
      | _ \<Rightarrow> s)"

fun serve_pages ::
  "bool \<Rightarrow> (jstr \<Rightarrow> rat) \<Rightarrow> (jstr \<Rightarrow> rat) \<Rightarrow> rat \<Rightarrow> (jstr list \<times> bool) list \<Rightarrow> dm \<Rightarrow>
     (jstr list \<times> bool) list \<times> dm" where
  "serve_pages mj bt tp sc [] s = ([], s)"
| "serve_pages mj bt tp sc ((content, b') # rest) s =
     (case live s of
        LTick _ \<Rightarrow> serve_pages mj bt tp sc rest (serve_page mj bt tp sc content (rest \<noteq> []) b' s)
      | _ \<Rightarrow> ((content, b') # rest, s))"

section \<open>Invariant\<close>

definition is_active :: "link \<times> older_pc \<Rightarrow> bool" where
  "is_active p \<longleftrightarrow> snd p \<in> {ORequest, OTypeset, OFrame}"

definition no_wait :: "dm \<Rightarrow> bool" where
  "no_wait s \<longleftrightarrow> (\<forall>l m. (l, OWait m) \<notin> set (olders s))"

text \<open>A refresh runs; nobody else does, and every waiting call waits for this refresh.\<close>

definition running :: "jstr \<Rightarrow> dm \<Rightarrow> bool" where
  "running orig s \<longleftrightarrow>
     loadingNew s \<and> \<not> loadingOlder s \<and> filter is_active (olders s) = [] \<and>
     (\<forall>l m. (l, OWait m) \<in> set (olders s) \<longrightarrow> m = runs s) \<and> \<not> has_woken s \<and>
     liveRequest s = Some (runs s) \<and> overflowAnchor s = orig \<and> distinct (history s)"

text \<open>One call of \<open>loadOlder\<close> runs; the others are woken calls that will give up.\<close>

definition paging :: "jstr \<Rightarrow> dm \<Rightarrow> bool" where
  "paging orig s \<longleftrightarrow>
     \<not> loadingNew s \<and> loadingOlder s \<and> live s = LIdle \<and>
     length (filter is_active (olders s)) = 1 \<and> no_wait s \<and>
     previousOverflowAnchor s = orig \<and> distinct (history s)"

text \<open>Neither runs; woken calls may be about to start.\<close>

definition quiet :: "jstr \<Rightarrow> dm \<Rightarrow> bool" where
  "quiet orig s \<longleftrightarrow>
     \<not> loadingNew s \<and> \<not> loadingOlder s \<and> live s = LIdle \<and>
     filter is_active (olders s) = [] \<and> no_wait s \<and>
     overflowAnchor s = orig \<and> distinct (history s)"

definition excused :: "dm \<Rightarrow> bool" where
  "excused s \<longleftrightarrow> \<not> refreshPending s \<or> destroyed s \<or> doc_hidden s \<or> failed s"

definition dm_inv :: "jstr \<Rightarrow> dm \<Rightarrow> bool" where
  "dm_inv orig s \<longleftrightarrow>
     running orig s \<and> live s \<noteq> LIdle \<or> paging orig s \<or> quiet orig s \<and> excused s"

lemma has_woken_iff: "has_woken s \<longleftrightarrow> (\<exists>l. (l, OWoken) \<in> set (olders s))"
  by (force simp: has_woken_def list_ex_iff)

lemma wake_set:
  "(l, pc) \<in> wake n ` A \<longleftrightarrow>
     (case pc of OWoken \<Rightarrow> (l, OWoken) \<in> A \<or> (l, OWait n) \<in> A
      | OWait m \<Rightarrow> m \<noteq> n \<and> (l, OWait m) \<in> A | _ \<Rightarrow> (l, pc) \<in> A)"
proof -
  have "(l, pc) = wake n p \<longleftrightarrow>
     (case pc of OWoken \<Rightarrow> p = (l, OWoken) \<or> p = (l, OWait n)
      | OWait m \<Rightarrow> m \<noteq> n \<and> p = (l, OWait m) | _ \<Rightarrow> p = (l, pc))" for p
    by (cases p; cases "snd p") (auto split: older_pc.splits)
  then show ?thesis by (auto simp: image_iff split: older_pc.splits)
qed

lemma active_wake [simp]: "is_active (wake n p) = is_active p"
  by (cases p; cases "snd p") (auto simp: is_active_def)

lemma filter_active_wake:
  "filter is_active (map (wake n) ps) = [] \<longleftrightarrow> filter is_active ps = []"
  by (auto simp: filter_empty_conv)

lemma settle_quiet: "running orig s \<Longrightarrow> quiet orig (settle s)"
  by (auto simp: running_def quiet_def settle_def no_wait_def filter_active_wake wake_set)

lemma settle_fields [simp]:
  "refreshPending (settle s) = refreshPending s" "destroyed (settle s) = destroyed s"
  "doc_hidden (settle s) = doc_hidden s" "failed (settle s) = failed s"
  by (simp_all add: settle_def)

lemma excused_settle [simp]: "excused (settle s) = excused s"
  by (simp add: excused_def)

lemma running_fields [simp]:
  "running orig (s\<lparr>refreshPending := b\<rparr>) = running orig s"
  "running orig (s\<lparr>failed := b\<rparr>) = running orig s"
  "running orig (s\<lparr>receivedNew := b\<rparr>) = running orig s"
  "running orig (s\<lparr>live := pc\<rparr>) = running orig s"
  "running orig (s\<lparr>scrolls := n\<rparr>) = running orig s"
  "running orig (s\<lparr>destroyed := b\<rparr>) = running orig s"
  "running orig (s\<lparr>doc_hidden := b\<rparr>) = running orig s"
  by (simp_all add: running_def has_woken_def)

lemma dm_inv_running: "running orig s \<Longrightarrow> live s \<noteq> LIdle \<Longrightarrow> dm_inv orig s"
  by (simp add: dm_inv_def)

lemma dm_inv_live: "dm_inv orig s \<Longrightarrow> live s \<noteq> LIdle \<Longrightarrow> running orig s"
  by (auto simp: dm_inv_def paging_def quiet_def)

lemma loop_head_inv: "running orig s \<Longrightarrow> dm_inv orig (loop_head b s)"
proof (cases "refreshPending s \<and> \<not> destroyed s \<and> \<not> doc_hidden s")
  case True
  assume "running orig s"
  with True show ?thesis by (simp add: loop_head_def dm_inv_running)
next
  case False
  assume "running orig s"
  then have "quiet orig (settle s)" by (rule settle_quiet)
  with False show ?thesis by (auto simp: loop_head_def dm_inv_def excused_def)
qed

lemma live_catch_inv: "running orig s \<Longrightarrow> dm_inv orig (live_catch s)"
  using settle_quiet [of orig "s\<lparr>refreshPending := True, failed := True\<rparr>"]
  by (simp add: live_catch_def dm_inv_def excused_def)

lemma after_append_inv: "running orig s \<Longrightarrow> dm_inv orig (after_append hasMore b s)"
  by (simp add: after_append_def loop_head_inv live_catch_inv split: option.split)

lemma after_typeset_inv: "running orig s \<Longrightarrow> dm_inv orig (after_typeset a hasMore b s)"
  by (simp add: after_typeset_def after_append_inv dm_inv_running)

lemma after_ajax_inv: "running orig s \<Longrightarrow> dm_inv orig (after_ajax mj c a hasMore b s)"
  by (simp add: after_ajax_def after_typeset_inv after_append_inv dm_inv_running)

lemma after_frame_inv: "running orig s \<Longrightarrow> dm_inv orig (after_frame hasMore b s)"
  by (simp add: after_frame_def after_append_inv)

lemmas live_step_inv = loop_head_inv live_catch_inv after_ajax_inv after_typeset_inv after_frame_inv

lemma queueRefresh_quiet:
  assumes "quiet orig s" "\<not> has_woken s"
  shows "dm_inv orig (queueRefresh b s)"
proof (cases "destroyed s \<or> doc_hidden s")
  case True
  with assms(1) show ?thesis
    by (auto simp: queueRefresh_def Let_def dm_inv_def quiet_def excused_def no_wait_def)
next
  case False
  with assms show ?thesis
    by (simp add: queueRefresh_def Let_def dm_inv_def quiet_def running_def refreshNew_def
        loop_head_def no_wait_def has_woken_def)
qed

text \<open>The three shapes, without the claim that a pending refresh is excused.\<close>

definition dm_shape :: "jstr \<Rightarrow> dm \<Rightarrow> bool" where
  "dm_shape orig s \<longleftrightarrow> running orig s \<and> live s \<noteq> LIdle \<or> paging orig s \<or> quiet orig s"

lemma dm_inv_shape: "dm_inv orig s \<Longrightarrow> dm_shape orig s"
  by (auto simp: dm_inv_def dm_shape_def)

lemma dm_shape_hidden: "dm_shape orig s \<Longrightarrow> dm_shape orig (s\<lparr>doc_hidden := h\<rparr>)"
  by (auto simp: dm_shape_def paging_def quiet_def no_wait_def)

lemma queueRefresh_inv:
  assumes "dm_shape orig s" "\<not> has_woken s"
  shows "dm_inv orig (queueRefresh b s)"
proof -
  consider (run) "running orig s" "live s \<noteq> LIdle" | (page) "paging orig s" | (quiet) "quiet orig s"
    using assms(1) by (auto simp: dm_shape_def)
  then show ?thesis
  proof cases
    case run
    then have "queueRefresh b s = s\<lparr>refreshPending := True\<rparr>"
      by (simp add: queueRefresh_def running_def)
    with run show ?thesis by (simp add: dm_inv_running)
  next
    case page
    then have "queueRefresh b s = s\<lparr>refreshPending := True\<rparr>"
      by (simp add: queueRefresh_def paging_def)
    with page show ?thesis by (simp add: dm_inv_def paging_def no_wait_def)
  next
    case quiet
    then show ?thesis using assms(2) by (rule queueRefresh_quiet)
  qed
qed

lemma dm_inv_active: "dm_inv orig s \<Longrightarrow> p \<in> set (olders s) \<Longrightarrow> is_active p \<Longrightarrow> paging orig s"
  by (auto simp: dm_inv_def running_def quiet_def filter_empty_conv)

lemma drop_active_quiet:
  assumes "paging orig s" "p \<in> set (olders s)" "is_active p"
  shows "filter is_active (olders (drop_older p s)) = []"
proof -
  have "p \<in> set (filter is_active (olders s))" using assms by simp
  moreover have "length (filter is_active (olders s)) = 1" using assms(1) by (simp add: paging_def)
  ultimately have "filter is_active (olders s) = [p]"
    by (cases "filter is_active (olders s)") auto
  then show ?thesis by (simp add: drop_older_def filter_remove1)
qed

lemma finish_older_inv:
  assumes "paging orig s" "p \<in> set (olders s)" "is_active p" "\<not> has_woken s"
  shows "dm_inv orig (finish_older b (drop_older p s))"
proof -
  let ?s = "drop_older p s"
  let ?t = "?s\<lparr>overflowAnchor := previousOverflowAnchor ?s, loadingOlder := False, anchor := None\<rparr>"
  have "no_wait ?s" "\<not> has_woken ?s"
    using assms(1,4) notin_set_remove1
    by (auto simp: paging_def no_wait_def drop_older_def has_woken_iff)
  then have q: "quiet orig ?t" "\<not> has_woken ?t"
    using assms(1) drop_active_quiet [OF assms(1-3)]
    by (simp_all add: quiet_def paging_def no_wait_def has_woken_iff drop_older_def)
  show ?thesis
  proof (cases "refreshPending s")
    case True
    then have "finish_older b ?s = queueRefresh b ?t"
      by (simp add: finish_older_def drop_older_def)
    with q show ?thesis by (simp add: queueRefresh_quiet)
  next
    case False
    then have "finish_older b ?s = ?t" "excused ?t"
      by (simp_all add: finish_older_def drop_older_def excused_def)
    with q show ?thesis by (simp add: dm_inv_def)
  qed
qed

lemma move_active_inv:
  assumes "paging orig s" "p \<in> set (olders s)" "is_active p" "is_active q"
  shows "paging orig ((drop_older p s)\<lparr>olders := olders (drop_older p s) @ [q]\<rparr>)"
  using assms drop_active_quiet [OF assms(1-3)] notin_set_remove1
  by (auto simp: paging_def no_wait_def drop_older_def is_active_def)

lemma older_body_inv:
  assumes "dm_inv orig s" "\<not> loadingNew s"
  shows "dm_inv orig (older_body c l s)"
proof (cases "loadingOlder s \<or> destroyed s \<or> \<not> c")
  case True
  with assms(1) show ?thesis by (auto simp: older_body_def)
next
  case False
  with assms have "quiet orig s" by (auto simp: dm_inv_def running_def paging_def)
  with False show ?thesis
    by (auto simp: older_body_def dm_inv_def paging_def quiet_def no_wait_def is_active_def)
qed

lemma drop_woken_inv:
  assumes "dm_inv orig s" "(l, OWoken) \<in> set (olders s)"
  shows "dm_inv orig (drop_older (l, OWoken) s)" "\<not> loadingNew (drop_older (l, OWoken) s)"
proof -
  have "\<not> running orig s" using assms(2) by (auto simp: running_def has_woken_iff)
  moreover have "filter is_active (remove1 (l, OWoken) (olders s)) = filter is_active (olders s)"
    by (simp add: filter_remove1 remove1_idem is_active_def)
  moreover have "no_wait s \<Longrightarrow> no_wait (drop_older (l, OWoken) s)"
    using notin_set_remove1 by (fastforce simp: no_wait_def drop_older_def)
  ultimately show "dm_inv orig (drop_older (l, OWoken) s)"
    using assms(1)
    by (auto simp: dm_inv_def paging_def quiet_def excused_def drop_older_def)
  show "\<not> loadingNew (drop_older (l, OWoken) s)"
    using assms(1) \<open>\<not> running orig s\<close>
    by (auto simp: dm_inv_def paging_def quiet_def drop_older_def)
qed

lemma first_woken_in: "first_woken s = Some l \<Longrightarrow> (l, OWoken) \<in> set (olders s)"
  by (auto simp: first_woken_def find_Some_iff) (metis nth_mem snd_conv)

lemma loadOlder_inv:
  assumes "dm_inv orig s"
  shows "dm_inv orig (loadOlder c l s)"
proof (cases "loadingNew s")
  case True
  with assms have r: "running orig s" "live s \<noteq> LIdle"
    by (auto simp: dm_inv_def paging_def quiet_def)
  then have "running orig (s\<lparr>olders := olders s @ [(l, OWait (runs s))]\<rparr>)"
    by (auto simp: running_def has_woken_iff is_active_def)
  with True r show ?thesis
    by (simp add: loadOlder_def dm_inv_def running_def)
next
  case False
  with assms show ?thesis by (simp add: loadOlder_def older_body_inv)
qed

lemma dm_inv_merge_fields:
  assumes "dm_inv orig s" "distinct h"
  shows "dm_inv orig (s\<lparr>receivedNew := r, history := h\<rparr>)"
    and "dm_inv orig (s\<lparr>anchor := a, anchorDocumentTop := x, history := h\<rparr>)"
  using assms
  by (auto simp: dm_inv_def running_def paging_def quiet_def excused_def no_wait_def has_woken_def)

lemma merge_inv:
  assumes "dm_inv orig s" "distinct content"
    and "beforeOlderMerge bt tp sc content s = (fresh, s')"
  shows "dm_inv orig (merge_history fresh s')"
proof -
  have f: "fresh = filter (\<lambda>m. m \<notin> set (history s)) content"
    using assms(3) by (auto simp: beforeOlderMerge_def Let_def split: if_splits)
  have "distinct (history s)"
    using assms(1) by (auto simp: dm_inv_def running_def paging_def quiet_def)
  then have d: "distinct (history s @ fresh)" "distinct (fresh @ history s)"
    using assms(2) f by auto
  show ?thesis
  proof (cases "loadingNew s")
    case True
    then have "s' = s\<lparr>receivedNew := fresh \<noteq> []\<rparr>"
      using assms(3) by (auto simp: beforeOlderMerge_def Let_def)
    with True d(1) dm_inv_merge_fields(1) [OF assms(1)] show ?thesis
      by (simp add: merge_history_def)
  next
    case False
    then obtain a x where "s' = s\<lparr>anchor := a, anchorDocumentTop := x\<rparr>"
      using assms(3) by (auto simp: beforeOlderMerge_def Let_def)
    with False d(2) dm_inv_merge_fields(2) [OF assms(1)] show ?thesis
      by (simp add: merge_history_def)
  qed
qed

lemma dm_step_inv:
  assumes "dm_inv orig s" "dm_step mj s t"
  shows "dm_inv orig t"
  using assms(2,1)
proof (induction rule: dm_step.induct)
  case (woken s l c)
  then show ?case using first_woken_in [OF woken(1)] drop_woken_inv older_body_inv by blast
next
  case (visibility s b h)
  have "\<not> has_woken (s\<lparr>doc_hidden := h\<rparr>)" using visibility by (simp add: has_woken_def)
  with visibility show ?case using queueRefresh_inv dm_shape_hidden dm_inv_shape by blast
next
  case (destroyed s)
  then show ?case
    by (auto simp: destroy_def dm_inv_def paging_def quiet_def excused_def no_wait_def)
next
  case (request_ok s l c b)
  then have "paging orig s" by (auto intro!: dm_inv_active simp: is_active_def)
  with request_ok show ?case
    using move_active_inv finish_older_inv
    by (simp add: older_after_request_def Let_def dm_inv_def is_active_def)
next
  case (older_typeset_ok s l)
  then have "paging orig s" by (auto intro!: dm_inv_active simp: is_active_def)
  with older_typeset_ok show ?case
    using move_active_inv by (simp add: older_after_typeset_def Let_def dm_inv_def is_active_def)
next
  case (tick s b)
  then show ?case using dm_inv_live [of orig s] by (simp add: dm_inv_running)
qed (auto intro: queueRefresh_inv dm_inv_shape loadOlder_inv merge_inv finish_older_inv
      intro!: live_step_inv dm_inv_live dm_inv_active simp: is_active_def)

lemma dm_start_inv: "dm_start orig msgs s \<Longrightarrow> distinct msgs \<Longrightarrow> dm_inv orig s"
  by (cases s) (simp add: dm_start_def dm_inv_def quiet_def excused_def no_wait_def)

interpretation dm: transition_system "\<lambda>s. dm_start orig msgs s \<and> distinct msgs" "dm_step mj" "dm_inv orig"
  for orig msgs mj
  by unfold_locales (auto intro: dm_start_inv dm_step_inv)

abbreviation dm_reachable :: "jstr \<Rightarrow> jstr list \<Rightarrow> bool \<Rightarrow> dm \<Rightarrow> bool" where
  "dm_reachable orig msgs mj \<equiv>
     reachable (\<lambda>s. dm_start orig msgs s \<and> distinct msgs) (dm_step mj)"

section \<open>Properties\<close>

text \<open>
  C1: the two activities exclude each other. In every reachable state the live refresh and the
  loading of older messages are not both running, at most one call of \<open>loadOlder\<close> is past its
  guard, the flags agree with the positions of the activities, and a call that waits for the live
  request waits for one that is running, so it will be woken.
\<close>

theorem live_and_older_exclusive:
  assumes "dm_reachable orig msgs mj s"
  shows "\<not> (loadingOlder s \<and> loadingNew s) \<and>
     length (filter is_active (olders s)) = of_bool (loadingOlder s) \<and>
     (loadingNew s \<longleftrightarrow> live s \<noteq> LIdle) \<and>
     (\<forall>l m. (l, OWait m) \<in> set (olders s) \<longrightarrow> loadingNew s \<and> m = runs s)"
  using dm.reachable_inv [OF assms]
  by (auto simp: dm_inv_def running_def paging_def quiet_def no_wait_def)

text \<open>A run: a refresh starts, and an older page is asked for while it is in flight.\<close>

definition dm_zero :: dm where
  "dm_zero = \<lparr>loadingOlder = False, loadingNew = False, receivedNew = False, refreshPending = False,
     liveRequest = None, destroyed = False, anchor = None, anchorDocumentTop = 0,
     previousOverflowAnchor = [], live = LIdle, runs = 0, olders = [], doc_hidden = False,
     overflowAnchor = [], history = [js ''m1''], scrolls = 0, failed = False\<rparr>"

lemma dm_zero_start: "dm_reachable [] [js ''m1''] mj dm_zero"
  by (rule reachable.start) (simp add: dm_zero_def dm_start_def)

lemma dm_overlap_reachable:
  "dm_reachable [] [js ''m1''] mj (loadOlder True 7 (queueRefresh True dm_zero))"
proof -
  have "dm_step mj dm_zero (queueRefresh True dm_zero)"
    by (rule dm_step.changed) (simp add: dm_zero_def has_woken_def)
  then have "dm_reachable [] [js ''m1''] mj (queueRefresh True dm_zero)"
    by (rule reachable.move [OF dm_zero_start])
  moreover have "dm_step mj (queueRefresh True dm_zero) (loadOlder True 7 (queueRefresh True dm_zero))"
    by (rule dm_step.call_older)
      (simp add: dm_zero_def has_woken_def queueRefresh_def refreshNew_def loop_head_def)
  ultimately show ?thesis by (rule reachable.move)
qed

lemmas dm_run_simps = dm_zero_def queueRefresh_def refreshNew_def loop_head_def loadOlder_def

theorem live_and_older_exclusive_witness:
  "\<exists>s. dm_reachable [] [js ''m1''] False s \<and> loadingNew s \<and> olders s = [(7, OWait 1)] \<and>
     \<not> loadingOlder s"
  using live_and_older_exclusive [OF dm_overlap_reachable [of False]] dm_overlap_reachable [of False]
  by (intro exI [of _ "loadOlder True 7 (queueRefresh True dm_zero)"]) (simp add: dm_run_simps)

text \<open>
  C3: a response is merged on the right side. The template appends while \<open>loadingNew\<close> is set and
  prepends otherwise; because of the exclusion, a merge during the live request appends the messages
  that are new, a merge during an older request prepends them, and no message is ever shown twice.
\<close>

theorem merge_goes_to_its_side:
  assumes "dm_reachable orig msgs mj s" and "distinct content"
    and "beforeOlderMerge bt tp sc content s = (fresh, s')"
  shows "(live s = LAjax b \<longrightarrow> history (merge_history fresh s') =
            history s @ filter (\<lambda>m. m \<notin> set (history s)) content) \<and>
     ((l, ORequest) \<in> set (olders s) \<longrightarrow> history (merge_history fresh s') =
            filter (\<lambda>m. m \<notin> set (history s)) content @ history s) \<and>
     distinct (history (merge_history fresh s'))"
proof -
  have inv: "dm_inv orig s" by (rule dm.reachable_inv [OF assms(1)])
  have f: "fresh = filter (\<lambda>m. m \<notin> set (history s)) content" "history s' = history s"
    "loadingNew s' = loadingNew s"
    using assms(3) by (auto simp: beforeOlderMerge_def Let_def split: if_splits)
  have "live s = LAjax b \<Longrightarrow> loadingNew s"
    using dm_inv_live [OF inv] by (simp add: running_def)
  moreover have "(l, ORequest) \<in> set (olders s) \<Longrightarrow> \<not> loadingNew s"
    using dm_inv_active [OF inv, of "(l, ORequest)"] by (simp add: paging_def is_active_def)
  moreover have "distinct (history (merge_history fresh s'))"
    using merge_inv [OF inv assms(2,3)] by (auto simp: dm_inv_def running_def paging_def quiet_def)
  ultimately show ?thesis by (auto simp: merge_history_def f)
qed

theorem merge_goes_to_its_side_witness:
  "\<exists>s s'. dm_reachable [] [js ''m1''] False s \<and> live s = LAjax True \<and>
     beforeOlderMerge (\<lambda>_. 0) (\<lambda>_. 0) 0 [js ''m1'', js ''m2''] s = ([js ''m2''], s') \<and>
     history (merge_history [js ''m2''] s') = [js ''m1'', js ''m2'']"
proof -
  let ?s1 = "queueRefresh True dm_zero"
  let ?s = "?s1\<lparr>live := LAjax True\<rparr>"
  have "dm_step False dm_zero ?s1"
    by (rule dm_step.changed) (simp add: dm_zero_def has_woken_def)
  then have r1: "dm_reachable [] [js ''m1''] False ?s1"
    by (rule reachable.move [OF dm_zero_start])
  have "dm_step False ?s1 ?s"
    by (rule dm_step.tick) (simp_all add: dm_run_simps has_woken_def)
  with r1 have r: "dm_reachable [] [js ''m1''] False ?s" by (rule reachable.move)
  have m: "beforeOlderMerge (\<lambda>_. 0) (\<lambda>_. 0) 0 [js ''m1'', js ''m2''] ?s
      = ([js ''m2''], ?s\<lparr>receivedNew := True\<rparr>)"
    by (simp add: beforeOlderMerge_def dm_run_simps)
  have "history (merge_history [js ''m2''] (?s\<lparr>receivedNew := True\<rparr>))
      = history ?s @ filter (\<lambda>m. m \<notin> set (history ?s)) [js ''m1'', js ''m2'']"
    using merge_goes_to_its_side [OF r _ m, of True 0] by simp
  then have "history (merge_history [js ''m2''] (?s\<lparr>receivedNew := True\<rparr>)) = [js ''m1'', js ''m2'']"
    by (simp add: dm_run_simps)
  with r m show ?thesis by (intro exI [of _ ?s] exI [of _ "?s\<lparr>receivedNew := True\<rparr>"]) simp
qed

text \<open>
  C2: no wakeup is lost. When neither activity runs and a refresh is still pending, then the
  component is destroyed, or the page is hidden (becoming visible queues a refresh), or the last
  refresh failed; and a wakeup on a visible page of a live component always leaves one of the two
  activities running, the older one restarting the refresh when it ends.
\<close>

theorem no_lost_wakeup:
  assumes "dm_reachable orig msgs mj s"
  shows "(refreshPending s \<and> \<not> loadingNew s \<and> \<not> loadingOlder s \<longrightarrow>
            destroyed s \<or> doc_hidden s \<or> failed s) \<and>
     (\<not> destroyed s \<and> \<not> doc_hidden s \<longrightarrow>
            loadingNew (queueRefresh b s) \<or> loadingOlder s \<and> refreshPending (queueRefresh b s)) \<and>
     (refreshPending s \<and> \<not> destroyed s \<and> \<not> doc_hidden s \<and> \<not> loadingNew s \<longrightarrow>
            loadingNew (finish_older b s))"
proof -
  have "refreshPending s \<and> \<not> loadingNew s \<and> \<not> loadingOlder s \<longrightarrow>
      destroyed s \<or> doc_hidden s \<or> failed s"
    using dm.reachable_inv [OF assms]
    by (auto simp: dm_inv_def running_def paging_def quiet_def excused_def)
  then show ?thesis
    by (simp add: queueRefresh_def finish_older_def refreshNew_def loop_head_def Let_def)
qed

theorem no_lost_wakeup_witness:
  "\<exists>s. dm_reachable [] [js ''m1''] False s \<and> \<not> destroyed s \<and> \<not> doc_hidden s \<and>
     loadingNew (queueRefresh True s)"
  using no_lost_wakeup [OF dm_zero_start [of False], of True] dm_zero_start [of False]
  by (intro exI [of _ dm_zero]) (simp add: dm_zero_def)

text \<open>
  The page's scroll anchoring, which \<open>loadOlder\<close> switches off, is back at its original value
  whenever no older page is loading, whatever failed meanwhile.
\<close>

theorem overflow_anchor_restored:
  assumes "dm_reachable orig msgs mj s" and "\<not> loadingOlder s"
  shows "overflowAnchor s = orig"
  using dm.reachable_inv [OF assms(1)] assms(2)
  by (auto simp: dm_inv_def running_def paging_def quiet_def)

theorem overflow_anchor_restored_witness:
  "\<exists>s. dm_reachable [] [js ''m1''] False s \<and> \<not> loadingOlder s \<and> overflowAnchor s = []"
  using overflow_anchor_restored [OF dm_overlap_reachable [of False]] dm_overlap_reachable [of False]
  by (intro exI [of _ "loadOlder True 7 (queueRefresh True dm_zero)"]) (simp add: dm_run_simps)

text \<open>The state after a page: the messages that were new are at the end, and the loop is at its next
  tick when there is more, and has settled otherwise.\<close>

definition ready :: "dm \<Rightarrow> bool" where
  "ready s \<longleftrightarrow> (\<exists>b. live s = LTick b) \<and> loadingNew s \<and> \<not> refreshPending s \<and> \<not> destroyed s \<and>
     \<not> doc_hidden s \<and> \<not> has_woken s"

lemma has_woken_fields [simp]:
  "has_woken (s\<lparr>refreshPending := b\<rparr>) = has_woken s" "has_woken (s\<lparr>receivedNew := b\<rparr>) = has_woken s"
  "has_woken (s\<lparr>live := pc\<rparr>) = has_woken s" "has_woken (s\<lparr>scrolls := n\<rparr>) = has_woken s"
  "has_woken (s\<lparr>history := h\<rparr>) = has_woken s"
  by (simp_all add: has_woken_def)

lemmas serve_simps = serve_page_def beforeOlderMerge_def merge_history_def after_ajax_def
  after_typeset_def after_append_def after_frame_def loop_head_def settle_def Let_def

lemma serve_page_effect:
  assumes "ready s"
  shows "history (serve_page mj bt tp sc content hasMore b' s) =
      history s @ filter (\<lambda>m. m \<notin> set (history s)) content"
    and "hasMore \<Longrightarrow> ready (serve_page mj bt tp sc content hasMore b' s)"
    and "\<not> hasMore \<Longrightarrow> live (serve_page mj bt tp sc content hasMore b' s) = LIdle \<and>
      \<not> loadingNew (serve_page mj bt tp sc content hasMore b' s) \<and>
      \<not> refreshPending (serve_page mj bt tp sc content hasMore b' s)"
proof -
  obtain b where b: "live s = LTick b" and s: "loadingNew s" "\<not> refreshPending s" "\<not> destroyed s"
    "\<not> doc_hidden s" "\<not> has_woken s"
    using assms by (auto simp: ready_def)
  let ?f = "filter (\<lambda>m. m \<notin> set (history s)) content"
  show "history (serve_page mj bt tp sc content hasMore b' s) = history s @ ?f"
    using s by (cases mj; cases b; cases "?f = []"; cases hasMore) (simp_all add: b serve_simps)
  show "ready (serve_page mj bt tp sc content hasMore b' s)" if hasMore
    using s that by (cases mj; cases b; cases "?f = []") (simp_all add: b serve_simps ready_def)
  show "live (serve_page mj bt tp sc content hasMore b' s) = LIdle \<and>
      \<not> loadingNew (serve_page mj bt tp sc content hasMore b' s) \<and>
      \<not> refreshPending (serve_page mj bt tp sc content hasMore b' s)" if "\<not> hasMore"
    using s that by (cases mj; cases b; cases "?f = []") (simp_all add: b serve_simps)
qed

lemma serve_page_steps:
  assumes "ready s" "distinct content"
  shows "(dm_step mj)\<^sup>*\<^sup>* s (serve_page mj bt tp sc content hasMore b' s)"
proof -
  obtain b where b: "live s = LTick b" and s: "\<not> has_woken s" "loadingNew s"
    using assms(1) by (auto simp: ready_def)
  let ?a = "s\<lparr>live := LAjax b\<rparr>"
  obtain fresh s1 where m: "beforeOlderMerge bt tp sc content ?a = (fresh, s1)" by fastforce
  let ?m = "merge_history fresh s1"
  let ?r = "after_ajax mj True b (Some hasMore) b' ?m"
  have live_m: "live ?m = LAjax b" and woken_m: "\<not> has_woken ?m"
    using m s by (auto simp: beforeOlderMerge_def merge_history_def Let_def)
  define t where "t = (case live ?r of LTypeset c \<Rightarrow> after_typeset c (Some hasMore) b' ?r | _ \<Rightarrow> ?r)"
  define u where "u = (case live t of LFrame \<Rightarrow> after_frame (Some hasMore) b' t | _ \<Rightarrow> t)"
  have woken_r: "\<not> has_woken ?r" if "\<exists>c. live ?r = LTypeset c \<or> live ?r = LFrame"
    using that woken_m
    by (auto simp: after_ajax_def after_typeset_def after_append_def loop_head_def settle_def split: if_splits)
  have woken_t: "\<not> has_woken t" if "live t = LFrame"
    using that woken_r
    by (auto simp: t_def after_typeset_def after_append_def loop_head_def settle_def
        split: if_splits live_pc.splits)
  have "dm_step mj s ?a" using s(1) b by (rule dm_step.tick)
  moreover have "dm_step mj ?a ?m" by (rule dm_step.merge [OF _ _ assms(2) m]) (use s in simp_all)
  moreover have "dm_step mj ?m ?r" using woken_m live_m by (rule dm_step.ajax_ok)
  moreover have "(dm_step mj)\<^sup>*\<^sup>* ?r t"
    using woken_r by (auto simp: t_def split: live_pc.split intro: dm_step.typeset_ok)
  moreover have "(dm_step mj)\<^sup>*\<^sup>* t u"
    using woken_t by (auto simp: u_def split: live_pc.split intro: dm_step.frame)
  moreover have "serve_page mj bt tp sc content hasMore b' s = u"
    unfolding serve_page_def Let_def u_def t_def using b m by simp
  ultimately show ?thesis by (metis converse_rtranclp_into_rtranclp rtranclp_trans)
qed

lemma serve_all_pages:
  assumes "ready s" "pages \<noteq> []" "list_all (\<lambda>p. distinct (fst p)) pages"
  shows "\<exists>t. serve_pages mj bt tp sc pages s = ([], t) \<and>
     history t = foldl (\<lambda>h p. h @ filter (\<lambda>m. m \<notin> set h) (fst p)) (history s) pages \<and>
     \<not> loadingNew t \<and> \<not> refreshPending t \<and> live t = LIdle \<and> (dm_step mj)\<^sup>*\<^sup>* s t"
  using assms
proof (induction pages arbitrary: s)
  case (Cons p rest)
  obtain content b' where p: "p = (content, b')" by fastforce
  obtain b where b: "live s = LTick b" using Cons.prems(1) by (auto simp: ready_def)
  let ?t = "serve_page mj bt tp sc content (rest \<noteq> []) b' s"
  note eff = serve_page_effect [OF Cons.prems(1), where mj = mj and bt = bt and tp = tp and
      sc = sc and content = content and hasMore = "rest \<noteq> []" and b' = b']
  have st: "(dm_step mj)\<^sup>*\<^sup>* s ?t" using Cons.prems by (intro serve_page_steps) (auto simp: p)
  show ?case
  proof (cases "rest = []")
    case True
    then show ?thesis using eff(1,3) st b by (simp add: p)
  next
    case False
    from eff(2) [OF False] obtain u where
      "serve_pages mj bt tp sc rest ?t = ([], u)"
      "history u = foldl (\<lambda>h p. h @ filter (\<lambda>m. m \<notin> set h) (fst p)) (history ?t) rest"
      "\<not> loadingNew u" "\<not> refreshPending u" "live u = LIdle" "(dm_step mj)\<^sup>*\<^sup>* ?t u"
      using Cons.IH [of ?t] Cons.prems(3) False by auto
    then show ?thesis using eff(1) st b by (auto simp: p intro: rtranclp_trans)
  qed
qed simp

text \<open>
  C4: one wakeup drains a backlog. From a state in which neither activity runs, on a visible page, a
  wakeup makes the code request every page of the backlog, whatever the number of pages, the messages
  in them and the moments at which the reader is at the bottom, with MathJax or without it: no page
  is left unasked for. The new messages of all pages are at the end of the list, in order and without
  duplicates, no refresh runs or is pending at the end, and all of this is a run of the component.
\<close>

theorem wakeup_drains_backlog:
  assumes "\<not> loadingNew s" "\<not> loadingOlder s" "\<not> destroyed s" "\<not> doc_hidden s" "\<not> has_woken s"
    and "pages \<noteq> []" "list_all (\<lambda>p. distinct (fst p)) pages"
  shows "\<exists>t. serve_pages mj bt tp sc pages (queueRefresh b s) = ([], t) \<and>
     history t = foldl (\<lambda>h p. h @ filter (\<lambda>m. m \<notin> set h) (fst p)) (history s) pages \<and>
     \<not> loadingNew t \<and> \<not> refreshPending t \<and> live t = LIdle \<and> (dm_step mj)\<^sup>*\<^sup>* s t"
proof -
  have "ready (queueRefresh b s)" and h: "history (queueRefresh b s) = history s"
    using assms(1-5)
    by (auto simp: ready_def queueRefresh_def refreshNew_def loop_head_def Let_def has_woken_def)
  moreover have "dm_step mj s (queueRefresh b s)" using assms(5) by (rule dm_step.changed)
  ultimately show ?thesis
    using serve_all_pages [OF _ assms(6,7), of "queueRefresh b s" mj bt tp sc]
    by (auto intro: converse_rtranclp_into_rtranclp)
qed

theorem wakeup_drains_backlog_witness:
  "\<exists>t. serve_pages True (\<lambda>_. 0) (\<lambda>_. 0) 0
       [([js ''m1'', js ''m2''], True), ([js ''m2'', js ''m3''], False), ([js ''m4''], True)]
       (queueRefresh True dm_zero) = ([], t) \<and>
     history t = [js ''m1'', js ''m2'', js ''m3'', js ''m4''] \<and> \<not> loadingNew t \<and> \<not> refreshPending t"
proof -
  have "js ''m1'' \<noteq> js ''m2''" "js ''m1'' \<noteq> js ''m3''" "js ''m1'' \<noteq> js ''m4''"
    "js ''m2'' \<noteq> js ''m3''" "js ''m2'' \<noteq> js ''m4''" "js ''m3'' \<noteq> js ''m4''"
    by code_simp+
  then show ?thesis
    using wakeup_drains_backlog [of dm_zero
        "[([js ''m1'', js ''m2''], True), ([js ''m2'', js ''m3''], False), ([js ''m4''], True)]"
        True "\<lambda>_. 0" "\<lambda>_. 0" 0 True]
    by (auto simp: dm_zero_def has_woken_def)
qed

text \<open>
  Loading older messages does not move what the reader sees. The anchor is the first message
  that reaches into the view; after the older messages were put above it, the correction
  that \<open>loadOlder\<close> applies brings its top back to where it was on screen (the scroll position being
  the same at both moments, as it is with the browser's own anchoring switched off).
\<close>

theorem anchor_keeps_position:
  assumes "\<not> loadingNew s" and "beforeOlderMerge bottom_of top_of scroll content s = (fresh, s')"
    and "anchor_shift new_top_of scroll s' = Some delta"
  shows "\<exists>a before after. anchor s' = Some a \<and> history s = before @ a # after \<and>
     0 < bottom_of a \<and> list_all (\<lambda>m. bottom_of m \<le> 0) before \<and> new_top_of a - delta = top_of a"
proof -
  have s': "anchor s' = List.find (\<lambda>m. bottom_of m > 0) (history s)"
    "anchorDocumentTop s' = (case anchor s' of None \<Rightarrow> 0 | Some m \<Rightarrow> scroll + top_of m)"
    using assms(1,2) by (auto simp: beforeOlderMerge_def Let_def)
  obtain a where a: "anchor s' = Some a"
    using assms(3) by (cases "anchor s'") (simp_all add: anchor_shift_def)
  have "\<exists>before after. history s = before @ a # after \<and> 0 < bottom_of a \<and>
      list_all (\<lambda>m. bottom_of m \<le> 0) before"
    using find_Some_split [of "\<lambda>m. bottom_of m > 0" "history s" a] s'(1) a by (simp add: not_less)
  moreover have "new_top_of a - delta = top_of a"
    using assms(3) a s'(2) by (auto simp: anchor_shift_def)
  ultimately show ?thesis using a by blast
qed

theorem anchor_keeps_position_witness:
  "\<exists>s'. beforeOlderMerge (\<lambda>_. 5) (\<lambda>_. 2) 40 [js ''m0''] dm_zero = ([js ''m0''], s') \<and>
     anchor_shift (\<lambda>_. 32) 40 s' = Some 30 \<and> (32::rat) - 30 = 2"
proof -
  let ?s = "dm_zero\<lparr>anchor := Some (js ''m1''), anchorDocumentTop := 42\<rparr>"
  have m: "beforeOlderMerge (\<lambda>_. 5) (\<lambda>_. 2) 40 [js ''m0''] dm_zero = ([js ''m0''], ?s)"
    by (simp add: beforeOlderMerge_def dm_zero_def)
  have sh: "anchor_shift (\<lambda>_. 32) 40 ?s = Some 30"
    by (simp add: anchor_shift_def dm_zero_def)
  have "\<not> loadingNew dm_zero" by (simp add: dm_zero_def)
  from anchor_keeps_position [OF this m sh] m sh show ?thesis by auto
qed

end
