(* ===== verification/Events.thy ===== *)
theory Events
  imports Complex_Main Prelude
begin

text \<open>
  User-interface events as the handlers of assets/app.js read them, and the effects a handler has
  outside the document: navigation, new tabs, history, synthetic clicks and form submissions.
  An event is delivered to an element, its \<open>target\<close>; elements are numbered.
\<close>

type_synonym node = nat

record ui_event =
  key :: jstr
  keyCode :: nat
  repeat :: bool
  isComposing :: bool
  button :: int
  ctrlKey :: bool
  metaKey :: bool
  shiftKey :: bool
  altKey :: bool
  defaultPrevented :: bool
  target :: node
  currentTarget :: node
  clientX :: int
  clientY :: int

definition plain_event :: ui_event where
  "plain_event = \<lparr>key = [], keyCode = 0, repeat = False, isComposing = False, button = 0,
     ctrlKey = False, metaKey = False, shiftKey = False, altKey = False,
     defaultPrevented = False, target = 0, currentTarget = 0, clientX = 0, clientY = 0\<rparr>"

text \<open>A mouse button pressed with no modifier key: the ordinary activation of a link.\<close>

definition unmodified :: "ui_event \<Rightarrow> bool" where
  "unmodified e \<longleftrightarrow> \<not> ctrlKey e \<and> \<not> metaKey e \<and> \<not> shiftKey e \<and> \<not> altKey e"

datatype effect =
    PreventDefault
  | StopPropagation
  | OpenTab jstr
  | Navigate jstr
  | HistoryBack
  | Click node
  | RequestSubmit node
  | InputEvent node
  | ScrollTo rat
  | ScrollIntoView node
  | RunScript jstr
  | PlayVideo node
  | PauseVideo node
  | InitTree node
  | HighlightAll

end
