(* ===== verification/TextField.thy ===== *)
theory TextField
  imports Prelude
begin

text \<open>
  Text fields (\<open>textarea\<close>, text \<open>input\<close>) as the browser offers them to a script: the value and
  the selection, with the setters the program uses. \<open>caret_insertion\<close> is the contract of an edit
  that replaces one range of the text and leaves the caret behind the inserted text: the media
  syntax, the external link, the mention and the emoji are all inserted by edits of this kind, in the
  theories that model them.
\<close>

record textarea =
  tvalue :: jstr
  selectionStart :: nat
  selectionEnd :: nat

definition wf_field :: "textarea \<Rightarrow> bool" where
  "wf_field t \<longleftrightarrow> selectionStart t \<le> selectionEnd t \<and> selectionEnd t \<le> length (tvalue t)"

text \<open>\<open>field.value = s\<close>: a new text moves the caret to its end, the same text leaves it.\<close>

definition set_value :: "jstr \<Rightarrow> textarea \<Rightarrow> textarea" where
  "set_value s t =
     (if s = tvalue t then t
      else t\<lparr>tvalue := s, selectionStart := length s, selectionEnd := length s\<rparr>)"

text \<open>\<open>field.setSelectionRange(a, b)\<close>: both ends are clamped to the text.\<close>

definition setSelectionRange :: "nat \<Rightarrow> nat \<Rightarrow> textarea \<Rightarrow> textarea" where
  "setSelectionRange a b t =
     (let e = min b (length (tvalue t)) in t\<lparr>selectionStart := min a e, selectionEnd := e\<rparr>)"

text \<open>\<open>field.setRangeText(r, a, b, "end")\<close>, for \<open>a \<le> b\<close> (it raises otherwise).\<close>

definition setRangeText_end :: "jstr \<Rightarrow> nat \<Rightarrow> nat \<Rightarrow> textarea \<Rightarrow> textarea" where
  "setRangeText_end r a b t =
     (let a' = min a (length (tvalue t)); b' = min b (length (tvalue t))
      in t\<lparr>tvalue := take a' (tvalue t) @ r @ drop b' (tvalue t),
           selectionStart := a' + length r, selectionEnd := a' + length r\<rparr>)"

lemma value_set_value [simp]: "tvalue (set_value s t) = s"
  by (simp add: set_value_def)

lemma setSelectionRange_simps [simp]:
  "tvalue (setSelectionRange a b t) = tvalue t"
  "a \<le> b \<Longrightarrow> b \<le> length (tvalue t) \<Longrightarrow> selectionStart (setSelectionRange a b t) = a"
  "a \<le> b \<Longrightarrow> b \<le> length (tvalue t) \<Longrightarrow> selectionEnd (setSelectionRange a b t) = b"
  by (simp_all add: setSelectionRange_def Let_def)

lemma wf_setSelectionRange [intro]: "wf_field (setSelectionRange a b t)"
  by (auto simp: wf_field_def setSelectionRange_def Let_def)

section \<open>The contract of an insertion\<close>

locale caret_insertion =
  fixes edit :: "textarea \<Rightarrow> textarea"
    and from_pos :: "textarea \<Rightarrow> nat"
    and to_pos :: "textarea \<Rightarrow> nat"
    and ins :: "textarea \<Rightarrow> jstr"
    and pre :: "textarea \<Rightarrow> bool"
  assumes range: "pre t \<Longrightarrow> from_pos t \<le> to_pos t \<and> to_pos t \<le> length (tvalue t)"
    and edit_value:
      "pre t \<Longrightarrow> tvalue (edit t) = take (from_pos t) (tvalue t) @ ins t @ drop (to_pos t) (tvalue t)"
    and edit_caret:
      "pre t \<Longrightarrow> selectionStart (edit t) = from_pos t + length (ins t) \<and>
                 selectionEnd (edit t) = from_pos t + length (ins t)"
begin

lemma edit_wf: "pre t \<Longrightarrow> wf_field (edit t)"
  using range [of t] edit_value [of t] edit_caret [of t] by (auto simp: wf_field_def)

lemma before_caret:
  "pre t \<Longrightarrow> take (selectionStart (edit t)) (tvalue (edit t)) = take (from_pos t) (tvalue t) @ ins t"
  using range [of t] edit_value [of t] edit_caret [of t] by simp

lemma after_caret:
  "pre t \<Longrightarrow> drop (selectionStart (edit t)) (tvalue (edit t)) = drop (to_pos t) (tvalue t)"
  using range [of t] edit_value [of t] edit_caret [of t] by simp

lemma edit_length:
  "pre t \<Longrightarrow> length (tvalue (edit t)) + (to_pos t - from_pos t) = length (tvalue t) + length (ins t)"
  using range [of t] edit_value [of t] by auto

text \<open>Nothing outside the range is lost: putting the replaced text back restores the field.\<close>

lemma edit_restores:
  assumes "pre t"
  shows "take (from_pos t) (tvalue (edit t)) @ take (to_pos t - from_pos t) (drop (from_pos t) (tvalue t))
       @ drop (selectionStart (edit t)) (tvalue (edit t)) = tvalue t"
proof -
  have le: "from_pos t \<le> to_pos t" "to_pos t \<le> length (tvalue t)"
    using range [OF assms] by simp_all
  have "take (from_pos t) (tvalue (edit t)) = take (from_pos t) (tvalue t)"
    using le edit_value [OF assms] by simp
  moreover have "drop (selectionStart (edit t)) (tvalue (edit t)) = drop (to_pos t) (tvalue t)"
    by (rule after_caret [OF assms])
  moreover have "take (from_pos t) (tvalue t) @ take (to_pos t - from_pos t) (drop (from_pos t) (tvalue t))
      @ drop (to_pos t) (tvalue t) = tvalue t"
    using le by (metis append_take_drop_id drop_drop le_add_diff_inverse2)
  ultimately show ?thesis by simp
qed

end

text \<open>The two ways the program writes such an edit.\<close>

definition splice :: "nat \<Rightarrow> nat \<Rightarrow> jstr \<Rightarrow> textarea \<Rightarrow> textarea" where
  "splice a b r t =
     setSelectionRange (a + length r) (a + length r)
       (set_value (take a (tvalue t) @ r @ drop b (tvalue t)) t)"

lemma splice_simps:
  assumes "a \<le> b" "b \<le> length (tvalue t)"
  shows "tvalue (splice a b r t) = take a (tvalue t) @ r @ drop b (tvalue t)"
    and "selectionStart (splice a b r t) = a + length r"
    and "selectionEnd (splice a b r t) = a + length r"
  using assms by (simp_all add: splice_def)

lemma setRangeText_end_simps:
  assumes "a \<le> b" "b \<le> length (tvalue t)"
  shows "tvalue (setRangeText_end r a b t) = take a (tvalue t) @ r @ drop b (tvalue t)"
    and "selectionStart (setRangeText_end r a b t) = a + length r"
    and "selectionEnd (setRangeText_end r a b t) = a + length r"
  using assms by (simp_all add: setRangeText_end_def Let_def)

end
