(* ===== verification/Dom.thy ===== *)
theory Dom
  imports Complex_Main Events TextField
begin

text \<open>
  The part of the Document Object Model that assets/app.js uses. The document is a tree of node
  numbers, beside it the trees of the nodes that are not (or no longer) connected; the data of a node
  (tag, classes, attributes, inline style, text, field contents) is a store indexed by node. Selectors
  are a datatype with a matching function, so that \<open>matches\<close>, \<open>closest\<close>, \<open>querySelector\<close>
  and \<open>querySelectorAll\<close> are the functions the scripts call, in document order. Text nodes have the
  tag \<open>#text\<close> and match no selector. The layout (bounding rectangles, scroll positions) and
  which elements may take the focus are given by the browser: fields of the document that no operation
  here changes.
\<close>

section \<open>Nodes and their data\<close>

datatype tree = Node node "tree list"

record edata =
  tagName :: string
  classList :: "string list"
  attr :: "string \<rightharpoonup> jstr"
  style :: "string \<rightharpoonup> jstr"
  textContent :: jstr
  field :: textarea
  checked :: bool
  isContentEditable :: bool

definition empty_field :: textarea where
  "empty_field = \<lparr>tvalue = [], selectionStart = 0, selectionEnd = 0\<rparr>"

definition new_element :: "string \<Rightarrow> edata" where
  "new_element tg = \<lparr>tagName = tg, classList = [], attr = Map.empty, style = Map.empty,
     textContent = [], field = empty_field, checked = False, isContentEditable = False\<rparr>"

record rect =
  top :: rat
  bottom :: rat
  left :: rat
  width :: rat

record dom =
  doc :: tree
  loose :: "tree list"
  body :: node
  dat :: "node \<Rightarrow> edata"
  activeElement :: "node option"
  shadowActive :: "(node \<times> node) list"
  previouslyFocused :: "node \<rightharpoonup> node"
  focusable :: "node \<Rightarrow> bool"
  rects :: "node \<Rightarrow> rect"
  scrollTop :: rat
  innerHeight :: rat
  innerWidth :: rat
  nextNode :: node

section \<open>Tree traversal\<close>

primrec preorder :: "tree \<Rightarrow> node list" where
  "preorder (Node n ts) = n # concat (map preorder ts)"

fun find_tree :: "node \<Rightarrow> tree \<Rightarrow> tree option"
  and find_forest :: "node \<Rightarrow> tree list \<Rightarrow> tree option" where
  "find_tree x (Node n ts) = (if n = x then Some (Node n ts) else find_forest x ts)"
| "find_forest x [] = None"
| "find_forest x (t # ts) = (case find_tree x t of Some u \<Rightarrow> Some u | None \<Rightarrow> find_forest x ts)"

text \<open>The node and its ancestors, from the node to the root of its tree; empty when it is absent.\<close>

fun path_tree :: "node \<Rightarrow> tree \<Rightarrow> node list"
  and path_forest :: "node \<Rightarrow> tree list \<Rightarrow> node list" where
  "path_tree x (Node n ts) =
     (if n = x then [n]
      else if path_forest x ts = [] then [] else path_forest x ts @ [n])"
| "path_forest x [] = []"
| "path_forest x (t # ts) = (if path_tree x t = [] then path_forest x ts else path_tree x t)"

definition forest :: "dom \<Rightarrow> tree list" where
  "forest d = doc d # loose d"

definition path :: "dom \<Rightarrow> node \<Rightarrow> node list" where
  "path d x = path_forest x (forest d)"

definition isConnected :: "dom \<Rightarrow> node \<Rightarrow> bool" where
  "isConnected d x \<longleftrightarrow> x \<in> set (preorder (doc d))"

definition child_trees :: "dom \<Rightarrow> node \<Rightarrow> tree list" where
  "child_trees d x = (case find_forest x (forest d) of None \<Rightarrow> [] | Some (Node _ ts) \<Rightarrow> ts)"

fun root_of :: "tree \<Rightarrow> node" where
  "root_of (Node n ts) = n"

definition childNodes :: "dom \<Rightarrow> node \<Rightarrow> node list" where
  "childNodes d x = map root_of (child_trees d x)"

definition descendants :: "dom \<Rightarrow> node \<Rightarrow> node list" where
  "descendants d x = concat (map preorder (child_trees d x))"

text \<open>\<open>a.contains(b)\<close>.\<close>

definition contains :: "dom \<Rightarrow> node \<Rightarrow> node \<Rightarrow> bool" where
  "contains d a b \<longleftrightarrow> a = b \<or> b \<in> set (descendants d a)"

definition is_element :: "dom \<Rightarrow> node \<Rightarrow> bool" where
  "is_element d x \<longleftrightarrow> tagName (dat d x) \<noteq> ''#text''"

definition children :: "dom \<Rightarrow> node \<Rightarrow> node list" where
  "children d x = filter (is_element d) (childNodes d x)"

definition preceding_siblings :: "dom \<Rightarrow> node \<Rightarrow> node list" where
  "preceding_siblings d x =
     (case path d x of _ # p # _ \<Rightarrow> takeWhile (\<lambda>y. y \<noteq> x) (children d p) | _ \<Rightarrow> [])"

section \<open>Selectors\<close>

datatype sel =
    Tag string
  | Cls string
  | Id jstr
  | HasAttr string
  | AttrEq string jstr
  | IsChecked
  | IsScope
  | SNot sel
  | SHas sel
  | SAnd sel sel
  | SOr sel sel
  | Desc sel sel
  | Child sel sel
  | Sibling sel sel

primrec sel_matches :: "dom \<Rightarrow> node \<Rightarrow> sel \<Rightarrow> node \<Rightarrow> bool" where
  "sel_matches d sc (Tag t) = (\<lambda>x. tagName (dat d x) = t)"
| "sel_matches d sc (Cls c) = (\<lambda>x. c \<in> set (classList (dat d x)))"
| "sel_matches d sc (Id i) = (\<lambda>x. attr (dat d x) ''id'' = Some i)"
| "sel_matches d sc (HasAttr a) = (\<lambda>x. attr (dat d x) a \<noteq> None)"
| "sel_matches d sc (AttrEq a v) = (\<lambda>x. attr (dat d x) a = Some v)"
| "sel_matches d sc IsChecked = (\<lambda>x. checked (dat d x))"
| "sel_matches d sc IsScope = (\<lambda>x. x = sc)"
| "sel_matches d sc (SNot s) = (\<lambda>x. \<not> sel_matches d sc s x)"
| "sel_matches d sc (SHas s) =
     (\<lambda>x. list_ex (\<lambda>y. is_element d y \<and> sel_matches d sc s y) (descendants d x))"
| "sel_matches d sc (SAnd s t) = (\<lambda>x. sel_matches d sc s x \<and> sel_matches d sc t x)"
| "sel_matches d sc (SOr s t) = (\<lambda>x. sel_matches d sc s x \<or> sel_matches d sc t x)"
| "sel_matches d sc (Desc s t) =
     (\<lambda>x. sel_matches d sc t x \<and> list_ex (sel_matches d sc s) (tl (path d x)))"
| "sel_matches d sc (Child s t) =
     (\<lambda>x. sel_matches d sc t x \<and>
        (case tl (path d x) of [] \<Rightarrow> False | p # _ \<Rightarrow> sel_matches d sc s p))"
| "sel_matches d sc (Sibling s t) =
     (\<lambda>x. sel_matches d sc t x \<and> list_ex (sel_matches d sc s) (preceding_siblings d x))"

definition matches :: "dom \<Rightarrow> sel \<Rightarrow> node \<Rightarrow> bool" where
  "matches d s x \<longleftrightarrow> is_element d x \<and> sel_matches d x s x"

definition closest :: "dom \<Rightarrow> sel \<Rightarrow> node \<Rightarrow> node option" where
  "closest d s x = List.find (\<lambda>y. is_element d y \<and> sel_matches d x s y) (path d x)"

definition querySelectorAll :: "dom \<Rightarrow> node \<Rightarrow> sel \<Rightarrow> node list" where
  "querySelectorAll d x s = filter (\<lambda>y. is_element d y \<and> sel_matches d x s y) (descendants d x)"

definition querySelector :: "dom \<Rightarrow> node \<Rightarrow> sel \<Rightarrow> node option" where
  "querySelector d x s = List.find (\<lambda>y. is_element d y \<and> sel_matches d x s y) (descendants d x)"

definition doc_querySelectorAll :: "dom \<Rightarrow> sel \<Rightarrow> node list" where
  "doc_querySelectorAll d s =
     filter (\<lambda>y. is_element d y \<and> sel_matches d (root_of (doc d)) s y) (preorder (doc d))"

definition doc_querySelector :: "dom \<Rightarrow> sel \<Rightarrow> node option" where
  "doc_querySelector d s =
     List.find (\<lambda>y. is_element d y \<and> sel_matches d (root_of (doc d)) s y) (preorder (doc d))"

definition getElementById :: "dom \<Rightarrow> jstr \<Rightarrow> node option" where
  "getElementById d i =
     List.find (\<lambda>y. is_element d y \<and> attr (dat d y) ''id'' = Some i) (preorder (doc d))"

section \<open>Changing a node\<close>

definition upd :: "node \<Rightarrow> (edata \<Rightarrow> edata) \<Rightarrow> dom \<Rightarrow> dom" where
  "upd x f d = d\<lparr>dat := (dat d)(x := f (dat d x))\<rparr>"

definition has_class :: "dom \<Rightarrow> node \<Rightarrow> string \<Rightarrow> bool" where
  "has_class d x c \<longleftrightarrow> c \<in> set (classList (dat d x))"

definition add_class :: "node \<Rightarrow> string \<Rightarrow> dom \<Rightarrow> dom" where
  "add_class x c = upd x (\<lambda>e. e\<lparr>classList :=
     (if c \<in> set (classList e) then classList e else classList e @ [c])\<rparr>)"

definition remove_class :: "node \<Rightarrow> string \<Rightarrow> dom \<Rightarrow> dom" where
  "remove_class x c = upd x (\<lambda>e. e\<lparr>classList := filter (\<lambda>k. k \<noteq> c) (classList e)\<rparr>)"

definition toggle_class :: "node \<Rightarrow> string \<Rightarrow> dom \<Rightarrow> dom" where
  "toggle_class x c d = (if has_class d x c then remove_class x c d else add_class x c d)"

definition set_attr :: "node \<Rightarrow> string \<Rightarrow> jstr \<Rightarrow> dom \<Rightarrow> dom" where
  "set_attr x a v = upd x (\<lambda>e. e\<lparr>attr := (attr e)(a \<mapsto> v)\<rparr>)"

definition remove_attr :: "node \<Rightarrow> string \<Rightarrow> dom \<Rightarrow> dom" where
  "remove_attr x a = upd x (\<lambda>e. e\<lparr>attr := (attr e)(a := None)\<rparr>)"

definition set_style :: "node \<Rightarrow> string \<Rightarrow> jstr \<Rightarrow> dom \<Rightarrow> dom" where
  "set_style x a v = upd x (\<lambda>e. e\<lparr>style := (style e)(a \<mapsto> v)\<rparr>)"

text \<open>\<open>el.style.name = ""\<close> removes the property.\<close>

definition clear_style :: "node \<Rightarrow> string \<Rightarrow> dom \<Rightarrow> dom" where
  "clear_style x a = upd x (\<lambda>e. e\<lparr>style := (style e)(a := None)\<rparr>)"

definition set_text :: "node \<Rightarrow> jstr \<Rightarrow> dom \<Rightarrow> dom" where
  "set_text x s = upd x (\<lambda>e. e\<lparr>textContent := s\<rparr>)"

definition set_checked :: "node \<Rightarrow> bool \<Rightarrow> dom \<Rightarrow> dom" where
  "set_checked x b = upd x (\<lambda>e. e\<lparr>checked := b\<rparr>)"

definition upd_field :: "node \<Rightarrow> (textarea \<Rightarrow> textarea) \<Rightarrow> dom \<Rightarrow> dom" where
  "upd_field x f = upd x (\<lambda>e. e\<lparr>field := f (field e)\<rparr>)"

text \<open>\<open>el.focus()\<close>: only a connected element that the browser lets take the focus gets it.\<close>

definition focus :: "node \<Rightarrow> dom \<Rightarrow> dom" where
  "focus x d = (if isConnected d x \<and> focusable d x then d\<lparr>activeElement := Some x\<rparr> else d)"

text \<open>The attributes the scripts read as properties: \<open>dialog.open\<close>, \<open>el.hidden\<close>, \<open>el.dataset\<close>.\<close>

definition is_open :: "dom \<Rightarrow> node \<Rightarrow> bool" where
  "is_open d x \<longleftrightarrow> attr (dat d x) ''open'' \<noteq> None"

definition is_hidden :: "dom \<Rightarrow> node \<Rightarrow> bool" where
  "is_hidden d x \<longleftrightarrow> attr (dat d x) ''hidden'' \<noteq> None"

text \<open>
  \<open>el.remove()\<close> takes the subtree out of the document and keeps it as a loose tree (a focus in it
  falls back to the body);
  \<open>parent.append(el)\<close> and \<open>parent.prepend(el)\<close> move a loose tree under a node;
  \<open>document.createElement\<close> makes a fresh loose node.
\<close>

fun cut_tree :: "node \<Rightarrow> tree \<Rightarrow> tree"
  and cut_forest :: "node \<Rightarrow> tree list \<Rightarrow> tree list" where
  "cut_tree x (Node n ts) = Node n (cut_forest x ts)"
| "cut_forest x [] = []"
| "cut_forest x (t # ts) =
     (if root_of t = x then cut_forest x ts else cut_tree x t # cut_forest x ts)"

fun graft_tree :: "node \<Rightarrow> (tree list \<Rightarrow> tree list) \<Rightarrow> tree \<Rightarrow> tree" where
  "graft_tree p f (Node n ts) =
     (if n = p then Node n (f ts) else Node n (map (graft_tree p f) ts))"

definition remove_node :: "node \<Rightarrow> dom \<Rightarrow> dom" where
  "remove_node x d =
     (case find_forest x (child_trees d (root_of (doc d))) of
        None \<Rightarrow> d
      | Some t \<Rightarrow>
          d\<lparr>doc := cut_tree x (doc d), loose := t # loose d,
            activeElement := (case activeElement d of None \<Rightarrow> None
                              | Some a \<Rightarrow> if a \<in> set (preorder t) then Some (body d) else Some a)\<rparr>)"

definition createElement :: "string \<Rightarrow> dom \<Rightarrow> node \<times> dom" where
  "createElement tg d =
     (nextNode d,
      d\<lparr>loose := Node (nextNode d) [] # loose d, dat := (dat d)(nextNode d := new_element tg),
        nextNode := nextNode d + 1\<rparr>)"

definition attach :: "(tree \<Rightarrow> tree list \<Rightarrow> tree list) \<Rightarrow> node \<Rightarrow> node \<Rightarrow> dom \<Rightarrow> dom" where
  "attach f p x d =
     (case List.find (\<lambda>t. root_of t = x) (loose d) of
        None \<Rightarrow> d
      | Some t \<Rightarrow>
          d\<lparr>doc := graft_tree p (f t) (doc d), loose := filter (\<lambda>u. root_of u \<noteq> x) (loose d)\<rparr>)"

definition appendChild :: "node \<Rightarrow> node \<Rightarrow> dom \<Rightarrow> dom" where
  "appendChild = attach (\<lambda>t ts. ts @ [t])"

definition insert_after :: "node \<Rightarrow> tree \<Rightarrow> tree list \<Rightarrow> tree list" where
  "insert_after r t ts = concat (map (\<lambda>u. if root_of u = r then [u, t] else [u]) ts)"

text \<open>\<open>r.insertAdjacentElement("afterend", x)\<close>; it does nothing when \<open>r\<close> has no parent.\<close>

definition insertAfterEnd :: "node \<Rightarrow> node \<Rightarrow> dom \<Rightarrow> dom" where
  "insertAfterEnd r x d =
     (case path d r of _ # p # _ \<Rightarrow> attach (insert_after r) p x d | _ \<Rightarrow> d)"

text \<open>\<open>el.innerHTML = ""\<close>: the children leave the document.\<close>

definition clear_children :: "node \<Rightarrow> dom \<Rightarrow> dom" where
  "clear_children x d =
     d\<lparr>doc := graft_tree x (\<lambda>_. []) (doc d), loose := child_trees d x @ loose d\<rparr>"

text \<open>
  Markup assigned to \<open>innerHTML\<close>, once the browser has parsed it (tag, classes, other attributes,
  children), and the nodes it makes of it; \<open>fill_loose\<close> puts them under an element that is not yet in
  the document.
\<close>

datatype markup = Elem string "string list" "(string \<times> jstr) list" "markup list" | Chars jstr

fun build :: "markup \<Rightarrow> dom \<Rightarrow> tree \<times> dom"
  and build_list :: "markup list \<Rightarrow> dom \<Rightarrow> tree list \<times> dom" where
  "build (Chars t) d =
     (Node (nextNode d) [],
      d\<lparr>dat := (dat d)(nextNode d := (new_element ''#text'')\<lparr>textContent := t\<rparr>), nextNode := nextNode d + 1\<rparr>)"
| "build (Elem tg cs as ms) d =
     (let n = nextNode d;
          e = (new_element tg)\<lparr>classList := cs, attr := map_of as, checked := (map_of as ''checked'' \<noteq> None)\<rparr>;
          (ts, d1) = build_list ms (d\<lparr>dat := (dat d)(n := e), nextNode := n + 1\<rparr>)
      in (Node n ts, d1))"
| "build_list [] d = ([], d)"
| "build_list (m # ms) d =
     (let (t, d1) = build m d; (ts, d2) = build_list ms d1 in (t # ts, d2))"

definition fill_loose :: "markup list \<Rightarrow> node \<Rightarrow> dom \<Rightarrow> dom" where
  "fill_loose ms x d =
     (let (ts, d1) = build_list ms d
      in d1\<lparr>loose := map (\<lambda>t. if root_of t = x then Node x ts else t) (loose d1)\<rparr>)"

text \<open>
  A modal dialog. \<open>showModal()\<close> remembers the focused element, opens the dialog and moves the focus
  into it: to its first descendant with \<open>autofocus\<close>, else to the first that may take the focus, else to
  the dialog itself; when that may not take the focus either, the body has it. \<open>close()\<close> on an open
  dialog gives the focus back to the remembered element. (The \<open>close\<close> event comes later, as a
  task of its own.)
\<close>

definition dialog_control :: "dom \<Rightarrow> node \<Rightarrow> node" where
  "dialog_control d x =
     (case List.find (\<lambda>y. focusable d y \<and> attr (dat d y) ''autofocus'' \<noteq> None) (descendants d x) of
        Some y \<Rightarrow> y
      | None \<Rightarrow> (case List.find (focusable d) (descendants d x) of Some y \<Rightarrow> y | None \<Rightarrow> x))"

definition showModal :: "node \<Rightarrow> dom \<Rightarrow> dom" where
  "showModal x d =
     (let d1 = set_attr x ''open'' [] (d\<lparr>previouslyFocused := (previouslyFocused d)(x := activeElement d)\<rparr>);
          c = dialog_control d x
      in d1\<lparr>activeElement := Some (if focusable d c then c else body d)\<rparr>)"

definition close_dialog :: "node \<Rightarrow> dom \<Rightarrow> dom" where
  "close_dialog x d =
     (if \<not> is_open d x then d
      else (let d1 = remove_attr x ''open'' (d\<lparr>previouslyFocused := (previouslyFocused d)(x := None)\<rparr>)
            in case previouslyFocused d x of None \<Rightarrow> d1 | Some p \<Rightarrow> focus p d1))"

section \<open>The focused text input\<close>

text \<open>
  \<open>activeElementDeep\<close> follows the focus into shadow trees. \<open>shadowActive\<close> lists the hosts
  whose shadow tree has a focused element, with that element. Shadow trees are nested, so a host is
  met once: the loop may drop the entries it has used, which makes it terminate on any list.
\<close>

lemma filter_host_shorter:
  "map_of hosts el = Some inner \<Longrightarrow> length (filter (\<lambda>p. fst p \<noteq> el) hosts) < length hosts"
  by (force intro: length_filter_less dest: map_of_SomeD)

function deep_from :: "(node \<times> node) list \<Rightarrow> node \<Rightarrow> node" where
  "deep_from hosts el =
     (case map_of hosts el of
        None \<Rightarrow> el
      | Some inner \<Rightarrow> deep_from (filter (\<lambda>p. fst p \<noteq> el) hosts) inner)"
  by pat_completeness auto

termination
  by (relation "measure (\<lambda>(hosts, el). length hosts)") (auto intro: filter_host_shorter)

declare deep_from.simps [simp del]

definition activeElementDeep :: "dom \<Rightarrow> node option" where
  "activeElementDeep d = map_option (deep_from (shadowActive d)) (activeElement d)"

definition isTextInputFocused :: "dom \<Rightarrow> bool" where
  "isTextInputFocused d =
     (case activeElementDeep d of
        None \<Rightarrow> False
      | Some el \<Rightarrow>
          tagName (dat d el) = ''TEXTAREA'' \<or> tagName (dat d el) = ''SELECT'' \<or>
          tagName (dat d el) = ''INPUT'' \<and> attr (dat d el) ''type'' \<noteq> Some (js ''hidden'') \<or>
          isContentEditable (dat d el))"

section \<open>Laws\<close>

subsection \<open>The deep focus\<close>

text \<open>With hosts nested (each entry leads to a smaller rank), the result has no inner focus left.\<close>

lemma deep_from_end:
  assumes "\<And>h i. map_of hosts h = Some i \<Longrightarrow> rank i < (rank h :: nat)"
  shows "map_of hosts (deep_from hosts el) = None"
proof -
  have "(\<forall>h. rank h \<le> rank el \<longrightarrow> map_of hs h = map_of hosts h) \<Longrightarrow>
      map_of hosts (deep_from hs el) = None \<and> rank (deep_from hs el) \<le> rank el" for hs
  proof (induction hs el rule: deep_from.induct)
    case (1 hs el)
    show ?case
    proof (cases "map_of hs el")
      case None
      with 1 show ?thesis by (simp add: deep_from.simps [of hs el])
    next
      case (Some inner)
      then have r: "rank inner < rank el" using 1(2) assms by auto
      have "map_of (filter (\<lambda>p. fst p \<noteq> el) hs) h = map_of hosts h" if "rank h \<le> rank inner" for h
      proof -
        have "h \<noteq> el" using r that by auto
        then have "map_of (filter (\<lambda>p. fst p \<noteq> el) hs) h = map_of hs h"
          by (induction hs) auto
        then show ?thesis using 1(2) that r by auto
      qed
      with 1(1) [OF Some] r Some show ?thesis by (auto simp: deep_from.simps [of hs el])
    qed
  qed
  then show ?thesis by simp
qed

subsection \<open>Trees\<close>

lemma find_tree_set:
  "find_tree x t = Some u \<Longrightarrow> root_of u = x \<and> set (preorder u) \<subseteq> set (preorder t)"
  "find_forest x ts = Some u \<Longrightarrow>
     root_of u = x \<and> set (preorder u) \<subseteq> set (concat (map preorder ts))"
  by (induction x t and x ts rule: find_tree_find_forest.induct)
    (auto split: if_splits option.splits)

lemma find_tree_None:
  "find_tree x t = None \<longleftrightarrow> x \<notin> set (preorder t)"
  "find_forest x ts = None \<longleftrightarrow> x \<notin> set (concat (map preorder ts))"
  by (induction x t and x ts rule: find_tree_find_forest.induct) (auto split: option.splits)

lemma path_tree_Nil:
  "path_tree x t = [] \<longleftrightarrow> x \<notin> set (preorder t)"
  "path_forest x ts = [] \<longleftrightarrow> x \<notin> set (concat (map preorder ts))"
  by (induction x t and x ts rule: path_tree_path_forest.induct) auto

lemma path_tree_hd:
  "path_tree x t \<noteq> [] \<Longrightarrow> hd (path_tree x t) = x"
  "path_forest x ts \<noteq> [] \<Longrightarrow> hd (path_forest x ts) = x"
  by (induction x t and x ts rule: path_tree_path_forest.induct) auto

lemma path_tree_set:
  "set (path_tree x t) \<subseteq> set (preorder t)"
  "set (path_forest x ts) \<subseteq> set (concat (map preorder ts))"
  by (induction x t and x ts rule: path_tree_path_forest.induct) auto

lemma isConnected_path: "isConnected d x \<Longrightarrow> path d x \<noteq> [] \<and> hd (path d x) = x"
  using path_tree_Nil(2) [of x "forest d"] path_tree_hd(2) [of x "forest d"]
  by (auto simp: isConnected_def path_def forest_def)

lemma descendants_subset: "set (descendants d x) \<subseteq> set (concat (map preorder (forest d)))"
proof (cases "find_forest x (forest d)")
  case None
  then show ?thesis by (simp add: descendants_def child_trees_def)
next
  case (Some u)
  obtain n ts where u: "u = Node n ts" by (cases u) auto
  then have "set (concat (map preorder ts)) \<subseteq> set (preorder u)" by auto
  with Some u find_tree_set(2) [OF Some] show ?thesis
    by (simp add: descendants_def child_trees_def)
qed

subsection \<open>Inserting a tree\<close>

lemma graft_absent: "p \<notin> set (preorder t) \<Longrightarrow> graft_tree p f t = t"
proof (induction t)
  case (Node n ts)
  then have "map (graft_tree p f) ts = map (\<lambda>t. t) ts" by (intro map_cong) auto
  then show ?case using Node.prems by simp
qed

lemma find_forest_append:
  "find_forest x (ts @ us) = (case find_forest x ts of Some u \<Rightarrow> Some u | None \<Rightarrow> find_forest x us)"
  by (induction ts) (auto split: option.splits)

lemma find_graft:
  assumes "p \<in> set (preorder t)" "x \<notin> set (preorder t)" "root_of u = x"
  shows "find_tree x (graft_tree p (\<lambda>ts. ts @ [u]) t) = Some u"
  using assms(1,2)
proof (induction t)
  case (Node n ts)
  obtain us where u: "u = Node x us" using assms(3) by (cases u) auto
  show ?case
  proof (cases "n = p")
    case True
    have "find_forest x ts = None" using Node.prems by (auto simp: find_tree_None)
    with True Node.prems show ?thesis by (auto simp: find_forest_append u)
  next
    case False
    have "find_forest x (map (graft_tree p (\<lambda>ts. ts @ [u])) vs) = Some u"
      if "set vs \<subseteq> set ts" "p \<in> set (concat (map preorder vs))" for vs
      using that
    proof (induction vs)
      case (Cons v vs)
      show ?case
      proof (cases "p \<in> set (preorder v)")
        case True
        then show ?thesis using Node.IH [of v] Node.prems Cons.prems by auto
      next
        case pv: False
        have "find_tree x v = None" using Node.prems Cons.prems by (auto simp: find_tree_None)
        with pv Cons show ?thesis by (auto simp: graft_absent)
      qed
    qed simp
    with False Node.prems show ?thesis by auto
  qed
qed

lemma preorder_graft:
  "p \<in> set (preorder t) \<Longrightarrow> set (preorder u) \<subseteq> set (preorder (graft_tree p (\<lambda>ts. ts @ [u]) t))"
proof (induction t)
  case (Node n ts)
  then show ?case by fastforce
qed

lemma preorder_graft_keeps:
  "y \<in> set (preorder t) \<Longrightarrow> y \<in> set (preorder (graft_tree p (\<lambda>ts. ts @ [u]) t))"
proof (induction t)
  case (Node n ts)
  then show ?case by fastforce
qed

text \<open>A document whose node numbers are in order.\<close>

definition wf_dom :: "dom \<Rightarrow> bool" where
  "wf_dom d \<longleftrightarrow> body d \<in> set (preorder (doc d)) \<and>
     list_all (\<lambda>n. n < nextNode d) (concat (map preorder (forest d)))"

lemma root_in_preorder: "root_of t \<in> set (preorder t)"
  by (cases t) simp

lemma wf_dom_fresh:
  assumes "wf_dom d"
  shows "\<forall>t \<in> set (loose d). root_of t \<noteq> nextNode d" and "nextNode d \<notin> set (preorder (doc d))"
proof -
  have "n < nextNode d" if "t \<in> set (forest d)" "n \<in> set (preorder t)" for t n
    using assms that by (auto simp: wf_dom_def list_all_iff)
  with root_in_preorder show "\<forall>t \<in> set (loose d). root_of t \<noteq> nextNode d"
    and "nextNode d \<notin> set (preorder (doc d))"
    by (auto simp: forest_def) (metis less_irrefl)+
qed

lemma build_frame:
  "build m d = (t, d') \<Longrightarrow> nextNode d < nextNode d' \<and> doc d' = doc d \<and> loose d' = loose d \<and> body d' = body d \<and>
     activeElement d' = activeElement d \<and> focusable d' = focusable d \<and> root_of t = nextNode d \<and>
     (\<forall>y < nextNode d. dat d' y = dat d y)"
  "build_list ms d = (ts, d') \<Longrightarrow> nextNode d \<le> nextNode d' \<and> doc d' = doc d \<and> loose d' = loose d \<and>
     body d' = body d \<and> activeElement d' = activeElement d \<and> focusable d' = focusable d \<and>
     (\<forall>y < nextNode d. dat d' y = dat d y)"
proof (induction m d and ms d arbitrary: t d' and ts d' rule: build_build_list.induct)
  case (2 tg cs as ms d)
  let ?d = "d\<lparr>dat := (dat d)(nextNode d := (new_element tg)\<lparr>classList := cs, attr := map_of as,
      checked := (map_of as ''checked'' \<noteq> None)\<rparr>), nextNode := nextNode d + 1\<rparr>"
  obtain us where us: "build_list ms ?d = (us, d')" "t = Node (nextNode d) us"
    using 2(2) by (auto simp: Let_def split: prod.splits)
  from 2(1) [OF refl refl us(1)] us(2) show ?case by auto
next
  case (4 m ms d)
  obtain u e us where e: "build m d = (u, e)" "build_list ms e = (us, d')"
    using 4(3) by (auto simp: Let_def split: prod.splits)
  show ?case
    using 4(1) [OF e(1)] 4(2) [OF e(1) [symmetric] refl e(2)] by auto
qed (auto simp: Let_def)

subsection \<open>Queries\<close>

lemma closest_Some:
  "closest d s x = Some y \<Longrightarrow> y \<in> set (path d x) \<and> sel_matches d x s y"
  unfolding closest_def by (auto simp: find_Some_iff in_set_conv_nth)

lemma closest_None_iff:
  "closest d s x = None \<longleftrightarrow> (\<forall>y \<in> set (path d x). is_element d y \<longrightarrow> \<not> sel_matches d x s y)"
  by (auto simp: closest_def find_None_iff)

lemma querySelector_hd:
  "querySelector d x s = (case querySelectorAll d x s of [] \<Rightarrow> None | y # _ \<Rightarrow> Some y)"
proof -
  have "List.find P xs = (case filter P xs of [] \<Rightarrow> None | y # _ \<Rightarrow> Some y)" for P :: "node \<Rightarrow> bool" and xs
    by (induction xs) auto
  then show ?thesis by (simp add: querySelector_def querySelectorAll_def)
qed

lemma doc_querySelector_hd:
  "doc_querySelector d s = (case doc_querySelectorAll d s of [] \<Rightarrow> None | y # _ \<Rightarrow> Some y)"
proof -
  have "List.find P xs = (case filter P xs of [] \<Rightarrow> None | y # _ \<Rightarrow> Some y)" for P :: "node \<Rightarrow> bool" and xs
    by (induction xs) auto
  then show ?thesis by (simp add: doc_querySelector_def doc_querySelectorAll_def)
qed

lemma doc_querySelectorAll_connected:
  "x \<in> set (doc_querySelectorAll d s) \<Longrightarrow> isConnected d x"
  by (simp add: doc_querySelectorAll_def isConnected_def)

lemma doc_querySelector_Some:
  "doc_querySelector d s = Some x \<Longrightarrow>
     isConnected d x \<and> is_element d x \<and> sel_matches d (root_of (doc d)) s x"
  by (auto simp: doc_querySelector_def find_Some_iff isConnected_def)

lemma distinct_doc_querySelectorAll [simp]:
  "distinct (preorder (doc d)) \<Longrightarrow> distinct (doc_querySelectorAll d s)"
  by (simp add: doc_querySelectorAll_def)

subsection \<open>Frame: what changing a node leaves alone\<close>

lemma upd_frame [simp]:
  "doc (upd x f d) = doc d" "loose (upd x f d) = loose d" "body (upd x f d) = body d"
  "activeElement (upd x f d) = activeElement d" "shadowActive (upd x f d) = shadowActive d"
  "previouslyFocused (upd x f d) = previouslyFocused d"
  "focusable (upd x f d) = focusable d" "rects (upd x f d) = rects d"
  "scrollTop (upd x f d) = scrollTop d" "innerHeight (upd x f d) = innerHeight d"
  "innerWidth (upd x f d) = innerWidth d" "nextNode (upd x f d) = nextNode d"
  by (simp_all add: upd_def)

lemma dat_upd: "dat (upd x f d) y = (if y = x then f (dat d x) else dat d y)"
  by (simp add: upd_def)

lemma structure_upd [simp]:
  "forest (upd x f d) = forest d" "path (upd x f d) = path d"
  "isConnected (upd x f d) = isConnected d" "child_trees (upd x f d) = child_trees d"
  "childNodes (upd x f d) = childNodes d" "descendants (upd x f d) = descendants d"
  "contains (upd x f d) = contains d"
  by (auto simp: forest_def path_def isConnected_def child_trees_def childNodes_def descendants_def
      contains_def fun_eq_iff)

lemmas dom_ops = add_class_def remove_class_def set_attr_def remove_attr_def set_style_def
  clear_style_def set_text_def set_checked_def upd_field_def

lemma focus_frame [simp]:
  "doc (focus x d) = doc d" "dat (focus x d) = dat d" "loose (focus x d) = loose d"
  "body (focus x d) = body d" "focusable (focus x d) = focusable d" "rects (focus x d) = rects d"
  "innerHeight (focus x d) = innerHeight d" "scrollTop (focus x d) = scrollTop d"
  by (simp_all add: focus_def)

lemma structure_focus [simp]:
  "forest (focus x d) = forest d" "path (focus x d) = path d"
  "isConnected (focus x d) = isConnected d" "child_trees (focus x d) = child_trees d"
  "childNodes (focus x d) = childNodes d" "descendants (focus x d) = descendants d"
  by (auto simp: forest_def path_def isConnected_def child_trees_def childNodes_def descendants_def
      fun_eq_iff)

subsection \<open>Class tokens\<close>

text \<open>The contract of \<open>classList\<close> that the components rely on.\<close>

locale class_tokens =
  fixes has :: "'d \<Rightarrow> 'n \<Rightarrow> 'c \<Rightarrow> bool"
    and add :: "'n \<Rightarrow> 'c \<Rightarrow> 'd \<Rightarrow> 'd"
    and remove :: "'n \<Rightarrow> 'c \<Rightarrow> 'd \<Rightarrow> 'd"
  assumes has_add: "has (add x c d) y k \<longleftrightarrow> (y = x \<and> k = c) \<or> has d y k"
    and has_remove: "has (remove x c d) y k \<longleftrightarrow> \<not> (y = x \<and> k = c) \<and> has d y k"
begin

lemma add_remove_other:
  "(y, k) \<noteq> (x, c) \<Longrightarrow> has (add x c d) y k = has d y k \<and> has (remove x c d) y k = has d y k"
  by (auto simp: has_add has_remove)

lemma remove_add_absorb: "has (remove x c (add x c d)) y k = has (remove x c d) y k"
  by (auto simp: has_add has_remove)

text \<open>Moving a mark from one node to another keeps it unique.\<close>

lemma move_mark:
  assumes "\<And>y. has d y c \<Longrightarrow> y = a"
  shows "has (add b c (remove a c d)) y c \<longleftrightarrow> y = b"
  using assms by (auto simp: has_add has_remove)

text \<open>Removing a mark from every node of a list.\<close>

lemma has_fold_remove:
  "has (fold (\<lambda>x. remove x c) xs d) y k \<longleftrightarrow> \<not> (y \<in> set xs \<and> k = c) \<and> has d y k"
  by (induction xs arbitrary: d) (auto simp: has_remove)

end

interpretation classes: class_tokens has_class add_class remove_class
  by unfold_locales (auto simp: has_class_def add_class_def remove_class_def dat_upd)

lemmas class_simps = classes.has_add classes.has_remove

lemma add_class_eqD: "add_class x c d = e \<Longrightarrow> has_class e x c"
  by (auto simp: class_simps)

lemma has_class_toggle:
  "has_class (toggle_class x c d) y k \<longleftrightarrow>
     (if y = x \<and> k = c then \<not> has_class d x c else has_class d y k)"
  by (auto simp: toggle_class_def class_simps)

lemma has_class_other_ops [simp]:
  "has_class (set_attr x a v d) y c = has_class d y c"
  "has_class (remove_attr x a d) y c = has_class d y c"
  "has_class (set_style x a v d) y c = has_class d y c"
  "has_class (clear_style x a d) y c = has_class d y c"
  "has_class (set_text x s d) y c = has_class d y c"
  "has_class (set_checked x b d) y c = has_class d y c"
  "has_class (upd_field x f d) y c = has_class d y c"
  "has_class (focus x d) y c = has_class d y c"
  by (auto simp: has_class_def dom_ops dat_upd)

subsection \<open>What a selector looks at\<close>

primrec sel_classes :: "sel \<Rightarrow> string list" where
  "sel_classes (Tag t) = []"
| "sel_classes (Cls c) = [c]"
| "sel_classes (Id i) = []"
| "sel_classes (HasAttr a) = []"
| "sel_classes (AttrEq a v) = []"
| "sel_classes IsChecked = []"
| "sel_classes IsScope = []"
| "sel_classes (SNot s) = sel_classes s"
| "sel_classes (SHas s) = sel_classes s"
| "sel_classes (SAnd s t) = sel_classes s @ sel_classes t"
| "sel_classes (SOr s t) = sel_classes s @ sel_classes t"
| "sel_classes (Desc s t) = sel_classes s @ sel_classes t"
| "sel_classes (Child s t) = sel_classes s @ sel_classes t"
| "sel_classes (Sibling s t) = sel_classes s @ sel_classes t"

primrec sel_attrs :: "sel \<Rightarrow> string list" where
  "sel_attrs (Tag t) = []"
| "sel_attrs (Cls c) = []"
| "sel_attrs (Id i) = [''id'']"
| "sel_attrs (HasAttr a) = [a]"
| "sel_attrs (AttrEq a v) = [a]"
| "sel_attrs IsChecked = []"
| "sel_attrs IsScope = []"
| "sel_attrs (SNot s) = sel_attrs s"
| "sel_attrs (SHas s) = sel_attrs s"
| "sel_attrs (SAnd s t) = sel_attrs s @ sel_attrs t"
| "sel_attrs (SOr s t) = sel_attrs s @ sel_attrs t"
| "sel_attrs (Desc s t) = sel_attrs s @ sel_attrs t"
| "sel_attrs (Child s t) = sel_attrs s @ sel_attrs t"
| "sel_attrs (Sibling s t) = sel_attrs s @ sel_attrs t"

primrec sel_checked :: "sel \<Rightarrow> bool" where
  "sel_checked (Tag t) = False"
| "sel_checked (Cls c) = False"
| "sel_checked (Id i) = False"
| "sel_checked (HasAttr a) = False"
| "sel_checked (AttrEq a v) = False"
| "sel_checked IsChecked = True"
| "sel_checked IsScope = False"
| "sel_checked (SNot s) = sel_checked s"
| "sel_checked (SHas s) = sel_checked s"
| "sel_checked (SAnd s t) = (sel_checked s \<or> sel_checked t)"
| "sel_checked (SOr s t) = (sel_checked s \<or> sel_checked t)"
| "sel_checked (Desc s t) = (sel_checked s \<or> sel_checked t)"
| "sel_checked (Child s t) = (sel_checked s \<or> sel_checked t)"
| "sel_checked (Sibling s t) = (sel_checked s \<or> sel_checked t)"

text \<open>
  Two documents of the same structure that agree on the classes, the attributes and (when the selector
  asks) the checked state a selector looks at answer its queries alike.
\<close>

definition agree :: "string list \<Rightarrow> string list \<Rightarrow> bool \<Rightarrow> dom \<Rightarrow> dom \<Rightarrow> bool" where
  "agree cs as chk d e \<longleftrightarrow>
     doc d = doc e \<and> loose d = loose e \<and>
     (\<forall>x. tagName (dat d x) = tagName (dat e x) \<and>
          (\<forall>c \<in> set cs. has_class d x c = has_class e x c) \<and>
          (\<forall>a \<in> set as. attr (dat d x) a = attr (dat e x) a) \<and>
          (chk \<longrightarrow> checked (dat d x) = checked (dat e x)))"

abbreviation agree_for :: "sel \<Rightarrow> dom \<Rightarrow> dom \<Rightarrow> bool" where
  "agree_for s \<equiv> agree (sel_classes s) (sel_attrs s) (sel_checked s)"

lemma agree_mono:
  "agree cs as chk d e \<Longrightarrow> set cs' \<subseteq> set cs \<Longrightarrow> set as' \<subseteq> set as \<Longrightarrow> (chk' \<Longrightarrow> chk) \<Longrightarrow>
     agree cs' as' chk' d e"
  by (auto simp: agree_def)

lemma agree_structure:
  assumes "agree cs as chk d e"
  shows "path d = path e" "descendants d = descendants e" "is_element d = is_element e"
    "preceding_siblings d = preceding_siblings e" "isConnected d = isConnected e"
proof -
  have t: "forest d = forest e" and el: "is_element d = is_element e"
    using assms by (auto simp: agree_def forest_def is_element_def fun_eq_iff)
  from t have p: "path d = path e" and c: "child_trees d = child_trees e"
    by (simp_all add: path_def child_trees_def fun_eq_iff)
  have "children d = children e"
    by (rule ext) (simp add: children_def childNodes_def c el)
  with p show "path d = path e" "preceding_siblings d = preceding_siblings e"
    by (auto simp: preceding_siblings_def fun_eq_iff split: list.splits)
  from c show "descendants d = descendants e"
    by (simp add: descendants_def fun_eq_iff)
  show "is_element d = is_element e" by (rule el)
  show "isConnected d = isConnected e"
    using assms by (simp add: agree_def isConnected_def fun_eq_iff)
qed

lemma sel_matches_agree: "agree_for s d e \<Longrightarrow> sel_matches d sc s = sel_matches e sc s"
proof (induction s)
  case (Child s t)
  then have "agree_for s d e" "agree_for t d e" by (auto elim: agree_mono)
  with Child.IH agree_structure(1) [OF Child.prems] show ?case
    by (auto simp: fun_eq_iff split: list.splits)
next
  case (SHas s)
  then have "agree_for s d e" by simp
  with SHas.IH agree_structure [OF SHas.prems] show ?case by simp
next
  case (Desc s t)
  then have "agree_for s d e" "agree_for t d e" by (auto elim: agree_mono)
  with Desc.IH agree_structure [OF Desc.prems] show ?case by simp
next
  case (Sibling s t)
  then have "agree_for s d e" "agree_for t d e" by (auto elim: agree_mono)
  with Sibling.IH agree_structure [OF Sibling.prems] show ?case by simp
next
  case (SAnd s t)
  then have "agree_for s d e" "agree_for t d e" by (auto elim: agree_mono)
  with SAnd.IH show ?case by simp
next
  case (SOr s t)
  then have "agree_for s d e" "agree_for t d e" by (auto elim: agree_mono)
  with SOr.IH show ?case by simp
qed (auto simp: agree_def has_class_def fun_eq_iff)

lemma queries_agree:
  assumes "agree_for s d e"
  shows "doc_querySelectorAll d s = doc_querySelectorAll e s"
    and "querySelectorAll d x s = querySelectorAll e x s"
    and "doc_querySelector d s = doc_querySelector e s"
    and "querySelector d x s = querySelector e x s"
    and "closest d s x = closest e s x"
    and "matches d s x = matches e s x"
proof -
  have "doc d = doc e" using assms by (simp add: agree_def)
  with sel_matches_agree [OF assms] agree_structure [OF assms]
  show "doc_querySelectorAll d s = doc_querySelectorAll e s"
    and "querySelectorAll d x s = querySelectorAll e x s"
    and "doc_querySelector d s = doc_querySelector e s"
    and "querySelector d x s = querySelector e x s"
    and "closest d s x = closest e s x"
    and "matches d s x = matches e s x"
    by (simp_all add: doc_querySelectorAll_def querySelectorAll_def doc_querySelector_def
        querySelector_def closest_def matches_def)
qed

lemma getElementById_agree:
  "agree cs as chk d e \<Longrightarrow> ''id'' \<in> set as \<Longrightarrow> getElementById d i = getElementById e i"
  by (simp add: getElementById_def agree_structure(3)) (simp add: agree_def)

lemma agree_refl [simp]: "agree cs as chk d d"
  by (simp add: agree_def)

lemma agree_trans: "agree cs as chk a b \<Longrightarrow> agree cs as chk b c \<Longrightarrow> agree cs as chk a c"
  by (simp add: agree_def)

text \<open>Each operation on a node keeps the agreement when it touches something else.\<close>

lemma agree_ops [simp]:
  "k \<notin> set cs \<Longrightarrow> agree cs as chk (add_class x k d) e \<longleftrightarrow> agree cs as chk d e"
  "k \<notin> set cs \<Longrightarrow> agree cs as chk (remove_class x k d) e \<longleftrightarrow> agree cs as chk d e"
  "k \<notin> set cs \<Longrightarrow> agree cs as chk (toggle_class x k d) e \<longleftrightarrow> agree cs as chk d e"
  "a \<notin> set as \<Longrightarrow> agree cs as chk (set_attr x a v d) e \<longleftrightarrow> agree cs as chk d e"
  "a \<notin> set as \<Longrightarrow> agree cs as chk (remove_attr x a d) e \<longleftrightarrow> agree cs as chk d e"
  "agree cs as chk (set_style x p v d) e \<longleftrightarrow> agree cs as chk d e"
  "agree cs as chk (clear_style x p d) e \<longleftrightarrow> agree cs as chk d e"
  "agree cs as chk (set_text x t d) e \<longleftrightarrow> agree cs as chk d e"
  "agree cs as False (set_checked x b d) e \<longleftrightarrow> agree cs as False d e"
  "agree cs as chk (upd_field x f d) e \<longleftrightarrow> agree cs as chk d e"
  "agree cs as chk (focus x d) e \<longleftrightarrow> agree cs as chk d e"
  by (auto simp: agree_def has_class_def toggle_class_def dom_ops dat_upd)

section \<open>Documents given by a list\<close>

text \<open>A document from its tree and the data of its nodes; nodes that are not listed are plain.\<close>

definition mk_dom :: "tree \<Rightarrow> (node \<times> edata) list \<Rightarrow> dom" where
  "mk_dom t es =
     \<lparr>doc = t, loose = [], body = root_of t,
      dat = (\<lambda>x. case map_of es x of None \<Rightarrow> new_element ''DIV'' | Some e \<Rightarrow> e),
      activeElement = None, shadowActive = [], previouslyFocused = Map.empty, focusable = (\<lambda>_. True),
      rects = (\<lambda>x. \<lparr>top = of_nat x * 10, bottom = of_nat x * 10 + 10, left = 0, width = 100\<rparr>),
      scrollTop = 0, innerHeight = 600, innerWidth = 800, nextNode = Suc (fold max (preorder t) 0)\<rparr>"

text \<open>The rewriting that evaluates queries on such a document.\<close>

lemmas dom_eval = mk_dom_def new_element_def empty_field_def closest_def querySelector_def
  querySelectorAll_def doc_querySelector_def doc_querySelectorAll_def getElementById_def matches_def
  path_def forest_def descendants_def child_trees_def is_element_def has_class_def is_hidden_def
  is_open_def isConnected_def contains_def dat_upd add_class_def remove_class_def set_attr_def
  remove_attr_def set_style_def clear_style_def set_text_def set_checked_def upd_field_def

end
