(* ===== verification/JsValue.thy ===== *)
theory JsValue
  imports Complex_Main Prelude
begin

text \<open>
  The JavaScript values that cross the border of the program: what \<open>JSON.parse\<close> returns and what
  a \<open>postMessage\<close> carries. A number is a finite double, which is a rational, or one of the three
  special values. \<open>JSON.parse\<close> itself is a parameter of the definitions that call it, with
  \<open>None\<close> for the SyntaxError it throws.
\<close>

datatype jnum = Fin rat | PosInf | NegInf | NotANumber

datatype json =
    JUndefined
  | JNull
  | JBool bool
  | JNum jnum
  | JStr jstr
  | JArr "json list"
  | JObj "(jstr \<times> json) list"

type_synonym json_parse = "jstr \<Rightarrow> json option"

text \<open>The test of a value in a condition.\<close>

fun truthy :: "json \<Rightarrow> bool" where
  "truthy JUndefined = False"
| "truthy JNull = False"
| "truthy (JBool b) = b"
| "truthy (JNum (Fin q)) = (q \<noteq> 0)"
| "truthy (JNum NotANumber) = False"
| "truthy (JNum _) = True"
| "truthy (JStr s) = (s \<noteq> [])"
| "truthy (JArr _) = True"
| "truthy (JObj _) = True"

text \<open>
  \<open>v[name]\<close>: on \<open>null\<close> and \<open>undefined\<close> it raises (\<open>None\<close>); an object answers its own
  property; the names this program reads (\<open>message\<close>, \<open>method\<close>, \<open>params\<close>, \<open>height\<close> and
  the key of the provider's messages) are properties of no primitive and of no array.
\<close>

fun get_prop :: "json \<Rightarrow> jstr \<Rightarrow> json option" where
  "get_prop JUndefined k = None"
| "get_prop JNull k = None"
| "get_prop (JObj fs) k = Some (case map_of fs k of None \<Rightarrow> JUndefined | Some v \<Rightarrow> v)"
| "get_prop _ k = Some JUndefined"

text \<open>\<open>v?.[name]\<close>.\<close>

definition get_prop_opt :: "json \<Rightarrow> jstr \<Rightarrow> json" where
  "get_prop_opt v k = (case get_prop v k of None \<Rightarrow> JUndefined | Some w \<Rightarrow> w)"

text \<open>
  \<open>a === b\<close> on values that are not the same object: primitives compare by value, NaN is equal to
  nothing, two separately created objects are different.
\<close>

fun strict_eq :: "json \<Rightarrow> json \<Rightarrow> bool" where
  "strict_eq (JArr _) _ = False"
| "strict_eq (JObj _) _ = False"
| "strict_eq (JNum NotANumber) _ = False"
| "strict_eq a b = (a = b)"

fun is_primitive :: "json \<Rightarrow> bool" where
  "is_primitive (JArr _) = False"
| "is_primitive (JObj _) = False"
| "is_primitive (JNum NotANumber) = False"
| "is_primitive _ = True"

lemma strict_eq_primitive: "strict_eq a b \<longleftrightarrow> is_primitive a \<and> a = b"
  by (cases "(a, b)" rule: strict_eq.cases) auto

lemma strict_eq_sym: "strict_eq a b \<longleftrightarrow> strict_eq b a"
  by (auto simp: strict_eq_primitive)

end
