(* ===== verification/PostNavigation.thy ===== *)
theory PostNavigation
  imports Dom JsValue
begin

text \<open>
  The handlers of assets/app.js for posts and their media: \<open>navigatePost\<close> (a click on a post body
  opens the post), \<open>expandExternalMedia\<close> (a click on a media card loads the provider's frame) and
  \<open>resizeXPost\<close> (a message of the provider sets the height of its own frame). A handler takes the
  document and the event and returns the document it leaves and the effects it has, in order.
\<close>

section \<open>Opening a post\<close>

definition interactive_sel :: sel where
  "interactive_sel =
     SOr (Tag ''A'') (SOr (Tag ''BUTTON'') (SOr (Tag ''DETAILS'') (SOr (Tag ''FORM'')
       (SOr (Tag ''TEXTAREA'') (SOr (Tag ''INPUT'') (SOr (Tag ''SELECT'') (SOr (Tag ''AUDIO'')
         (SOr (Tag ''VIDEO'') (HasAttr ''contenteditable'')))))))))"

definition collapsed_parent_sel :: sel where
  "collapsed_parent_sel = SAnd (Cls ''m-postContext__postParent'') (SNot (Cls ''-expanded''))"

text \<open>\<open>selection\<close> is the text of \<open>window.getSelection()\<close>, none when there is no selection object.\<close>

definition navigatePost :: "dom \<Rightarrow> jstr option \<Rightarrow> ui_event \<Rightarrow> effect list" where
  "navigatePost d selection e =
     (case attr (dat d (currentTarget e)) ''data-href'' of
        None \<Rightarrow> []
      | Some href \<Rightarrow>
          if href = [] \<or> defaultPrevented e \<or> (button e \<noteq> 0 \<and> button e \<noteq> 1) \<or>
             closest d interactive_sel (target e) \<noteq> None \<or>
             closest d collapsed_parent_sel (target e) \<noteq> None \<or>
             (case selection of None \<Rightarrow> False | Some t \<Rightarrow> t \<noteq> [])
          then []
          else if button e = 1 \<or> ctrlKey e \<or> metaKey e \<or> shiftKey e
          then [PreventDefault, OpenTab href]
          else [PreventDefault, Navigate href])"

section \<open>Expanding an external media card\<close>

definition lazy_media_sel :: sel where
  "lazy_media_sel =
     SOr (SAnd (Tag ''IFRAME'') (HasAttr ''data-src'')) (SAnd (Tag ''IMG'') (HasAttr ''data-src''))"

text \<open>
  \<open>dark\<close> is the answer of the media query for the dark colour scheme. A control that is not inside a
  card raises (\<open>wrapper\<close> is null).
\<close>

definition expandExternalMedia ::
  "bool \<Rightarrow> ui_event \<Rightarrow> dom \<Rightarrow> (effect list \<times> dom) outcome" where
  "expandExternalMedia dark e d =
     (if defaultPrevented e \<or> button e \<noteq> 0 \<or> \<not> unmodified e then Inr ([], d)
      else case closest d (Cls ''lazyload-wrapper'') (currentTarget e) of
        None \<Rightarrow> Inl (TypeError, ([], d))
      | Some wrapper \<Rightarrow>
          (case querySelector d wrapper lazy_media_sel of
             None \<Rightarrow> Inr ([], d)
           | Some media \<Rightarrow>
               if has_class d wrapper ''-expanded'' then Inr ([PreventDefault, StopPropagation], d)
               else
                 (let src0 = (case attr (dat d media) ''data-src'' of None \<Rightarrow> [] | Some u \<Rightarrow> u);
                      src = (if attr (dat d media) ''data-x-post'' \<noteq> None
                             then src0 @ js ''&theme='' @ (if dark then js ''dark'' else js ''light'')
                             else src0)
                  in Inr ([PreventDefault, StopPropagation],
                       add_class wrapper ''-expanded''
                         (remove_attr media ''hidden'' (set_attr media ''src'' src d))))))"

section \<open>Resizing a post frame\<close>

text \<open>
  \<open>parse\<close> is \<open>JSON.parse\<close>; \<open>window_of\<close> gives the \<open>contentWindow\<close> of a frame and
  \<open>source\<close> the window that sent the message.
\<close>

definition digits_2_4 :: "jstr \<Rightarrow> bool" where
  "digits_2_4 s \<longleftrightarrow> 2 \<le> length s \<and> length s \<le> 4 \<and> list_all (\<lambda>c. 48 \<le> unat c \<and> unat c \<le> 57) s"

definition digits_value :: "jstr \<Rightarrow> nat" where
  "digits_value s = foldl (\<lambda>n c. 10 * n + (unat c - 48)) 0 s"

definition message_data :: "json_parse \<Rightarrow> json \<Rightarrow> json option" where
  "message_data parse data =
     (case data of JStr s \<Rightarrow> if length s > 4096 then None else parse s | v \<Rightarrow> Some v)"

definition reported_size :: "json \<Rightarrow> json option" where
  "reported_size data =
     (let message = get_prop_opt data (js ''twttr.embed'')
      in if \<not> truthy message then None
         else if get_prop_opt message (js ''method'') \<noteq> JStr (js ''twttr.private.resize'') then None
         else (let params = get_prop_opt message (js ''params'');
                   sz = (case params of JArr ps \<Rightarrow> (case ps of [p] \<Rightarrow> p | _ \<Rightarrow> JNull) | v \<Rightarrow> v)
               in case sz of JObj _ \<Rightarrow> Some sz | _ \<Rightarrow> None))"

definition reported_height :: "json \<Rightarrow> int option" where
  "reported_height sz =
     (let reported = get_prop_opt sz (js ''height'');
          height = (case reported of
                      JStr s \<Rightarrow> if digits_2_4 s then JNum (Fin (of_nat (digits_value s))) else reported
                    | v \<Rightarrow> v)
      in case height of
           JNum (Fin q) \<Rightarrow> if q < 64 \<or> q > 4096 then None else Some \<lceil>q\<rceil>
         | _ \<Rightarrow> None)"

definition x_frame_sel :: sel where
  "x_frame_sel = SAnd (Tag ''IFRAME'') (HasAttr ''data-x-post'')"

definition twitter_origin :: jstr where
  "twitter_origin = js ''https://platform.twitter.com''"

definition px :: "int \<Rightarrow> jstr" where
  "px n = (if n < 0 then js ''-'' @ decimal (nat (- n)) else decimal (nat n)) @ js ''px''"

definition resizeXPost ::
  "json_parse \<Rightarrow> (node \<Rightarrow> nat option) \<Rightarrow> jstr \<Rightarrow> json \<Rightarrow> nat \<Rightarrow> dom \<Rightarrow> dom" where
  "resizeXPost parse window_of origin data source d =
     (if origin \<noteq> twitter_origin then d
      else case Option.bind (message_data parse data)
                  (\<lambda>v. Option.bind (reported_size v) reported_height) of
        None \<Rightarrow> d
      | Some h \<Rightarrow>
          (case List.find (\<lambda>f. \<not> is_hidden d f \<and> window_of f = Some source)
                  (doc_querySelectorAll d x_frame_sel) of
             None \<Rightarrow> d
           | Some f \<Rightarrow> set_style f ''height'' (px h) d))"

section \<open>Properties\<close>

lemma reported_height_bounds: "reported_height sz = Some h \<Longrightarrow> 64 \<le> h \<and> h \<le> 4096"
proof -
  have "64 \<le> \<lceil>q\<rceil> \<and> \<lceil>q\<rceil> \<le> 4096" if "\<not> (q < 64 \<or> q > 4096)" for q :: rat
  proof -
    have "\<lceil>64 :: rat\<rceil> \<le> \<lceil>q\<rceil>" "\<lceil>q\<rceil> \<le> \<lceil>4096 :: rat\<rceil>"
      using that by (intro ceiling_mono; simp)+
    then show ?thesis by simp
  qed
  moreover assume "reported_height sz = Some h"
  ultimately show ?thesis
    by (auto simp: reported_height_def Let_def split: json.splits jnum.splits if_splits)
qed

text \<open>
  C40: a message from another window can only set the height of one visible provider frame, and only
  of the frame whose window sent it, to a whole number of pixels between 64 and 4096; a message of
  another origin changes nothing. Every other part of the document is untouched.
\<close>

theorem resize_only_senders_frame:
  "resizeXPost parse window_of origin data source d = d \<or>
   (\<exists>f h. origin = twitter_origin \<and> isConnected d f \<and> tagName (dat d f) = ''IFRAME'' \<and>
      attr (dat d f) ''data-x-post'' \<noteq> None \<and> \<not> is_hidden d f \<and> window_of f = Some source \<and>
      64 \<le> h \<and> h \<le> 4096 \<and>
      resizeXPost parse window_of origin data source d = set_style f ''height'' (px h) d)"
proof (cases "resizeXPost parse window_of origin data source d = d")
  case False
  then obtain h f where o: "origin = twitter_origin"
    and h: "Option.bind (message_data parse data) (\<lambda>v. Option.bind (reported_size v) reported_height) = Some h"
    and f: "List.find (\<lambda>f. \<not> is_hidden d f \<and> window_of f = Some source)
       (doc_querySelectorAll d x_frame_sel) = Some f"
    and r: "resizeXPost parse window_of origin data source d = set_style f ''height'' (px h) d"
    by (auto simp: resizeXPost_def split: if_splits option.splits)
  have "64 \<le> h \<and> h \<le> 4096"
    using h reported_height_bounds by (auto simp: bind_eq_Some_conv)
  moreover have "f \<in> set (doc_querySelectorAll d x_frame_sel) \<and> \<not> is_hidden d f \<and>
      window_of f = Some source"
    using f by (auto simp: find_Some_iff)
  ultimately show ?thesis
    using o r by (auto simp: doc_querySelectorAll_def x_frame_sel_def isConnected_def)
qed simp

text \<open>
  A click navigates only where it was meant to. \<open>navigatePost\<close> acts exactly when the post has an
  address, nobody handled the event, the button is the first or the middle one, no text is selected
  and neither the target nor an ancestor of it is a control or a collapsed parent post; then it
  prevents the default and either opens one new tab (middle button or a modifier) or navigates, never
  both.
\<close>

theorem navigatePost_outcome:
  "navigatePost d selection e =
     (if (\<exists>href. attr (dat d (currentTarget e)) ''data-href'' = Some href \<and> href \<noteq> []) \<and>
         \<not> defaultPrevented e \<and> button e \<in> {0, 1} \<and>
         \<not> list_ex (\<lambda>x. is_element d x \<and> sel_matches d (target e) interactive_sel x) (path d (target e)) \<and>
         \<not> list_ex (\<lambda>x. is_element d x \<and> sel_matches d (target e) collapsed_parent_sel x) (path d (target e)) \<and>
         selection \<in> {None, Some []}
      then [PreventDefault,
            (if button e = 1 \<or> ctrlKey e \<or> metaKey e \<or> shiftKey e then OpenTab else Navigate)
              (the (attr (dat d (currentTarget e)) ''data-href''))]
      else [])"
proof -
  have c: "closest d s x \<noteq> None \<longleftrightarrow> list_ex (\<lambda>y. is_element d y \<and> sel_matches d x s y) (path d x)" for s x
    by (auto simp: closest_None_iff list_ex_iff)
  show ?thesis
    unfolding navigatePost_def c by (auto split: option.split)
qed

text \<open>
  Expanding a card twice is expanding it once. An activation that expands the card marks it, shows
  the media and gives it its source; a second activation of the same card only suppresses the link.
\<close>

theorem expand_media_idempotent:
  assumes "expandExternalMedia dark e d = Inr (effs, d')"
  shows "(d' = d \<or>
      (\<exists>wrapper media. closest d (Cls ''lazyload-wrapper'') (currentTarget e) = Some wrapper \<and>
         querySelector d wrapper lazy_media_sel = Some media \<and>
         has_class d' wrapper ''-expanded'' \<and> \<not> is_hidden d' media \<and>
         attr (dat d' media) ''src'' \<noteq> None)) \<and>
     (\<exists>effs'. expandExternalMedia dark' e d' = Inr (effs', d'))"
proof (cases "d' = d")
  case True
  with assms show ?thesis
    by (auto simp: expandExternalMedia_def Let_def split: if_splits option.splits
        dest: add_class_eqD)
next
  case False
  then obtain w m src where e: "\<not> defaultPrevented e" "button e = 0" "unmodified e"
    and w: "closest d (Cls ''lazyload-wrapper'') (currentTarget e) = Some w"
    and m: "querySelector d w lazy_media_sel = Some m"
    and d': "d' = add_class w ''-expanded'' (remove_attr m ''hidden'' (set_attr m ''src'' src d))"
    using assms by (auto simp: expandExternalMedia_def Let_def split: if_splits option.splits)
  have "closest d' (Cls ''lazyload-wrapper'') (currentTarget e) = Some w"
    using w queries_agree(5) [of "Cls ''lazyload-wrapper''" d' d] by (simp add: d')
  moreover have "querySelector d' w lazy_media_sel = Some m"
    using m queries_agree(4) [of lazy_media_sel d' d] by (simp add: d' lazy_media_sel_def)
  moreover have "has_class d' w ''-expanded''"
    by (simp add: d' class_simps)
  moreover have "\<not> is_hidden d' m" "attr (dat d' m) ''src'' \<noteq> None"
    by (simp_all add: d' is_hidden_def add_class_def remove_attr_def set_attr_def dat_upd)
  ultimately show ?thesis using e w m by (auto simp: expandExternalMedia_def)
qed

definition media_page :: dom where
  "media_page = mk_dom (Node 0 [Node 1 [Node 2 [], Node 3 []]])
     [(1, (new_element ''DIV'')\<lparr>classList := [''lazyload-wrapper'']\<rparr>),
      (3, (new_element ''IFRAME'')\<lparr>attr := [''data-src'' \<mapsto> js ''u'', ''hidden'' \<mapsto> []]\<rparr>)]"

theorem expand_media_idempotent_witness:
  "\<exists>d' effs'. expandExternalMedia False (plain_event\<lparr>currentTarget := 2\<rparr>) media_page =
       Inr ([PreventDefault, StopPropagation], d') \<and>
     attr (dat d' 3) ''src'' = Some (js ''u'') \<and>
     expandExternalMedia True (plain_event\<lparr>currentTarget := 2\<rparr>) d' = Inr (effs', d')"
proof -
  let ?e = "plain_event\<lparr>currentTarget := 2\<rparr>"
  obtain d' where d': "expandExternalMedia False ?e media_page =
      Inr ([PreventDefault, StopPropagation], d')" "attr (dat d' 3) ''src'' = Some (js ''u'')"
    by (simp add: expandExternalMedia_def media_page_def plain_event_def unmodified_def
        lazy_media_sel_def dom_eval)
  from expand_media_idempotent [OF d'(1), of True] d' show ?thesis by blast
qed

end
