(* ===== verification/Dialogs.thy ===== *)
theory Dialogs
  imports Dom
begin

text \<open>
  The modal dialogs of assets/app.js: \<open>closeRostraDialog\<close>, \<open>restoreRostraDialogFocus\<close>,
  \<open>syncRostraDialogs\<close> (called by a MutationObserver after every change of classes or children), the
  listener for \<open>cancel\<close>, the enlarged post image (\<open>enlargePostImage\<close>, \<open>fitPostImageClose\<close>,
  its image and resize listeners) and the click outside it. State: the document, the WeakMap of the
  elements that had the focus before each dialog, and the dialog being tracked.
\<close>

section \<open>State and operations\<close>

record dialogs =
  dl_dom :: dom
  rostraDialogFocus :: "node \<rightharpoonup> node"
  activeRostraDialog :: "node option"

definition dialog_class :: "string \<Rightarrow> sel" where
  "dialog_class c = SAnd (Tag ''DIALOG'') (Cls c)"

definition image_dialog_sel :: sel where
  "image_dialog_sel = dialog_class ''o-imageDialog''"

definition rostra_dialog_sel :: sel where
  "rostra_dialog_sel =
     SOr (dialog_class ''o-mediaList'') (SOr (dialog_class ''o-previewDialog'') image_dialog_sel)"

definition active_dialog_sel :: sel where
  "active_dialog_sel =
     SOr (SAnd (dialog_class ''o-mediaList'') (Cls ''-active''))
    (SOr (SAnd (dialog_class ''o-previewDialog'') (Cls ''-active''))
         (SAnd image_dialog_sel (Cls ''-active'')))"

definition restoreRostraDialogFocus :: "node \<Rightarrow> dialogs \<Rightarrow> dialogs" where
  "restoreRostraDialogFocus dialog s =
     (let d = dl_dom s; s1 = s\<lparr>activeRostraDialog := None\<rparr>
      in case rostraDialogFocus s dialog of
           None \<Rightarrow> s1
         | Some trigger \<Rightarrow>
             if isConnected d trigger \<and>
                (activeElement d = Some (body d) \<or>
                 (case activeElement d of None \<Rightarrow> False | Some a \<Rightarrow> contains d dialog a))
             then s1\<lparr>dl_dom := focus trigger d\<rparr> else s1)"

definition clear_image :: "node \<Rightarrow> dialogs \<Rightarrow> dialogs outcome" where
  "clear_image dialog s =
     (let d = remove_class dialog ''-sideClose'' (dl_dom s)
      in case querySelector d dialog (Tag ''IMG'') of
           None \<Rightarrow> Inl (TypeError, s\<lparr>dl_dom := d\<rparr>)
         | Some img \<Rightarrow> Inr (s\<lparr>dl_dom := set_attr img ''alt'' [] (remove_attr img ''src'' d)\<rparr>))"

definition close_and_restore :: "node \<Rightarrow> dialogs \<Rightarrow> dialogs" where
  "close_and_restore dialog s =
     (let s1 = s\<lparr>dl_dom := close_dialog dialog (remove_class dialog ''-active'' (dl_dom s))\<rparr>
      in if activeRostraDialog s1 = Some dialog then restoreRostraDialogFocus dialog s1 else s1)"

fun closeRostraDialog :: "node option \<Rightarrow> dialogs \<Rightarrow> dialogs outcome" where
  "closeRostraDialog None s = Inr s"
| "closeRostraDialog (Some dialog) s =
     (let s1 = close_and_restore dialog s
      in if matches (dl_dom s1) image_dialog_sel dialog then clear_image dialog s1 else Inr s1)"

text \<open>\<open>syncRostraDialogs\<close>: first the tracked dialog, then the first active dialog of the page.\<close>

definition stale :: "dom \<Rightarrow> node \<Rightarrow> bool" where
  "stale d x \<longleftrightarrow> \<not> isConnected d x \<or> \<not> has_class d x ''-active''"

definition drop_stale :: "dialogs \<Rightarrow> dialogs" where
  "drop_stale s =
     (case activeRostraDialog s of
        None \<Rightarrow> s
      | Some x \<Rightarrow>
          if stale (dl_dom s) x
          then restoreRostraDialogFocus x (s\<lparr>dl_dom := close_dialog x (dl_dom s)\<rparr>) else s)"

definition focus_opt :: "node option \<Rightarrow> dom \<Rightarrow> dom" where
  "focus_opt x d = (case x of None \<Rightarrow> d | Some y \<Rightarrow> focus y d)"

definition tabindex_sel :: sel where
  "tabindex_sel = AttrEq ''tabindex'' (js ''-1'')"

definition open_active :: "dialogs \<Rightarrow> dialogs" where
  "open_active s =
     (case doc_querySelector (dl_dom s) active_dialog_sel of
        None \<Rightarrow> s
      | Some dialog \<Rightarrow>
          if is_open (dl_dom s) dialog then s
          else (let d = showModal dialog (dl_dom s)
                in s\<lparr>rostraDialogFocus := (rostraDialogFocus s)(dialog := activeElement (dl_dom s)),
                     activeRostraDialog := Some dialog,
                     dl_dom := focus_opt (querySelector d dialog tabindex_sel) d\<rparr>))"

definition syncRostraDialogs :: "dialogs \<Rightarrow> dialogs" where
  "syncRostraDialogs s = open_active (drop_stale s)"

definition on_cancel :: "ui_event \<Rightarrow> dialogs \<Rightarrow> effect list \<times> dialogs outcome" where
  "on_cancel e s =
     (if matches (dl_dom s) rostra_dialog_sel (target e)
      then ([PreventDefault], closeRostraDialog (Some (target e)) s) else ([], Inr s))"

section \<open>The enlarged image\<close>

definition image_link_sel :: sel where
  "image_link_sel = SAnd (Tag ''A'') (Cls ''m-rostraMedia__image'')"

definition any_open_sel :: sel where
  "any_open_sel = SAnd (Tag ''DIALOG'') (HasAttr ''open'')"

definition attr_or_empty :: "dom \<Rightarrow> node \<Rightarrow> string \<Rightarrow> jstr" where
  "attr_or_empty d x a = (case attr (dat d x) a of None \<Rightarrow> [] | Some v \<Rightarrow> v)"

text \<open>
  \<open>absolute\<close> is the browser's resolution of a link against the address of the page
  (\<open>link.href\<close>); only dialog elements have \<open>showModal\<close>.
\<close>

definition show_image ::
    "(jstr \<Rightarrow> jstr) \<Rightarrow> node \<Rightarrow> node \<Rightarrow> node \<Rightarrow> dialogs \<Rightarrow> dialogs outcome" where
  "show_image absolute link thumb dialog s =
     (let d = focus link (dl_dom s)
      in case querySelector d dialog (Tag ''IMG'') of
           None \<Rightarrow> Inl (TypeError, s\<lparr>dl_dom := d\<rparr>)
         | Some enlarged \<Rightarrow>
             (let d1 = set_attr enlarged ''src'' (absolute (attr_or_empty d link ''href'')) d;
                  d2 = set_attr enlarged ''alt'' (attr_or_empty d1 thumb ''alt'') d1
              in Inr (syncRostraDialogs (s\<lparr>dl_dom := add_class dialog ''-active'' d2\<rparr>))))"

definition enlargePostImage ::
    "(jstr \<Rightarrow> jstr) \<Rightarrow> ui_event \<Rightarrow> dialogs \<Rightarrow> effect list \<times> dialogs outcome" where
  "enlargePostImage absolute e s =
     (let d = dl_dom s
      in if defaultPrevented e \<or> button e \<noteq> 0 \<or> \<not> unmodified e then ([], Inr s)
         else if doc_querySelector d any_open_sel \<noteq> None then ([], Inr s)
         else (case closest d image_link_sel (target e) of
                 None \<Rightarrow> ([], Inr s)
               | Some link \<Rightarrow>
                   (case (querySelector d link (Tag ''IMG''), getElementById d (js ''post-image-dialog'')) of
                      (Some thumb, Some dialog) \<Rightarrow>
                        if tagName (dat d dialog) = ''DIALOG''
                        then ([PreventDefault], show_image absolute link thumb dialog s) else ([], Inr s)
                    | _ \<Rightarrow> ([], Inr s))))"

text \<open>
  The measures \<open>fitPostImageClose\<close> reads. \<open>gap\<close> is None when the computed value is not a
  length (\<open>parseFloat\<close> gives NaN, and no comparison with it holds).
\<close>

record image_layout =
  clientWidth :: rat
  clientHeight :: rat
  paddingLeft :: rat
  paddingRight :: rat
  paddingTop :: rat
  paddingBottom :: rat
  gap :: "rat option"
  naturalWidth :: nat
  naturalHeight :: nat
  closeWidth :: rat

definition inner_width :: "image_layout \<Rightarrow> rat" where
  "inner_width l = clientWidth l - paddingLeft l - paddingRight l"

definition inner_height :: "image_layout \<Rightarrow> rat" where
  "inner_height l = clientHeight l - paddingTop l - paddingBottom l"

definition paintedWidth :: "image_layout \<Rightarrow> rat" where
  "paintedWidth l =
     min (inner_width l) (inner_height l * of_nat (naturalWidth l) / of_nat (naturalHeight l))"

definition side_close :: "image_layout \<Rightarrow> bool" where
  "side_close l \<longleftrightarrow>
     naturalHeight l > 0 \<and>
     (case gap l of None \<Rightarrow> False
      | Some g \<Rightarrow> (inner_width l - paintedWidth l) / 2 \<ge> closeWidth l + g)"

definition force_class :: "node \<Rightarrow> string \<Rightarrow> bool \<Rightarrow> dom \<Rightarrow> dom" where
  "force_class x c b d = (if b then add_class x c d else remove_class x c d)"

definition fitPostImageClose :: "image_layout \<Rightarrow> node \<Rightarrow> dom \<Rightarrow> dom" where
  "fitPostImageClose l dialog d =
     (if \<not> is_open d dialog then d else force_class dialog ''-sideClose'' (side_close l) d)"

definition on_image_error :: "node \<Rightarrow> dom \<Rightarrow> dom" where
  "on_image_error dialog d = remove_class dialog ''-sideClose'' d"

definition on_backdrop_click :: "ui_event \<Rightarrow> dialogs \<Rightarrow> dialogs outcome" where
  "on_backdrop_click e s =
     (let d = dl_dom s; dialog = target e; b = rects d dialog
      in if \<not> matches d image_dialog_sel dialog \<or> \<not> is_open d dialog then Inr s
         else if of_int (clientX e) < left b \<or> of_int (clientX e) > left b + width b \<or>
                 of_int (clientY e) < top b \<or> of_int (clientY e) > bottom b
              then closeRostraDialog (Some dialog) s else Inr s)"

section \<open>Laws\<close>

lemma is_open_ops [simp]:
  "is_open (add_class x c d) y = is_open d y" "is_open (remove_class x c d) y = is_open d y"
  "is_open (focus x d) y = is_open d y" "is_open (focus_opt o1 d) y = is_open d y"
  "a \<noteq> ''open'' \<Longrightarrow> is_open (set_attr x a v d) y = is_open d y"
  "a \<noteq> ''open'' \<Longrightarrow> is_open (remove_attr x a d) y = is_open d y"
  by (auto simp: is_open_def add_class_def remove_class_def set_attr_def remove_attr_def dat_upd
      focus_opt_def split: option.split)

lemma is_open_modal [simp]:
  "is_open (showModal x d) y \<longleftrightarrow> y = x \<or> is_open d y"
  "is_open (close_dialog x d) y \<longleftrightarrow> y \<noteq> x \<and> is_open d y"
  by (auto simp: is_open_def showModal_def close_dialog_def Let_def set_attr_def remove_attr_def dat_upd
      split: option.split)

lemma has_class_dat: "dat d = dat e \<Longrightarrow> has_class d x c = has_class e x c"
  by (simp add: has_class_def)

lemma modal_classes [simp]:
  "has_class (showModal x d) y c = has_class d y c"
  "has_class (close_dialog x d) y c = has_class d y c"
  "has_class (focus_opt z d) y c = has_class d y c"
  by (auto simp: showModal_def close_dialog_def Let_def focus_opt_def set_attr_def remove_attr_def
      has_class_def dat_upd split: option.split)

lemma modal_structure [simp]:
  "doc (showModal x d) = doc d" "doc (close_dialog x d) = doc d" "doc (focus_opt z d) = doc d"
  "body (showModal x d) = body d" "body (close_dialog x d) = body d"
  "loose (showModal x d) = loose d" "loose (close_dialog x d) = loose d" "loose (focus_opt z d) = loose d"
  "focusable (showModal x d) = focusable d" "focusable (close_dialog x d) = focusable d"
  by (auto simp: showModal_def close_dialog_def Let_def focus_opt_def set_attr_def remove_attr_def
      split: option.split)

lemma modal_connected [simp]:
  "isConnected (showModal x d) = isConnected d" "isConnected (close_dialog x d) = isConnected d"
  "isConnected (focus_opt z d) = isConnected d"
  by (simp_all add: isConnected_def fun_eq_iff)

lemma modal_tags [simp]:
  "tagName (dat (showModal x d) y) = tagName (dat d y)"
  "tagName (dat (close_dialog x d) y) = tagName (dat d y)"
  "tagName (dat (focus_opt z d) y) = tagName (dat d y)"
  by (auto simp: showModal_def close_dialog_def Let_def focus_opt_def set_attr_def remove_attr_def
      dat_upd split: option.split)

text \<open>Opening and closing is invisible to a selector that only looks at tags and classes.\<close>

lemma modal_agree [simp]:
  "agree cs [] False (showModal x d) e = agree cs [] False d e"
  "agree cs [] False (close_dialog x d) e = agree cs [] False d e"
  "agree cs [] False (focus_opt z d) e = agree cs [] False d e"
  by (auto simp: agree_def)

lemma active_sel_reads [simp]:
  "sel_attrs active_dialog_sel = []" "sel_checked active_dialog_sel = False"
  by (simp_all add: active_dialog_sel_def dialog_class_def image_dialog_sel_def)

lemma active_sel_Some:
  "doc_querySelector d active_dialog_sel = Some x \<Longrightarrow> isConnected d x \<and> has_class d x ''-active''"
  by (auto simp: active_dialog_sel_def dialog_class_def image_dialog_sel_def has_class_def
      dest!: doc_querySelector_Some)

subsection \<open>Restoring the focus\<close>

lemma restore_frame:
  "rostraDialogFocus (restoreRostraDialogFocus x s) = rostraDialogFocus s"
  "activeRostraDialog (restoreRostraDialogFocus x s) = None"
  by (auto simp: restoreRostraDialogFocus_def Let_def split: option.split)

lemma restore_dom:
  "dl_dom (restoreRostraDialogFocus x s) = dl_dom s \<or>
   (\<exists>t. dl_dom (restoreRostraDialogFocus x s) = focus t (dl_dom s))"
  by (auto simp: restoreRostraDialogFocus_def Let_def split: option.split)

lemma restore_keeps [simp]:
  "is_open (dl_dom (restoreRostraDialogFocus x s)) y = is_open (dl_dom s) y"
  "has_class (dl_dom (restoreRostraDialogFocus x s)) y c = has_class (dl_dom s) y c"
  "isConnected (dl_dom (restoreRostraDialogFocus x s)) = isConnected (dl_dom s)"
  "agree cs as chk (dl_dom (restoreRostraDialogFocus x s)) e = agree cs as chk (dl_dom s) e"
  using restore_dom [of x s] by auto

subsection \<open>Synchronisation\<close>

lemma drop_stale_query:
  "doc_querySelector (dl_dom (drop_stale s)) active_dialog_sel =
   doc_querySelector (dl_dom s) active_dialog_sel"
  by (rule queries_agree(3)) (simp add: drop_stale_def split: option.split)

lemma open_active_query:
  "doc_querySelector (dl_dom (open_active s)) active_dialog_sel =
   doc_querySelector (dl_dom s) active_dialog_sel"
  by (rule queries_agree(3)) (simp add: open_active_def Let_def split: option.split)

lemma sync_query:
  "doc_querySelector (dl_dom (syncRostraDialogs s)) active_dialog_sel =
   doc_querySelector (dl_dom s) active_dialog_sel"
  by (simp add: syncRostraDialogs_def open_active_query drop_stale_query)

lemma drop_stale_tracked:
  "activeRostraDialog (drop_stale s) =
     (case activeRostraDialog s of None \<Rightarrow> None
      | Some x \<Rightarrow> if stale (dl_dom s) x then None else Some x)"
  by (simp add: drop_stale_def restore_frame split: option.split)

lemma drop_stale_stale [simp]: "stale (dl_dom (drop_stale s)) x = stale (dl_dom s) x"
  by (simp add: drop_stale_def stale_def split: option.split)

lemma open_active_stale [simp]: "stale (dl_dom (open_active s)) x = stale (dl_dom s) x"
  by (simp add: open_active_def stale_def Let_def split: option.split)

lemma open_active_tracked:
  "activeRostraDialog (open_active s) = activeRostraDialog s \<or>
   activeRostraDialog (open_active s) = doc_querySelector (dl_dom s) active_dialog_sel"
  by (auto simp: open_active_def Let_def split: option.split)

lemma sync_tracked_fresh:
  "activeRostraDialog (syncRostraDialogs s) = Some x \<Longrightarrow> \<not> stale (dl_dom (syncRostraDialogs s)) x"
  using open_active_tracked [of "drop_stale s"] active_sel_Some [of "dl_dom s" x]
  by (auto simp: syncRostraDialogs_def drop_stale_tracked drop_stale_query stale_def [of "dl_dom s"]
      split: option.splits if_splits)

lemma sync_opens:
  "doc_querySelector (dl_dom s) active_dialog_sel = Some x \<Longrightarrow> is_open (dl_dom (syncRostraDialogs s)) x"
  by (simp add: syncRostraDialogs_def open_active_def drop_stale_query Let_def)

lemma sync_closes:
  assumes "activeRostraDialog s = Some y" "stale (dl_dom s) y"
  shows "\<not> is_open (dl_dom (syncRostraDialogs s)) y"
proof -
  have "\<not> is_open (dl_dom (drop_stale s)) y" using assms by (simp add: drop_stale_def)
  moreover have "doc_querySelector (dl_dom s) active_dialog_sel \<noteq> Some y"
    using assms(2) active_sel_Some by (auto simp: stale_def)
  ultimately show ?thesis
    by (auto simp: syncRostraDialogs_def open_active_def drop_stale_query Let_def split: option.split)
qed

text \<open>
  \<open>syncRostraDialogs\<close> brings the open dialogs in line with the classes of the page: the
  first active dialog of the page is open, a tracked dialog that lost its class or left the document is
  closed, the dialog tracked afterwards is active and in the document, and a second call (the observer
  reports in batches) changes nothing.
\<close>

theorem sync_settles:
  "(case doc_querySelector (dl_dom s) active_dialog_sel of None \<Rightarrow> True
    | Some x \<Rightarrow> is_open (dl_dom (syncRostraDialogs s)) x) \<and>
   (case activeRostraDialog s of None \<Rightarrow> True
    | Some y \<Rightarrow> if stale (dl_dom s) y then \<not> is_open (dl_dom (syncRostraDialogs s)) y else True) \<and>
   (case activeRostraDialog (syncRostraDialogs s) of None \<Rightarrow> True
    | Some z \<Rightarrow> isConnected (dl_dom s) z \<and> has_class (dl_dom (syncRostraDialogs s)) z ''-active'') \<and>
   syncRostraDialogs (syncRostraDialogs s) = syncRostraDialogs s"
proof -
  let ?t = "syncRostraDialogs s"
  have con: "isConnected (dl_dom ?t) = isConnected (dl_dom s)"
    by (simp add: syncRostraDialogs_def open_active_def drop_stale_def Let_def split: option.split)
  have "drop_stale ?t = ?t"
    using sync_tracked_fresh [of s] by (auto simp: drop_stale_def split: option.split)
  moreover have "open_active ?t = ?t"
    using sync_opens [of s] by (auto simp: open_active_def [of ?t] sync_query split: option.split)
  ultimately have "syncRostraDialogs ?t = ?t" by (simp add: syncRostraDialogs_def [of ?t])
  with con sync_opens [of s] sync_closes [of s] sync_tracked_fresh [of s] show ?thesis
    by (auto simp: stale_def split: option.splits)
qed

subsection \<open>Closing\<close>

lemma prev_ops [simp]:
  "previouslyFocused (focus x d) = previouslyFocused d"
  "previouslyFocused (focus_opt z d) = previouslyFocused d"
  "previouslyFocused (add_class x c d) = previouslyFocused d"
  "previouslyFocused (remove_class x c d) = previouslyFocused d"
  "previouslyFocused (set_attr x a v d) = previouslyFocused d"
  "previouslyFocused (showModal y d) x = (if x = y then activeElement d else previouslyFocused d x)"
  by (auto simp: focus_def focus_opt_def dom_ops showModal_def Let_def split: option.split)

lemma active_ops [simp]:
  "activeElement (add_class x c d) = activeElement d" "activeElement (remove_class x c d) = activeElement d"
  "activeElement (set_attr x a v d) = activeElement d" "activeElement (remove_attr x a d) = activeElement d"
  by (simp_all add: dom_ops)

lemma close_dialog_focus:
  "isConnected d t \<Longrightarrow> focusable d t \<Longrightarrow> previouslyFocused d x = Some t \<Longrightarrow> is_open d x \<Longrightarrow>
     activeElement (close_dialog x d) = Some t"
  by (simp add: close_dialog_def Let_def focus_def isConnected_def dom_ops)

lemma close_dialog_closed [simp]: "\<not> is_open d x \<Longrightarrow> close_dialog x d = d"
  by (simp add: close_dialog_def)

lemma restore_focus_stays:
  "activeElement (dl_dom s) = Some t \<Longrightarrow> rostraDialogFocus s x = Some t \<Longrightarrow>
     activeElement (dl_dom (restoreRostraDialogFocus x s)) = Some t"
  by (auto simp: restoreRostraDialogFocus_def Let_def focus_def split: option.split)

lemma restore_focus_moves:
  "rostraDialogFocus s x = Some t \<Longrightarrow> isConnected (dl_dom s) t \<Longrightarrow> focusable (dl_dom s) t \<Longrightarrow>
   activeElement (dl_dom s) = Some a \<Longrightarrow> a = body (dl_dom s) \<or> contains (dl_dom s) x a \<Longrightarrow>
     activeElement (dl_dom (restoreRostraDialogFocus x s)) = Some t"
  by (auto simp: restoreRostraDialogFocus_def Let_def focus_def)

lemma class_op_frame [simp]:
  "body (remove_class x c d) = body d" "focusable (remove_class x c d) = focusable d"
  "contains (remove_class x c d) = contains d" "isConnected (remove_class x c d) = isConnected d"
  "body (add_class x c d) = body d" "focusable (add_class x c d) = focusable d"
  "isConnected (add_class x c d) = isConnected d"
  by (simp_all add: remove_class_def add_class_def)

lemma close_and_restore_result:
  assumes "rostraDialogFocus s x = Some t" "activeRostraDialog s = Some x"
    and "isConnected (dl_dom s) t" "focusable (dl_dom s) t"
    and "previouslyFocused (dl_dom s) x = Some t"
    and "activeElement (dl_dom s) = Some a" "a = body (dl_dom s) \<or> contains (dl_dom s) x a"
  shows "activeElement (dl_dom (close_and_restore x s)) = Some t"
    and "activeRostraDialog (close_and_restore x s) = None"
proof -
  let ?d = "remove_class x ''-active'' (dl_dom s)"
  show "activeElement (dl_dom (close_and_restore x s)) = Some t"
  proof (cases "is_open (dl_dom s) x")
    case True
    with assms have "activeElement (close_dialog x ?d) = Some t"
      by (intro close_dialog_focus) auto
    with assms show ?thesis by (simp add: close_and_restore_def Let_def restore_focus_stays)
  next
    case False
    with assms show ?thesis by (simp add: close_and_restore_def Let_def restore_focus_moves)
  qed
  show "activeRostraDialog (close_and_restore x s) = None"
    using assms(2) by (simp add: close_and_restore_def Let_def restore_frame)
qed

lemma close_and_restore_off:
  "\<not> is_open (dl_dom (close_and_restore x s)) x" "\<not> has_class (dl_dom (close_and_restore x s)) x ''-active''"
  by (simp_all add: close_and_restore_def Let_def class_simps)

lemma clear_image_result:
  assumes "clear_image x s = Inr t"
  shows "activeElement (dl_dom t) = activeElement (dl_dom s)"
    and "activeRostraDialog t = activeRostraDialog s"
    and "is_open (dl_dom t) y = is_open (dl_dom s) y"
    and "c \<noteq> ''-sideClose'' \<Longrightarrow> has_class (dl_dom t) y c = has_class (dl_dom s) y c"
  using assms by (auto simp: clear_image_def Let_def class_simps split: option.splits)

lemma closeRostraDialog_result:
  assumes "closeRostraDialog (Some x) s = Inr t"
  shows "activeElement (dl_dom t) = activeElement (dl_dom (close_and_restore x s))"
    and "activeRostraDialog t = activeRostraDialog (close_and_restore x s)"
    and "\<not> is_open (dl_dom t) x" "\<not> has_class (dl_dom t) x ''-active''"
  using assms close_and_restore_off [of x s]
  by (auto simp: Let_def clear_image_result split: if_splits)

lemma open_active_opened:
  assumes "doc_querySelector (dl_dom s) active_dialog_sel = Some x" "\<not> is_open (dl_dom s) x"
    and "activeRostraDialog s = None"
  shows "rostraDialogFocus (syncRostraDialogs s) x = activeElement (dl_dom s)"
    and "activeRostraDialog (syncRostraDialogs s) = Some x"
    and "previouslyFocused (dl_dom (syncRostraDialogs s)) x = activeElement (dl_dom s)"
    and "is_open (dl_dom (syncRostraDialogs s)) x"
  using assms by (simp_all add: syncRostraDialogs_def drop_stale_def open_active_def Let_def)

text \<open>
  C22: Closing a dialog gives the focus back. When the synchronisation opened a dialog while the element
  t had the focus, then in any later state in which that dialog is still the tracked one, t is still in
  the document and may take the focus, and the focus is inside the dialog or on the body,
  \<open>closeRostraDialog\<close> (when it returns) leaves the focus on t, the dialog closed and inactive, and
  no dialog tracked.
\<close>

theorem close_returns_focus:
  assumes "doc_querySelector (dl_dom s0) active_dialog_sel = Some x" "\<not> is_open (dl_dom s0) x"
    and "activeRostraDialog s0 = None" "activeElement (dl_dom s0) = Some t"
    and "rostraDialogFocus s = rostraDialogFocus (syncRostraDialogs s0)"
    and "activeRostraDialog s = activeRostraDialog (syncRostraDialogs s0)"
    and "previouslyFocused (dl_dom s) = previouslyFocused (dl_dom (syncRostraDialogs s0))"
    and "isConnected (dl_dom s) t" "focusable (dl_dom s) t"
    and "activeElement (dl_dom s) = Some a" "a = body (dl_dom s) \<or> contains (dl_dom s) x a"
    and "closeRostraDialog (Some x) s = Inr s'"
  shows "activeElement (dl_dom s') = Some t \<and> activeRostraDialog s' = None \<and>
    \<not> is_open (dl_dom s') x \<and> \<not> has_class (dl_dom s') x ''-active''"
proof -
  note opened = open_active_opened [OF assms(1-3)]
  have "activeElement (dl_dom (close_and_restore x s)) = Some t"
    "activeRostraDialog (close_and_restore x s) = None"
    using assms opened by (auto intro!: close_and_restore_result)
  with closeRostraDialog_result [OF assms(12)] show ?thesis by simp
qed

text \<open>A page with a button that has the focus and an active media list with one control.\<close>

definition media_list_page :: dialogs where
  "media_list_page =
     \<lparr>dl_dom = (mk_dom (Node 0 [Node 2 [], Node 4 [Node 6 []]])
        [(4, (new_element ''DIALOG'')\<lparr>classList := [''o-mediaList'', ''-active'']\<rparr>)])
        \<lparr>activeElement := Some 2\<rparr>,
      rostraDialogFocus = Map.empty, activeRostraDialog = None\<rparr>"

lemmas dialog_eval = active_dialog_sel_def dialog_class_def image_dialog_sel_def tabindex_sel_def
  syncRostraDialogs_def drop_stale_def open_active_def focus_opt_def showModal_def dialog_control_def
  focus_def dom_eval Let_def

lemma media_list_page_facts:
  "doc_querySelector (dl_dom media_list_page) active_dialog_sel = Some 4"
  "\<not> is_open (dl_dom media_list_page) 4" "activeRostraDialog media_list_page = None"
  "activeElement (dl_dom media_list_page) = Some 2"
  "isConnected (dl_dom (syncRostraDialogs media_list_page)) 2"
  "focusable (dl_dom (syncRostraDialogs media_list_page)) 2"
  "activeElement (dl_dom (syncRostraDialogs media_list_page)) = Some 6"
  "contains (dl_dom (syncRostraDialogs media_list_page)) 4 6"
  "\<not> matches (dl_dom (close_and_restore 4 (syncRostraDialogs media_list_page))) image_dialog_sel 4"
  by (simp_all add: media_list_page_def dialog_eval)
    (simp add: close_and_restore_def restoreRostraDialogFocus_def close_dialog_def dialog_eval)

theorem close_returns_focus_witness:
  "let s' = close_and_restore 4 (syncRostraDialogs media_list_page)
   in closeRostraDialog (Some 4) (syncRostraDialogs media_list_page) = Inr s' \<and>
      activeElement (dl_dom s') = Some 2 \<and> activeRostraDialog s' = None \<and>
      \<not> is_open (dl_dom s') 4 \<and> \<not> has_class (dl_dom s') 4 ''-active''"
  using close_returns_focus [of media_list_page 4 2 "syncRostraDialogs media_list_page" 6
      "close_and_restore 4 (syncRostraDialogs media_list_page)"]
  by (simp add: media_list_page_facts Let_def)

subsection \<open>The enlarged image\<close>

lemma find_new:
  assumes "List.find P xs = None" "y \<in> set xs" "\<And>x. Q x = (x = y \<or> P x)"
  shows "List.find Q xs = Some y"
  using assms(1,2) by (induction xs) (auto simp: assms(3) split: if_splits)

lemma activate_query:
  assumes "doc_querySelector d active_dialog_sel = None" "isConnected d x"
    and "matches d image_dialog_sel x"
  shows "doc_querySelector (add_class x ''-active'' d) active_dialog_sel = Some x"
  unfolding doc_querySelector_def
proof (rule find_new)
  show "List.find (\<lambda>y. is_element d y \<and> sel_matches d (root_of (doc d)) active_dialog_sel y)
      (preorder (doc (add_class x ''-active'' d))) = None"
    using assms(1) by (simp add: doc_querySelector_def add_class_def)
  show "x \<in> set (preorder (doc (add_class x ''-active'' d)))"
    using assms(2) by (simp add: isConnected_def add_class_def)
  show "(is_element (add_class x ''-active'' d) y \<and>
      sel_matches (add_class x ''-active'' d) (root_of (doc (add_class x ''-active'' d))) active_dialog_sel y)
    = (y = x \<or> is_element d y \<and> sel_matches d (root_of (doc d)) active_dialog_sel y)" for y
    using assms(3)
    by (auto simp: active_dialog_sel_def dialog_class_def image_dialog_sel_def matches_def
        is_element_def add_class_def dat_upd)
qed

lemma dat_modal:
  "a \<noteq> ''open'' \<Longrightarrow> attr (dat (showModal x d) y) a = attr (dat d y) a"
  "a \<noteq> ''open'' \<Longrightarrow> attr (dat (close_dialog x d) y) a = attr (dat d y) a"
  "attr (dat (focus_opt z d) y) a = attr (dat d y) a"
  "attr (dat (add_class u c d) y) a = attr (dat d y) a"
  by (auto simp: showModal_def close_dialog_def Let_def focus_opt_def dom_ops dat_upd
      split: option.split)

lemma show_image_focusable:
  "show_image absolute link thumb dlg s = Inr t \<Longrightarrow> focusable (dl_dom t) = focusable (dl_dom s)"
proof -
  have f: "focusable (set_attr x a v d) = focusable d" "focusable (focus_opt z d) = focusable d" for x a v d z
    by (auto simp: set_attr_def focus_opt_def split: option.split)
  have r: "focusable (dl_dom (restoreRostraDialogFocus x s)) = focusable (dl_dom s)" for x s
    using restore_dom [of x s] by auto
  show "show_image absolute link thumb dlg s = Inr t \<Longrightarrow> focusable (dl_dom t) = focusable (dl_dom s)"
    by (auto simp: show_image_def Let_def syncRostraDialogs_def drop_stale_def open_active_def f r
        split: option.splits)
qed

text \<open>The image of an enlarged post, from the click to the closing of its dialog.\<close>

lemma show_image_opens:
  assumes "doc_querySelector (dl_dom s) active_dialog_sel = None" "activeRostraDialog s = None"
    and "isConnected (dl_dom s) dlg" "matches (dl_dom s) image_dialog_sel dlg"
    and "\<not> is_open (dl_dom s) dlg" "querySelector (dl_dom s) dlg (Tag ''IMG'') = Some big"
    and "isConnected (dl_dom s) link" "focusable (dl_dom s) link" "thumb \<noteq> big" "link \<noteq> big"
  shows "\<exists>t. show_image absolute link thumb dlg s = Inr t \<and> is_open (dl_dom t) dlg \<and>
    attr (dat (dl_dom t) big) ''src'' = Some (absolute (attr_or_empty (dl_dom s) link ''href'')) \<and>
    attr (dat (dl_dom t) big) ''alt'' = Some (attr_or_empty (dl_dom s) thumb ''alt'') \<and>
    rostraDialogFocus t dlg = Some link \<and> activeRostraDialog t = Some dlg \<and>
    previouslyFocused (dl_dom t) dlg = Some link \<and> agree [''o-imageDialog''] [] False (dl_dom t) (dl_dom s)"
proof -
  let ?d = "focus link (dl_dom s)"
  let ?src = "absolute (attr_or_empty ?d link ''href'')"
  let ?e = "set_attr big ''alt'' (attr_or_empty (set_attr big ''src'' ?src ?d) thumb ''alt'')
              (set_attr big ''src'' ?src ?d)"
  let ?s = "s\<lparr>dl_dom := add_class dlg ''-active'' ?e\<rparr>"
  have q: "querySelector ?d dlg (Tag ''IMG'') = Some big"
    using assms(6) queries_agree(4) [of "Tag ''IMG''" ?d "dl_dom s"] by simp
  have a: "agree_for active_dialog_sel ?e (dl_dom s)" by simp
  have m: "agree_for image_dialog_sel ?e (dl_dom s)"
    by (simp add: image_dialog_sel_def dialog_class_def)
  have c: "isConnected ?e = isConnected (dl_dom s)" by (simp add: dom_ops)
  have "doc_querySelector (dl_dom ?s) active_dialog_sel = Some dlg"
    using activate_query [of ?e dlg] queries_agree(3) [OF a] queries_agree(6) [OF m] assms c by simp
  note opened = open_active_opened [OF this]
  have act: "activeElement (dl_dom ?s) = Some link" using assms by (simp add: focus_def)
  have at: "attr (dat (dl_dom ?s) big) ''src'' = Some ?src"
    "attr (dat (dl_dom ?s) big) ''alt'' = Some (attr_or_empty (dl_dom s) thumb ''alt'')"
    using assms(9) by (simp_all add: dat_modal dom_ops dat_upd attr_or_empty_def)
  have kept: "attr (dat (dl_dom (syncRostraDialogs ?s)) y) k = attr (dat (dl_dom ?s) y) k"
    if "k \<noteq> ''open''" for y k
    using that assms(2)
    by (simp add: syncRostraDialogs_def drop_stale_def open_active_def Let_def dat_modal
        split: option.split)
  have "show_image absolute link thumb dlg s = Inr (syncRostraDialogs ?s)"
    by (simp add: show_image_def q Let_def)
  moreover have "agree [''o-imageDialog''] [] False (dl_dom (syncRostraDialogs ?s)) (dl_dom s)"
    using assms(2) by (simp add: syncRostraDialogs_def drop_stale_def open_active_def Let_def
        split: option.split)
  ultimately show ?thesis using opened act at kept assms by (simp add: attr_or_empty_def)
qed

lemma close_and_restore_agree [simp]:
  "''-active'' \<notin> set cs \<Longrightarrow>
     agree cs [] False (dl_dom (close_and_restore x s)) e = agree cs [] False (dl_dom s) e"
  by (simp add: close_and_restore_def Let_def)

lemma close_image_dialog:
  assumes "matches (dl_dom s) image_dialog_sel x" "querySelector (dl_dom s) x (Tag ''IMG'') = Some img"
  shows "\<exists>t. closeRostraDialog (Some x) s = Inr t \<and> attr (dat (dl_dom t) img) ''src'' = None \<and>
    attr (dat (dl_dom t) img) ''alt'' = Some [] \<and> \<not> has_class (dl_dom t) x ''-sideClose''"
proof -
  let ?c = "close_and_restore x s" and ?e = "remove_class x ''-sideClose'' (dl_dom (close_and_restore x s))"
  have "matches (dl_dom ?c) image_dialog_sel x"
    using assms(1) queries_agree(6) [of image_dialog_sel "dl_dom ?c" "dl_dom s" x]
    by (simp add: image_dialog_sel_def dialog_class_def)
  moreover have "querySelector ?e x (Tag ''IMG'') = Some img"
    using assms(2) queries_agree(4) [of "Tag ''IMG''" ?e "dl_dom s" x] by simp
  ultimately show ?thesis
    by (simp add: clear_image_def Let_def class_simps) (simp add: dom_ops dat_upd)
qed

text \<open>
  An image click enlarges the post's image and closing leaves no trace. On a page with no open or
  active dialog, an ordinary click in an image link opens the image dialog on the address the link
  points to, with the text of the thumbnail; closing it then succeeds, takes the address away again,
  empties the text, and puts the focus on the clicked link.
\<close>

theorem enlarge_then_close:
  assumes "\<not> defaultPrevented e" "button e = 0" "unmodified e"
    and "doc_querySelector (dl_dom s) any_open_sel = None"
    and "doc_querySelector (dl_dom s) active_dialog_sel = None" "activeRostraDialog s = None"
    and "closest (dl_dom s) image_link_sel (target e) = Some link"
    and "isConnected (dl_dom s) link" "focusable (dl_dom s) link"
    and "querySelector (dl_dom s) link (Tag ''IMG'') = Some thumb"
    and "getElementById (dl_dom s) (js ''post-image-dialog'') = Some dlg"
    and "matches (dl_dom s) image_dialog_sel dlg"
    and "querySelector (dl_dom s) dlg (Tag ''IMG'') = Some big" "thumb \<noteq> big" "link \<noteq> big"
  shows "\<exists>t u. enlargePostImage absolute e s = ([PreventDefault], Inr t) \<and> is_open (dl_dom t) dlg \<and>
    attr (dat (dl_dom t) big) ''src'' = Some (absolute (attr_or_empty (dl_dom s) link ''href'')) \<and>
    attr (dat (dl_dom t) big) ''alt'' = Some (attr_or_empty (dl_dom s) thumb ''alt'') \<and>
    closeRostraDialog (Some dlg) t = Inr u \<and> \<not> is_open (dl_dom u) dlg \<and>
    attr (dat (dl_dom u) big) ''src'' = None \<and> attr (dat (dl_dom u) big) ''alt'' = Some [] \<and>
    activeElement (dl_dom u) = Some link"
proof -
  have con: "isConnected (dl_dom s) dlg" and el: "is_element (dl_dom s) dlg"
    using assms(11) by (auto simp: getElementById_def find_Some_iff isConnected_def)
  have tag: "tagName (dat (dl_dom s) dlg) = ''DIALOG''"
    using assms(12) by (simp add: matches_def image_dialog_sel_def dialog_class_def)
  have shut: "\<not> is_open (dl_dom s) dlg"
    using assms(4) con el tag
    by (auto simp: doc_querySelector_def find_None_iff any_open_sel_def isConnected_def is_open_def)
  obtain t where t: "show_image absolute link thumb dlg s = Inr t" "is_open (dl_dom t) dlg"
    "attr (dat (dl_dom t) big) ''src'' = Some (absolute (attr_or_empty (dl_dom s) link ''href''))"
    "attr (dat (dl_dom t) big) ''alt'' = Some (attr_or_empty (dl_dom s) thumb ''alt'')"
    "rostraDialogFocus t dlg = Some link" "activeRostraDialog t = Some dlg"
    "previouslyFocused (dl_dom t) dlg = Some link"
    "agree [''o-imageDialog''] [] False (dl_dom t) (dl_dom s)" "focusable (dl_dom t) = focusable (dl_dom s)"
    using show_image_opens [OF assms(5,6) con assms(12) shut assms(13,8,9,14,15), of absolute]
      show_image_focusable by blast
  have img: "matches (dl_dom t) image_dialog_sel dlg" "querySelector (dl_dom t) dlg (Tag ''IMG'') = Some big"
    using t(8) assms(12,13) queries_agree(6) [of image_dialog_sel "dl_dom t" "dl_dom s" dlg]
      queries_agree(4) [of "Tag ''IMG''" "dl_dom t" "dl_dom s" dlg]
      agree_mono [OF t(8), of "[]" "[]" False]
    by (simp_all add: image_dialog_sel_def dialog_class_def)
  obtain u where u: "closeRostraDialog (Some dlg) t = Inr u" "attr (dat (dl_dom u) big) ''src'' = None"
    "attr (dat (dl_dom u) big) ''alt'' = Some []"
    using close_image_dialog [OF img] by blast
  have "activeElement (dl_dom (close_and_restore dlg t)) = Some link"
  proof -
    have "isConnected (dl_dom t) link" using assms(8) agree_structure(5) [OF t(8)] by simp
    then have "activeElement (close_dialog dlg (remove_class dlg ''-active'' (dl_dom t))) = Some link"
      using t assms(9) by (intro close_dialog_focus) auto
    then show ?thesis using t by (simp add: close_and_restore_def Let_def restore_focus_stays)
  qed
  then have "activeElement (dl_dom u) = Some link" "\<not> is_open (dl_dom u) dlg"
    using closeRostraDialog_result [OF u(1)] by simp_all
  moreover have "enlargePostImage absolute e s = ([PreventDefault], Inr t)"
    using assms tag t(1) by (simp add: enlargePostImage_def Let_def)
  ultimately show ?thesis using t u by blast
qed

text \<open>A page with an image link and the image dialog.\<close>

definition image_page :: dialogs where
  "image_page =
     \<lparr>dl_dom = mk_dom (Node 0 [Node 2 [Node 4 []], Node 6 [Node 8 []]])
        [(2, (new_element ''A'')\<lparr>classList := [''m-rostraMedia__image''], attr := [''href'' \<mapsto> js ''/m'']\<rparr>),
         (4, (new_element ''IMG'')\<lparr>attr := [''alt'' \<mapsto> js ''cat'']\<rparr>),
         (6, (new_element ''DIALOG'')\<lparr>classList := [''o-imageDialog''],
                attr := [''id'' \<mapsto> js ''post-image-dialog'']\<rparr>),
         (8, new_element ''IMG'')],
      rostraDialogFocus = Map.empty, activeRostraDialog = None\<rparr>"

lemma image_page_facts:
  "doc_querySelector (dl_dom image_page) any_open_sel = None"
  "doc_querySelector (dl_dom image_page) active_dialog_sel = None" "activeRostraDialog image_page = None"
  "closest (dl_dom image_page) image_link_sel 4 = Some 2"
  "isConnected (dl_dom image_page) 2" "focusable (dl_dom image_page) 2"
  "querySelector (dl_dom image_page) 2 (Tag ''IMG'') = Some 4"
  "getElementById (dl_dom image_page) (js ''post-image-dialog'') = Some 6"
  "matches (dl_dom image_page) image_dialog_sel 6"
  "querySelector (dl_dom image_page) 6 (Tag ''IMG'') = Some 8"
  "attr_or_empty (dl_dom image_page) 2 ''href'' = js ''/m''"
  "attr_or_empty (dl_dom image_page) 4 ''alt'' = js ''cat''"
  by (simp_all add: image_page_def any_open_sel_def image_link_sel_def attr_or_empty_def dialog_eval)

theorem enlarge_then_close_witness:
  "\<exists>t u. enlargePostImage (\<lambda>h. js ''https://host'' @ h) (plain_event\<lparr>target := 4\<rparr>) image_page =
      ([PreventDefault], Inr t) \<and> is_open (dl_dom t) 6 \<and>
    attr (dat (dl_dom t) 8) ''src'' = Some (js ''https://host/m'') \<and>
    closeRostraDialog (Some 6) t = Inr u \<and> attr (dat (dl_dom u) 8) ''src'' = None"
  using enlarge_then_close [where s = image_page and e = "plain_event\<lparr>target := 4\<rparr>" and link = 2
      and thumb = 4 and dlg = 6 and big = 8 and absolute = "\<lambda>h. js ''https://host'' @ h"]
  by (auto simp: image_page_facts plain_event_def unmodified_def simp flip: js_append)

text \<open>
  The close button takes a side column exactly when the image at full height leaves room for one
  on each side: with a positive button and gap, \<open>fitPostImageClose\<close> on an open dialog sets the class
  when the width of the image scaled to the full height and two columns fit in the inner width, so the
  column never makes the painted image smaller.
\<close>

theorem side_close_never_shrinks:
  assumes "is_open d dlg" "gap l = Some g" "closeWidth l + g > 0" "naturalHeight l > 0"
  shows "has_class (fitPostImageClose l dlg d) dlg ''-sideClose'' \<longleftrightarrow>
    inner_height l * of_nat (naturalWidth l) / of_nat (naturalHeight l) + 2 * (closeWidth l + g)
      \<le> inner_width l"
proof -
  define w where "w = inner_height l * of_nat (naturalWidth l) / of_nat (naturalHeight l)"
  have "side_close l \<longleftrightarrow> w + 2 * (closeWidth l + g) \<le> inner_width l"
    using assms by (auto simp: side_close_def paintedWidth_def w_def [symmetric] min_def)
  with assms(1) show ?thesis
    by (simp add: fitPostImageClose_def force_class_def class_simps w_def)
qed

theorem side_close_never_shrinks_witness:
  "has_class (fitPostImageClose
     \<lparr>clientWidth = 1000, clientHeight = 500, paddingLeft = 0, paddingRight = 0, paddingTop = 0,
      paddingBottom = 0, gap = Some 8, naturalWidth = 100, naturalHeight = 100, closeWidth = 40\<rparr>
     6 (set_attr 6 ''open'' [] (dl_dom image_page))) 6 ''-sideClose''"
  by (subst side_close_never_shrinks [where g = 8])
    (simp_all add: inner_height_def inner_width_def is_open_def set_attr_def dat_upd)

end
