(* ===== verification/TextInsert.thy ===== *)
theory TextInsert
  imports Dialogs
begin

text \<open>
  The small helpers of the forms in assets/app.js: \<open>insertMediaSyntax\<close> and \<open>insertExternalLink\<close>,
  which put text into the composer at the caret and close the dialog it was chosen in;
  \<open>toggleEmojiPicker\<close> with its listener for clicks outside; \<open>togglePersonaList\<close> and
  \<open>previewAvatar\<close>. The selectors that arrive as strings are parsed by the browser: \<open>parse\<close>
  is that parser, None for a string it rejects.
\<close>

section \<open>Inserting at the caret\<close>

definition media_syntax :: "jstr \<Rightarrow> jstr" where
  "media_syntax eventId = js ''![media](rostra-media:'' @ eventId @ js '')''"

definition insert_syntax :: "jstr \<Rightarrow> textarea \<Rightarrow> textarea" where
  "insert_syntax syntx t = splice (selectionStart t) (selectionEnd t) syntx t"

definition focus_in :: "node \<Rightarrow> dialogs \<Rightarrow> dialogs" where
  "focus_in x s = s\<lparr>dl_dom := focus x (dl_dom s)\<rparr>"

definition edit_in :: "node \<Rightarrow> (textarea \<Rightarrow> textarea) \<Rightarrow> dialogs \<Rightarrow> dialogs" where
  "edit_in x f s = s\<lparr>dl_dom := upd_field x f (dl_dom s)\<rparr>"

text \<open>The target of the insertion: the argument, else the one stored on the media list.\<close>

definition media_target :: "jstr option \<Rightarrow> dom \<Rightarrow> jstr" where
  "media_target targetSelector d =
     (let stored = Option.bind (getElementById d (js ''media-list'')) (\<lambda>m. attr (dat d m) ''data-target'');
          t = (case targetSelector of None \<Rightarrow> stored | Some x \<Rightarrow> if x = [] then stored else Some x)
      in case t of None \<Rightarrow> js ''undefined'' | Some x \<Rightarrow> x)"

definition insertMediaSyntax ::
    "(jstr \<Rightarrow> sel option) \<Rightarrow> jstr \<Rightarrow> jstr option \<Rightarrow> dialogs \<Rightarrow> effect list \<times> dialogs outcome" where
  "insertMediaSyntax parse eventId targetSelector s =
     (let d = dl_dom s; mediaList = getElementById d (js ''media-list'')
      in case parse (media_target targetSelector d) of
           None \<Rightarrow> ([], Inl (SyntaxError, s))
         | Some q \<Rightarrow>
             (case closeRostraDialog mediaList s of
                Inl er \<Rightarrow> ([], Inl er)
              | Inr s1 \<Rightarrow>
                  (case doc_querySelector d q of
                     None \<Rightarrow> ([], Inr s1)
                   | Some textarea \<Rightarrow>
                       ([InputEvent textarea],
                        Inr (focus_in textarea
                               (edit_in textarea (insert_syntax (media_syntax eventId)) s1))))))"

definition separator :: "textarea \<Rightarrow> jstr" where
  "separator t =
     (let pre = take (selectionStart t) (tvalue t)
      in if pre \<noteq> [] \<and> \<not> is_white_space (last pre) then js '' '' else [])"

definition insert_link :: "jstr \<Rightarrow> textarea \<Rightarrow> textarea" where
  "insert_link syntx t =
     setRangeText_end (separator t @ syntx) (selectionStart t) (selectionEnd t) t"

definition insertExternalLink :: "jstr \<Rightarrow> dialogs \<Rightarrow> effect list \<times> dialogs outcome" where
  "insertExternalLink syntx s =
     (case getElementById (dl_dom s) (js ''new-post-content'') of
        None \<Rightarrow> ([], Inr s)
      | Some textarea \<Rightarrow>
          (let s1 = edit_in textarea (insert_link syntx) s
           in ([InputEvent textarea],
               and_then (closeRostraDialog (getElementById (dl_dom s1) (js ''post-preview-dialog'')) s1)
                 (\<lambda>s2. Inr (focus_in textarea s2)))))"

section \<open>The emoji picker\<close>

text \<open>
  Opening a picker schedules the registration of a listener on the document that hides it at the first
  click outside and then removes itself. \<open>shadow_search\<close> gives the search input in the shadow tree
  of an emoji-picker element.
\<close>

record pickers =
  pk_dom :: dom
  pk_pending :: "node list"
  pk_listening :: "node list"

definition find_picker :: "(jstr \<Rightarrow> sel option) \<Rightarrow> jstr \<Rightarrow> dom \<Rightarrow> js_error + node option" where
  "find_picker parse pickerId d =
     (case getElementById d pickerId of
        Some p \<Rightarrow> Inr (Some p)
      | None \<Rightarrow> (case parse pickerId of None \<Rightarrow> Inl SyntaxError | Some q \<Rightarrow> Inr (doc_querySelector d q)))"

definition focus_shadow :: "node \<Rightarrow> node \<Rightarrow> dom \<Rightarrow> dom" where
  "focus_shadow host x d =
     (if focusable d x
      then d\<lparr>activeElement := Some host,
             shadowActive := (host, x) # filter (\<lambda>p. fst p \<noteq> host) (shadowActive d)\<rparr>
      else d)"

definition focus_search :: "(node \<rightharpoonup> node) \<Rightarrow> node \<Rightarrow> dom \<Rightarrow> dom" where
  "focus_search shadow_search picker d =
     (case querySelector d picker (Tag ''EMOJI-PICKER'') of
        None \<Rightarrow> d
      | Some ep \<Rightarrow> (case shadow_search ep of None \<Rightarrow> d | Some x \<Rightarrow> focus_shadow ep x d))"

definition toggle_picker :: "(node \<rightharpoonup> node) \<Rightarrow> node \<Rightarrow> pickers \<Rightarrow> pickers" where
  "toggle_picker shadow_search picker s =
     (let wasHidden = has_class (pk_dom s) picker ''-hidden'';
          d = toggle_class picker ''-hidden'' (pk_dom s)
      in if wasHidden
         then s\<lparr>pk_dom := focus_search shadow_search picker d, pk_pending := pk_pending s @ [picker]\<rparr>
         else s\<lparr>pk_dom := d\<rparr>)"

definition toggleEmojiPicker ::
    "(jstr \<Rightarrow> sel option) \<Rightarrow> (node \<rightharpoonup> node) \<Rightarrow> jstr \<Rightarrow> pickers \<Rightarrow> effect list \<times> pickers outcome" where
  "toggleEmojiPicker parse shadow_search pickerId s =
     ([PreventDefault, StopPropagation],
      case find_picker parse pickerId (pk_dom s) of
        Inl er \<Rightarrow> Inl (er, s)
      | Inr None \<Rightarrow> Inr s
      | Inr (Some picker) \<Rightarrow> Inr (toggle_picker shadow_search picker s))"

text \<open>The oldest pending timer registers its listener.\<close>

fun picker_timer :: "pickers \<Rightarrow> pickers" where
  "picker_timer s =
     (case pk_pending s of
        [] \<Rightarrow> s
      | p # ps \<Rightarrow> s\<lparr>pk_pending := ps, pk_listening := pk_listening s @ [p]\<rparr>)"

definition closeOnClickOutside :: "node \<Rightarrow> pickers \<Rightarrow> pickers" where
  "closeOnClickOutside t s =
     (let out = filter (\<lambda>p. \<not> contains (pk_dom s) p t) (pk_listening s)
      in s\<lparr>pk_dom := fold (\<lambda>p. add_class p ''-hidden'') out (pk_dom s),
           pk_listening := filter (\<lambda>p. contains (pk_dom s) p t) (pk_listening s)\<rparr>)"

section \<open>Persona list and avatar\<close>

definition togglePersonaList :: "dom \<Rightarrow> dom outcome" where
  "togglePersonaList d =
     (case doc_querySelector d (Id (js ''follow-type-select'')) of
        None \<Rightarrow> Inl (TypeError, d)
      | Some select \<Rightarrow>
          (let selectedOption = tvalue (field (dat d select))
           in case doc_querySelector d (Cls ''o-followDialog__personaList'') of
                None \<Rightarrow> Inl (TypeError, d)
              | Some personaList \<Rightarrow>
                  Inr (if selectedOption = js ''follow_all'' \<or> selectedOption = js ''follow_only''
                       then add_class personaList ''-visible'' d
                       else remove_class personaList ''-visible'' d)))"

text \<open>\<open>blob\<close> is the object URL of the chosen file, None when no file was chosen.\<close>

definition previewAvatar :: "jstr option \<Rightarrow> dom \<Rightarrow> dom outcome" where
  "previewAvatar blob d =
     (case (doc_querySelector d (Cls ''m-profileSummary__userImage''), blob) of
        (Some img, Some url) \<Rightarrow> Inr (set_attr img ''src'' url d)
      | _ \<Rightarrow> Inl (TypeError, d))"

section \<open>The insertions keep the contract of the text field\<close>

interpretation media: caret_insertion "insert_syntax syntx" selectionStart selectionEnd "\<lambda>_. syntx" wf_field
  by unfold_locales (auto simp: insert_syntax_def wf_field_def splice_simps)

interpretation link: caret_insertion "insert_link syntx" selectionStart selectionEnd
    "\<lambda>t. separator t @ syntx" wf_field
  by unfold_locales (auto simp: insert_link_def wf_field_def setRangeText_end_simps)

subsection \<open>Closing a dialog leaves the texts alone\<close>

definition same_fields :: "dom \<Rightarrow> dom \<Rightarrow> bool" where
  "same_fields d e \<longleftrightarrow> doc d = doc e \<and> focusable d = focusable e \<and> (\<forall>x. field (dat d x) = field (dat e x))"

lemma same_fields_ops [simp]:
  "same_fields (add_class x c d) e = same_fields d e" "same_fields (remove_class x c d) e = same_fields d e"
  "same_fields (set_attr x a v d) e = same_fields d e" "same_fields (remove_attr x a d) e = same_fields d e"
  "same_fields (focus x d) e = same_fields d e" "same_fields (close_dialog x d) e = same_fields d e"
  "same_fields d d"
  by (auto simp: same_fields_def close_dialog_def Let_def dom_ops dat_upd split: option.splits)

lemma same_fields_restore [simp]:
  "same_fields (dl_dom (restoreRostraDialogFocus x s)) e = same_fields (dl_dom s) e"
  using restore_dom [of x s] by auto

lemma same_fields_close:
  "closeRostraDialog m s = Inr t \<Longrightarrow> same_fields (dl_dom t) (dl_dom s)"
  by (cases m) (auto simp: Let_def close_and_restore_def clear_image_def split: if_splits option.splits)

lemma insert_at_caret:
  assumes "isConnected (dl_dom s) x" "focusable (dl_dom s) x"
  shows "field (dat (dl_dom (focus_in x (edit_in x f s))) x) = f (field (dat (dl_dom s) x))"
    and "activeElement (dl_dom (focus_in x (edit_in x f s))) = Some x"
  using assms by (auto simp: focus_in_def edit_in_def focus_def upd_field_def dat_upd)

text \<open>
  \<open>insertMediaSyntax\<close> puts the media reference at the caret. When the target is found and
  the media list closes without an error, the field's text becomes what was before the selection, the
  reference, and what was after it; the caret stands behind the reference, the field has the focus, an
  input event is sent to it, and the media list is closed.
\<close>

theorem insertMediaSyntax_inserts:
  assumes "parse (media_target sel (dl_dom s)) = Some q" "doc_querySelector (dl_dom s) q = Some ta"
    and "field (dat (dl_dom s) ta) = f" "wf_field f" "focusable (dl_dom s) ta"
    and "getElementById (dl_dom s) (js ''media-list'') = Some m" "closeRostraDialog (Some m) s = Inr s1"
  shows "\<exists>t f'. insertMediaSyntax parse i sel s = ([InputEvent ta], Inr t) \<and>
    field (dat (dl_dom t) ta) = f' \<and> wf_field f' \<and>
    take (selectionStart f') (tvalue f') =
      take (selectionStart f) (tvalue f) @ js ''![media](rostra-media:'' @ i @ js '')'' \<and>
    drop (selectionStart f') (tvalue f') = drop (selectionEnd f) (tvalue f) \<and>
    selectionEnd f' = selectionStart f' \<and> activeElement (dl_dom t) = Some ta \<and> \<not> is_open (dl_dom t) m"
proof -
  let ?g = "insert_syntax (media_syntax i)"
  let ?t = "focus_in ta (edit_in ta ?g s1)"
  note same = same_fields_close [OF assms(7)]
  have con: "isConnected (dl_dom s1) ta" "focusable (dl_dom s1) ta"
    using same assms(5) doc_querySelector_Some [OF assms(2)]
    by (simp_all add: same_fields_def isConnected_def)
  have f: "field (dat (dl_dom ?t) ta) = ?g f"
    using insert_at_caret(1) [OF con] same assms(3) by (simp add: same_fields_def)
  have "insertMediaSyntax parse i sel s = ([InputEvent ta], Inr ?t)"
    using assms by (simp add: insertMediaSyntax_def Let_def)
  moreover have "\<not> is_open (dl_dom ?t) m"
    using closeRostraDialog_result(3) [OF assms(7)]
    by (auto simp: focus_in_def edit_in_def is_open_def upd_field_def dat_upd)
  moreover have "selectionEnd (?g f) = selectionStart (?g f)"
    using media.edit_caret [OF assms(4), of "media_syntax i"] by simp
  moreover note insert_at_caret(2) [OF con, of ?g] media.edit_wf [OF assms(4), of "media_syntax i"]
    media.before_caret [OF assms(4), of "media_syntax i"] media.after_caret [OF assms(4), of "media_syntax i"]
  ultimately show ?thesis using f by (auto simp: media_syntax_def)
qed

text \<open>A composer with the text "hi" and the caret at its end, beside the media list.\<close>

definition composer_page :: dialogs where
  "composer_page =
     \<lparr>dl_dom = mk_dom (Node 0 [Node 2 [], Node 4 []])
        [(2, (new_element ''TEXTAREA'')\<lparr>attr := [''id'' \<mapsto> js ''new-post-content''],
                field := \<lparr>tvalue = js ''hi'', selectionStart = 2, selectionEnd = 2\<rparr>\<rparr>),
         (4, (new_element ''DIALOG'')\<lparr>classList := [''o-mediaList'', ''-active''],
                attr := [''id'' \<mapsto> js ''media-list'', ''data-target'' \<mapsto> js ''#new-post-content'']\<rparr>)],
      rostraDialogFocus = Map.empty, activeRostraDialog = None\<rparr>"

lemma composer_page_facts:
  "doc_querySelector (dl_dom composer_page) (Id (js ''new-post-content'')) = Some 2"
  "getElementById (dl_dom composer_page) (js ''new-post-content'') = Some 2"
  "field (dat (dl_dom composer_page) 2) = \<lparr>tvalue = js ''hi'', selectionStart = 2, selectionEnd = 2\<rparr>"
  "focusable (dl_dom composer_page) 2" "getElementById (dl_dom composer_page) (js ''media-list'') = Some 4"
  "closeRostraDialog (Some 4) composer_page = Inr (close_and_restore 4 composer_page)"
  "getElementById (dl_dom (edit_in 2 f composer_page)) (js ''post-preview-dialog'') = None"
  by (simp_all add: composer_page_def close_and_restore_def edit_in_def dialog_eval)

lemma take_hi: "take 2 (js ''hi'') = js ''hi''"
  by (simp add: js_def)

theorem insertMediaSyntax_inserts_witness:
  "\<exists>t. insertMediaSyntax (\<lambda>_. Some (Id (js ''new-post-content''))) (js ''7'') None composer_page =
     ([InputEvent 2], Inr t) \<and> activeElement (dl_dom t) = Some 2 \<and> \<not> is_open (dl_dom t) 4"
  using insertMediaSyntax_inserts [where s = composer_page and sel = None and ta = 2 and m = 4
      and parse = "\<lambda>_. Some (Id (js ''new-post-content''))" and q = "Id (js ''new-post-content'')"
      and i = "js ''7''" and ?s1.0 = "close_and_restore 4 composer_page"]
  by (auto simp: composer_page_facts wf_field_def simp del: closeRostraDialog.simps)

text \<open>
  \<open>insertExternalLink\<close> keeps the link apart from the word before it. When the preview dialog
  closes without an error, the field's text becomes the text before the selection, a separator, the
  link and the text after the selection, with the caret behind the link; the separator is empty or one
  space, and what precedes the link is empty or ends with white space.
\<close>

theorem insertExternalLink_separates:
  assumes "getElementById (dl_dom s) (js ''new-post-content'') = Some ta"
    and "field (dat (dl_dom s) ta) = f" "wf_field f"
    and "snd (insertExternalLink syntx s) = Inr t"
  shows "\<exists>sep f'. field (dat (dl_dom t) ta) = f' \<and> (sep = [] \<or> sep = js '' '') \<and>
    take (selectionStart f') (tvalue f') = take (selectionStart f) (tvalue f) @ sep @ syntx \<and>
    drop (selectionStart f') (tvalue f') = drop (selectionEnd f) (tvalue f) \<and>
    (take (selectionStart f) (tvalue f) @ sep = [] \<or>
     is_white_space (last (take (selectionStart f) (tvalue f) @ sep)))"
proof -
  let ?s = "edit_in ta (insert_link syntx) s"
  obtain u where u: "closeRostraDialog (getElementById (dl_dom ?s) (js ''post-preview-dialog'')) ?s = Inr u"
    and t: "t = focus_in ta u"
    using assms(1,4) by (auto simp: insertExternalLink_def Let_def and_then_Inr_iff)
  have "field (dat (dl_dom t) ta) = insert_link syntx f"
    using same_fields_close [OF u] assms(2)
    by (simp add: t focus_in_def same_fields_def edit_in_def upd_field_def dat_upd)
  moreover have "take (selectionStart f) (tvalue f) @ separator f = [] \<or>
     is_white_space (last (take (selectionStart f) (tvalue f) @ separator f))"
    by (auto simp: separator_def Let_def js_def chr16_def is_white_space_def)
  moreover have "separator f = [] \<or> separator f = js '' ''"
    by (simp add: separator_def Let_def)
  moreover note link.before_caret [OF assms(3), of syntx] link.after_caret [OF assms(3), of syntx]
  ultimately show ?thesis by (intro exI [of _ "separator f"] exI [of _ "insert_link syntx f"]) auto
qed

theorem insertExternalLink_separates_witness:
  "\<exists>sep f'. field (dat (dl_dom (final_state (snd (insertExternalLink (js ''[x]'') composer_page)))) 2) = f' \<and>
    (sep = [] \<or> sep = js '' '') \<and>
    take (selectionStart f') (tvalue f') = js ''hi'' @ sep @ js ''[x]''"
  using insertExternalLink_separates [where s = composer_page and ta = 2 and syntx = "js ''[x]''"
      and f = "\<lparr>tvalue = js ''hi'', selectionStart = 2, selectionEnd = 2\<rparr>"
      and t = "focus_in 2 (edit_in 2 (insert_link (js ''[x]'')) composer_page)"]
  by (auto simp: composer_page_facts wf_field_def insertExternalLink_def Let_def take_hi)

section \<open>Open pickers are watched\<close>

datatype picker_event =
    PkToggle jstr
  | PkTimer
  | PkClick node

fun picker_step ::
    "(jstr \<Rightarrow> sel option) \<Rightarrow> (node \<rightharpoonup> node) \<Rightarrow> pickers \<Rightarrow> picker_event \<Rightarrow> pickers" where
  "picker_step parse search s (PkToggle i) = final_state (snd (toggleEmojiPicker parse search i s))"
| "picker_step parse search s PkTimer = picker_timer s"
| "picker_step parse search s (PkClick t) = closeOnClickOutside t s"

definition watched :: "node list \<Rightarrow> pickers \<Rightarrow> bool" where
  "watched ps s \<longleftrightarrow>
     list_all (\<lambda>p. has_class (pk_dom s) p ''-hidden'' \<or> p \<in> set (pk_pending s @ pk_listening s)) ps"

lemma focus_search_classes [simp]:
  "has_class (focus_search f p d) x c = has_class d x c"
  by (auto simp: focus_search_def focus_shadow_def has_class_def split: option.split)

lemma has_class_fold_add:
  "has_class (fold (\<lambda>p. add_class p c) xs d) x k \<longleftrightarrow> (x \<in> set xs \<and> k = c) \<or> has_class d x k"
  by (induction xs arbitrary: d) (auto simp: class_simps)

interpretation picker: machine "picker_step parse search" "watched ps"
proof
  fix s e
  assume inv: "watched ps s"
  show "watched ps (picker_step parse search s e)"
  proof (cases e)
    case (PkToggle i)
    with inv show ?thesis
      by (auto simp: toggleEmojiPicker_def toggle_picker_def watched_def Let_def list_all_iff
          has_class_toggle split: sum.splits option.splits)
  next
    case PkTimer
    with inv show ?thesis by (auto simp: watched_def list_all_iff split: list.splits)
  next
    case (PkClick t)
    with inv show ?thesis
      by (auto simp: closeOnClickOutside_def watched_def Let_def list_all_iff has_class_fold_add)
  qed
qed

text \<open>
  A click outside closes every emoji picker. Start with all pickers hidden; after any sequence of
  toggles, timers and clicks that leaves no registration pending, a click outside all of them hides
  every picker again and leaves none of their listeners registered.
\<close>

theorem click_outside_hides_pickers:
  assumes "list_all (\<lambda>p. has_class (pk_dom s0) p ''-hidden'') ps"
    and "s = foldl (picker_step parse search) s0 es" "pk_pending s = []"
    and "list_all (\<lambda>p. \<not> contains (pk_dom s) p t) ps"
  shows "list_all (\<lambda>p. has_class (pk_dom (closeOnClickOutside t s)) p ''-hidden'' \<and>
    p \<notin> set (pk_listening (closeOnClickOutside t s))) ps"
proof -
  have "watched ps s0" using assms(1) by (auto simp: watched_def list_all_iff)
  then have "watched ps s" unfolding assms(2) by (rule picker.inv_run)
  with assms(3,4) show ?thesis
    by (auto simp: watched_def closeOnClickOutside_def Let_def list_all_iff has_class_fold_add)
qed

definition picker_page :: pickers where
  "picker_page =
     \<lparr>pk_dom = mk_dom (Node 0 [Node 2 [], Node 4 []])
        [(4, (new_element ''DIV'')\<lparr>classList := [''-hidden''], attr := [''id'' \<mapsto> js ''p'']\<rparr>)],
      pk_pending = [], pk_listening = []\<rparr>"

theorem click_outside_hides_pickers_witness:
  "let s = foldl (picker_step (\<lambda>_. None) (\<lambda>_. None)) picker_page [PkToggle (js ''p''), PkTimer]
   in \<not> has_class (pk_dom s) 4 ''-hidden'' \<and> has_class (pk_dom (closeOnClickOutside 2 s)) 4 ''-hidden''"
  using click_outside_hides_pickers [where ps = "[4]" and t = 2 and es = "[PkToggle (js ''p''), PkTimer]"
      and parse = "\<lambda>_. None" and search = "\<lambda>_. None" and ?s0.0 = picker_page, OF _ refl]
  by (simp add: picker_page_def toggleEmojiPicker_def find_picker_def toggle_picker_def focus_search_def
      toggle_class_def Let_def dom_eval)

end
