(* ===== verification/Clipboard.thy ===== *)
theory Clipboard
  imports Dom
begin

text \<open>
  Copying to the clipboard in assets/app.js: \<open>copyIdToClipboard\<close> with \<open>showCopyIdStatus\<close> and its
  timer, and \<open>copyRecoveryPhrase\<close>. Each copy is a fresh state object kept in a WeakMap under its
  element (here a fresh number); the clipboard answers later, and an answer counts only while its copy is
  still the current one of its element. The answer of the clipboard (or its absence) is an event.
\<close>

section \<open>Copies and their tokens\<close>

text \<open>The contract of the two WeakMaps: starting a copy makes it the current one of its element.\<close>

locale latest_wins =
  fixes start :: "'k \<Rightarrow> 's \<Rightarrow> 's"
    and current :: "'s \<Rightarrow> 'k \<rightharpoonup> nat"
    and fresh :: "'s \<Rightarrow> nat"
  assumes current_start: "current (start k s) = (current s)(k \<mapsto> fresh s)"
    and fresh_start: "fresh (start k s) = fresh s + 1"
begin

definition tokens_old :: "'s \<Rightarrow> bool" where
  "tokens_old s \<longleftrightarrow>
     (\<forall>k t. current s k = Some t \<longrightarrow> t < fresh s) \<and>
     (\<forall>k k' t. current s k = Some t \<and> current s k' = Some t \<longrightarrow> k = k')"

lemma tokens_old_start: "tokens_old s \<Longrightarrow> tokens_old (start k s)"
  by (auto simp: tokens_old_def current_start fresh_start less_Suc_eq)

lemma superseded: "t < fresh s \<Longrightarrow> current (start k s) k \<noteq> Some t"
  by (simp add: current_start)

lemma others_kept: "k' \<noteq> k \<Longrightarrow> current (start k s) k' = current s k'"
  by (simp add: current_start)

end

section \<open>Copying an identity\<close>

record copy_timer =
  ct_target :: node
  ct_token :: nat
  ct_status :: node

record copying =
  cp_dom :: dom
  copyIdStates :: "node \<rightharpoonup> nat"
  nextToken :: nat
  awaiting :: "(node \<times> nat) list"
  copy_timers :: "copy_timer list"

definition new_copy :: "node \<Rightarrow> copying \<Rightarrow> copying" where
  "new_copy x s =
     s\<lparr>copyIdStates := (copyIdStates s)(x \<mapsto> nextToken s), nextToken := nextToken s + 1\<rparr>"

text \<open>The status and the timer of the previous copy of the element, if it has shown one, go away.\<close>

definition drop_previous :: "node \<Rightarrow> copying \<Rightarrow> copying" where
  "drop_previous x s =
     (case copyIdStates s x of
        None \<Rightarrow> s
      | Some tok \<Rightarrow>
          s\<lparr>cp_dom := fold (\<lambda>t. remove_node (ct_status t))
                (filter (\<lambda>t. ct_token t = tok) (copy_timers s)) (cp_dom s),
            copy_timers := filter (\<lambda>t. ct_token t \<noteq> tok) (copy_timers s)\<rparr>)"

definition copyIdToClipboard :: "ui_event \<Rightarrow> copying \<Rightarrow> copying" where
  "copyIdToClipboard e s =
     (let x = currentTarget e;
          s1 = new_copy x (drop_previous x s)
      in s1\<lparr>cp_dom := remove_class x ''-active'' (cp_dom s1),
            awaiting := awaiting s1 @ [(x, nextToken s)]\<rparr>)"

definition showCopyIdStatus :: "node \<Rightarrow> nat \<Rightarrow> jstr \<Rightarrow> copying \<Rightarrow> copying" where
  "showCopyIdStatus x tok message s =
     (let (status, d1) = createElement ''SPAN'' (cp_dom s);
          d2 = set_text status message (set_attr status ''role'' (js ''status'')
                 (upd status (\<lambda>e. e\<lparr>classList := [''u-copyStatus'']\<rparr>) d1))
      in s\<lparr>cp_dom := insertAfterEnd x status d2,
           copy_timers := copy_timers s @ [\<lparr>ct_target = x, ct_token = tok, ct_status = status\<rparr>]\<rparr>)"

definition copy_settled :: "bool \<Rightarrow> node \<Rightarrow> nat \<Rightarrow> copying \<Rightarrow> copying" where
  "copy_settled ok x tok s =
     (if copyIdStates s x \<noteq> Some tok then s
      else if ok
      then showCopyIdStatus x tok (js ''Copied RostraId'') (s\<lparr>cp_dom := add_class x ''-active'' (cp_dom s)\<rparr>)
      else showCopyIdStatus x tok (js ''Copy RostraId failed'') s)"

definition copy_timeout :: "copy_timer \<Rightarrow> copying \<Rightarrow> copying" where
  "copy_timeout t s =
     (let s1 = s\<lparr>cp_dom := remove_node (ct_status t) (remove_class (ct_target t) ''-active'' (cp_dom s))\<rparr>
      in if copyIdStates s1 (ct_target t) = Some (ct_token t)
         then s1\<lparr>copyIdStates := (copyIdStates s1)(ct_target t := None)\<rparr> else s1)"

datatype copy_event =
    Copy ui_event
  | Settle bool
  | Timeout

text \<open>The oldest awaited answer arrives; the oldest timer fires.\<close>

fun copy_step :: "copying \<Rightarrow> copy_event \<Rightarrow> copying" where
  "copy_step s (Copy e) = copyIdToClipboard e s"
| "copy_step s (Settle ok) =
     (case awaiting s of [] \<Rightarrow> s | (x, tok) # rest \<Rightarrow> copy_settled ok x tok (s\<lparr>awaiting := rest\<rparr>))"
| "copy_step s Timeout =
     (case copy_timers s of [] \<Rightarrow> s | t # ts \<Rightarrow> copy_timeout t (s\<lparr>copy_timers := ts\<rparr>))"

section \<open>Copying the recovery phrase\<close>

record recovery =
  rc_dom :: dom
  recoveryPhraseCopyStates :: "node \<rightharpoonup> nat"
  rc_next :: nat
  rc_awaiting :: "(node \<times> nat \<times> node \<times> node) list"

definition new_phrase_copy :: "node \<Rightarrow> recovery \<Rightarrow> recovery" where
  "new_phrase_copy b s =
     s\<lparr>recoveryPhraseCopyStates := (recoveryPhraseCopyStates s)(b \<mapsto> rc_next s), rc_next := rc_next s + 1\<rparr>"

definition forget_phrase :: "node \<Rightarrow> recovery \<Rightarrow> recovery" where
  "forget_phrase b s = s\<lparr>recoveryPhraseCopyStates := (recoveryPhraseCopyStates s)(b := None)\<rparr>"

definition phrase_copied :: "node \<Rightarrow> nat \<Rightarrow> node \<Rightarrow> recovery \<Rightarrow> recovery" where
  "phrase_copied b tok status s =
     (if recoveryPhraseCopyStates s b \<noteq> Some tok then s
      else forget_phrase b (s\<lparr>rc_dom := set_text status (js ''Recovery phrase copied.'')
                                (add_class b ''-active'' (rc_dom s))\<rparr>))"

definition select_all :: "textarea \<Rightarrow> textarea" where
  "select_all t = setSelectionRange 0 (length (tvalue t)) t"

definition phrase_failed :: "node \<Rightarrow> nat \<Rightarrow> node \<Rightarrow> node \<Rightarrow> recovery \<Rightarrow> recovery" where
  "phrase_failed b tok fld status s =
     (if recoveryPhraseCopyStates s b \<noteq> Some tok then s
      else forget_phrase b (s\<lparr>rc_dom :=
             set_text status (js ''Copy failed. The recovery phrase is selected; copy it manually.'')
               (upd_field fld select_all (focus fld (rc_dom s)))\<rparr>))"

text \<open>\<open>available\<close>: whether the browser offers a clipboard.\<close>

definition copyRecoveryPhrase :: "bool \<Rightarrow> node \<Rightarrow> recovery \<Rightarrow> recovery" where
  "copyRecoveryPhrase available b s =
     (let d = rc_dom s
      in case closest d (Cls ''m-recoveryPhrase__settingsControl'') b of
           None \<Rightarrow> s
         | Some container \<Rightarrow>
             (case (querySelector d container (Id (js ''recovery-phrase'')),
                    querySelector d container (Cls ''m-recoveryPhrase__status'')) of
                (Some fld, Some status) \<Rightarrow>
                  (let s1 = new_phrase_copy b s;
                       s2 = s1\<lparr>rc_dom := remove_class b ''-active'' (rc_dom s1)\<rparr>
                   in if available then s2\<lparr>rc_awaiting := rc_awaiting s2 @ [(b, rc_next s, fld, status)]\<rparr>
                      else phrase_failed b (rc_next s) fld status s2)
              | _ \<Rightarrow> s))"

definition phrase_settled :: "bool \<Rightarrow> recovery \<Rightarrow> recovery" where
  "phrase_settled ok s =
     (case rc_awaiting s of
        [] \<Rightarrow> s
      | (b, tok, fld, status) # rest \<Rightarrow>
          (let s1 = s\<lparr>rc_awaiting := rest\<rparr>
           in if ok then phrase_copied b tok status s1 else phrase_failed b tok fld status s1))"

interpretation id_copies: latest_wins new_copy copyIdStates nextToken
  by unfold_locales (simp_all add: new_copy_def)

interpretation phrase_copies: latest_wins new_phrase_copy recoveryPhraseCopyStates rc_next
  by unfold_locales (simp_all add: new_phrase_copy_def)

section \<open>Invariant\<close>

text \<open>
  For a set of copy buttons: every running timer belongs to the current copy of its button, there is one
  per button at most, awaited answers and timers belong to different copies, and a highlighted button has
  a timer.
\<close>

definition copy_inv :: "node list \<Rightarrow> copying \<Rightarrow> bool" where
  "copy_inv bs s \<longleftrightarrow>
     (\<forall>t \<in> set (copy_timers s). copyIdStates s (ct_target t) = Some (ct_token t)) \<and>
     distinct (map ct_target (copy_timers s)) \<and>
     id_copies.tokens_old s \<and>
     distinct (map snd (awaiting s)) \<and>
     (\<forall>a \<in> set (awaiting s). snd a < nextToken s \<and> snd a \<notin> ct_token ` set (copy_timers s)) \<and>
     (\<forall>b \<in> set bs. has_class (cp_dom s) b ''-active'' \<longrightarrow> b \<in> ct_target ` set (copy_timers s))"

lemma remove_node_dat [simp]: "dat (remove_node x d) = dat d"
  by (simp add: remove_node_def split: option.split)

lemma has_class_remove_node [simp]: "has_class (remove_node x d) y c = has_class d y c"
  by (simp add: has_class_def)

lemma has_class_remove_nodes [simp]:
  "has_class (fold (\<lambda>t. remove_node (f t)) ts d) y c = has_class d y c"
  by (induction ts arbitrary: d) auto

lemma insertAfterEnd_dat [simp]: "dat (insertAfterEnd r x d) = dat d"
  by (simp add: insertAfterEnd_def attach_def split: list.split option.split)

lemma status_class:
  "has_class (cp_dom (showCopyIdStatus x tok m s)) y ''-active'' \<Longrightarrow> has_class (cp_dom s) y ''-active''"
  by (auto simp: showCopyIdStatus_def createElement_def has_class_def set_text_def set_attr_def dat_upd
      Let_def new_element_def split: if_splits)

lemma status_frame [simp]:
  "copyIdStates (showCopyIdStatus x tok m s) = copyIdStates s"
  "nextToken (showCopyIdStatus x tok m s) = nextToken s"
  "awaiting (showCopyIdStatus x tok m s) = awaiting s"
  "map ct_target (copy_timers (showCopyIdStatus x tok m s)) = map ct_target (copy_timers s) @ [x]"
  "map ct_token (copy_timers (showCopyIdStatus x tok m s)) = map ct_token (copy_timers s) @ [tok]"
  by (simp_all add: showCopyIdStatus_def createElement_def Let_def)

lemma status_timers:
  "t \<in> set (copy_timers (showCopyIdStatus x tok m s)) \<Longrightarrow>
     t \<in> set (copy_timers s) \<or> ct_target t = x \<and> ct_token t = tok"
  by (auto simp: showCopyIdStatus_def createElement_def Let_def)

lemma status_inv:
  assumes inv: "copy_inv bs s" and cur: "copyIdStates s x = Some tok"
    and new: "tok \<notin> ct_token ` set (copy_timers s)" "tok \<notin> snd ` set (awaiting s)"
    and d: "d = cp_dom s \<or> d = add_class x ''-active'' (cp_dom s)"
  shows "copy_inv bs (showCopyIdStatus x tok m (s\<lparr>cp_dom := d\<rparr>))"
proof -
  let ?s = "s\<lparr>cp_dom := d\<rparr>" and ?t = "showCopyIdStatus x tok m (s\<lparr>cp_dom := d\<rparr>)"
  have x: "x \<notin> ct_target ` set (copy_timers s)"
    using inv cur new by (force simp: copy_inv_def)
  have ts: "ct_token ` set (copy_timers ?t) = insert tok (ct_token ` set (copy_timers s))"
    "ct_target ` set (copy_timers ?t) = insert x (ct_target ` set (copy_timers s))"
    by (simp_all add: showCopyIdStatus_def createElement_def Let_def)
  have "b \<in> ct_target ` set (copy_timers ?t)"
    if "b \<in> set bs" "has_class (cp_dom ?t) b ''-active''" for b
    using status_class [OF that(2)] that(1) inv d ts by (auto simp: copy_inv_def class_simps)
  moreover have "copyIdStates s (ct_target t) = Some (ct_token t)" if "t \<in> set (copy_timers ?t)" for t
    using status_timers [OF that] inv cur by (auto simp: copy_inv_def)
  moreover have "id_copies.tokens_old ?t"
    using inv by (simp add: copy_inv_def id_copies.tokens_old_def)
  ultimately show ?thesis
    using inv x new ts unfolding copy_inv_def by auto
qed

lemma copy_inv_drop: "copy_inv bs s \<Longrightarrow> x \<notin> ct_target ` set (copy_timers (drop_previous x s))"
  by (auto simp: copy_inv_def drop_previous_def split: option.splits)

lemma copyIdToClipboard_inv:
  assumes inv: "copy_inv bs s"
  shows "copy_inv bs (copyIdToClipboard e s)"
proof -
  let ?x = "currentTarget e"
  let ?s = "drop_previous ?x s"
  have f: "copyIdStates ?s = copyIdStates s" "nextToken ?s = nextToken s" "awaiting ?s = awaiting s"
    "set (copy_timers ?s) \<subseteq> set (copy_timers s)"
    "\<And>y. has_class (cp_dom ?s) y ''-active'' = has_class (cp_dom s) y ''-active''"
    by (auto simp: drop_previous_def split: option.split)
  have dist: "distinct (map ct_target (copy_timers ?s))"
    using inv by (auto simp: copy_inv_def drop_previous_def distinct_map_filter split: option.split)
  have x: "?x \<notin> ct_target ` set (copy_timers ?s)" by (rule copy_inv_drop [OF inv])
  have keep: "b \<in> ct_target ` set (copy_timers ?s)"
    if "b \<in> ct_target ` set (copy_timers s)" "b \<noteq> ?x" for b
  proof -
    obtain t where t: "t \<in> set (copy_timers s)" "b = ct_target t" using \<open>b \<in> _\<close> by auto
    then have "copyIdStates s b = Some (ct_token t)" using inv by (simp add: copy_inv_def)
    then have "copyIdStates s ?x \<noteq> Some (ct_token t)"
      using inv \<open>b \<noteq> ?x\<close> by (auto simp: copy_inv_def id_copies.tokens_old_def)
    with t show ?thesis by (auto simp: drop_previous_def split: option.split)
  qed
  have tok: "ct_token t < nextToken s" if "t \<in> set (copy_timers ?s)" for t
    using that f(4) inv by (auto simp: copy_inv_def id_copies.tokens_old_def)
  have old: "id_copies.tokens_old (copyIdToClipboard e s)"
  proof -
    have "id_copies.tokens_old ?s" using inv f(1,2) by (simp add: copy_inv_def id_copies.tokens_old_def)
    then have "id_copies.tokens_old (new_copy ?x ?s)" by (rule id_copies.tokens_old_start)
    then show ?thesis by (simp add: copyIdToClipboard_def Let_def id_copies.tokens_old_def)
  qed
  let ?t = "copyIdToClipboard e s"
  have t: "copyIdStates ?t = (copyIdStates s)(?x \<mapsto> nextToken s)" "nextToken ?t = Suc (nextToken s)"
    "awaiting ?t = awaiting s @ [(?x, nextToken s)]" "copy_timers ?t = copy_timers ?s"
    "\<And>y. has_class (cp_dom ?t) y ''-active'' \<longleftrightarrow> y \<noteq> ?x \<and> has_class (cp_dom s) y ''-active''"
    using f by (auto simp: copyIdToClipboard_def Let_def new_copy_def class_simps)
  have cur: "copyIdStates ?t (ct_target u) = Some (ct_token u)" if "u \<in> set (copy_timers ?t)" for u
    using that x f(4) inv by (auto simp: t copy_inv_def image_iff)
  have act: "b \<in> ct_target ` set (copy_timers ?t)"
    if "b \<in> set bs" "has_class (cp_dom ?t) b ''-active''" for b
    using that keep inv by (auto simp: t copy_inv_def)
  have aw: "snd a < nextToken ?t \<and> snd a \<notin> ct_token ` set (copy_timers ?t)" if "a \<in> set (awaiting ?t)" for a
    using that tok f(4) inv by (fastforce simp: t copy_inv_def)
  have "distinct (map snd (awaiting ?t))" using inv by (auto simp: t copy_inv_def)
  then show ?thesis using cur act aw old dist by (simp add: copy_inv_def t(4))
qed

lemma copy_timeout_inv:
  assumes inv: "copy_inv bs s" and ts: "copy_timers s = t # ts"
  shows "copy_inv bs (copy_timeout t (s\<lparr>copy_timers := ts\<rparr>))"
proof -
  have "copyIdStates s (ct_target t) = Some (ct_token t)" using inv ts by (simp add: copy_inv_def)
  then have r: "copyIdStates (copy_timeout t (s\<lparr>copy_timers := ts\<rparr>)) = (copyIdStates s)(ct_target t := None)"
    by (simp add: copy_timeout_def Let_def)
  have c: "has_class (cp_dom (copy_timeout t (s\<lparr>copy_timers := ts\<rparr>))) y ''-active'' \<longleftrightarrow>
      y \<noteq> ct_target t \<and> has_class (cp_dom s) y ''-active''" for y
    by (auto simp: copy_timeout_def Let_def class_simps)
  have f: "copy_timers (copy_timeout t (s\<lparr>copy_timers := ts\<rparr>)) = ts"
    "nextToken (copy_timeout t (s\<lparr>copy_timers := ts\<rparr>)) = nextToken s"
    "awaiting (copy_timeout t (s\<lparr>copy_timers := ts\<rparr>)) = awaiting s"
    by (simp_all add: copy_timeout_def Let_def)
  show ?thesis
    using inv unfolding copy_inv_def id_copies.tokens_old_def r c f ts by (auto simp: image_iff)
qed

interpretation copies: machine copy_step "copy_inv bs"
proof
  fix s e
  assume inv: "copy_inv bs s"
  show "copy_inv bs (copy_step s e)"
  proof (cases e)
    case (Copy k)
    then show ?thesis by (simp add: copyIdToClipboard_inv inv)
  next
    case (Settle ok)
    show ?thesis
    proof (cases "awaiting s")
      case (Cons a rest)
      obtain x tok where a: "a = (x, tok)" by (cases a)
      have "copy_inv bs (s\<lparr>awaiting := rest\<rparr>)" "tok \<notin> ct_token ` set (copy_timers s)" "tok \<notin> snd ` set rest"
        using inv Cons a by (auto simp: copy_inv_def id_copies.tokens_old_def)
      then show ?thesis
        using status_inv [of bs "s\<lparr>awaiting := rest\<rparr>" x tok "cp_dom s"]
          status_inv [of bs "s\<lparr>awaiting := rest\<rparr>" x tok "add_class x ''-active'' (cp_dom s)"]
        by (auto simp: Settle Cons a copy_settled_def)
    qed (simp add: Settle inv)
  next
    case Timeout
    then show ?thesis using inv by (auto split: list.split intro: copy_timeout_inv)
  qed
qed

lemma timeouts_drain: "copy_timers (foldl copy_step s (replicate (length (copy_timers s)) Timeout)) = []"
proof (induction "copy_timers s" arbitrary: s)
  case (Cons t ts)
  have "copy_timers (copy_step s Timeout) = ts"
    using Cons(2) [symmetric] by (simp add: copy_timeout_def Let_def)
  moreover have "length (copy_timers s) = Suc (length ts)" using Cons(2) by (metis length_Cons)
  ultimately show ?case using Cons(1) [of "copy_step s Timeout"] by simp
qed simp

text \<open>
  The feedback of a copy ends. Start with no copy under way; after any sequence of copies, answers
  of the clipboard and timers, every button has at most one running timer, it belongs to the button's
  latest copy, and once the running timers have fired none of the buttons is highlighted.
\<close>

theorem copy_feedback_ends:
  assumes "copy_timers s = []" "awaiting s = []" "copyIdStates s = Map.empty"
    and "list_all (\<lambda>b. \<not> has_class (cp_dom s) b ''-active'') bs"
    and "t = foldl copy_step s es"
  shows "distinct (map ct_target (copy_timers t)) \<and>
    list_all (\<lambda>c. copyIdStates t (ct_target c) = Some (ct_token c)) (copy_timers t) \<and>
    list_all (\<lambda>b. \<not> has_class (cp_dom (foldl copy_step t (replicate (length (copy_timers t)) Timeout))) b ''-active'') bs"
proof -
  have "copy_inv bs s" using assms by (auto simp: copy_inv_def id_copies.tokens_old_def list_all_iff)
  then have t: "copy_inv bs t" unfolding assms(5) by (rule copies.inv_run)
  then have "copy_inv bs (foldl copy_step t (replicate (length (copy_timers t)) Timeout))"
    by (rule copies.inv_run)
  with t timeouts_drain [of t] show ?thesis by (auto simp: copy_inv_def list_all_iff)
qed

definition copy_page :: copying where
  "copy_page = \<lparr>cp_dom = mk_dom (Node 0 [Node 2 []]) [], copyIdStates = Map.empty, nextToken = 0,
     awaiting = [], copy_timers = []\<rparr>"

theorem copy_feedback_ends_witness:
  "let t = foldl copy_step copy_page [Copy (plain_event\<lparr>currentTarget := 2\<rparr>), Settle True]
   in has_class (cp_dom t) 2 ''-active'' \<and>
      \<not> has_class (cp_dom (foldl copy_step t (replicate (length (copy_timers t)) Timeout))) 2 ''-active''"
proof -
  let ?t = "foldl copy_step copy_page [Copy (plain_event\<lparr>currentTarget := 2\<rparr>), Settle True]"
  have "has_class (cp_dom ?t) 2 ''-active''"
    by (simp add: copy_page_def copyIdToClipboard_def drop_previous_def new_copy_def copy_settled_def
        showCopyIdStatus_def createElement_def insertAfterEnd_def attach_def Let_def dom_eval)
  moreover have "list_all (\<lambda>b. \<not> has_class (cp_dom copy_page) b ''-active'') [2]"
    by (simp add: copy_page_def dom_eval)
  ultimately show ?thesis
    using copy_feedback_ends [of copy_page "[2]" ?t, OF _ _ _ _ refl] by (simp add: copy_page_def Let_def)
qed

end
