(* ===== verification/PersonaTags.thy ===== *)
theory PersonaTags
  imports Dom
begin

text \<open>
  The persona tag multi-select of assets/app.js: initialisation, the placement of the drop-down, the
  label, cycling with arrow and j/k keys in the preview dialog, adding a tag from the input, and closing
  on a click outside. Layout arithmetic is over rationals; \<open>num\<close> prints a number as the script does,
  \<open>lower\<close> is \<open>toLowerCase\<close>, and \<open>parse_html\<close> is the browser's reading of the markup assigned to
  \<open>innerHTML\<close>.
\<close>

section \<open>Label and initialisation\<close>

definition checkbox_sel :: sel where
  "checkbox_sel = SAnd (Tag ''INPUT'') (AttrEq ''type'' (js ''checkbox''))"

definition checkbox_value :: "dom \<Rightarrow> node \<Rightarrow> jstr" where
  "checkbox_value d x = (case attr (dat d x) ''value'' of None \<Rightarrow> js ''on'' | Some v \<Rightarrow> v)"

definition tag_label :: "dom \<Rightarrow> node \<Rightarrow> jstr" where
  "tag_label d widget =
     (let boxes = map (checkbox_value d) (querySelectorAll d widget (SAnd checkbox_sel IsChecked));
          emptyLabel = (case attr (dat d widget) ''data-empty-label'' of
                          None \<Rightarrow> js ''Select tags'' | Some l \<Rightarrow> if l = [] then js ''Select tags'' else l)
      in if boxes \<noteq> [] then join (js '', '') boxes else emptyLabel)"

definition updatePersonaTagSelectLabel :: "node \<Rightarrow> dom \<Rightarrow> dom outcome" where
  "updatePersonaTagSelectLabel widget d =
     (case querySelector d widget (Cls ''m-personaTagSelect__toggleLabel'') of
        None \<Rightarrow> Inl (TypeError, d)
      | Some label \<Rightarrow> Inr (set_text label (tag_label d widget) d))"

definition widget_sel :: sel where
  "widget_sel = Cls ''m-personaTagSelect''"

definition personaTagSelectChanged :: "node \<Rightarrow> dom \<Rightarrow> dom outcome" where
  "personaTagSelectChanged checkbox d =
     (case closest d widget_sel checkbox of
        None \<Rightarrow> Inl (TypeError, d)
      | Some widget \<Rightarrow> updatePersonaTagSelectLabel widget d)"

definition init_widget :: "node \<Rightarrow> dom \<Rightarrow> dom outcome" where
  "init_widget el d =
     and_then (updatePersonaTagSelectLabel el (add_class el ''-initialized'' d)) (\<lambda>d.
       case querySelector d el (SAnd (Cls ''m-personaTagSelect__toggle'') (HasAttr ''tabindex'')) of
         None \<Rightarrow> Inr d
       | Some toggle \<Rightarrow>
           if closest d (SAnd (Tag ''DIALOG'') (Cls ''o-previewDialog'')) el = None
           then Inr (focus toggle d) else Inr d)"

fun each :: "('a \<Rightarrow> 's \<Rightarrow> 's outcome) \<Rightarrow> 'a list \<Rightarrow> 's \<Rightarrow> 's outcome" where
  "each f [] s = Inr s"
| "each f (x # xs) s = and_then (f x s) (each f xs)"

definition initPersonaTagSelects :: "dom \<Rightarrow> dom outcome" where
  "initPersonaTagSelects d =
     each init_widget (doc_querySelectorAll d (SAnd widget_sel (SNot (Cls ''-initialized'')))) d"

section \<open>Placing the drop-down\<close>

record placement =
  openAbove :: bool
  placeLeft :: rat
  placeWidth :: rat
  placeHeight :: rat

definition viewportMargin :: rat where
  "viewportMargin = 8"

definition availableBelow :: "rect \<Rightarrow> rat \<Rightarrow> rat" where
  "availableBelow r vh = vh - bottom r - viewportMargin"

definition availableAbove :: "rect \<Rightarrow> rat" where
  "availableAbove r = top r - viewportMargin"

definition place :: "rect \<Rightarrow> rat \<Rightarrow> rat \<Rightarrow> rat \<Rightarrow> placement" where
  "place r vh vw scrollHeight =
     (let below = availableBelow r vh; above = availableAbove r;
          preferredHeight = min scrollHeight 200;
          up = (below < preferredHeight \<and> below < above);
          availableHeight = (if up then above else below);
          w = min (max (width r) 160) (vw - 2 * viewportMargin)
      in \<lparr>openAbove = up, placeLeft = max viewportMargin (min (left r) (vw - w - viewportMargin)),
          placeWidth = w, placeHeight = max (min availableHeight 200) 0\<rparr>)"

definition apply_placement :: "(rat \<Rightarrow> jstr) \<Rightarrow> rect \<Rightarrow> rat \<Rightarrow> placement \<Rightarrow> node \<Rightarrow> dom \<Rightarrow> dom" where
  "apply_placement num r vh p x d =
     (let pixels = (\<lambda>q. num q @ js ''px'');
          d1 = set_style x ''top'' (if openAbove p then js ''auto'' else pixels (bottom r)) d;
          d2 = set_style x ''bottom'' (if openAbove p then pixels (vh - top r) else js ''auto'') d1;
          d3 = set_style x ''left'' (pixels (placeLeft p)) d2;
          d4 = set_style x ''width'' (pixels (placeWidth p)) d3
      in set_style x ''maxHeight'' (pixels (placeHeight p)) d4)"

definition personaTagSelectToggle ::
    "(rat \<Rightarrow> jstr) \<Rightarrow> (node \<Rightarrow> rat) \<Rightarrow> node \<Rightarrow> dom \<Rightarrow> dom outcome" where
  "personaTagSelectToggle num scrollHeight toggleEl d =
     (case closest d widget_sel toggleEl of
        None \<Rightarrow> Inl (TypeError, d)
      | Some widget \<Rightarrow>
          (let wasOpen = has_class d widget ''-open''; d1 = toggle_class widget ''-open'' d
           in if wasOpen then Inr d1
              else (case querySelector d1 widget (Cls ''m-personaTagSelect__dropdown'') of
                      None \<Rightarrow> Inl (TypeError, d1)
                    | Some dropdown \<Rightarrow>
                        (let r = rects d1 toggleEl
                         in Inr (apply_placement num r (innerHeight d1)
                              (place r (innerHeight d1) (innerWidth d1) (scrollHeight dropdown)) dropdown d1)))))"

section \<open>Cycling\<close>

definition is_down :: "ui_event \<Rightarrow> bool" where
  "is_down e \<longleftrightarrow> key e = js ''ArrowDown'' \<or> key e = js ''j''"

definition is_up :: "ui_event \<Rightarrow> bool" where
  "is_up e \<longleftrightarrow> key e = js ''ArrowUp'' \<or> key e = js ''k''"

definition first_checked :: "dom \<Rightarrow> node list \<Rightarrow> nat option" where
  "first_checked d boxes = List.find (\<lambda>i. checked (dat d (boxes ! i))) [0..<length boxes]"

definition next_index :: "bool \<Rightarrow> nat \<Rightarrow> nat option \<Rightarrow> nat" where
  "next_index down n i =
     (case i of None \<Rightarrow> if down then 0 else n - 1
      | Some i \<Rightarrow> nat ((int i + (if down then 1 else -1) + int n) mod int n))"

definition check_only :: "node list \<Rightarrow> nat \<Rightarrow> dom \<Rightarrow> dom" where
  "check_only boxes k d = set_checked (boxes ! k) True (fold (\<lambda>b. set_checked b False) boxes d)"

definition active_preview_sel :: sel where
  "active_preview_sel = SAnd (Cls ''o-previewDialog'') (Cls ''-active'')"

definition active_widget :: "dom \<Rightarrow> node option" where
  "active_widget d =
     Option.bind (doc_querySelector d active_preview_sel) (\<lambda>dialog. querySelector d dialog widget_sel)"

definition persona_keydown :: "ui_event \<Rightarrow> dom \<Rightarrow> effect list \<times> dom outcome" where
  "persona_keydown e d =
     (if \<not> is_down e \<and> \<not> is_up e then ([], Inr d)
      else if isTextInputFocused d then ([], Inr d)
      else (case active_widget d of
              None \<Rightarrow> ([], Inr d)
            | Some widget \<Rightarrow>
                (let boxes = querySelectorAll d widget checkbox_sel
                 in if boxes = [] then ([], Inr d)
                    else ([PreventDefault],
                          updatePersonaTagSelectLabel widget
                            (check_only boxes
                               (next_index (is_down e) (length boxes) (first_checked d boxes)) d)))))"

section \<open>Adding a tag\<close>

definition option_markup :: "jstr \<Rightarrow> jstr \<Rightarrow> jstr" where
  "option_markup name tag =
     js ''<input type=\"checkbox\" name=\"'' @ name @ js ''\" value=\"'' @ tag @
     js ''\" checked onchange=\"personaTagSelectChanged(this)\"><span>'' @ tag @ js ''</span>''"

text \<open>A label with the parsed option as its children, appended to the options.\<close>

definition append_option :: "markup list \<Rightarrow> node \<Rightarrow> dom \<Rightarrow> dom" where
  "append_option ms options d =
     (let (label, d1) = createElement ''LABEL'' d;
          d2 = upd label (\<lambda>e. e\<lparr>classList := [''m-personaTagSelect__option'']\<rparr>) d1
      in appendChild options label (fill_loose ms label d2))"

definition tag_name :: "dom \<Rightarrow> node \<Rightarrow> jstr" where
  "tag_name d widget =
     (case Option.bind (querySelector d widget checkbox_sel) (\<lambda>x. attr (dat d x) ''name'') of
        None \<Rightarrow> js ''persona_tags'' | Some n \<Rightarrow> if n = [] then js ''persona_tags'' else n)"

definition existing_sel :: "jstr \<Rightarrow> sel" where
  "existing_sel tag = SAnd checkbox_sel (AttrEq ''value'' tag)"

definition add_tag :: "(jstr \<Rightarrow> markup list) \<Rightarrow> jstr \<Rightarrow> node \<Rightarrow> dom \<Rightarrow> dom outcome" where
  "add_tag parse_html tag widget d =
     (case querySelector d widget (existing_sel tag) of
        Some box \<Rightarrow> Inr (set_checked box True d)
      | None \<Rightarrow>
          (case querySelector d widget (Cls ''m-personaTagSelect__options'') of
             None \<Rightarrow> Inl (TypeError, d)
           | Some options \<Rightarrow>
               Inr (append_option (parse_html (option_markup (tag_name d widget) tag)) options d)))"

definition personaTagSelectAddFromInput ::
    "(jstr \<Rightarrow> jstr) \<Rightarrow> (jstr \<Rightarrow> markup list) \<Rightarrow> node \<Rightarrow> dom \<Rightarrow> dom outcome" where
  "personaTagSelectAddFromInput lower parse_html input d =
     (let tag = lower (trim (tvalue (field (dat d input))))
      in if tag = [] \<or> length tag > 32 then Inr d
         else (case closest d widget_sel input of
                 None \<Rightarrow> Inl (TypeError, d)
               | Some widget \<Rightarrow>
                   and_then (add_tag parse_html tag widget d)
                     (\<lambda>d. updatePersonaTagSelectLabel widget (upd_field input (set_value []) d))))"

definition add_input_sel :: sel where
  "add_input_sel = Cls ''m-personaTagSelect__addInput''"

definition persona_enter ::
    "(jstr \<Rightarrow> jstr) \<Rightarrow> (jstr \<Rightarrow> markup list) \<Rightarrow> ui_event \<Rightarrow> dom \<Rightarrow> effect list \<times> dom outcome" where
  "persona_enter lower parse_html e d =
     (if key e = js ''Enter'' \<and> matches d add_input_sel (target e)
      then ([PreventDefault], personaTagSelectAddFromInput lower parse_html (target e) d)
      else ([], Inr d))"

definition persona_focusout ::
    "(jstr \<Rightarrow> jstr) \<Rightarrow> (jstr \<Rightarrow> markup list) \<Rightarrow> ui_event \<Rightarrow> dom \<Rightarrow> dom outcome" where
  "persona_focusout lower parse_html e d =
     (if matches d add_input_sel (target e)
      then personaTagSelectAddFromInput lower parse_html (target e) d else Inr d)"

definition persona_click :: "ui_event \<Rightarrow> dom \<Rightarrow> dom" where
  "persona_click e d =
     fold (\<lambda>el. remove_class el ''-open'')
       (filter (\<lambda>el. \<not> contains d el (target e))
          (doc_querySelectorAll d (SAnd widget_sel (Cls ''-open'')))) d"

section \<open>Laws\<close>

subsection \<open>Cycling\<close>

text \<open>The situation in which the arrow keys act on a widget with the given boxes and label.\<close>

definition cycle_ready :: "node \<Rightarrow> node list \<Rightarrow> node \<Rightarrow> dom \<Rightarrow> bool" where
  "cycle_ready w boxes label d \<longleftrightarrow>
     \<not> isTextInputFocused d \<and> active_widget d = Some w \<and> querySelectorAll d w checkbox_sel = boxes \<and>
     boxes \<noteq> [] \<and> distinct boxes \<and>
     querySelector d w (Cls ''m-personaTagSelect__toggleLabel'') = Some label"

lemma checkbox_reads [simp]:
  "sel_classes checkbox_sel = []" "sel_attrs checkbox_sel = [''type'']" "sel_checked checkbox_sel = False"
  by (simp_all add: checkbox_sel_def)

lemma focused_other_ops [simp]:
  "isTextInputFocused (set_text x t d) = isTextInputFocused d"
  "isTextInputFocused (set_checked x b d) = isTextInputFocused d"
  by (auto simp: isTextInputFocused_def activeElementDeep_def set_text_def set_checked_def dat_upd
      split: option.split)

lemma agree_all_reads:
  assumes "agree [''o-previewDialog'', ''-active'', ''m-personaTagSelect'',
      ''m-personaTagSelect__toggleLabel''] [''type''] False d e"
    and "isTextInputFocused d = isTextInputFocused e"
  shows "cycle_ready w boxes label d = cycle_ready w boxes label e"
proof -
  have "active_widget d = active_widget e"
    unfolding active_widget_def
    using queries_agree(3) [of active_preview_sel d e] queries_agree(4) [of widget_sel d e]
      agree_mono [OF assms(1)]
    by (simp add: active_preview_sel_def widget_sel_def)
  moreover have "querySelectorAll d w checkbox_sel = querySelectorAll e w checkbox_sel"
    using queries_agree(2) [of checkbox_sel d e] agree_mono [OF assms(1)] by simp
  moreover have "querySelector d w (Cls ''m-personaTagSelect__toggleLabel'') =
      querySelector e w (Cls ''m-personaTagSelect__toggleLabel'')"
    using queries_agree(4) [of "Cls ''m-personaTagSelect__toggleLabel''" d e] agree_mono [OF assms(1)] by simp
  ultimately show ?thesis using assms(2) by (simp add: cycle_ready_def)
qed

lemma cycle_ready_ops [simp]:
  "cycle_ready w boxes label (set_text x t d) = cycle_ready w boxes label d"
  "cycle_ready w boxes label (set_checked x b d) = cycle_ready w boxes label d"
  by (rule agree_all_reads; simp)+

lemma dat_set_checked [simp]:
  "checked (dat (set_checked x b d) y) = (if y = x then b else checked (dat d y))"
  "attr (dat (set_checked x b d) y) = attr (dat d y)"
  by (simp_all add: set_checked_def dat_upd)

lemma dat_set_text [simp]:
  "checked (dat (set_text x t d) y) = checked (dat d y)" "attr (dat (set_text x t d) y) = attr (dat d y)"
  by (simp_all add: set_text_def dat_upd)

lemma fold_set_checked:
  "cycle_ready w boxes label (fold (\<lambda>b. set_checked b v) bs d) = cycle_ready w boxes label d"
  "checked (dat (fold (\<lambda>b. set_checked b v) bs d) y) = (if y \<in> set bs then v else checked (dat d y))"
  "attr (dat (fold (\<lambda>b. set_checked b v) bs d) y) = attr (dat d y)"
  by (induction bs arbitrary: d) auto

lemma check_only_laws:
  "cycle_ready w boxes label (check_only bs k d) = cycle_ready w boxes label d"
  "checked (dat (check_only bs k d) y) = (if y = bs ! k then True else if y \<in> set bs then False else checked (dat d y))"
  "attr (dat (check_only bs k d) y) = attr (dat d y)"
  by (simp_all add: check_only_def fold_set_checked)

lemma filter_only: "distinct xs \<Longrightarrow> k < length xs \<Longrightarrow> filter (\<lambda>y. y = xs ! k) xs = [xs ! k]"
proof (induction xs arbitrary: k)
  case (Cons x xs)
  then show ?case by (cases k) (auto simp: filter_empty_conv)
qed simp

lemma tag_label_only:
  assumes "cycle_ready w boxes label d" "k < length boxes"
    and "\<And>y. y \<in> set boxes \<Longrightarrow> checked (dat d y) \<longleftrightarrow> y = boxes ! k"
  shows "tag_label d w = checkbox_value d (boxes ! k)"
proof -
  have "querySelectorAll d w (SAnd checkbox_sel IsChecked) =
      filter (\<lambda>y. checked (dat d y)) (querySelectorAll d w checkbox_sel)"
    by (auto simp: querySelectorAll_def intro: filter_cong)
  also have "\<dots> = filter (\<lambda>y. y = boxes ! k) boxes"
    using assms by (auto simp: cycle_ready_def intro: filter_cong)
  also have "\<dots> = [boxes ! k]" using assms by (intro filter_only) (auto simp: cycle_ready_def)
  finally show ?thesis by (simp add: tag_label_def)
qed

lemma first_checked_only:
  assumes "distinct boxes" "k < length boxes"
    and "\<And>y. y \<in> set boxes \<Longrightarrow> checked (dat d y) \<longleftrightarrow> y = boxes ! k"
  shows "first_checked d boxes = Some k"
  unfolding first_checked_def find_Some_iff
  using assms by (intro exI [of _ k]) (auto simp: nth_eq_iff_index_eq)

lemma next_index_less: "n > 0 \<Longrightarrow> next_index down n i < n"
  by (auto simp: next_index_def split: option.split)
     (simp_all add: nat_less_iff)

text \<open>One key press.\<close>

lemma persona_keydown_step:
  assumes "cycle_ready w boxes label d" "is_down e \<or> is_up e"
    and "k = next_index (is_down e) (length boxes) (first_checked d boxes)"
  shows "\<exists>d'. persona_keydown e d = ([PreventDefault], Inr d') \<and> cycle_ready w boxes label d' \<and>
    (\<forall>y \<in> set boxes. checked (dat d' y) \<longleftrightarrow> y = boxes ! k) \<and> first_checked d' boxes = Some k \<and>
    textContent (dat d' label) = checkbox_value d (boxes ! k) \<and> checkbox_value d' = checkbox_value d"
proof -
  have k: "k < length boxes" using assms(1,3) by (simp add: cycle_ready_def next_index_less)
  let ?c = "check_only boxes k d" and ?d = "set_text label (tag_label (check_only boxes k d) w) (check_only boxes k d)"
  have ready: "cycle_ready w boxes label ?c" using assms(1) by (simp add: check_only_laws)
  then have "persona_keydown e d = ([PreventDefault], Inr ?d)"
    using assms by (auto simp: persona_keydown_def cycle_ready_def updatePersonaTagSelectLabel_def Let_def)
  moreover have ch: "y \<in> set boxes \<Longrightarrow> checked (dat ?c y) \<longleftrightarrow> y = boxes ! k" for y
    by (simp add: check_only_laws)
  moreover have "checked (dat ?d y) = checked (dat ?c y)" for y by simp
  moreover have "textContent (dat ?d label) = checkbox_value d (boxes ! k)"
    by (simp add: set_text_def dat_upd tag_label_only [OF ready k ch] checkbox_value_def check_only_laws)
  moreover have "first_checked ?d boxes = Some k"
    using assms(1) k ch calculation(3) by (intro first_checked_only) (auto simp: cycle_ready_def)
  moreover have "checkbox_value ?d = checkbox_value d"
    by (simp add: checkbox_value_def check_only_laws fun_eq_iff)
  ultimately show ?thesis using ready by (intro exI [of _ ?d]) auto
qed

lemma next_index_down: "n > 0 \<Longrightarrow> next_index True n (Some j) = (j + 1) mod n"
  by (simp add: next_index_def nat_mod_as_int) (metis of_nat_Suc add.commute)

text \<open>
  The arrow keys cycle through the tags. In the active preview dialog, with no text input focused
  and the tag i the first one checked, m > 0 presses of a downward key leave exactly the tag
  (i + m) mod n checked and its name as the label of the widget.
\<close>

theorem persona_keys_cycle:
  assumes "cycle_ready w boxes label d" "is_down e" "first_checked d boxes = Some i" "i < length boxes"
    and "press = (\<lambda>d. final_state (snd (persona_keydown e d)))" "0 < m"
  shows "let d' = (press ^^ m) d; k = (i + m) mod length boxes
    in filter (\<lambda>y. checked (dat d' y)) boxes = [boxes ! k] \<and>
       textContent (dat d' label) = checkbox_value d' (boxes ! k)"
proof -
  let ?n = "length boxes"
  have n: "?n > 0" using assms(4) by auto
  have "cycle_ready w boxes label ((press ^^ j) d) \<and> first_checked ((press ^^ j) d) boxes = Some ((i + j) mod ?n)"
    for j
  proof (induction j)
    case 0
    then show ?case using assms by simp
  next
    case (Suc j)
    with persona_keydown_step [of w boxes label "(press ^^ j) d" e, OF _ _ refl] assms(2,5) n
    show ?case by (auto simp: next_index_down mod_Suc_eq)
  qed
  note inv = this
  obtain j where m: "m = Suc j" using assms(6) by (cases m) auto
  let ?k = "(i + m) mod ?n"
  have k: "?k < ?n" using n by simp
  obtain d' where d': "persona_keydown e ((press ^^ j) d) = ([PreventDefault], Inr d')"
    "\<forall>y \<in> set boxes. checked (dat d' y) \<longleftrightarrow> y = boxes ! ?k"
    "textContent (dat d' label) = checkbox_value d' (boxes ! ?k)"
    using persona_keydown_step [of w boxes label "(press ^^ j) d" e, OF _ _ refl] inv [of j] assms(2) n
    by (auto simp: m next_index_down mod_Suc_eq)
  have "filter (\<lambda>y. checked (dat d' y)) boxes = filter (\<lambda>y. y = boxes ! ?k) boxes"
    using d'(2) by (intro filter_cong) auto
  also have "\<dots> = [boxes ! ?k]" using assms(1) k by (intro filter_only) (auto simp: cycle_ready_def)
  finally show ?thesis using d' by (simp add: m assms(5))
qed

definition tag_page :: dom where
  "tag_page =
     (let box = (\<lambda>v c. (new_element ''INPUT'')\<lparr>attr := [''type'' \<mapsto> js ''checkbox'', ''value'' \<mapsto> js v], checked := c\<rparr>)
      in mk_dom (Node 0 [Node 2 [Node 3 [Node 4 [], Node 5 [], Node 6 []]]])
           [(2, (new_element ''DIALOG'')\<lparr>classList := [''o-previewDialog'', ''-active'']\<rparr>),
            (3, (new_element ''DIV'')\<lparr>classList := [''m-personaTagSelect'']\<rparr>),
            (4, (new_element ''SPAN'')\<lparr>classList := [''m-personaTagSelect__toggleLabel'']\<rparr>),
            (5, box ''work'' False), (6, box ''home'' True)])"

lemma tag_page_facts:
  "cycle_ready 3 [5, 6] 4 tag_page" "first_checked tag_page [5, 6] = Some 1"
  by (simp_all add: cycle_ready_def tag_page_def active_widget_def active_preview_sel_def widget_sel_def
      checkbox_sel_def isTextInputFocused_def activeElementDeep_def first_checked_def Let_def dom_eval)

theorem persona_keys_cycle_witness:
  "let d' = ((\<lambda>d. final_state (snd (persona_keydown (plain_event\<lparr>key := js ''j''\<rparr>) d))) ^^ 3) tag_page
   in filter (\<lambda>y. checked (dat d' y)) [5, 6] = [5]"
  using persona_keys_cycle [OF tag_page_facts(1) _ tag_page_facts(2) _ refl, where m = 3
      and e = "plain_event\<lparr>key := js ''j''\<rparr>"]
  by (simp add: is_down_def Let_def flip: numeral_2_eq_2)

subsection \<open>Placement\<close>

text \<open>
  The drop-down stays in the window. Whatever the geometry, it keeps the margin on both sides, its
  height is between 0 and 200, it ends before the margin on the side it opens to (or has no height), and
  it gets its preferred height whenever one of the two sides offers it, else what the roomier side
  offers.
\<close>

theorem dropdown_in_viewport:
  "let p = place r vh vw sh; above = availableAbove r; below = availableBelow r vh;
       room = (if openAbove p then above else below)
   in 8 \<le> placeLeft p \<and> placeLeft p + placeWidth p \<le> vw - 8 \<and> 0 \<le> placeHeight p \<and> placeHeight p \<le> 200 \<and>
      (placeHeight p = 0 \<or>
       (if openAbove p then 8 \<le> top r - placeHeight p else bottom r + placeHeight p \<le> vh - 8)) \<and>
      min (min sh 200) (max above below) \<le> placeHeight p \<and> min (min sh 200) (max above below) \<le> max 0 room"
  by (auto simp: place_def availableAbove_def availableBelow_def viewportMargin_def Let_def min_def max_def)

subsection \<open>Adding a tag\<close>

text \<open>
  The text of a tag becomes markup. \<open>option_markup\<close> puts the tag between quotes and between
  tags as it is, so a short tag can close the attribute or bring an element of its own into the page.
\<close>

theorem tag_becomes_markup:
  "let tag = js ''<img src=x onerror=alert(1)>''
   in length tag \<le> 32 \<and>
      option_markup (js ''persona_tags'') tag =
        js ''<input type=\"checkbox\" name=\"persona_tags\" value=\"<img src=x onerror=alert(1)>\" checked onchange=\"personaTagSelectChanged(this)\"><span><img src=x onerror=alert(1)></span>'' \<and>
      option_markup (js ''persona_tags'') (js ''a\" disabled x=\"'') =
        js ''<input type=\"checkbox\" name=\"persona_tags\" value=\"a\" disabled x=\"\" checked onchange=\"personaTagSelectChanged(this)\"><span>a\" disabled x=\"</span>''"
  by (simp add: option_markup_def Let_def flip: js_append)

end
