(* ===== verification/Shortcuts.thy ===== *)
theory Shortcuts
  imports Dialogs
begin

text \<open>
  The keyboard shortcut help of assets/app.js (\<open>createDialog\<close>, \<open>close\<close>, \<open>toggle\<close>, its
  keydown and close listeners), the Escape handler of the composer and reply fields, and
  \<open>applyAriaKeyShortcuts\<close>. The \<open>close\<close> event of the dialog is delivered after \<open>close()\<close>, as an
  event of its own.
\<close>

section \<open>The help dialog\<close>

record help_state =
  sc_dom :: dom
  sc_dialog :: "node option"
  previousFocus :: "node option"
  sc_closing :: nat

definition shortcuts :: "(jstr \<times> jstr) list" where
  "shortcuts =
     [(js ''j / '' @ [0x2193], js ''Next post''),
      (js ''k / '' @ [0x2191], js ''Previous post''),
      (js ''l / '' @ [0x2192], js ''Expand replies''),
      (js ''Enter'', js ''Open post''),
      (js ''r'', js ''Reply to post''),
      (js ''h / '' @ [0x2190], js ''Go back''),
      (js ''n'', js ''New post''),
      (js ''1-5'', js ''Switch tab''),
      (js ''q'', js ''Home''),
      (js ''Ctrl+Enter'', js ''Preview / submit''),
      (js ''Ctrl+Shift+Enter'', js ''Publish from preview''),
      (js ''Esc'', js ''Close / unfocus / cancel''),
      (js ''?'', js ''Show this help'')]"

definition help_row :: "jstr \<times> jstr \<Rightarrow> markup" where
  "help_row kd =
     Elem ''DIV'' [''o-shortcutsDialog__row''] []
       [Elem ''KBD'' [''o-shortcutsDialog__key''] [] [Chars (fst kd)],
        Elem ''SPAN'' [''o-shortcutsDialog__desc''] [] [Chars (snd kd)]]"

definition help_title :: markup where
  "help_title =
     Elem ''H4'' [''o-shortcutsDialog__title''] [(''id'', js ''shortcuts-dialog-title''), (''tabindex'', js ''-1'')]
       [Chars (js ''Keyboard Shortcuts'')]"

definition help_markup :: markup where
  "help_markup =
     Elem ''DIV'' [''o-shortcutsDialog__content''] []
       ([help_title] @ map help_row shortcuts @
        [Elem ''BUTTON'' [''o-shortcutsDialog__closeButton''] [(''type'', js ''button'')] [Chars (js ''Close'')]])"

definition createDialog :: "help_state \<Rightarrow> help_state" where
  "createDialog s =
     (let (x, d1) = createElement ''DIALOG'' (sc_dom s);
          d2 = set_attr x ''aria-labelledby'' (js ''shortcuts-dialog-title'')
                 (upd x (\<lambda>e. e\<lparr>classList := [''o-shortcutsDialog'']\<rparr>) d1)
      in s\<lparr>sc_dom := appendChild (body d2) x (fill_loose [help_markup] x d2), sc_dialog := Some x\<rparr>)"

definition close_help :: "help_state \<Rightarrow> help_state" where
  "close_help s =
     (case sc_dialog s of
        None \<Rightarrow> s
      | Some x \<Rightarrow>
          if is_open (sc_dom s) x
          then s\<lparr>sc_dom := close_dialog x (sc_dom s), sc_closing := sc_closing s + 1\<rparr> else s)"

definition focus_title :: "node \<Rightarrow> dom \<Rightarrow> dom outcome" where
  "focus_title x d =
     (case querySelector d x (Cls ''o-shortcutsDialog__title'') of
        None \<Rightarrow> Inl (TypeError, d) | Some t \<Rightarrow> Inr (focus t d))"

definition open_help :: "node \<Rightarrow> help_state \<Rightarrow> help_state outcome" where
  "open_help x s =
     (let d = showModal x (add_class x ''-active'' (sc_dom s));
          s1 = s\<lparr>previousFocus := activeElement (sc_dom s)\<rparr>
      in map_sum (\<lambda>(er, d'). (er, s1\<lparr>sc_dom := d'\<rparr>)) (\<lambda>d'. s1\<lparr>sc_dom := d'\<rparr>) (focus_title x d))"

definition toggle :: "help_state \<Rightarrow> help_state outcome" where
  "toggle s0 =
     (let s = (if sc_dialog s0 = None then createDialog s0 else s0)
      in case sc_dialog s of
           None \<Rightarrow> Inr s
         | Some x \<Rightarrow> if is_open (sc_dom s) x then Inr (close_help s) else open_help x s)"

text \<open>The listener for the dialog's \<open>close\<close> event.\<close>

definition on_help_close :: "help_state \<Rightarrow> help_state" where
  "on_help_close s =
     (case sc_dialog s of
        None \<Rightarrow> s
      | Some x \<Rightarrow>
          (let d = remove_class x ''-active'' (sc_dom s);
               s1 = s\<lparr>sc_dom := d, sc_closing := sc_closing s - 1\<rparr>
           in case previousFocus s of
                None \<Rightarrow> s1
              | Some p \<Rightarrow> if isConnected d p then s1\<lparr>sc_dom := focus p d\<rparr> else s1))"

definition any_dialog_sel :: sel where
  "any_dialog_sel = SAnd (Tag ''DIALOG'') (HasAttr ''open'')"

definition help_is_open :: "help_state \<Rightarrow> bool" where
  "help_is_open s = (case sc_dialog s of None \<Rightarrow> False | Some x \<Rightarrow> is_open (sc_dom s) x)"

definition help_keydown :: "ui_event \<Rightarrow> help_state \<Rightarrow> effect list \<times> help_state outcome" where
  "help_keydown e s =
     (if key e = js ''Escape'' \<and> help_is_open s then ([PreventDefault], Inr (close_help s))
      else if key e = js ''?'' \<and> \<not> isTextInputFocused (sc_dom s) \<and>
              doc_querySelector (sc_dom s) any_dialog_sel = None
      then ([PreventDefault], toggle s) else ([], Inr s))"

section \<open>Escape in the text fields\<close>

text \<open>\<open>el.blur()\<close> gives the focus to the body.\<close>

definition blur :: "dom \<Rightarrow> dom" where
  "blur d = d\<lparr>activeElement := Some (body d)\<rparr>"

definition escape_keydown :: "ui_event \<Rightarrow> dom \<Rightarrow> effect list \<times> dom" where
  "escape_keydown e d =
     (if key e \<noteq> js ''Escape'' then ([], d)
      else (case activeElement d of
              None \<Rightarrow> ([], d)
            | Some el \<Rightarrow>
                if tagName (dat d el) \<noteq> ''TEXTAREA'' then ([], d)
                else if has_class d el ''m-inlineReply__content''
                then (PreventDefault #
                        (case closest d (Cls ''m-inlineReply'') el of
                           None \<Rightarrow> []
                         | Some reply \<Rightarrow>
                             (case querySelector d reply (Cls ''m-inlineReply__cancelButton'') of
                                None \<Rightarrow> [] | Some btn \<Rightarrow> [Click btn])), d)
                else if has_class d el ''m-newPostForm__content'' then ([PreventDefault], blur d)
                else ([], d)))"

section \<open>Annotations\<close>

definition key_mappings :: "(sel \<times> jstr) list" where
  "key_mappings =
     [(Id (js ''timeline-posts''), js ''j k ArrowDown ArrowUp''),
      (Id (js ''new-post-content''), js ''n''),
      (Cls ''m-newPostForm__content'', js ''Escape Control+Enter''),
      (Cls ''m-inlineReply__content'', js ''Escape Control+Enter''),
      (Cls ''m-inlineReply__cancelButton'', js ''Escape''),
      (Cls ''m-postView__repliesButton'', js ''l ArrowRight''),
      (Cls ''m-postView__replyToButton'', js ''r''),
      (Cls ''o-previewDialog__submitButton'', js ''Control+Shift+Enter''),
      (Cls ''m-personaTagSelect'', js ''j k ArrowDown ArrowUp''),
      (Cls ''o-mainBarTimeline__tabs'', js ''1 2 3 4 5'')]"

definition annotate :: "sel \<times> jstr \<Rightarrow> dom \<Rightarrow> dom" where
  "annotate m d =
     fold (\<lambda>x. set_attr x ''aria-keyshortcuts'' (snd m)) (doc_querySelectorAll d (fst m)) d"

definition applyAriaKeyShortcuts :: "dom \<Rightarrow> dom" where
  "applyAriaKeyShortcuts d =
     set_attr (body d) ''aria-keyshortcuts'' (js ''? Escape'') (fold annotate key_mappings d)"

section \<open>Laws\<close>

declare build.simps [simp del] build_list.simps [simp del]

lemma build_first:
  assumes "build m (d\<lparr>dat := (dat d)(nextNode d := (new_element tg)\<lparr>classList := cs, attr := map_of as,
      checked := (map_of as ''checked'' \<noteq> None)\<rparr>), nextNode := nextNode d + 1\<rparr>) = (t, e)"
    and "build_list ms e = (vs, e')"
  shows "build_list [Elem tg cs as (m # ms)] d = ([Node (nextNode d) (t # vs)], e')"
  using assms by (simp add: build.simps build_list.simps)

lemma build_help:
  assumes "build_list [help_markup] d = (ts, d')"
  shows "\<exists>us vs. ts = [Node (nextNode d) (Node (nextNode d + 1) us # vs)] \<and>
    dat d' (nextNode d) = (new_element ''DIV'')\<lparr>classList := [''o-shortcutsDialog__content'']\<rparr> \<and>
    classList (dat d' (nextNode d + 1)) = [''o-shortcutsDialog__title''] \<and>
    tagName (dat d' (nextNode d + 1)) = ''H4''"
proof -
  let ?n = "nextNode d"
  let ?d = "d\<lparr>dat := (dat d)(?n := (new_element ''DIV'')\<lparr>classList := [''o-shortcutsDialog__content''],
      attr := map_of [], checked := (map_of [] ''checked'' \<noteq> (None :: jstr option))\<rparr>), nextNode := ?n + 1\<rparr>"
  let ?rest = "map help_row shortcuts @
        [Elem ''BUTTON'' [''o-shortcutsDialog__closeButton''] [(''type'', js ''button'')] [Chars (js ''Close'')]]"
  obtain t e where t: "build help_title ?d = (t, e)" by (metis surj_pair)
  obtain vs e' where vs: "build_list ?rest e = (vs, e')" by (metis surj_pair)
  have r: "ts = [Node ?n (t # vs)]" "d' = e'"
    using assms build_first [OF t vs] unfolding help_markup_def append_Cons append_Nil by auto
  obtain us where us: "t = Node (?n + 1) us" "dat e ?n = dat ?d ?n" "nextNode e = ?n + 3"
    "classList (dat e (?n + 1)) = [''o-shortcutsDialog__title'']" "tagName (dat e (?n + 1)) = ''H4''"
    using t by (auto simp: help_title_def Let_def new_element_def build.simps build_list.simps)
  have "dat e' ?n = dat e ?n" "dat e' (?n + 1) = dat e (?n + 1)"
    using build_frame(2) [OF vs] us(3) by simp_all
  with r us show ?thesis by (simp add: new_element_def)
qed

text \<open>The dialog that \<open>createDialog\<close> puts into the document.\<close>

lemma createDialog_made:
  assumes wf: "wf_dom (sc_dom s)"
  shows "\<exists>x t. sc_dialog (createDialog s) = Some x \<and> x = nextNode (sc_dom s) \<and>
    querySelector (sc_dom (createDialog s)) x (Cls ''o-shortcutsDialog__title'') = Some t \<and>
    isConnected (sc_dom (createDialog s)) t \<and> \<not> is_open (sc_dom (createDialog s)) x \<and>
    activeElement (sc_dom (createDialog s)) = activeElement (sc_dom s) \<and>
    focusable (sc_dom (createDialog s)) = focusable (sc_dom s) \<and>
    (\<forall>y. isConnected (sc_dom s) y \<longrightarrow> isConnected (sc_dom (createDialog s)) y)"
proof -
  let ?d = "sc_dom s" and ?x = "nextNode (sc_dom s)"
  let ?d2 = "set_attr ?x ''aria-labelledby'' (js ''shortcuts-dialog-title'')
      (upd ?x (\<lambda>e. e\<lparr>classList := [''o-shortcutsDialog'']\<rparr>) (snd (createElement ''DIALOG'' ?d)))"
  obtain ts d3 where b: "build_list [help_markup] ?d2 = (ts, d3)" by (metis surj_pair)
  note fr = build_frame(2) [OF b]
  let ?n = "?x + 1"
  have n2: "nextNode ?d2 = ?n" by (simp add: createElement_def set_attr_def)
  obtain us vs where ts: "ts = [Node ?n (Node (?n + 1) us # vs)]"
    "dat d3 ?n = (new_element ''DIV'')\<lparr>classList := [''o-shortcutsDialog__content'']\<rparr>"
    "classList (dat d3 (?n + 1)) = [''o-shortcutsDialog__title'']" "tagName (dat d3 (?n + 1)) = ''H4''"
    using build_help [OF b] n2 by auto
  have low: "\<forall>t \<in> set (loose ?d). root_of t \<noteq> ?x" "?x \<notin> set (preorder (doc ?d))"
    by (rule wf_dom_fresh [OF wf])+
  have lo: "loose (fill_loose [help_markup] ?x ?d2) = Node ?x ts # loose ?d"
    using fr b low by (simp add: fill_loose_def createElement_def set_attr_def map_idI)
  let ?u = "Node ?x ts" and ?e = "sc_dom (createDialog s)"
  have e: "?e = (fill_loose [help_markup] ?x ?d2)\<lparr>doc := graft_tree (body ?d) (\<lambda>vs. vs @ [?u]) (doc ?d),
      loose := loose ?d\<rparr>"
  proof -
    have "doc (fill_loose [help_markup] ?x ?d2) = doc ?d" "body ?d2 = body ?d"
      using fr b by (simp_all add: fill_loose_def createElement_def set_attr_def)
    with lo low show ?thesis
      by (simp add: createDialog_def createElement_def appendChild_def attach_def Let_def filter_id_conv)
  qed
  have de: "dat ?e = dat d3" "activeElement ?e = activeElement ?d" "focusable ?e = focusable ?d"
    using fr b by (simp_all add: e fill_loose_def createElement_def set_attr_def)
  have ct: "child_trees ?e ?x = ts"
    using find_graft [of "body ?d" "doc ?d" ?x ?u] wf low(2)
    by (simp add: child_trees_def forest_def e wf_dom_def)
  then have q: "querySelector ?e ?x (Cls ''o-shortcutsDialog__title'') = Some (?n + 1)"
    using ts by (simp add: querySelector_def descendants_def ct is_element_def de new_element_def)
  have sub: "set (preorder ?u) \<subseteq> set (preorder (doc ?e))"
    using preorder_graft [of "body ?d" "doc ?d" ?u] wf by (simp add: e wf_dom_def)
  have "dat d3 ?x = dat ?d2 ?x" using fr n2 by simp
  then have "\<not> is_open ?e ?x"
    by (simp add: is_open_def de createElement_def set_attr_def dat_upd new_element_def)
  moreover have "isConnected ?e y" if "isConnected ?d y" for y
    using that preorder_graft_keeps by (simp add: isConnected_def e)
  moreover have "sc_dialog (createDialog s) = Some ?x"
    by (simp add: createDialog_def createElement_def Let_def)
  ultimately show ?thesis using q sub ts de by (auto simp: isConnected_def)
qed

text \<open>
  The help comes and goes without a trace. On a page with no open dialog and no text input
  focused, "?" creates the help dialog and opens it (with the focus on its title when that may take it);
  Escape and the \<open>close\<close> event that follows close and deactivate it and put the focus back on the
  element that had it, leaving the dialog for the next time.
\<close>

theorem help_round_trip:
  assumes "wf_dom (sc_dom s)" "sc_dialog s = None" "\<not> isTextInputFocused (sc_dom s)"
    and "doc_querySelector (sc_dom s) any_dialog_sel = None"
    and "activeElement (sc_dom s) = Some a" "isConnected (sc_dom s) a" "focusable (sc_dom s) a"
    and "key q = js ''?''" "key esc = js ''Escape''"
  shows "\<exists>x title t u. help_keydown q s = ([PreventDefault], Inr t) \<and> sc_dialog t = Some x \<and>
    is_open (sc_dom t) x \<and> has_class (sc_dom t) title ''o-shortcutsDialog__title'' \<and>
    (focusable (sc_dom s) title \<longrightarrow> activeElement (sc_dom t) = Some title) \<and>
    help_keydown esc t = ([PreventDefault], Inr u) \<and>
    (let v = on_help_close u
     in sc_dialog v = Some x \<and> \<not> is_open (sc_dom v) x \<and> \<not> has_class (sc_dom v) x ''-active'' \<and>
        activeElement (sc_dom v) = Some a \<and> sc_closing v = sc_closing s)"
proof -
  let ?s = "createDialog s"
  obtain x title where c: "sc_dialog ?s = Some x"
    "querySelector (sc_dom ?s) x (Cls ''o-shortcutsDialog__title'') = Some title"
    "isConnected (sc_dom ?s) title" "\<not> is_open (sc_dom ?s) x"
    "activeElement (sc_dom ?s) = Some a" "focusable (sc_dom ?s) = focusable (sc_dom s)"
    "isConnected (sc_dom ?s) a"
    using createDialog_made [OF assms(1)] assms(5,6) by auto
  let ?d = "showModal x (add_class x ''-active'' (sc_dom ?s))"
  have "querySelector ?d x (Cls ''o-shortcutsDialog__title'') = Some title"
    using c(2) queries_agree(4) [of "Cls ''o-shortcutsDialog__title''" ?d "sc_dom ?s" x] by simp
  then have t: "help_keydown q s = ([PreventDefault],
      Inr (?s\<lparr>previousFocus := Some a, sc_dom := focus title ?d\<rparr>))"
    using assms c by (simp add: help_keydown_def toggle_def open_help_def focus_title_def Let_def)
  let ?t = "?s\<lparr>previousFocus := Some a, sc_dom := focus title ?d\<rparr>"
  have op: "is_open (sc_dom ?t) x" by simp
  then have u: "help_keydown esc ?t = ([PreventDefault], Inr (?t\<lparr>sc_dom := close_dialog x (focus title ?d),
      sc_closing := sc_closing ?t + 1\<rparr>))"
    using assms(9) c(1) by (simp add: help_keydown_def help_is_open_def close_help_def)
  let ?u = "?t\<lparr>sc_dom := close_dialog x (focus title ?d), sc_closing := sc_closing ?t + 1\<rparr>"
  have cl: "sc_closing ?s = sc_closing s" by (simp add: createDialog_def createElement_def Let_def)
  have v: "on_help_close ?u = ?u\<lparr>sc_closing := sc_closing s,
      sc_dom := focus a (remove_class x ''-active'' (close_dialog x (focus title ?d)))\<rparr>"
    using c cl by (simp add: on_help_close_def Let_def)
  have "activeElement (focus a (remove_class x ''-active'' (close_dialog x (focus title ?d)))) = Some a"
    using c(6,7) assms(7) by (simp add: focus_def [of a])
  moreover have "has_class (sc_dom ?t) title ''o-shortcutsDialog__title''"
    using c(2) by (auto simp: querySelector_def find_Some_iff has_class_def [symmetric] class_simps)
  moreover have "focusable (sc_dom s) title \<longrightarrow> activeElement (sc_dom ?t) = Some title"
    using c(3,6) by (simp add: focus_def [of title])
  ultimately show ?thesis
    using t u v op c(1)
    by (intro exI [of _ x] exI [of _ title] exI [of _ ?t] exI [of _ ?u]) (simp add: class_simps Let_def)
qed

definition help_page :: help_state where
  "help_page = \<lparr>sc_dom = (mk_dom (Node 0 [Node 2 []]) [])\<lparr>activeElement := Some 2\<rparr>, sc_dialog = None,
     previousFocus = None, sc_closing = 0\<rparr>"

theorem help_round_trip_witness:
  "\<exists>x t u. help_keydown (plain_event\<lparr>key := js ''?''\<rparr>) help_page = ([PreventDefault], Inr t) \<and>
     is_open (sc_dom t) x \<and> help_keydown (plain_event\<lparr>key := js ''Escape''\<rparr>) t = ([PreventDefault], Inr u) \<and>
     activeElement (sc_dom (on_help_close u)) = Some 2"
proof -
  have "wf_dom (sc_dom help_page)" "\<not> isTextInputFocused (sc_dom help_page)"
    "doc_querySelector (sc_dom help_page) any_dialog_sel = None" "isConnected (sc_dom help_page) 2"
    by (simp_all add: help_page_def wf_dom_def isTextInputFocused_def activeElementDeep_def deep_from.simps
        any_dialog_sel_def dom_eval)
  then show ?thesis
    using help_round_trip [of help_page 2 "plain_event\<lparr>key := js ''?''\<rparr>" "plain_event\<lparr>key := js ''Escape''\<rparr>"]
    by (simp add: help_page_def mk_dom_def Let_def) blast
qed

end
