(* ===== verification/PageInit.thy ===== *)
theory PageInit
  imports PersonaTags Shortcuts
begin

text \<open>
  What assets/app.js sets up when the document has loaded, and its window listeners: cached images, the
  click outside the action menus, the observation of videos (those of the page and those a later change
  brings in), the re-initialisation after an AJAX swap, and the two listeners that suppress default
  actions. \<open>cached\<close> tells which addresses the browser has at hand.
\<close>

section \<open>Operations\<close>

record page_setup =
  pi_dom :: dom
  observed :: "node list"

definition lazy_image_sel :: sel where
  "lazy_image_sel = SAnd (Tag ''IMG'') (AttrEq ''loading'' (js ''lazy''))"

definition show_cached :: "(jstr \<Rightarrow> bool) \<Rightarrow> dom \<Rightarrow> dom" where
  "show_cached cached d =
     fold (\<lambda>img d. if cached (case attr (dat d img) ''src'' of None \<Rightarrow> [] | Some u \<Rightarrow> u)
                   then remove_attr img ''loading'' d else d)
       (doc_querySelectorAll d lazy_image_sel) d"

definition menu_click :: "ui_event \<Rightarrow> dom \<Rightarrow> dom" where
  "menu_click e d =
     fold (\<lambda>m. remove_attr m ''open'')
       (filter (\<lambda>m. \<not> contains d m (target e))
          (doc_querySelectorAll d (SAnd (Cls ''m-postView__actionMenu'') (HasAttr ''open'')))) d"

definition video_sel :: sel where
  "video_sel = Cls ''m-rostraMedia__video''"

text \<open>Observing an element a second time changes nothing.\<close>

definition observe :: "node \<Rightarrow> page_setup \<Rightarrow> page_setup" where
  "observe v s = s\<lparr>observed := List.insert v (observed s)\<rparr>"

definition on_intersection :: "(node \<times> bool) list \<Rightarrow> effect list" where
  "on_intersection entries = map (\<lambda>(v, visible). if visible then PlayVideo v else PauseVideo v) entries"

definition observe_added :: "node \<Rightarrow> page_setup \<Rightarrow> page_setup" where
  "observe_added x s =
     (if is_element (pi_dom s) x
      then (let s1 = fold observe (querySelectorAll (pi_dom s) x video_sel) s
            in if has_class (pi_dom s) x ''m-rostraMedia__video'' then observe x s1 else s1)
      else s)"

definition on_mutations :: "node list list \<Rightarrow> page_setup \<Rightarrow> page_setup" where
  "on_mutations records s = fold (fold observe_added) records s"

text \<open>The handler of \<open>DOMContentLoaded\<close>; an error in the first widget leaves the rest undone.\<close>

definition on_loaded :: "(jstr \<Rightarrow> bool) \<Rightarrow> bool \<Rightarrow> page_setup \<Rightarrow> effect list \<times> page_setup outcome" where
  "on_loaded cached prism s =
     (case initPersonaTagSelects (pi_dom s) of
        Inl (er, d) \<Rightarrow> ([], Inl (er, s\<lparr>pi_dom := d\<rparr>))
      | Inr d \<Rightarrow>
          (let d1 = show_cached cached (applyAriaKeyShortcuts d)
           in (if prism then [HighlightAll] else [],
               Inr (fold observe (doc_querySelectorAll d1 video_sel) (s\<lparr>pi_dom := d1\<rparr>)))))"

definition on_ajax_after :: "dom \<Rightarrow> dom outcome" where
  "on_ajax_after d = and_then (initPersonaTagSelects d) (\<lambda>d. Inr (applyAriaKeyShortcuts d))"

definition on_unhandledrejection :: "bool \<Rightarrow> effect list" where
  "on_unhandledrejection is_type_error = (if is_type_error then [PreventDefault] else [])"

definition on_ajax_missing :: "bool \<Rightarrow> effect list" where
  "on_ajax_missing response_ok = (if \<not> response_ok then [PreventDefault] else [])"

section \<open>Every video is observed\<close>

text \<open>
  A change of the page puts the tree of a new element under a connected one; the browser then reports
  its root to the observer. (Text nodes, which the observer skips, hold no videos.)
\<close>

definition page_change :: "page_setup \<Rightarrow> node \<times> node \<Rightarrow> page_setup" where
  "page_change s px =
     (if isConnected (pi_dom s) (fst px) \<and> \<not> isConnected (pi_dom s) (snd px) \<and> is_element (pi_dom s) (snd px) \<and>
         list_ex (\<lambda>t. root_of t = snd px) (loose (pi_dom s))
      then on_mutations [[snd px]] (s\<lparr>pi_dom := appendChild (fst px) (snd px) (pi_dom s)\<rparr>) else s)"

definition all_observed :: "page_setup \<Rightarrow> bool" where
  "all_observed s \<longleftrightarrow> set (doc_querySelectorAll (pi_dom s) video_sel) \<subseteq> set (observed s)"

lemma fold_observe [simp]:
  "set (observed (fold observe vs s)) = set vs \<union> set (observed s)" "pi_dom (fold observe vs s) = pi_dom s"
  by (induction vs arbitrary: s) (auto simp: observe_def)

lemma preorder_graft_sub:
  "set (preorder (graft_tree p (\<lambda>ts. ts @ [u]) t)) \<subseteq> set (preorder t) \<union> set (preorder u)"
  by (induction t) auto

lemma appendChild_new:
  assumes "isConnected d p" "\<not> isConnected d x" "List.find (\<lambda>t. root_of t = x) (loose d) = Some u"
  shows "set (preorder (doc (appendChild p x d))) \<subseteq> set (preorder (doc d)) \<union> insert x (set (descendants (appendChild p x d) x))"
    and "dat (appendChild p x d) = dat d"
proof -
  have r: "root_of u = x" using assms(3) by (auto simp: find_Some_iff)
  obtain us where u: "u = Node x us" using r by (cases u) auto
  let ?e = "appendChild p x d"
  have e: "doc ?e = graft_tree p (\<lambda>ts. ts @ [u]) (doc d)"
    using assms(3) by (simp add: appendChild_def attach_def)
  have "find_tree x (doc ?e) = Some u"
    unfolding e using assms(1,2) r by (intro find_graft) (auto simp: isConnected_def)
  then have "descendants ?e x = concat (map preorder us)"
    by (simp add: descendants_def child_trees_def forest_def u)
  with preorder_graft_sub [of p u "doc d"] e u
  show "set (preorder (doc ?e)) \<subseteq> set (preorder (doc d)) \<union> insert x (set (descendants ?e x))" by auto
  show "dat ?e = dat d" using assms(3) by (simp add: appendChild_def attach_def)
qed

interpretation videos: machine page_change all_observed
proof
  fix s :: page_setup and px :: "node \<times> node"
  assume inv: "all_observed s"
  let ?p = "fst px" and ?x = "snd px"
  let ?e = "appendChild ?p ?x (pi_dom s)"
  let ?C = "isConnected (pi_dom s) ?p \<and> \<not> isConnected (pi_dom s) ?x \<and> is_element (pi_dom s) ?x \<and>
      list_ex (\<lambda>t. root_of t = ?x) (loose (pi_dom s))"
  show "all_observed (page_change s px)"
  proof (cases ?C)
    case True
    then obtain u where u: "List.find (\<lambda>t. root_of t = ?x) (loose (pi_dom s)) = Some u"
      using find_None_iff [of "\<lambda>t. root_of t = ?x" "loose (pi_dom s)"]
      by (cases "List.find (\<lambda>t. root_of t = ?x) (loose (pi_dom s))") (auto simp: list_ex_iff)
    note new = appendChild_new [OF _ _ u, of ?p]
    have el: "is_element ?e = is_element (pi_dom s)" "has_class ?e = has_class (pi_dom s)"
      using new(2) True by (simp_all add: is_element_def has_class_def fun_eq_iff)
    have sub: "set (doc_querySelectorAll ?e video_sel) \<subseteq> set (doc_querySelectorAll (pi_dom s) video_sel) \<union>
        {y. y = ?x \<and> has_class ?e ?x ''m-rostraMedia__video''} \<union> set (querySelectorAll ?e ?x video_sel)"
      using new(1) True el
      by (auto simp: doc_querySelectorAll_def querySelectorAll_def video_sel_def has_class_def [symmetric])
    have "pi_dom (page_change s px) = ?e"
      "set (observed (page_change s px)) = set (observed s) \<union> set (querySelectorAll ?e ?x video_sel) \<union>
        {y. y = ?x \<and> has_class ?e ?x ''m-rostraMedia__video''}"
      using True el
      by (auto simp: page_change_def on_mutations_def observe_added_def observe_def Let_def)
    then show ?thesis using sub inv by (auto simp: all_observed_def)
  next
    case False
    then have "page_change s px = s" by (simp only: page_change_def if_False)
    then show ?thesis using inv by simp
  qed
qed

text \<open>
  No video escapes the observer. When the page has loaded without an error, and after any sequence
  of later changes of the page, every video of the document is observed, so it plays and pauses with its
  visibility.
\<close>

theorem all_videos_observed:
  assumes "snd (on_loaded cached prism s) = Inr t"
  shows "list_all (\<lambda>v. v \<in> set (observed (foldl page_change t changes)))
    (doc_querySelectorAll (pi_dom (foldl page_change t changes)) video_sel)"
proof -
  have "all_observed t"
    using assms by (auto simp: on_loaded_def Let_def all_observed_def split: sum.splits prod.splits)
  then have "all_observed (foldl page_change t changes)" by (rule videos.inv_run)
  then show ?thesis by (auto simp: all_observed_def list_all_iff)
qed

definition video_page :: page_setup where
  "video_page = \<lparr>pi_dom = mk_dom (Node 0 [Node 2 []])
     [(2, (new_element ''VIDEO'')\<lparr>classList := [''m-rostraMedia__video'']\<rparr>)], observed = []\<rparr>"

theorem all_videos_observed_witness:
  "\<exists>t. snd (on_loaded (\<lambda>_. False) False video_page) = Inr t \<and>
     list_all (\<lambda>v. v \<in> set (observed t)) (doc_querySelectorAll (pi_dom t) video_sel)"
proof -
  have "initPersonaTagSelects (pi_dom video_page) = Inr (pi_dom video_page)"
    by (simp add: video_page_def initPersonaTagSelects_def widget_sel_def dom_eval)
  then obtain t where t: "snd (on_loaded (\<lambda>_. False) False video_page) = Inr t"
    by (simp add: on_loaded_def Let_def)
  with all_videos_observed [OF t, of "[]"] show ?thesis by auto
qed

end
