(* ===== verification/WebSocket.thy ===== *)
theory WebSocket
  imports Dom
begin

text \<open>
  The \<open>websocket\<close> component of assets/app.js: the address it connects to, the handling of a message
  (elements with an identifier are appended, prepended or morphed into the page, elements with
  \<open>x-init\<close> are run) and \<open>destroy\<close>. The message, as parsed by the browser (\<open>parse_html\<close>), is a
  list of loose trees beside the document, the content of the template; \<open>morph\<close> is Alpine's morphing
  of an element into another, and its initialisation of a tree is an effect.
\<close>

section \<open>Operations\<close>

record socket =
  ws_dom :: dom
  ws_url :: "jstr option"
  ws_open :: bool

definition ws_connect :: "jstr \<Rightarrow> jstr \<Rightarrow> jstr \<Rightarrow> socket \<Rightarrow> socket" where
  "ws_connect page_protocol host url s =
     s\<lparr>ws_url := Some ((if page_protocol = js ''https:'' then js ''wss:'' else js ''ws:'') @ js ''//'' @ host @ url),
       ws_open := True\<rparr>"

definition ws_destroy :: "socket \<Rightarrow> socket" where
  "ws_destroy s = (if ws_url s \<noteq> None then s\<lparr>ws_open := False\<rparr> else s)"

text \<open>Moving all children of a node to the end or to the front of another.\<close>

definition on_forest :: "(tree \<Rightarrow> tree) \<Rightarrow> dom \<Rightarrow> dom" where
  "on_forest f d = d\<lparr>doc := f (doc d), loose := map f (loose d)\<rparr>"

definition move_children :: "(tree list \<Rightarrow> tree list \<Rightarrow> tree list) \<Rightarrow> node \<Rightarrow> node \<Rightarrow> dom \<Rightarrow> dom" where
  "move_children f content tgt d =
     on_forest (graft_tree tgt (f (child_trees d content))) (on_forest (graft_tree content (\<lambda>_. [])) d)"

definition append_children :: "node \<Rightarrow> node \<Rightarrow> dom \<Rightarrow> dom" where
  "append_children = move_children (\<lambda>new old. old @ new)"

definition prepend_children :: "node \<Rightarrow> node \<Rightarrow> dom \<Rightarrow> dom" where
  "prepend_children = move_children (\<lambda>new old. new @ old)"

definition lastElementChild :: "dom \<Rightarrow> node \<Rightarrow> node option" where
  "lastElementChild d x = (case children d x of [] \<Rightarrow> None | ys \<Rightarrow> Some (last ys))"

definition firstElementChild :: "dom \<Rightarrow> node \<Rightarrow> node option" where
  "firstElementChild d x = (case children d x of [] \<Rightarrow> None | y # _ \<Rightarrow> Some y)"

definition autofocus_sel :: sel where
  "autofocus_sel = HasAttr ''x-autofocus''"

definition scroll_to_focus :: "dom \<Rightarrow> node option \<Rightarrow> effect list" where
  "scroll_to_focus d el =
     (case el of
        None \<Rightarrow> []
      | Some x \<Rightarrow>
          if matches d autofocus_sel x then [ScrollIntoView x]
          else (case querySelector d x autofocus_sel of None \<Rightarrow> [] | Some y \<Rightarrow> [ScrollIntoView y]))"

definition init_tree :: "node option \<Rightarrow> effect list" where
  "init_tree el = (case el of None \<Rightarrow> [] | Some x \<Rightarrow> [InitTree x])"

definition merge_element :: "(node \<Rightarrow> node \<Rightarrow> dom \<Rightarrow> dom) \<Rightarrow> node \<Rightarrow> dom \<Rightarrow> effect list \<times> dom" where
  "merge_element morph content d =
     (case Option.bind (attr (dat d content) ''id'') (getElementById d) of
        None \<Rightarrow> ([], d)
      | Some tgt \<Rightarrow>
          (let how = attr (dat d content) ''x-merge''
           in if how = Some (js ''append'')
              then (let d1 = append_children content tgt d; x = lastElementChild d1 tgt
                    in (init_tree x @ scroll_to_focus d1 x, d1))
              else if how = Some (js ''prepend'')
              then (let d1 = prepend_children content tgt d; x = firstElementChild d1 tgt
                    in (init_tree x @ scroll_to_focus d1 x, d1))
              else (let d1 = morph tgt content d in (scroll_to_focus d1 (Some tgt), d1))))"

definition run_effects :: "(node \<Rightarrow> dom \<Rightarrow> effect list \<times> dom) \<Rightarrow> node list \<Rightarrow> dom \<Rightarrow> effect list \<times> dom" where
  "run_effects f xs d =
     foldl (\<lambda>(es, d) x. (es @ fst (f x d), snd (f x d))) ([], d) xs"

text \<open>The nodes of the template that match a selector.\<close>

definition template_query :: "dom \<Rightarrow> node list \<Rightarrow> sel \<Rightarrow> node list" where
  "template_query d roots q =
     filter (\<lambda>y. is_element d y \<and> sel_matches d y q y)
       (concat (map preorder (filter (\<lambda>t. root_of t \<in> set roots) (loose d))))"

text \<open>
  An element with \<open>x-init\<close> goes into the body, is initialised there, and is taken out again: in the end
  it is a loose tree of its own.
\<close>

definition detach :: "node \<Rightarrow> dom \<Rightarrow> dom" where
  "detach x d =
     (case find_forest x (loose d) of
        None \<Rightarrow> remove_node x d
      | Some t \<Rightarrow> d\<lparr>loose := t # cut_forest x (loose d)\<rparr>)"

definition run_init :: "node \<Rightarrow> dom \<Rightarrow> effect list \<times> dom" where
  "run_init x d = ([InitTree x], remove_node x (appendChild (body d) x (detach x d)))"

definition on_message ::
    "(jstr \<Rightarrow> markup list) \<Rightarrow> (node \<Rightarrow> node \<Rightarrow> dom \<Rightarrow> dom) \<Rightarrow> jstr \<Rightarrow> socket \<Rightarrow> effect list \<times> socket" where
  "on_message parse_html morph data s =
     (let (ts, d0) = build_list (parse_html data) (ws_dom s);
          roots = map root_of ts;
          d1 = d0\<lparr>loose := ts @ loose d0\<rparr>;
          r1 = run_effects (merge_element morph) (template_query d1 roots (HasAttr ''id'')) d1;
          r2 = run_effects run_init (template_query (snd r1) roots (HasAttr ''x-init'')) (snd r1)
      in (fst r1 @ fst r2, s\<lparr>ws_dom := snd r2\<rparr>))"

section \<open>Laws\<close>

text \<open>Replacing the children of a node, seen from the node.\<close>

lemma find_graft_self:
  "find_tree p t = Some (Node p ts) \<Longrightarrow> find_tree p (graft_tree p f t) = Some (Node p (f ts))"
proof (induction t)
  case (Node n us)
  show ?case
  proof (cases "n = p")
    case False
    have "find_forest p vs = Some (Node p ts) \<Longrightarrow> set vs \<subseteq> set us \<Longrightarrow>
        find_forest p (map (graft_tree p f) vs) = Some (Node p (f ts))" for vs
    proof (induction vs)
      case (Cons v vs)
      show ?case
      proof (cases "find_tree p v")
        case None
        then have "graft_tree p f v = v" by (simp add: find_tree_None graft_absent)
        with None Cons show ?thesis by simp
      next
        case (Some w)
        with Cons.prems have "find_tree p v = Some (Node p ts)" by simp
        with Node.IH [of v] Cons.prems show ?thesis by simp
      qed
    qed simp
    with False Node.prems show ?thesis by simp
  qed (use Node.prems in simp)
qed

lemma child_trees_connected:
  "isConnected d x \<Longrightarrow> find_tree x (doc d) = Some (Node x (child_trees d x))"
  using find_tree_None(1) [of x "doc d"] find_tree_set(1) [of x "doc d"]
  by (cases "find_tree x (doc d)") (auto simp: isConnected_def child_trees_def forest_def split: tree.split)

lemma child_trees_loose:
  "\<not> isConnected d x \<Longrightarrow> find_forest x (loose d) = Some (Node x ts) \<Longrightarrow> child_trees d x = ts"
  using find_tree_None(1) [of x "doc d"] by (simp add: isConnected_def child_trees_def forest_def)

lemma move_children_result:
  assumes "isConnected d tgt" "\<not> isConnected d content"
    and "find_forest content (loose d) = Some (Node content new)"
  shows "child_trees (move_children f content tgt d) tgt = f new (child_trees d tgt)"
    and "dat (move_children f content tgt d) = dat d"
proof -
  have doc: "doc (move_children f content tgt d) = graft_tree tgt (f new) (doc d)"
    using assms by (simp add: move_children_def on_forest_def child_trees_loose graft_absent isConnected_def)
  show "child_trees (move_children f content tgt d) tgt = f new (child_trees d tgt)"
    using find_graft_self [OF child_trees_connected [OF assms(1)], of "f new"]
    by (simp add: child_trees_def [of "move_children f content tgt d"] forest_def doc)
  show "dat (move_children f content tgt d) = dat d" by (simp add: move_children_def on_forest_def)
qed

lemma move_children_children:
  assumes "isConnected d tgt" "\<not> isConnected d content"
    and "find_forest content (loose d) = Some (Node content new)"
  shows "childNodes (append_children content tgt d) tgt = childNodes d tgt @ childNodes d content"
    and "childNodes (prepend_children content tgt d) tgt = childNodes d content @ childNodes d tgt"
    and "is_element (append_children content tgt d) = is_element d"
    and "is_element (prepend_children content tgt d) = is_element d"
  using assms by (simp_all add: childNodes_def append_children_def prepend_children_def
      move_children_result child_trees_loose is_element_def fun_eq_iff)

lemma lastElementChild_last:
  "lastElementChild d x = (if children d x = [] then None else Some (last (children d x)))"
  by (simp add: lastElementChild_def split: list.split)

lemma ends_of_merge:
  assumes "isConnected d tgt" "\<not> isConnected d content"
    and "find_forest content (loose d) = Some (Node content new)" "new \<noteq> []"
  shows "is_element d (root_of (last new)) \<Longrightarrow>
      lastElementChild (append_children content tgt d) tgt = Some (root_of (last new))"
    and "is_element d (root_of (hd new)) \<Longrightarrow>
      firstElementChild (prepend_children content tgt d) tgt = Some (root_of (hd new))"
proof -
  note m = move_children_children [OF assms(1-3)]
  have n: "childNodes d content = map root_of new"
    using assms(2,3) by (simp add: childNodes_def child_trees_loose)
  obtain ys y where y: "new = ys @ [y]" using assms(4) rev_exhaust by blast
  show "is_element d (root_of (last new)) \<Longrightarrow>
      lastElementChild (append_children content tgt d) tgt = Some (root_of (last new))"
    by (simp add: lastElementChild_last children_def m n y)
  show "is_element d (root_of (hd new)) \<Longrightarrow>
      firstElementChild (prepend_children content tgt d) tgt = Some (root_of (hd new))"
    using assms(4) by (cases new) (simp_all add: firstElementChild_def children_def m n)
qed

lemma merge_element_ends:
  assumes "attr (dat d content) ''id'' = Some i" "getElementById d i = Some tgt"
  shows "attr (dat d content) ''x-merge'' = Some (js ''append'') \<Longrightarrow>
      merge_element morph content d =
        (let d' = append_children content tgt d; x = lastElementChild d' tgt
         in (init_tree x @ scroll_to_focus d' x, d'))"
    and "attr (dat d content) ''x-merge'' = Some (js ''prepend'') \<Longrightarrow>
      merge_element morph content d =
        (let d' = prepend_children content tgt d; x = firstElementChild d' tgt
         in (init_tree x @ scroll_to_focus d' x, d'))"
  using assms by (simp_all add: merge_element_def Let_def)

text \<open>
  A message adds its elements at the end it names. For a template element whose identifier the
  page has, "append" puts its child nodes, in order, after those of the page's element and initialises
  its last element; "prepend" puts them before and initialises the first. Without such an element on
  the page nothing happens.
\<close>

theorem merge_adds_children:
  assumes "attr (dat d content) ''id'' = Some i" "\<not> isConnected d content"
    and "find_forest content (loose d) = Some (Node content new)"
    and "r = merge_element morph content d"
  shows "case getElementById d i of
      None \<Rightarrow> r = ([], d)
    | Some tgt \<Rightarrow>
        (attr (dat d content) ''x-merge'' = Some (js ''append'') \<longrightarrow>
           childNodes (snd r) tgt = childNodes d tgt @ map root_of new \<and>
           (new \<noteq> [] \<and> is_element d (root_of (last new)) \<longrightarrow>
              hd (fst r) = InitTree (root_of (last new)))) \<and>
        (attr (dat d content) ''x-merge'' = Some (js ''prepend'') \<longrightarrow>
           childNodes (snd r) tgt = map root_of new @ childNodes d tgt \<and>
           (new \<noteq> [] \<and> is_element d (root_of (hd new)) \<longrightarrow>
              hd (fst r) = InitTree (root_of (hd new))))"
proof (cases "getElementById d i")
  case None
  with assms show ?thesis by (simp add: merge_element_def)
next
  case (Some tgt)
  then have c: "isConnected d tgt" by (auto simp: getElementById_def find_Some_iff isConnected_def)
  have n: "childNodes d content = map root_of new"
    using assms(2,3) by (simp add: childNodes_def child_trees_loose)
  note ends = merge_element_ends [OF assms(1) Some, of morph, folded assms(4)]
    ends_of_merge [OF c assms(2,3)] move_children_children [OF c assms(2,3)]
  show ?thesis
    unfolding Some option.case using ends by (auto simp: Let_def init_tree_def n)
qed

definition ws_page :: dom where
  "ws_page = (mk_dom (Node 0 [Node 2 [Node 3 []]])
     [(2, (new_element ''DIV'')\<lparr>attr := [''id'' \<mapsto> js ''list'']\<rparr>),
      (4, (new_element ''DIV'')\<lparr>attr := [''id'' \<mapsto> js ''list'', ''x-merge'' \<mapsto> js ''append'']\<rparr>)])
     \<lparr>loose := [Node 4 [Node 5 [], Node 6 []]]\<rparr>"

theorem merge_adds_children_witness:
  "childNodes (snd (merge_element (\<lambda>_ _ d. d) 4 ws_page)) 2 = [3, 5, 6]"
proof -
  have "getElementById ws_page (js ''list'') = Some 2" "childNodes ws_page 2 = [3]"
    "attr (dat ws_page 4) ''x-merge'' = Some (js ''append'')"
    "find_forest 4 (loose ws_page) = Some (Node 4 [Node 5 [], Node 6 []])"
    "\<not> isConnected ws_page 4" "attr (dat ws_page 4) ''id'' = Some (js ''list'')"
    by (simp_all add: ws_page_def childNodes_def dom_eval)
  with merge_adds_children [of ws_page 4 "js ''list''", OF _ _ _ refl] show ?thesis by auto
qed

end
