(* ===== verification/Badges.thy ===== *)
theory Badges
  imports Prelude
begin

text \<open>
  The \<open>badgeCounts\<close> component of assets/app.js: the counters of the tabs, the page title that shows the
  number of notifications, and the format of a counter. The counters the server sends are natural
  numbers; a counter it leaves out is None. Alpine calls a watcher after its property has changed.
\<close>

record counts =
  followees :: nat
  network :: nat
  notifs :: nat
  shoutbox :: nat
  msgs :: nat

record badges =
  counters :: counts
  pageTitle :: jstr

record detail =
  d_followees :: "nat option"
  d_network :: "nat option"
  d_notifs :: "nat option"
  d_shoutbox :: "nat option"
  d_msgs :: "nat option"

definition or0 :: "nat option \<Rightarrow> nat" where
  "or0 x = (case x of None \<Rightarrow> 0 | Some n \<Rightarrow> n)"

definition badge_title :: "nat \<Rightarrow> jstr" where
  "badge_title count =
     (if count > 9 then js ''Rostra (9+)''
      else if count > 0 then js ''Rostra ('' @ decimal count @ js '')'' else js ''Rostra'')"

definition formatCount :: "nat \<Rightarrow> jstr" where
  "formatCount count =
     (if count > 9 then js '' (9+)'' else if count > 0 then js '' ('' @ decimal count @ js '')'' else [])"

text \<open>The data of the component and \<open>init\<close>.\<close>

definition initial_counts :: "detail option \<Rightarrow> counts" where
  "initial_counts i =
     \<lparr>followees = or0 (Option.bind i d_followees), network = or0 (Option.bind i d_network),
      notifs = or0 (Option.bind i d_notifs), shoutbox = or0 (Option.bind i d_shoutbox),
      msgs = or0 (Option.bind i d_msgs)\<rparr>"

definition badge_init :: "detail option \<Rightarrow> badges" where
  "badge_init i = \<lparr>counters = initial_counts i, pageTitle = badge_title (notifs (initial_counts i))\<rparr>"

definition update_counts :: "detail \<Rightarrow> counts \<Rightarrow> counts" where
  "update_counts d c =
     c\<lparr>followees := or0 (d_followees d), network := or0 (d_network d), notifs := or0 (d_notifs d),
       shoutbox := or0 (d_shoutbox d), msgs := (case d_msgs d of None \<Rightarrow> msgs c | Some n \<Rightarrow> n)\<rparr>"

definition watch_title :: "nat \<Rightarrow> badges \<Rightarrow> badges" where
  "watch_title before s =
     (if notifs (counters s) \<noteq> before then s\<lparr>pageTitle := badge_title (notifs (counters s))\<rparr> else s)"

definition onUpdate :: "badges \<Rightarrow> detail \<Rightarrow> badges" where
  "onUpdate s d = watch_title (notifs (counters s)) (s\<lparr>counters := update_counts d (counters s)\<rparr>)"

definition badge_inv :: "badges \<Rightarrow> bool" where
  "badge_inv s \<longleftrightarrow> pageTitle s = badge_title (notifs (counters s))"

interpretation badge: machine onUpdate badge_inv
  by unfold_locales (auto simp: onUpdate_def watch_title_def badge_inv_def)

lemma badge_title_format: "badge_title n = js ''Rostra'' @ formatCount n"
proof -
  have "js ''Rostra ('' = js ''Rostra'' @ js '' (''" "js ''Rostra (9+)'' = js ''Rostra'' @ js '' (9+)''"
    by (simp_all flip: js_append)
  then show ?thesis by (simp add: badge_title_def formatCount_def)
qed

lemma last_update_wins:
  "counters (foldl onUpdate s (ds @ [d])) = update_counts d (counters (foldl onUpdate s ds))"
  by (simp add: onUpdate_def watch_title_def)

text \<open>
  The title tells the number of notifications. After the start and any updates the title is
  "Rostra" followed by the badge of the notification counter, which is the one of the last update (a
  missing counter is zero), while the message counter is the last one that was sent at all.
\<close>

theorem title_follows_notifications:
  "let s = foldl onUpdate (badge_init i) ds
   in pageTitle s = js ''Rostra'' @ formatCount (notifs (counters s)) \<and>
      notifs (counters s) = or0 (case rev ds of [] \<Rightarrow> Option.bind i d_notifs | d # _ \<Rightarrow> d_notifs d) \<and>
      msgs (counters s) = or0 (case rev (filter (\<lambda>d. d_msgs d \<noteq> None) ds) of
          [] \<Rightarrow> Option.bind i d_msgs | d # _ \<Rightarrow> d_msgs d)"
proof -
  have "badge_inv (badge_init i)" by (simp add: badge_inv_def badge_init_def)
  then have "badge_inv (foldl onUpdate (badge_init i) ds)" by (rule badge.inv_run)
  moreover have "notifs (counters (foldl onUpdate (badge_init i) ds)) =
      or0 (case rev ds of [] \<Rightarrow> Option.bind i d_notifs | d # _ \<Rightarrow> d_notifs d)"
    by (induction ds rule: rev_induct)
      (auto simp: badge_init_def initial_counts_def last_update_wins update_counts_def simp del: foldl_append)
  moreover have "msgs (counters (foldl onUpdate (badge_init i) ds)) =
      or0 (case rev (filter (\<lambda>d. d_msgs d \<noteq> None) ds) of [] \<Rightarrow> Option.bind i d_msgs | d # _ \<Rightarrow> d_msgs d)"
    by (induction ds rule: rev_induct)
      (auto simp: badge_init_def initial_counts_def last_update_wins update_counts_def or0_def
        simp del: foldl_append split: option.split)
  ultimately show ?thesis by (simp add: badge_inv_def badge_title_format Let_def)
qed

end
