(* ===== verification/TextFieldEdit.thy ===== *)
theory TextFieldEdit
  imports Dialogs
begin

text \<open>
  assets/libs/text-field-edit/index.js: editing a text field so that the browser's undo works. The
  edits go through \<open>execCommand\<close>, which acts on the focused element, so every operation borrows the
  focus. \<open>command\<close> are the commands the library gives; on an \<open>input\<close> or \<open>textarea\<close> their effect is
  written out, except for deleting with nothing selected, where \<open>backspace\<close> is what the browser erases; on
  another editable element \<open>editing\<close> is the browser's editing. \<open>SRegExp\<close> carries the matches the browser
  finds for an expression without named groups, each with the texts of its groups. The ranges of editable elements that are not fields
  (\<open>wrapFieldSelectionContentEditable\<close>) are not modelled.
\<close>

section \<open>Operations\<close>

datatype command =
    InsertText jstr
  | Delete
  | SelectAll

record browser =
  backspace :: "textarea \<Rightarrow> textarea"
  editing :: "command \<Rightarrow> node \<Rightarrow> dom \<Rightarrow> effect list \<times> dom"

definition isNativeField :: "dom \<Rightarrow> node \<Rightarrow> bool" where
  "isNativeField d x \<longleftrightarrow> tagName (dat d x) = ''INPUT'' \<or> tagName (dat d x) = ''TEXTAREA''"

definition type_text :: "jstr \<Rightarrow> textarea \<Rightarrow> textarea" where
  "type_text txt t = setRangeText_end txt (selectionStart t) (selectionEnd t) t"

definition select_text :: "textarea \<Rightarrow> textarea" where
  "select_text t = t\<lparr>selectionStart := 0, selectionEnd := length (tvalue t)\<rparr>"

text \<open>A command in the focused field: what becomes of it, and whether an input event is sent.\<close>

fun field_command :: "browser \<Rightarrow> command \<Rightarrow> textarea \<Rightarrow> textarea" where
  "field_command br (InsertText txt) t = type_text txt t"
| "field_command br Delete t =
     (if selectionStart t < selectionEnd t then type_text [] t else backspace br t)"
| "field_command br SelectAll t = select_text t"

definition sends_input :: "command \<Rightarrow> bool" where
  "sends_input c \<longleftrightarrow> c \<noteq> SelectAll"

definition execCommand :: "browser \<Rightarrow> command \<Rightarrow> dom \<Rightarrow> effect list \<times> dom" where
  "execCommand br c d =
     (case activeElement d of
        None \<Rightarrow> ([], d)
      | Some x \<Rightarrow>
          if isNativeField d x
          then (if sends_input c then [InputEvent x] else [], upd_field x (field_command br c) d)
          else editing br c x d)"

definition insertTextWhereverTheFocusIs :: "browser \<Rightarrow> jstr \<Rightarrow> dom \<Rightarrow> effect list \<times> dom" where
  "insertTextWhereverTheFocusIs br txt d =
     (if txt = [] then execCommand br Delete d else execCommand br (InsertText txt) d)"

definition blur_field :: "node \<Rightarrow> dom \<Rightarrow> dom" where
  "blur_field x d = (if activeElement d = Some x then d\<lparr>activeElement := Some (body d)\<rparr> else d)"

definition withFocus :: "node \<Rightarrow> (dom \<Rightarrow> effect list \<times> dom) \<Rightarrow> dom \<Rightarrow> effect list \<times> dom" where
  "withFocus fld callback d =
     (let initialFocus = activeElement d
      in if initialFocus = Some fld then callback d
         else (let (es, d1) = callback (focus fld d);
                   d2 = blur_field fld d1
               in (es, case initialFocus of None \<Rightarrow> d2 | Some x \<Rightarrow> focus x d2)))"

definition insertTextIntoField :: "browser \<Rightarrow> node \<Rightarrow> jstr \<Rightarrow> dom \<Rightarrow> effect list \<times> dom" where
  "insertTextIntoField br fld txt d = withFocus fld (insertTextWhereverTheFocusIs br txt) d"

definition andThen ::
    "(dom \<Rightarrow> effect list \<times> dom) \<Rightarrow> (dom \<Rightarrow> effect list \<times> dom) \<Rightarrow> dom \<Rightarrow> effect list \<times> dom" where
  "andThen f g d = (let (es, d1) = f d; (es', d2) = g d1 in (es @ es', d2))"

definition setFieldText :: "browser \<Rightarrow> node \<Rightarrow> jstr \<Rightarrow> dom \<Rightarrow> effect list \<times> dom" where
  "setFieldText br fld txt d =
     (if isNativeField d fld
      then insertTextIntoField br fld txt (upd_field fld select_text d)
      else withFocus fld (andThen (execCommand br SelectAll) (insertTextWhereverTheFocusIs br txt)) d)"

text \<open>\<open>sel\<close>: the document's selection, its anchor and its text, when there is one.\<close>

definition getFieldSelection :: "(node \<times> jstr) option \<Rightarrow> node \<Rightarrow> dom \<Rightarrow> jstr" where
  "getFieldSelection sel fld d =
     (if isNativeField d fld
      then (let t = field (dat d fld)
            in take (selectionEnd t - selectionStart t) (drop (selectionStart t) (tvalue t)))
      else (case sel of
              None \<Rightarrow> []
            | Some (anchor, txt) \<Rightarrow> if contains d fld anchor then txt else []))"

text \<open>The setters \<open>selectionStart =\<close> and \<open>selectionEnd =\<close>.\<close>

definition set_start :: "nat \<Rightarrow> textarea \<Rightarrow> textarea" where
  "set_start a t = setSelectionRange a (max a (selectionEnd t)) t"

definition set_end :: "nat \<Rightarrow> textarea \<Rightarrow> textarea" where
  "set_end b t = setSelectionRange (selectionStart t) b t"

definition wrapFieldSelectionNative :: "browser \<Rightarrow> node \<Rightarrow> jstr \<Rightarrow> jstr \<Rightarrow> dom \<Rightarrow> effect list \<times> dom" where
  "wrapFieldSelectionNative br fld wrap wrapEnd d =
     (let t = field (dat d fld);
          (es, d1) = insertTextIntoField br fld (wrap @ getFieldSelection None fld d @ wrapEnd) d
      in (es, upd_field fld (\<lambda>u. set_end (selectionEnd t + length wrap)
                                   (set_start (selectionStart t + length wrap) u)) d1))"

section \<open>Replacing\<close>

record match =
  m_off :: nat
  m_text :: jstr
  m_caps :: "jstr option list"

datatype search =
    SString jstr
  | SRegExp "jstr \<Rightarrow> match list"

datatype replacer =
    RString jstr
  | RFun "match \<Rightarrow> jstr"

fun replacement :: "replacer \<Rightarrow> match \<Rightarrow> jstr" where
  "replacement (RString r) m = r"
| "replacement (RFun f) m = f m"

text \<open>The matches for which \<open>value.replace\<close> calls its function: a string matches once, at its first occurrence.\<close>

fun matches_of :: "search \<Rightarrow> jstr \<Rightarrow> match list" where
  "matches_of (SString s) v =
     (case List.find (\<lambda>i. take (length s) (drop i v) = s) [0..<length v + 1] of
        None \<Rightarrow> []
      | Some i \<Rightarrow> [\<lparr>m_off = i, m_text = s, m_caps = []\<rparr>])"
| "matches_of (SRegExp f) v = f v"

definition replace_match ::
    "browser \<Rightarrow> bool \<Rightarrow> node \<Rightarrow> replacer \<Rightarrow> match \<Rightarrow> int \<times> effect list \<times> dom \<Rightarrow> int \<times> effect list \<times> dom" where
  "replace_match br select fld r m =
     (\<lambda>(drift, es, d).
        (let matchStart = nat (drift + int (m_off m));
             matchLength = length (m_text m);
             d1 = upd_field fld (\<lambda>t. set_end (matchStart + matchLength) (set_start matchStart t)) d;
             txt = replacement r m;
             (es', d2) = insertTextWhereverTheFocusIs br txt d1;
             d3 = (if select then upd_field fld (set_start matchStart) d2 else d2)
         in (drift + int (length txt) - int matchLength, es @ es', d3)))"

definition replaceFieldText ::
    "browser \<Rightarrow> bool \<Rightarrow> node \<Rightarrow> search \<Rightarrow> replacer \<Rightarrow> dom \<Rightarrow> js_error + effect list \<times> dom" where
  "replaceFieldText br select fld searchValue r d =
     (if \<not> isNativeField d fld then Inl TypeError
      else Inr (withFocus fld
        (\<lambda>d. snd (fold (replace_match br select fld r)
                    (matches_of searchValue (tvalue (field (dat d fld)))) (0, [], d))) d))"

section \<open>Laws\<close>

interpretation typing: caret_insertion "type_text txt" selectionStart selectionEnd "\<lambda>_. txt" wf_field
  by unfold_locales (auto simp: type_text_def wf_field_def setRangeText_end_simps)

lemma native_frame [simp]:
  "isNativeField (focus x d) y = isNativeField d y"
  "isNativeField (upd_field z f d) y = isNativeField d y"
  by (auto simp: isNativeField_def upd_field_def dat_upd)

lemma upd_field_frame [simp]:
  "activeElement (upd_field z f d) = activeElement d" "isConnected (upd_field z f d) = isConnected d"
  "focusable (upd_field z f d) = focusable d"
  by (simp_all add: upd_field_def)

text \<open>A field the library can edit, on a page whose focus can come back to where it is.\<close>

definition editable :: "dom \<Rightarrow> node \<Rightarrow> bool" where
  "editable d x \<longleftrightarrow> isNativeField d x \<and> isConnected d x \<and> focusable d x \<and>
     (case activeElement d of None \<Rightarrow> False | Some a \<Rightarrow> a = x \<or> isConnected d a \<and> focusable d a)"

lemma editable_upd_field [simp]: "editable (upd_field z f d) x = editable d x"
  by (simp add: editable_def split: option.split)

lemma exec_focused:
  "activeElement d = Some x \<Longrightarrow> isNativeField d x \<Longrightarrow>
     execCommand br c d = (if sends_input c then [InputEvent x] else [], upd_field x (field_command br c) d)"
  by (simp add: execCommand_def)

lemma borrowed_focus:
  assumes "a \<noteq> x" "isConnected d a" "focusable d a" "activeElement d = Some a"
  shows "focus a (blur_field x (upd_field x f (focus x d))) = upd_field x f d"
  using assms by (auto simp: blur_field_def focus_def upd_field_def upd_def isConnected_def)

text \<open>Borrowing the focus for an edit of the field comes to the edit itself.\<close>

lemma withFocus_edit:
  assumes ok: "editable d x"
    and edit: "\<And>e. activeElement e = Some x \<Longrightarrow> dat e = dat d \<Longrightarrow> callback e = (es, upd_field x f e)"
  shows "withFocus x callback d = (es, upd_field x f d)"
proof -
  obtain a where a: "activeElement d = Some a" "a = x \<or> isConnected d a \<and> focusable d a"
    using ok by (auto simp: editable_def split: option.splits)
  have x: "activeElement (focus x d) = Some x" using ok by (simp add: editable_def focus_def)
  show ?thesis
  proof (cases "a = x")
    case True
    then show ?thesis using a edit [of d] by (simp add: withFocus_def)
  next
    case False
    then show ?thesis
      using a edit [OF x] borrowed_focus [of a x d f] by (simp add: withFocus_def Let_def)
  qed
qed

definition insert_command :: "jstr \<Rightarrow> command" where
  "insert_command txt = (if txt = [] then Delete else InsertText txt)"

lemma insert_focused:
  "activeElement d = Some x \<Longrightarrow> isNativeField d x \<Longrightarrow>
     insertTextWhereverTheFocusIs br txt d = ([InputEvent x], upd_field x (field_command br (insert_command txt)) d)"
  by (simp add: insertTextWhereverTheFocusIs_def insert_command_def exec_focused sends_input_def)

lemma insert_into_field:
  assumes "editable d x"
  shows "insertTextIntoField br x txt d = ([InputEvent x], upd_field x (field_command br (insert_command txt)) d)"
  unfolding insertTextIntoField_def
proof (rule withFocus_edit [OF assms])
  fix e :: dom assume "activeElement e = Some x" "dat e = dat d"
  moreover have "isNativeField d x" using assms by (simp add: editable_def)
  ultimately show "insertTextWhereverTheFocusIs br txt e =
      ([InputEvent x], upd_field x (field_command br (insert_command txt)) e)"
    by (simp add: insert_focused isNativeField_def)
qed

lemma insert_command_types:
  "txt \<noteq> [] \<or> selectionStart t < selectionEnd t \<Longrightarrow> field_command br (insert_command txt) t = type_text txt t"
  by (auto simp: insert_command_def)

lemma upd_field_comp: "upd_field x f (upd_field x g d) = upd_field x (\<lambda>t. f (g t)) d"
  by (simp add: upd_field_def upd_def)

lemma field_upd_field: "field (dat (upd_field x f d) x) = f (field (dat d x))"
  by (simp add: upd_field_def dat_upd)

section \<open>Setting and wrapping\<close>

lemma set_field_text:
  assumes "editable d x" "txt \<noteq> [] \<or> tvalue (field (dat d x)) \<noteq> []"
  shows "fst (setFieldText br x txt d) = [InputEvent x]"
    and "tvalue (field (dat (snd (setFieldText br x txt d)) x)) = txt"
proof -
  have n: "isNativeField d x" using assms(1) by (simp add: editable_def)
  then have *: "setFieldText br x txt d =
      ([InputEvent x], upd_field x (\<lambda>t. field_command br (insert_command txt) (select_text t)) d)"
    using assms(1) by (simp add: setFieldText_def insert_into_field upd_field_comp)
  then show "fst (setFieldText br x txt d) = [InputEvent x]" by simp
  have "field_command br (insert_command txt) (select_text (field (dat d x))) =
      type_text txt (select_text (field (dat d x)))"
    using assms(2) by (intro insert_command_types) (auto simp: select_text_def)
  then show "tvalue (field (dat (snd (setFieldText br x txt d)) x)) = txt"
    by (simp add: * field_upd_field type_text_def select_text_def setRangeText_end_def Let_def)
qed

definition selected :: "textarea \<Rightarrow> jstr" where
  "selected t = take (selectionEnd t - selectionStart t) (drop (selectionStart t) (tvalue t))"

lemma native_selection: "isNativeField d x \<Longrightarrow> getFieldSelection sel x d = selected (field (dat d x))"
  by (simp add: getFieldSelection_def selected_def Let_def)

lemma length_selected: "wf_field t \<Longrightarrow> length (selected t) = selectionEnd t - selectionStart t"
  by (auto simp: wf_field_def selected_def)

lemma set_range:
  assumes "a \<le> b" "b \<le> length (tvalue t)"
  shows "set_end b (set_start a t) = t\<lparr>selectionStart := a, selectionEnd := b\<rparr>"
  using assms by (simp add: set_end_def set_start_def setSelectionRange_def Let_def min_def max_def)

lemma wrapped:
  fixes t :: textarea and w w' :: jstr
  assumes "wf_field t"
  defines u_def: "u \<equiv> set_end (selectionEnd t + length w) (set_start (selectionStart t + length w)
      (type_text (w @ selected t @ w') t))"
  shows "tvalue u = take (selectionStart t) (tvalue t) @ w @ selected t @ w' @ drop (selectionEnd t) (tvalue t)"
    and "selected u = selected t"
proof -
  let ?t = "type_text (w @ selected t @ w') t"
  have le: "selectionStart t \<le> selectionEnd t" "selectionEnd t \<le> length (tvalue t)"
    using assms(1) by (auto simp: wf_field_def)
  note len = length_selected [OF assms(1)]
  have v: "tvalue ?t = take (selectionStart t) (tvalue t) @ w @ selected t @ w' @ drop (selectionEnd t) (tvalue t)"
    using typing.edit_value [OF assms(1)] by simp
  have u: "u = ?t\<lparr>selectionStart := selectionStart t + length w, selectionEnd := selectionEnd t + length w\<rparr>"
    unfolding u_def using le len by (intro set_range) (auto simp: v)
  show "tvalue u = take (selectionStart t) (tvalue t) @ w @ selected t @ w' @ drop (selectionEnd t) (tvalue t)"
    by (simp add: u v)
  show "selected u = selected t"
    unfolding selected_def [of u] using le len by (simp add: u v)
qed

text \<open>
  Wrapping keeps the selection. Wrapping the selection of a text field puts the two texts around it,
  changes nothing else of the text, leaves the same text selected and sends one input event.
\<close>

theorem wrap_keeps_selection:
  assumes "editable d x" "wf_field (field (dat d x))" "w \<noteq> []"
  shows "\<exists>d'. wrapFieldSelectionNative br x w w' d = ([InputEvent x], d') \<and>
    getFieldSelection None x d' = getFieldSelection None x d \<and>
    (let t = field (dat d x)
     in tvalue (field (dat d' x)) =
          take (selectionStart t) (tvalue t) @ w @ getFieldSelection None x d @ w' @ drop (selectionEnd t) (tvalue t))"
proof -
  let ?t = "field (dat d x)"
  have n: "isNativeField d x" using assms(1) by (simp add: editable_def)
  note sel = native_selection [OF n, of None]
  have f: "field_command br (insert_command (w @ selected ?t @ w')) t = type_text (w @ selected ?t @ w') t" for t
    using assms(3) by (simp add: insert_command_types)
  define d' where "d' = upd_field x (\<lambda>u. set_end (selectionEnd ?t + length w)
      (set_start (selectionStart ?t + length w) (type_text (w @ selected ?t @ w') u))) d"
  have "wrapFieldSelectionNative br x w w' d = ([InputEvent x], d')"
    by (simp add: wrapFieldSelectionNative_def Let_def sel insert_into_field [OF assms(1)] upd_field_comp f d'_def)
  moreover have "isNativeField d' x" using n by (simp add: d'_def)
  ultimately show ?thesis
    using wrapped [OF assms(2), where w = w and w' = w']
    by (simp add: sel native_selection d'_def field_upd_field Let_def)
qed

definition note_page :: dom where
  "note_page = (mk_dom (Node 0 [Node 2 []])
     [(2, (new_element ''TEXTAREA'')\<lparr>field := \<lparr>tvalue = js ''see this'', selectionStart = 4, selectionEnd = 8\<rparr>\<rparr>)])
     \<lparr>activeElement := Some 2\<rparr>"

definition plain_browser :: browser where
  "plain_browser = \<lparr>backspace = (\<lambda>t. t), editing = (\<lambda>_ _ d. ([], d))\<rparr>"

lemma note_page_ok: "editable note_page 2" "wf_field (field (dat note_page 2))"
  by (simp_all add: note_page_def editable_def isNativeField_def wf_field_def dom_eval)

theorem wrap_keeps_selection_witness:
  "\<exists>d'. wrapFieldSelectionNative plain_browser 2 (js ''**'') (js ''**'') note_page = ([InputEvent 2], d') \<and>
     tvalue (field (dat d' 2)) = js ''see **this**''"
proof -
  have "getFieldSelection None 2 note_page = js ''this''"
    "tvalue (field (dat note_page 2)) = js ''see this''"
    "selectionStart (field (dat note_page 2)) = 4" "selectionEnd (field (dat note_page 2)) = 8"
    by (simp_all add: note_page_def getFieldSelection_def isNativeField_def dom_eval js_def)
  then show ?thesis
    using wrap_keeps_selection [OF note_page_ok, of "js ''**''" plain_browser "js ''**''"]
    by (auto simp: js_def)
qed

section \<open>Replacing is String.prototype.replace\<close>

text \<open>
  The reference is the language's \<open>value.replace\<close>: the matches from left to right, each exchanged for a
  text that depends on the match. A function gives this text itself. In a string the language expands
  the patterns that begin with a dollar sign (GetSubstitution of the ECMAScript specification, for
  expressions without named groups): a second one stands for a dollar sign, \<open>&\<close> for the match, a grave
  accent and an apostrophe (code unit 39) for the text before and after it, and one or two digits for a
  captured group, if there is one with this number.
\<close>

definition dollar :: unit16 where
  "dollar = chr16 CHR ''$''"

definition digit_value :: "unit16 \<Rightarrow> nat option" where
  "digit_value c = (if chr16 CHR ''0'' \<le> c \<and> c \<le> chr16 CHR ''9'' then Some (unat (c - chr16 CHR ''0'')) else None)"

text \<open>The number of the group and of the digits after the first, \<open>n\<close> being the number of groups.\<close>

definition group_ref :: "nat \<Rightarrow> unit16 \<Rightarrow> jstr \<Rightarrow> (nat \<times> nat) option" where
  "group_ref n c rest =
     (case digit_value c of
        None \<Rightarrow> None
      | Some i \<Rightarrow>
          (case Option.bind (if rest = [] then None else Some (hd rest)) digit_value of
             Some j \<Rightarrow>
               if 10 * i + j \<le> n then if 1 \<le> 10 * i + j then Some (10 * i + j, 1) else None
               else if 1 \<le> i \<and> i \<le> n then Some (i, 0) else None
           | None \<Rightarrow> if 1 \<le> i \<and> i \<le> n then Some (i, 0) else None))"

definition group_text :: "match \<Rightarrow> nat \<Rightarrow> jstr" where
  "group_text m i = (case m_caps m ! (i - 1) of None \<Rightarrow> [] | Some s \<Rightarrow> s)"

fun get_substitution :: "jstr \<Rightarrow> match \<Rightarrow> jstr \<Rightarrow> jstr" where
  "get_substitution v m [] = []"
| "get_substitution v m [c] = [c]"
| "get_substitution v m (c # d # rest) =
     (if c \<noteq> dollar then c # get_substitution v m (d # rest)
      else if d = dollar then dollar # get_substitution v m rest
      else if d = chr16 CHR ''`'' then take (m_off m) v @ get_substitution v m rest
      else if d = chr16 CHR ''&'' then m_text m @ get_substitution v m rest
      else if d = 39 then drop (m_off m + length (m_text m)) v @ get_substitution v m rest
      else (case group_ref (length (m_caps m)) d rest of
              None \<Rightarrow> c # get_substitution v m (d # rest)
            | Some (i, k) \<Rightarrow> group_text m i @ get_substitution v m (drop k rest)))"

lemma get_substitution_plain: "dollar \<notin> set s \<Longrightarrow> get_substitution v m s = s"
  by (induction v m s rule: get_substitution.induct) auto

fun standard_replacement :: "jstr \<Rightarrow> replacer \<Rightarrow> match \<Rightarrow> jstr" where
  "standard_replacement v (RString s) m = get_substitution v m s"
| "standard_replacement v (RFun f) m = f m"

text \<open>\<open>f m\<close> is the text that a match is exchanged for.\<close>

fun js_replace :: "jstr \<Rightarrow> nat \<Rightarrow> match list \<Rightarrow> (match \<Rightarrow> jstr) \<Rightarrow> jstr" where
  "js_replace v pos [] f = drop pos v"
| "js_replace v pos (m # ms) f =
     take (m_off m - pos) (drop pos v) @ f m @ js_replace v (m_off m + length (m_text m)) ms f"

text \<open>The replacers whose text the language takes as it is.\<close>

fun plain_replacer :: "replacer \<Rightarrow> bool" where
  "plain_replacer (RString s) = (dollar \<notin> set s)"
| "plain_replacer (RFun f) = True"

lemma plain_replacement: "plain_replacer r \<Longrightarrow> standard_replacement v r = replacement r"
  by (cases r) (auto simp: get_substitution_plain fun_eq_iff)

text \<open>The matches of a search are parts of the text, from left to right and disjoint.\<close>

fun valid_matches :: "jstr \<Rightarrow> nat \<Rightarrow> match list \<Rightarrow> bool" where
  "valid_matches v pos [] \<longleftrightarrow> pos \<le> length v"
| "valid_matches v pos (m # ms) \<longleftrightarrow>
     pos \<le> m_off m \<and> m_off m + length (m_text m) \<le> length v \<and>
     take (length (m_text m)) (drop (m_off m) v) = m_text m \<and>
     valid_matches v (m_off m + length (m_text m)) ms"

lemma string_matches_valid: "valid_matches v 0 (matches_of (SString s) v)"
proof (cases "List.find (\<lambda>i. take (length s) (drop i v) = s) [0..<length v + 1]")
  case (Some i)
  then have *: "take (length s) (drop i v) = s" "i \<le> length v"
    by (auto simp: find_Some_iff simp del: upt_Suc)
  then have "length s \<le> length v - i" by (metis length_drop length_take min.cobounded1)
  then show ?thesis using * Some by (simp del: upt_Suc)
qed (simp del: upt_Suc)

text \<open>One step of the loop on the field alone.\<close>

definition replace_field :: "browser \<Rightarrow> bool \<Rightarrow> replacer \<Rightarrow> match \<Rightarrow> int \<times> textarea \<Rightarrow> int \<times> textarea" where
  "replace_field br select r m =
     (\<lambda>(drift, t).
        (let matchStart = nat (drift + int (m_off m));
             u = field_command br (insert_command (replacement r m))
                   (set_end (matchStart + length (m_text m)) (set_start matchStart t))
         in (drift + int (length (replacement r m)) - int (length (m_text m)),
             if select then set_start matchStart u else u)))"

lemma upd_field_same [simp]: "upd_field x (\<lambda>_. field (dat d x)) d = d"
  by (simp add: upd_field_def upd_def)

lemma replace_match_field:
  assumes "activeElement d = Some x" "isNativeField d x"
  shows "replace_match br select x r m (drift, es, d) =
    (let (drift', t) = replace_field br select r m (drift, field (dat d x))
     in (drift', es @ [InputEvent x], upd_field x (\<lambda>_. t) d))"
  using assms
  by (cases select)
    (simp_all add: replace_match_def replace_field_def Let_def insert_focused upd_field_comp,
     simp_all add: upd_field_def upd_def)

lemma replace_loop_field:
  assumes "activeElement d = Some x" "isNativeField d x"
  shows "fold (replace_match br select x r) ms (drift, es, d) =
    (let (drift', t) = fold (replace_field br select r) ms (drift, field (dat d x))
     in (drift', es @ map (\<lambda>_. InputEvent x) ms, upd_field x (\<lambda>_. t) d))"
  using assms
proof (induction ms arbitrary: drift es d)
  case (Cons m ms)
  obtain drift' t where s: "replace_field br select r m (drift, field (dat d x)) = (drift', t)" by force
  show ?case
    using Cons.IH [of "upd_field x (\<lambda>_. t) d" drift' "es @ [InputEvent x]"] Cons.prems
    by (simp add: replace_match_field s field_upd_field upd_field_comp Let_def split: prod.split)
qed simp

lemma replace_step:
  assumes t: "tvalue t = pre @ drop pos v" "int (length pre) = int pos + drift"
    and m: "pos \<le> m_off m" "m_off m + length (m_text m) \<le> length v"
    and ne: "m_text m \<noteq> [] \<or> replacement r m \<noteq> []"
  shows "tvalue (snd (replace_field br select r m (drift, t))) =
      (pre @ take (m_off m - pos) (drop pos v) @ replacement r m) @ drop (m_off m + length (m_text m)) v" (is ?txt)
    and "int (length (pre @ take (m_off m - pos) (drop pos v) @ replacement r m)) =
      int (m_off m + length (m_text m)) + fst (replace_field br select r m (drift, t))" (is ?len)
proof -
  define a where "a = nat (drift + int (m_off m))"
  let ?t = "set_end (a + length (m_text m)) (set_start a t)"
  have a: "a = length pre + (m_off m - pos)" using t(2) m(1) by (simp add: a_def)
  then have le: "a + length (m_text m) \<le> length (tvalue t)" using m t by simp
  then have u: "?t = t\<lparr>selectionStart := a, selectionEnd := a + length (m_text m)\<rparr>"
    by (intro set_range) simp_all
  have c: "field_command br (insert_command (replacement r m)) ?t = type_text (replacement r m) ?t"
    using ne by (intro insert_command_types) (auto simp: u)
  have "tvalue (type_text (replacement r m) ?t) =
      pre @ take (m_off m - pos) (drop pos v) @ replacement r m @ drop (m_off m + length (m_text m)) v"
    using le m unfolding type_text_def u by (subst setRangeText_end_simps) (simp_all add: t a)
  moreover have "tvalue (set_start a w) = tvalue w" for w by (simp add: set_start_def)
  ultimately show ?txt
    by (cases select) (simp_all only: replace_field_def Let_def c split snd_conv if_True if_False append_assoc
        flip: a_def)
  show ?len using t(2) m by (simp add: replace_field_def Let_def)
qed

lemma replace_loop_value:
  assumes "tvalue t = pre @ drop pos v" "int (length pre) = int pos + drift" "valid_matches v pos ms"
    and "\<forall>m\<in>set ms. m_text m \<noteq> [] \<or> replacement r m \<noteq> []"
  shows "tvalue (snd (fold (replace_field br select r) ms (drift, t))) = pre @ js_replace v pos ms (replacement r)"
  using assms
proof (induction ms arbitrary: t pre pos drift)
  case (Cons m ms)
  have m: "pos \<le> m_off m" "m_off m + length (m_text m) \<le> length v" "m_text m \<noteq> [] \<or> replacement r m \<noteq> []"
    using Cons.prems(3,4) by simp_all
  obtain t' drift' where s: "replace_field br select r m (drift, t) = (drift', t')" by force
  show ?case
    using Cons.IH [OF replace_step [OF Cons.prems(1,2) m, where br = br and select = select]] Cons.prems(3,4)
    by (simp add: s)
qed simp

lemma replaceFieldText_value:
  assumes "editable d x"
    and "valid_matches (tvalue (field (dat d x))) 0 (matches_of sv (tvalue (field (dat d x))))"
    and "\<forall>m\<in>set (matches_of sv (tvalue (field (dat d x)))). m_text m \<noteq> [] \<or> replacement r m \<noteq> []"
  shows "\<exists>d'. replaceFieldText br select x sv r d =
      Inr (map (\<lambda>_. InputEvent x) (matches_of sv (tvalue (field (dat d x)))), d') \<and>
      tvalue (field (dat d' x)) =
        js_replace (tvalue (field (dat d x))) 0 (matches_of sv (tvalue (field (dat d x)))) (replacement r)"
proof -
  let ?v = "tvalue (field (dat d x))"
  let ?ms = "matches_of sv ?v"
  let ?t = "snd (fold (replace_field br select r) ?ms (0, field (dat d x)))"
  have n: "isNativeField d x" using assms(1) by (simp add: editable_def)
  have "withFocus x (\<lambda>e. snd (fold (replace_match br select x r)
      (matches_of sv (tvalue (field (dat e x)))) (0, [], e))) d =
      (map (\<lambda>_. InputEvent x) ?ms, upd_field x (\<lambda>_. ?t) d)"
    using n by (intro withFocus_edit [OF assms(1)])
      (simp add: replace_loop_field isNativeField_def Let_def case_prod_beta)
  moreover have "tvalue ?t = js_replace ?v 0 ?ms (replacement r)"
    using replace_loop_value [of "field (dat d x)" "[]" 0 ?v 0 ?ms] assms by simp
  ultimately show ?thesis
    using n by (intro exI [of _ "upd_field x (\<lambda>_. ?t) d"]) (simp add: replaceFieldText_def field_upd_field)
qed

lemma note_page_text: "tvalue (field (dat note_page 2)) = js ''see this''"
  by (simp add: note_page_def dom_eval)

lemma this_match:
  "matches_of (SString (js ''this'')) (js ''see this'') = [\<lparr>m_off = 4, m_text = js ''this'', m_caps = []\<rparr>]"
  by (simp add: js_def upt_rec numeral_eq_Suc)

text \<open>
  C33: replacing is String.prototype.replace. For a field the library can edit, and matches of which none
  replaces nothing by nothing (the command that deletes an empty selection erases the character before
  it), \<open>replaceFieldText\<close> leaves exactly the text that the language's replacement of the value gives with
  the replacement of every match, whatever the lengths of the replacements, with one input event per
  match: \<open>value.replace(searchValue, replacer)\<close> where the replacer is a function or a string without
  dollar signs, and \<open>value.replace(searchValue, () => replacer)\<close> for every string. On any other element it
  raises a TypeError.
\<close>

theorem replaceFieldText_is_replace:
  assumes "valid_matches (tvalue (field (dat d x))) 0 (matches_of sv (tvalue (field (dat d x))))"
    and "\<forall>m\<in>set (matches_of sv (tvalue (field (dat d x)))). m_text m \<noteq> [] \<or> replacement r m \<noteq> []"
  shows "(editable d x \<longrightarrow> (\<exists>d'. replaceFieldText br select x sv r d =
      Inr (map (\<lambda>_. InputEvent x) (matches_of sv (tvalue (field (dat d x)))), d') \<and>
      (let v = tvalue (field (dat d x)); after = tvalue (field (dat d' x))
       in after = js_replace v 0 (matches_of sv v) (replacement r) \<and>
          (plain_replacer r \<longrightarrow> after = js_replace v 0 (matches_of sv v) (standard_replacement v r))))) \<and>
    (\<not> isNativeField d x \<longrightarrow> replaceFieldText br select x sv r d = Inl TypeError)"
  using replaceFieldText_value [OF _ assms, of br select]
  by (auto simp: plain_replacement replaceFieldText_def Let_def)

theorem replaceFieldText_is_replace_witness:
  "\<exists>d'. replaceFieldText plain_browser True 2 (SString (js ''this'')) (RString (js ''that one'')) note_page =
      Inr ([InputEvent 2], d') \<and> tvalue (field (dat d' 2)) = js ''see that one''"
proof -
  have r: "take 4 (js ''see this'') @ js ''that one'' = js ''see that one''" by (simp add: js_def)
  show ?thesis
    using replaceFieldText_is_replace [of note_page 2 "SString (js ''this'')" "RString (js ''that one'')"
        plain_browser True] note_page_ok(1) string_matches_valid [of "js ''see this''" "js ''this''"]
    by (auto simp: note_page_text this_match r Let_def simp del: matches_of.simps)
qed

text \<open>
  A string with dollar patterns is inserted as it is, unlike what the comment "like
  \<open>field.value = field.value.replace()\<close>" suggests: with the replacer \<open>[$&]\<close> the language puts the match
  in brackets, and the library the pattern.
\<close>

theorem replaceFieldText_inserts_patterns:
  "\<exists>d'. replaceFieldText plain_browser True 2 (SString (js ''this'')) (RString (js ''[$&]'')) note_page =
      Inr ([InputEvent 2], d') \<and> tvalue (field (dat d' 2)) = js ''see [$&]'' \<and>
     js_replace (js ''see this'') 0 (matches_of (SString (js ''this'')) (js ''see this''))
       (standard_replacement (js ''see this'') (RString (js ''[$&]''))) = js ''see [this]''"
proof -
  have r: "take 4 (js ''see this'') @ js ''[$&]'' = js ''see [$&]''" by (simp add: js_def)
  have g: "get_substitution v m (js ''[$&]'') = js ''['' @ m_text m @ js '']''" for v m
    by (simp add: js_def dollar_def chr16_def)
  have j: "take 4 (js ''see this'') @ js ''['' @ js ''this'' @ js '']'' = js ''see [this]''" by (simp add: js_def)
  show ?thesis
    using replaceFieldText_value [of note_page 2 "SString (js ''this'')" "RString (js ''[$&]'')"
        plain_browser True] note_page_ok(1) string_matches_valid [of "js ''see this''" "js ''this''"]
    by (simp add: note_page_text this_match r g j del: matches_of.simps)
qed

end
