(* ===== verification/EmojiInsert.thy ===== *)
theory EmojiInsert
  imports TextFieldEdit
begin

text \<open>
  Choosing an emoji in the picker: the \<open>emoji-click\<close> listener of assets/emoji-init.js, which inserts
  the emoji through \<open>insertTextIntoField\<close> of the text-field library. \<open>parse\<close> is the browser's parser
  of selectors.
\<close>

section \<open>Operations\<close>

definition find_textarea :: "(jstr \<Rightarrow> sel option) \<Rightarrow> node \<Rightarrow> dom \<Rightarrow> js_error + node option" where
  "find_textarea parse picker d =
     (case closest d (HasAttr ''data-textarea-selector'') picker of
        None \<Rightarrow> Inr (getElementById d (js ''new-post-content''))
      | Some container \<Rightarrow>
          (case parse (case attr (dat d container) ''data-textarea-selector'' of None \<Rightarrow> [] | Some q \<Rightarrow> q) of
             None \<Rightarrow> Inl SyntaxError
           | Some q \<Rightarrow> Inr (doc_querySelector d q)))"

definition on_emoji_click ::
    "(jstr \<Rightarrow> sel option) \<Rightarrow> browser \<Rightarrow> node \<Rightarrow> jstr \<Rightarrow> dom \<Rightarrow> effect list \<times> dom outcome" where
  "on_emoji_click parse br picker unicode d =
     (case find_textarea parse picker d of
        Inl er \<Rightarrow> ([], Inl (er, d))
      | Inr None \<Rightarrow> ([], Inr d)
      | Inr (Some fld) \<Rightarrow>
          (let (es, d1) = insertTextIntoField br fld unicode d in (es, Inr d1)))"

section \<open>Insertion\<close>

text \<open>
  An emoji goes into the field that belongs to its picker. When the picker's field is found, the
  emoji replaces the field's selection, the caret stands behind it, one input event is sent, and the
  focus is afterwards where it was (on an element that may keep it).
\<close>

theorem emoji_click_inserts:
  assumes "find_textarea parse picker d = Inr (Some x)" "editable d x"
    and "wf_field (field (dat d x))" "unicode \<noteq> []"
  shows "\<exists>d'. on_emoji_click parse br picker unicode d = ([InputEvent x], Inr d') \<and>
    (let f = field (dat d x); f' = field (dat d' x)
     in take (selectionStart f') (tvalue f') = take (selectionStart f) (tvalue f) @ unicode \<and>
        drop (selectionStart f') (tvalue f') = drop (selectionEnd f) (tvalue f) \<and>
        selectionEnd f' = selectionStart f') \<and>
    activeElement d' = activeElement d"
proof -
  let ?d = "upd_field x (type_text unicode) d"
  have "insertTextIntoField br x unicode d = ([InputEvent x], ?d)"
    using insert_into_field [OF assms(2)] assms(4) by (simp add: insert_command_types insert_command_def upd_field_def)
  then have "on_emoji_click parse br picker unicode d = ([InputEvent x], Inr ?d)"
    using assms(1) by (simp add: on_emoji_click_def)
  moreover note typing.before_caret [OF assms(3), of unicode]
    typing.after_caret [OF assms(3), of unicode] typing.edit_caret [OF assms(3), of unicode]
  ultimately show ?thesis by (intro exI [of _ ?d]) (simp add: Let_def field_upd_field)
qed

definition emoji_page :: dom where
  "emoji_page = (mk_dom (Node 0 [Node 2 [], Node 4 []])
     [(2, (new_element ''TEXTAREA'')\<lparr>attr := [''id'' \<mapsto> js ''new-post-content''],
          field := \<lparr>tvalue = js ''hi'', selectionStart = 2, selectionEnd = 2\<rparr>\<rparr>),
      (4, new_element ''EMOJI-PICKER'')])\<lparr>activeElement := Some 4\<rparr>"

theorem emoji_click_inserts_witness:
  "\<exists>d'. on_emoji_click (\<lambda>_. None) plain_browser 4 [0x2764] emoji_page = ([InputEvent 2], Inr d') \<and>
     activeElement d' = Some 4"
proof -
  have "find_textarea (\<lambda>_. None) 4 emoji_page = Inr (Some 2)" "editable emoji_page 2"
    "wf_field (field (dat emoji_page 2))" "activeElement emoji_page = Some 4"
    by (simp_all add: emoji_page_def find_textarea_def editable_def isNativeField_def wf_field_def dom_eval)
  then show ?thesis
    using emoji_click_inserts [of "\<lambda>_. None" 4 emoji_page 2 "[0x2764]" plain_browser] by auto
qed

end
