(* ===== verification/EmojiTokens.thy ===== *)
theory EmojiTokens
  imports JsValue "HOL-Library.Sublist"
begin

text \<open>
  The helpers of assets/libs/emoji-picker-element/database.js that work on plain arrays and strings:
  \<open>uniqBy\<close>, \<open>minBy\<close>, \<open>findCommonMembers\<close>, the tokens of a text, and the two conversions of an
  emoji, from the data file to the stored form and from the stored form to the one handed out.
  \<open>token_search\<close> is the contract of an index that is searched by tokens; the custom emoji (a trie) and
  the stored emoji (an index of the browser's database) both provide it, in their theories.
  \<open>lower\<close> is the browser's \<open>toLowerCase\<close>.
\<close>

section \<open>Arrays\<close>

fun uniq_from :: "'k list \<Rightarrow> ('a \<Rightarrow> 'k) \<Rightarrow> 'a list \<Rightarrow> 'a list" where
  "uniq_from seen f [] = []"
| "uniq_from seen f (x # xs) =
     (if f x \<in> set seen then uniq_from seen f xs else x # uniq_from (f x # seen) f xs)"

definition uniqBy :: "'a list \<Rightarrow> ('a \<Rightarrow> 'k) \<Rightarrow> 'a list" where
  "uniqBy arr f = uniq_from [] f arr"

text \<open>\<open>array[0]\<close> of an empty array is undefined.\<close>

definition minBy :: "'a list \<Rightarrow> ('a \<Rightarrow> nat) \<Rightarrow> 'a option" where
  "minBy arr f =
     (case arr of [] \<Rightarrow> None | x # xs \<Rightarrow> Some (foldl (\<lambda>m y. if f m > f y then y else m) x xs))"

text \<open>Iterating over undefined raises.\<close>

definition findCommonMembers :: "'a list list \<Rightarrow> ('a \<Rightarrow> 'k) \<Rightarrow> js_error + 'a list" where
  "findCommonMembers arrays f =
     (case minBy arrays length of
        None \<Rightarrow> Inl TypeError
      | Some shortest \<Rightarrow> Inr (filter (\<lambda>x. \<forall>a \<in> set arrays. \<exists>y \<in> set a. f y = f x) shortest))"

section \<open>Tokens\<close>

text \<open>\<open>str.split(/[\s_]+/)\<close>, for the class of characters the expression repeats.\<close>

function split_runs :: "(unit16 \<Rightarrow> bool) \<Rightarrow> jstr \<Rightarrow> jstr list" where
  "split_runs p s =
     (let r = dropWhile (\<lambda>c. \<not> p c) s
      in if r = [] then [s] else takeWhile (\<lambda>c. \<not> p c) s # split_runs p (dropWhile p r))"
  by auto
termination
proof (relation "measure (\<lambda>(p, s). length s)")
  fix p s and r :: jstr
  assume r: "r = dropWhile (\<lambda>c. \<not> p c) s" "r \<noteq> []"
  then have "p (hd r)" by (metis hd_dropWhile)
  then have "length (dropWhile p r) < length r"
    using r(2) by (cases r) (auto intro: le_imp_less_Suc length_dropWhile_le)
  also have "\<dots> \<le> length s" by (simp add: r(1) length_dropWhile_le)
  finally show "((p, dropWhile p r), p, s) \<in> measure (\<lambda>(p, s). length s)" by simp
qed simp

declare split_runs.simps [simp del]

definition is_gap :: "unit16 \<Rightarrow> bool" where
  "is_gap c \<longleftrightarrow> is_trim_space c \<or> c = chr16 CHR ''_''"

definition irregularEmoticons :: "jstr list" where
  "irregularEmoticons = map js
     ['':D'', ''XD'', '':'' @ [CHR 0x27] @ ''D'', ''O:)'', '':X'', '':P'', '';P'', ''XP'', '':L'', '':Z'', '':j'', ''8D'',
      ''XO'', ''8)'', '':B'', '':O'', '':S'', '':'' @ [CHR 0x27] @ ''o'', ''Dx'', ''X('', ''D:'', '':C'', ''>0)'', '':3'',
      ''</3'', ''<3'', [CHR 0x5C] @ ''M/'', '':E'', ''8#'']"

definition clean_word :: "jstr \<Rightarrow> jstr" where
  "clean_word w =
     map (\<lambda>c. if c = 0x2019 then 0x27 else c) (filter (\<lambda>c. c \<notin> set (js '')(:,'')) w)"

definition extractTokens :: "(jstr \<Rightarrow> jstr) \<Rightarrow> jstr \<Rightarrow> jstr list" where
  "extractTokens lower str =
     filter (\<lambda>w. w \<noteq> [])
       (map (\<lambda>w. if (\<forall>c \<in> set w. \<not> is_word c) \<or> w \<in> set irregularEmoticons then lower w
                 else lower (clean_word w))
         (split_runs is_gap str))"

definition MIN_SEARCH_TEXT_LENGTH :: nat where
  "MIN_SEARCH_TEXT_LENGTH = 2"

definition normalizeTokens :: "(jstr \<Rightarrow> jstr) \<Rightarrow> jstr option list \<Rightarrow> jstr list" where
  "normalizeTokens lower strs =
     filter (\<lambda>w. length w \<ge> MIN_SEARCH_TEXT_LENGTH)
       (map lower (filter (\<lambda>w. w \<noteq> []) (concat (map (\<lambda>s. case s of None \<Rightarrow> [] | Some w \<Rightarrow> [w]) strs))))"

section \<open>Emoji\<close>

record raw_skin =
  rs_tone :: json
  rs_emoji :: jstr
  rs_version :: json

record raw_emoji =
  annotation :: jstr
  emoticon :: "jstr option"
  egroup :: int
  eorder :: int
  shortcodes :: "jstr list option"
  skins :: "raw_skin list option"
  etags :: "jstr list option"
  emoji_char :: jstr
  eversion :: json

record stored_emoji =
  st_annotation :: jstr
  st_group :: int
  st_order :: int
  st_tags :: "jstr list option"
  st_tokens :: "jstr list"
  st_unicode :: jstr
  st_version :: json
  st_emoticon :: "jstr option"
  st_shortcodes :: "jstr list option"
  skinTones :: "json list option"
  skinUnicodes :: "jstr list option"
  skinVersions :: "json list option"

record skin =
  sk_tone :: json
  sk_unicode :: jstr
  sk_version :: json

record clean_emoji =
  ce_annotation :: jstr
  ce_group :: int
  ce_order :: int
  ce_tags :: "jstr list option"
  ce_unicode :: jstr
  ce_version :: json
  ce_emoticon :: "jstr option"
  ce_shortcodes :: "jstr list option"
  ce_skins :: "skin list option"

definition or_empty :: "'a list option \<Rightarrow> 'a list" where
  "or_empty x = (case x of None \<Rightarrow> [] | Some xs \<Rightarrow> xs)"

definition search_tokens :: "(jstr \<Rightarrow> jstr) \<Rightarrow> raw_emoji \<Rightarrow> jstr list" where
  "search_tokens lower e =
     sort (remdups (normalizeTokens lower
       (map Some (concat (map (extractTokens lower) (or_empty (shortcodes e))) @
                  concat (map (extractTokens lower) (or_empty (etags e))) @
                  extractTokens lower (annotation e)) @ [emoticon e])))"

definition transform_emoji :: "(jstr \<Rightarrow> jstr) \<Rightarrow> raw_emoji \<Rightarrow> stored_emoji" where
  "transform_emoji lower e =
     \<lparr>st_annotation = annotation e, st_group = egroup e, st_order = eorder e, st_tags = etags e,
      st_tokens = search_tokens lower e, st_unicode = emoji_char e, st_version = eversion e,
      st_emoticon = (case emoticon e of Some w \<Rightarrow> if w = [] then None else Some w | None \<Rightarrow> None),
      st_shortcodes = shortcodes e,
      skinTones = map_option (map rs_tone) (skins e),
      skinUnicodes = map_option (map rs_emoji) (skins e),
      skinVersions = map_option (map rs_version) (skins e)\<rparr>"

definition transformEmojiData :: "(jstr \<Rightarrow> jstr) \<Rightarrow> raw_emoji list \<Rightarrow> stored_emoji list" where
  "transformEmojiData lower = map (transform_emoji lower)"

text \<open>The three arrays of the skins have one length, as \<open>transformEmojiData\<close> stores them.\<close>

definition wf_stored :: "stored_emoji \<Rightarrow> bool" where
  "wf_stored s \<longleftrightarrow> map_option length (skinUnicodes s) = map_option length (skinTones s) \<and>
     map_option length (skinVersions s) = map_option length (skinTones s)"

definition cleanEmoji :: "stored_emoji \<Rightarrow> clean_emoji" where
  "cleanEmoji s =
     \<lparr>ce_annotation = st_annotation s, ce_group = st_group s, ce_order = st_order s, ce_tags = st_tags s,
      ce_unicode = st_unicode s, ce_version = st_version s, ce_emoticon = st_emoticon s,
      ce_shortcodes = st_shortcodes s,
      ce_skins = map_option (\<lambda>ts. map (\<lambda>i.
          \<lparr>sk_tone = ts ! i, sk_unicode = or_empty (skinUnicodes s) ! i,
           sk_version = or_empty (skinVersions s) ! i\<rparr>) [0..<length ts]) (skinTones s)\<rparr>"

text \<open>The lists of a query: an exact search for every token but the last, a search by prefix for that one.\<close>

definition token_answers :: "(jstr \<Rightarrow> 'a list) \<Rightarrow> (jstr \<Rightarrow> 'a list) \<Rightarrow> jstr list \<Rightarrow> 'a list list" where
  "token_answers exact by_prefix ts =
     map (\<lambda>i. (if i < length ts - 1 then exact else by_prefix) (ts ! i)) [0..<length ts]"

section \<open>Laws of the arrays\<close>

lemma find_uniq_from:
  "k \<notin> set seen \<Longrightarrow> List.find (\<lambda>y. f y = k) (uniq_from seen f xs) = List.find (\<lambda>y. f y = k) xs"
  by (induction seen f xs rule: uniq_from.induct) auto

lemma uniq_from_keys:
  "f ` set (uniq_from seen f xs) = f ` set xs - set seen" "distinct (map f (uniq_from seen f xs))"
  by (induction seen f xs rule: uniq_from.induct) auto

lemma set_uniq_from: "set (uniq_from seen f xs) \<subseteq> set xs"
  by (induction seen f xs rule: uniq_from.induct) auto

lemma uniqBy_first: "List.find (\<lambda>y. f y = k) (uniqBy arr f) = List.find (\<lambda>y. f y = k) arr"
  by (simp add: uniqBy_def find_uniq_from)

lemma uniqBy_keys: "f ` set (uniqBy arr f) = f ` set arr" "distinct (map f (uniqBy arr f))"
  by (simp_all add: uniqBy_def uniq_from_keys)

lemma set_uniqBy: "inj_on f (set arr) \<Longrightarrow> set (uniqBy arr f) = set arr"
  using uniqBy_keys(1) [of f arr] set_uniq_from [of "[]" f arr]
  by (metis inj_on_image_eq_iff subset_refl uniqBy_def)

lemma sorted_uniq_from: "sorted (map g xs) \<Longrightarrow> sorted (map g (uniq_from seen f xs))"
  by (induction seen f xs rule: uniq_from.induct) (auto dest: set_uniq_from [THEN subsetD])

lemma minBy_fold:
  fixes f :: "'a \<Rightarrow> nat"
  defines "g \<equiv> \<lambda>m y. if f m > f y then y else m"
  shows "foldl g x xs \<in> set (x # xs)" "\<forall>y\<in>set (x # xs). f (foldl g x xs) \<le> f y"
proof -
  have "foldl g x xs \<in> set (x # xs) \<and> (\<forall>y\<in>set (x # xs). f (foldl g x xs) \<le> f y)"
  proof (induction xs arbitrary: x)
    case (Cons z zs)
    then show ?case using Cons.IH [of "g x z"] by (fastforce simp: g_def)
  qed simp
  then show "foldl g x xs \<in> set (x # xs)" "\<forall>y\<in>set (x # xs). f (foldl g x xs) \<le> f y" by auto
qed

lemma minBy_min: "minBy xs f = Some m \<Longrightarrow> m \<in> set xs \<and> (\<forall>y\<in>set xs. f m \<le> f y)"
  using minBy_fold [where f = f and x = "hd xs" and xs = "tl xs"] by (cases xs) (simp_all add: minBy_def del: set_simps)

lemma minBy_None [simp]: "minBy xs f = None \<longleftrightarrow> xs = []"
  by (simp add: minBy_def split: list.split)

lemma findCommonMembers_empty: "findCommonMembers [] f = Inl TypeError"
  by (simp add: findCommonMembers_def minBy_def)

lemma findCommonMembers_set:
  assumes "arrays \<noteq> []" "inj_on f U" "\<And>a. a \<in> set arrays \<Longrightarrow> set a \<subseteq> U"
  shows "\<exists>rs. findCommonMembers arrays f = Inr rs \<and> set rs = \<Inter> (set ` set arrays)"
proof -
  obtain m where m: "minBy arrays length = Some m" using assms(1) by (cases "minBy arrays length") auto
  then have "m \<in> set arrays" by (rule minBy_min [THEN conjunct1])
  have "(\<exists>y\<in>set a. f y = f x) \<longleftrightarrow> x \<in> set a" if "a \<in> set arrays" "x \<in> set m" for a x
    using assms(2,3) that \<open>m \<in> set arrays\<close> by (metis inj_on_contraD subsetD)
  then show ?thesis using m \<open>m \<in> set arrays\<close> by (auto simp: findCommonMembers_def)
qed

section \<open>Searching by tokens\<close>

text \<open>\<open>matches t u\<close>: the token \<open>u\<close> answers a search by the prefix \<open>t\<close>.\<close>

locale token_search =
  fixes items :: "'a set"
    and tokens_of :: "'a \<Rightarrow> jstr list"
    and matches :: "jstr \<Rightarrow> jstr \<Rightarrow> bool"
    and exact :: "jstr \<Rightarrow> 'a list"
    and by_prefix :: "jstr \<Rightarrow> 'a list"
  assumes exact: "set (exact t) = {x \<in> items. t \<in> set (tokens_of x)}"
    and by_prefix: "set (by_prefix t) = {x \<in> items. \<exists>u\<in>set (tokens_of x). matches t u}"
    and matches_refl: "matches t t"
begin

definition found :: "jstr list \<Rightarrow> 'a set" where
  "found ts = {x \<in> items. (\<forall>t\<in>set (butlast ts). t \<in> set (tokens_of x)) \<and>
      (\<exists>u\<in>set (tokens_of x). matches (last ts) u)}"

lemma answers_set:
  assumes "ts \<noteq> []"
  shows "\<Inter> (set ` set (token_answers exact by_prefix ts)) = found ts"
    and "a \<in> set (token_answers exact by_prefix ts) \<Longrightarrow> set a \<subseteq> items"
proof -
  obtain us t where ts: "ts = us @ [t]" using assms by (metis rev_exhaust)
  have *: "token_answers exact by_prefix ts = map exact (butlast ts) @ [by_prefix (last ts)]"
    by (simp add: token_answers_def ts) (auto intro: nth_equalityI simp: nth_append)
  show "\<Inter> (set ` set (token_answers exact by_prefix ts)) = found ts"
    unfolding * found_def by (auto simp: exact by_prefix)
  show "a \<in> set (token_answers exact by_prefix ts) \<Longrightarrow> set a \<subseteq> items"
    unfolding * by (auto simp: exact by_prefix)
qed

lemma common_members:
  assumes "ts \<noteq> []" "inj_on ident items"
  shows "\<exists>rs. findCommonMembers (token_answers exact by_prefix ts) ident = Inr rs \<and> set rs = found ts"
proof -
  have "token_answers exact by_prefix ts \<noteq> []" using assms(1) by (simp add: token_answers_def)
  then show ?thesis
    using findCommonMembers_set [OF _ assms(2) answers_set(2) [OF assms(1)]] answers_set(1) [OF assms(1)]
    by metis
qed

text \<open>A query whose tokens are all tokens of an item finds the item.\<close>

lemma found_by_own_tokens: "x \<in> items \<Longrightarrow> ts \<noteq> [] \<Longrightarrow> set ts \<subseteq> set (tokens_of x) \<Longrightarrow> x \<in> found ts"
  using matches_refl [of "last ts"]
  by (auto simp: found_def dest: in_set_butlastD intro!: bexI [of _ "last ts"])

end

section \<open>Tokens of an emoji\<close>

lemma normalizeTokens_append: "normalizeTokens lower (xs @ ys) = normalizeTokens lower xs @ normalizeTokens lower ys"
  by (simp add: normalizeTokens_def)

lemma normalized_long: "t \<in> set (normalizeTokens lower xs) \<Longrightarrow> 2 \<le> length t"
  by (simp add: normalizeTokens_def MIN_SEARCH_TEXT_LENGTH_def)

lemma normalizeTokens_mono: "set xs \<subseteq> set ys \<Longrightarrow> set (normalizeTokens lower xs) \<subseteq> set (normalizeTokens lower ys)"
  by (auto simp: normalizeTokens_def)

definition query_tokens :: "(jstr \<Rightarrow> jstr) \<Rightarrow> jstr \<Rightarrow> jstr list" where
  "query_tokens lower q = normalizeTokens lower (map Some (extractTokens lower q))"

lemma shortcode_tokens:
  "sc \<in> set (or_empty (shortcodes e)) \<Longrightarrow> set (query_tokens lower sc) \<subseteq> set (search_tokens lower e)"
  unfolding query_tokens_def search_tokens_def set_sort set_remdups
  by (rule normalizeTokens_mono) auto

lemma token_nonempty: "t \<in> set (extractTokens lower s) \<Longrightarrow> t \<noteq> []"
  by (simp add: extractTokens_def)

text \<open>
  What an emoji is handed out as. Storing an emoji of the data file and cleaning it again keeps its
  annotation, group, order, tags, version, shortcodes and skins (each with its tone, character and
  version, in order); the search tokens are gone, and an empty emoticon counts as none.
\<close>

theorem cleaned_emoji_keeps_data:
  "cleanEmoji (transform_emoji lower e) =
     \<lparr>ce_annotation = annotation e, ce_group = egroup e, ce_order = eorder e, ce_tags = etags e,
      ce_unicode = emoji_char e, ce_version = eversion e,
      ce_emoticon = (if emoticon e = Some [] then None else emoticon e), ce_shortcodes = shortcodes e,
      ce_skins = map_option (map (\<lambda>s. \<lparr>sk_tone = rs_tone s, sk_unicode = rs_emoji s, sk_version = rs_version s\<rparr>))
        (skins e)\<rparr>"
  by (auto simp: cleanEmoji_def transform_emoji_def or_empty_def intro!: nth_equalityI split: option.split)

end
