(* ===== verification/EmojiTrie.thy ===== *)
theory EmojiTrie
  imports EmojiTokens "HOL-Library.AList" "HOL-Library.Multiset"
begin

text \<open>
  The custom emoji of assets/libs/emoji-picker-element/database.js: the trie of \<open>trie\<close> with its
  exact and prefix searches, and \<open>customEmojiIndex\<close>. A Map of the trie is a node: its entry for the
  end marker and its entries for characters, in the order they were added. Comparing by name never
  answers "equal"; emoji with the same name in lower case stay in the order they had.
\<close>

section \<open>The trie\<close>

datatype 'a trie = Trie (coda: "'a list option") (kids: "(unit16 \<times> 'a trie) list")

definition new_map :: "'a trie" where
  "new_map = Trie None []"

fun trie_insert :: "'a \<Rightarrow> jstr \<Rightarrow> 'a trie \<Rightarrow> 'a trie" where
  "trie_insert x [] (Trie c ks) = Trie (Some (or_empty c @ [x])) ks"
| "trie_insert x (ch # w) (Trie c ks) =
     Trie c (AList.update ch (trie_insert x w (case map_of ks ch of None \<Rightarrow> new_map | Some t \<Rightarrow> t)) ks)"

definition trie_of :: "'a list \<Rightarrow> ('a \<Rightarrow> jstr list) \<Rightarrow> 'a trie" where
  "trie_of arr itemToTokens =
     fold (\<lambda>item t. fold (trie_insert item) (itemToTokens item) t) arr new_map"

fun walk :: "'a trie \<Rightarrow> jstr \<Rightarrow> 'a trie option" where
  "walk t [] = Some t"
| "walk (Trie c ks) (ch # w) = (case map_of ks ch of None \<Rightarrow> None | Some t \<Rightarrow> walk t w)"

fun map_count :: "'a trie \<Rightarrow> nat" where
  "map_count (Trie c ks) = Suc (sum_list (map (\<lambda>(ch, t). map_count t) ks))"

lemma map_count_pos [simp]: "0 < map_count t"
  by (cases t) simp

lemma sum_list_sort_key: "sum_list (map f (sort_key g xs)) = (sum_list (map f xs) :: nat)"
  by (metis mset_map mset_sort sum_mset_sum_list)

text \<open>The queue of the prefix search: the end marker of a Map sorts before its characters.\<close>

function traverse :: "'a trie list \<Rightarrow> 'a list" where
  "traverse [] = []"
| "traverse (t # queue) = or_empty (coda t) @ traverse (queue @ map snd (sort_key fst (kids t)))"
  by pat_completeness auto
termination
proof (relation "measure (\<lambda>q. sum_list (map map_count q))")
  fix t :: "'a trie" and queue
  have "sum_list (map map_count (map snd (sort_key fst (kids t)))) < map_count t"
    using sum_list_sort_key [of "\<lambda>(ch, t). map_count t" fst "kids t"]
    by (cases t) (simp add: case_prod_unfold o_def)
  then show "(queue @ map snd (sort_key fst (kids t)), t # queue) \<in> measure (\<lambda>q. sum_list (map map_count q))"
    by simp
qed simp

definition trie_search :: "'a trie \<Rightarrow> jstr \<Rightarrow> bool \<Rightarrow> 'a list" where
  "trie_search t query exact =
     (case walk t query of
        None \<Rightarrow> []
      | Some u \<Rightarrow> if exact then or_empty (coda u) else traverse [u])"

section \<open>The trie against its specification\<close>

fun all_items :: "'a trie \<Rightarrow> 'a list" where
  "all_items (Trie c ks) = or_empty c @ concat (map (\<lambda>(ch, t). all_items t) ks)"

lemma all_items_new [simp]: "all_items new_map = []" "coda new_map = None"
  by (simp_all add: new_map_def or_empty_def)

lemma walk_new [simp]: "walk new_map w = (if w = [] then Some new_map else None)"
  by (cases w) (simp_all add: new_map_def)

lemma mset_concat_update:
  "mset (concat (map f (AList.update k v ks))) + mset (case map_of ks k of None \<Rightarrow> [] | Some u \<Rightarrow> f (k, u)) =
     mset (concat (map f ks)) + mset (f (k, v))"
  by (induction ks) (auto simp: ac_simps split: option.splits)

lemma all_items_insert: "mset (all_items (trie_insert x w t)) = add_mset x (mset (all_items t))"
proof (induction x w t rule: trie_insert.induct)
  case (2 x ch w c ks)
  let ?u = "case map_of ks ch of None \<Rightarrow> new_map | Some t \<Rightarrow> t"
  have "mset (concat (map (\<lambda>(ch, t). all_items t) (AList.update ch (trie_insert x w ?u) ks))) + mset (all_items ?u) =
      mset (concat (map (\<lambda>(ch, t). all_items t) ks)) + mset (all_items (trie_insert x w ?u))"
    using mset_concat_update [of "\<lambda>(ch, t). all_items t" ch "trie_insert x w ?u" ks]
    by (simp split: option.splits)
  then show ?case using "2.IH" by simp
qed (simp add: or_empty_def)

lemma mset_concat_sort: "mset (concat (map f (sort_key g xs))) = mset (concat (map f xs))"
  by (metis mset_concat mset_map mset_sort sum_mset_sum_list)

lemma traverse_all: "mset (traverse queue) = mset (concat (map all_items queue))"
proof (induction queue rule: traverse.induct)
  case (2 t queue)
  have "mset (concat (map all_items (map snd (sort_key fst (kids t))))) =
      mset (concat (map (\<lambda>(ch, t). all_items t) (kids t)))"
    using mset_concat_sort [of "\<lambda>(ch, t). all_items t" fst "kids t"]
    by (simp add: case_prod_unfold o_def)
  moreover have "all_items t = or_empty (coda t) @ concat (map (\<lambda>(ch, t). all_items t) (kids t))"
    by (cases t) simp
  ultimately show ?case using 2 by simp
qed simp

lemma traverse_new [simp]: "traverse [new_map] = []"
  by (simp add: new_map_def or_empty_def)

lemma search_new [simp]: "trie_search new_map q b = []"
  by (simp add: trie_search_def or_empty_def del: traverse.simps)

lemma search_insert_exact:
  "trie_search (trie_insert x w t) q True = trie_search t q True @ (if q = w then [x] else [])"
proof (induction x w t arbitrary: q rule: trie_insert.induct)
  case (1 x c ks)
  show ?case by (cases q) (auto simp: trie_search_def or_empty_def split: option.split)
next
  case (2 x ch w c ks)
  show ?case
  proof (cases q)
    case (Cons ch' q')
    then show ?thesis
      using 2 [of q'] by (auto simp: trie_search_def update_conv' or_empty_def split: option.splits if_splits)
  qed (simp add: trie_search_def or_empty_def)
qed

lemma search_insert_prefix:
  "mset (trie_search (trie_insert x w t) q False) =
     mset (trie_search t q False) + (if prefix q w then {#x#} else {#})"
proof (induction x w t arbitrary: q rule: trie_insert.induct)
  case (1 x c ks)
  show ?case
    by (cases q) (auto simp: trie_search_def traverse_all or_empty_def simp del: traverse.simps split: option.split)
next
  case (2 x ch w c ks)
  show ?case
  proof (cases q)
    case Nil
    then show ?thesis
      using all_items_insert [of x "ch # w" "Trie c ks"]
      by (simp add: trie_search_def traverse_all del: traverse.simps trie_insert.simps all_items.simps)
  next
    case (Cons ch' q')
    then show ?thesis
      using 2 [of q']
      by (auto simp: trie_search_def update_conv' traverse_all simp del: traverse.simps
          split: option.splits if_splits)
  qed
qed

lemma trie_exact:
  "trie_search (trie_of arr toks) q True =
     concat (map (\<lambda>item. map (\<lambda>_. item) (filter (\<lambda>w. w = q) (toks item))) arr)"
proof -
  have e: "trie_search (fold (trie_insert x) ws t) q True =
      trie_search t q True @ map (\<lambda>_. x) (filter (\<lambda>w. w = q) ws)" for x ws and t :: "'a trie"
    by (induction ws arbitrary: t) (auto simp: search_insert_exact)
  have "trie_search (fold (\<lambda>item. fold (trie_insert item) (toks item)) arr t) q True =
      trie_search t q True @ concat (map (\<lambda>item. map (\<lambda>_. item) (filter (\<lambda>w. w = q) (toks item))) arr)" for t
    by (induction arr arbitrary: t) (auto simp: e)
  then show ?thesis by (simp add: trie_of_def)
qed

lemma trie_prefix:
  "mset (trie_search (trie_of arr toks) q False) =
     mset (concat (map (\<lambda>item. map (\<lambda>_. item) (filter (prefix q) (toks item))) arr))"
proof -
  have p: "mset (trie_search (fold (trie_insert x) ws t) q False) =
      mset (trie_search t q False) + mset (map (\<lambda>_. x) (filter (prefix q) ws))" for x ws and t :: "'a trie"
    by (induction ws arbitrary: t) (auto simp: search_insert_prefix)
  have "mset (trie_search (fold (\<lambda>item. fold (trie_insert item) (toks item)) arr t) q False) =
      mset (trie_search t q False) + mset (concat (map (\<lambda>item. map (\<lambda>_. item) (filter (prefix q) (toks item))) arr))" for t
    by (induction arr arbitrary: t) (auto simp: p ac_simps)
  then show ?thesis by (simp add: trie_of_def)
qed

text \<open>
  C27: the trie is an index of the tokens. Built from items and their tokens, its exact search returns,
  in the order of the items, every item once for each of its tokens that equals the query; its prefix
  search returns every item once for each of its tokens that begins with the query.
\<close>

theorem trie_search_refines:
  "trie_search (trie_of arr toks) q True =
     concat (map (\<lambda>item. map (\<lambda>_. item) (filter (\<lambda>w. w = q) (toks item))) arr) \<and>
   mset (trie_search (trie_of arr toks) q False) =
     mset (concat (map (\<lambda>item. map (\<lambda>_. item) (filter (prefix q) (toks item))) arr))"
  by (simp add: trie_exact trie_prefix)

section \<open>The index of the custom emoji\<close>

record custom_emoji =
  cname :: jstr
  curl :: jstr
  cshortcodes :: "jstr list option"
  ccategory :: "jstr option"

text \<open>The shape that is required of the data, checked on its first element.\<close>

fun assertCustomEmojis :: "json \<Rightarrow> bool" where
  "assertCustomEmojis (JArr []) = True"
| "assertCustomEmojis (JArr (JObj fs # _)) = (\<forall>k \<in> {js ''name'', js ''url''}. k \<in> fst ` set fs)"
| "assertCustomEmojis _ = False"

record custom_index =
  all_custom :: "custom_emoji list"
  searchTrie :: "custom_emoji trie"
  nameToEmoji :: "jstr \<rightharpoonup> custom_emoji"
  shortcodeToEmoji :: "jstr \<rightharpoonup> custom_emoji"

definition sortByName :: "(jstr \<Rightarrow> jstr) \<Rightarrow> custom_emoji list \<Rightarrow> custom_emoji list" where
  "sortByName lower = sort_key (lower \<circ> cname)"

text \<open>A Set keeps the first of equal elements.\<close>

definition emojiToTokens :: "(jstr \<Rightarrow> jstr) \<Rightarrow> custom_emoji \<Rightarrow> jstr list" where
  "emojiToTokens lower e = uniqBy (concat (map (extractTokens lower) (or_empty (cshortcodes e)))) (\<lambda>w. w)"

definition customEmojiIndex :: "(jstr \<Rightarrow> jstr) \<Rightarrow> custom_emoji list \<Rightarrow> custom_index" where
  "customEmojiIndex lower customEmojis =
     (let arr = sortByName lower customEmojis
      in \<lparr>all_custom = arr,
          searchTrie = trie_of arr (emojiToTokens lower),
          nameToEmoji = fold (\<lambda>e m. m(lower (cname e) \<mapsto> e)) arr Map.empty,
          shortcodeToEmoji =
            fold (\<lambda>e m. fold (\<lambda>sc m. m(lower sc \<mapsto> e)) (or_empty (cshortcodes e)) m) arr Map.empty\<rparr>)"

definition custom_search :: "(jstr \<Rightarrow> jstr) \<Rightarrow> custom_index \<Rightarrow> jstr \<Rightarrow> js_error + custom_emoji list" where
  "custom_search lower idx query =
     (case findCommonMembers
             (token_answers (\<lambda>t. trie_search (searchTrie idx) t True) (\<lambda>t. trie_search (searchTrie idx) t False)
               (extractTokens lower query)) cname of
        Inl er \<Rightarrow> Inl er
      | Inr rs \<Rightarrow> Inr (sortByName lower rs))"

definition byName :: "(jstr \<Rightarrow> jstr) \<Rightarrow> custom_index \<Rightarrow> jstr \<Rightarrow> custom_emoji option" where
  "byName lower idx nm = nameToEmoji idx (lower nm)"

definition byShortcode :: "(jstr \<Rightarrow> jstr) \<Rightarrow> custom_index \<Rightarrow> jstr \<Rightarrow> custom_emoji option" where
  "byShortcode lower idx sc = shortcodeToEmoji idx (lower sc)"

lemma trie_search_sets:
  "set (trie_search (trie_of arr toks) q True) = {x \<in> set arr. q \<in> set (toks x)}"
  "set (trie_search (trie_of arr toks) q False) = {x \<in> set arr. \<exists>u\<in>set (toks x). prefix q u}"
proof -
  show "set (trie_search (trie_of arr toks) q True) = {x \<in> set arr. q \<in> set (toks x)}"
    by (auto simp: trie_exact)
  show "set (trie_search (trie_of arr toks) q False) = {x \<in> set arr. \<exists>u\<in>set (toks x). prefix q u}"
    by (subst set_mset_mset [symmetric], subst trie_prefix) auto
qed

interpretation trie_index: token_search "set arr" toks prefix
    "\<lambda>t. trie_search (trie_of arr toks) t True" "\<lambda>t. trie_search (trie_of arr toks) t False"
  by unfold_locales (simp_all add: trie_search_sets)

lemma set_emojiToTokens:
  "set (emojiToTokens lower e) = (\<Union>sc\<in>set (or_empty (cshortcodes e)). set (extractTokens lower sc))"
  by (simp add: emojiToTokens_def set_uniqBy)

text \<open>
  Searching the custom emoji. For custom emoji with different names a query finds, sorted by name in
  lower case, exactly those that have every token of the query but the last among the tokens of their
  shortcodes and a token that begins with the last.
\<close>

theorem custom_search_finds:
  assumes "inj_on cname (set customs)" "extractTokens lower query = ts @ [t]"
  shows "\<exists>rs. custom_search lower (customEmojiIndex lower customs) query = Inr rs \<and>
    sorted (map (\<lambda>e. lower (cname e)) rs) \<and>
    set rs = {e \<in> set customs.
      (\<forall>w\<in>set ts. \<exists>sc\<in>set (or_empty (cshortcodes e)). w \<in> set (extractTokens lower sc)) \<and>
      (\<exists>sc\<in>set (or_empty (cshortcodes e)). \<exists>w\<in>set (extractTokens lower sc). prefix t w)}"
proof -
  let ?arr = "sortByName lower customs"
  have arr: "set ?arr = set customs" by (simp add: sortByName_def)
  obtain rs where rs: "findCommonMembers (token_answers
      (\<lambda>t. trie_search (trie_of ?arr (emojiToTokens lower)) t True)
      (\<lambda>t. trie_search (trie_of ?arr (emojiToTokens lower)) t False) (ts @ [t])) cname = Inr rs"
    "set rs = trie_index.found ?arr (emojiToTokens lower) (ts @ [t])"
    using trie_index.common_members [of "ts @ [t]" cname ?arr "emojiToTokens lower"] assms(1) arr by auto
  then have "custom_search lower (customEmojiIndex lower customs) query = Inr (sortByName lower rs)"
    using assms(2) by (simp add: custom_search_def customEmojiIndex_def Let_def)
  moreover have "sorted (map (\<lambda>e. lower (cname e)) (sortByName lower rs))"
    using sorted_sort_key [of "lower \<circ> cname" rs] by (simp add: sortByName_def o_def)
  ultimately show ?thesis
    using rs(2) arr by (auto simp: sortByName_def trie_index.found_def set_emojiToTokens)
qed

definition crab :: custom_emoji where
  "crab = \<lparr>cname = js ''ferris'', curl = js ''/crab'', cshortcodes = Some [js ''rust_crab''], ccategory = None\<rparr>"

lemma crab_fields: "cname crab = js ''ferris''" "cshortcodes crab = Some [js ''rust_crab'']"
  by (simp_all add: crab_def)

lemma crab_tokens:
  "extractTokens (\<lambda>s. s) (js ''rust_crab'') = [js ''rust'', js ''crab'']"
  "extractTokens (\<lambda>s. s) (js ''rust cr'') = [js ''rust'', js ''cr'']"
  by (simp_all add: extractTokens_def split_runs.simps is_gap_def is_trim_space_def is_white_space_def
      is_word_def js_def chr16_def Let_def irregularEmoticons_def clean_word_def)

theorem custom_search_finds_witness:
  "\<exists>rs. custom_search (\<lambda>s. s) (customEmojiIndex (\<lambda>s. s) [crab]) (js ''rust cr'') = Inr rs \<and> set rs = {crab}"
proof -
  have "{e \<in> set [crab]. P (cshortcodes e)} = {crab}" if "P (Some [js ''rust_crab''])" for P
    using that by (auto simp: crab_fields)
  note only = this [of "\<lambda>scs. (\<forall>w\<in>set [js ''rust'']. \<exists>sc\<in>set (or_empty scs). w \<in> set (extractTokens (\<lambda>s. s) sc)) \<and>
    (\<exists>sc\<in>set (or_empty scs). \<exists>w\<in>set (extractTokens (\<lambda>s. s) sc). prefix (js ''cr'') w)"]
  have "prefix (js ''cr'') (js ''crab'')" by (simp add: js_def)
  then have "(\<forall>w\<in>set [js ''rust'']. \<exists>sc\<in>set (or_empty (Some [js ''rust_crab''])). w \<in> set (extractTokens (\<lambda>s. s) sc)) \<and>
    (\<exists>sc\<in>set (or_empty (Some [js ''rust_crab''])). \<exists>w\<in>set (extractTokens (\<lambda>s. s) sc). prefix (js ''cr'') w)"
    by (simp add: crab_tokens or_empty_def)
  note only [OF this]
  moreover have "inj_on cname (set [crab])" "extractTokens (\<lambda>s. s) (js ''rust cr'') = [js ''rust''] @ [js ''cr'']"
    by (simp_all add: crab_tokens)
  note custom_search_finds [OF this]
  ultimately show ?thesis by (elim exE conjE) (intro exI conjI, assumption, simp only:)
qed

text \<open>
  A query without tokens. When nothing of the query is a token, as for a query of underscores and
  spaces, the search of the custom emoji raises a TypeError, whether or not there are any.
\<close>

theorem custom_search_without_tokens:
  "(\<forall>c\<in>set query. is_gap c) \<and> lower [] = [] \<Longrightarrow> custom_search lower idx query = Inl TypeError"
proof -
  assume gap: "(\<forall>c\<in>set query. is_gap c) \<and> lower [] = []"
  then have d: "dropWhile (\<lambda>c. \<not> is_gap c) query = query" "dropWhile is_gap query = []"
    by (cases query; simp)+
  have "set (split_runs is_gap query) \<subseteq> {[]}"
    using gap by (subst split_runs.simps) (auto simp: d split_runs.simps [of _ "[]"] Let_def takeWhile_eq_Nil_iff)
  then have "extractTokens lower query = []"
    using gap by (auto simp: extractTokens_def filter_empty_conv irregularEmoticons_def)
  then show ?thesis
    by (simp add: custom_search_def token_answers_def findCommonMembers_empty)
qed

theorem custom_search_without_tokens_witness:
  "custom_search (\<lambda>s. s) (customEmojiIndex (\<lambda>s. s) [crab]) (js ''__'') = Inl TypeError"
  by (rule custom_search_without_tokens) (simp add: js_def is_gap_def)

end
