(* ===== verification/EmojiDatabase.thy ===== *)
theory EmojiDatabase
  imports EmojiTrie "HOL-Library.Product_Lexorder"
begin

text \<open>
  The emoji database of assets/libs/emoji-picker-element/database.js over the browser's IndexedDB: the
  stores and their indexes, loading and updating the data, the queries, the favourites, and the methods
  of the class \<open>Database\<close> once it is ready. An object store is the list of its records in the order of
  their keys (strings by code units); the requests of a transaction are answered in the order they are
  made. The answers of the data's server are the record \<open>net\<close>; \<open>decode\<close> reads the emoji out of
  data of the right form; \<open>stringify\<close>, \<open>digest\<close> and \<open>btoa\<close> are the browser's functions.
  Opening and closing the database is the matter of EmojiLifecycle.
\<close>

section \<open>Object stores\<close>

type_synonym 'v store = "(jstr \<times> 'v) list"

fun idb_put :: "jstr \<Rightarrow> 'v \<Rightarrow> 'v store \<Rightarrow> 'v store" where
  "idb_put k v [] = [(k, v)]"
| "idb_put k v ((k', v') # s) =
     (if k < k' then (k, v) # (k', v') # s
      else if k = k' then (k, v) # s
      else (k', v') # idb_put k v s)"

definition sorted_store :: "'v store \<Rightarrow> bool" where
  "sorted_store s \<longleftrightarrow> sorted_wrt (<) (map fst s)"

text \<open>What the rest relies on: a store is a map that lists its records in the order of the keys.\<close>

locale object_store =
  fixes inv :: "'s \<Rightarrow> bool"
    and records :: "'s \<Rightarrow> (jstr \<times> 'v) list"
    and put :: "jstr \<Rightarrow> 'v \<Rightarrow> 's \<Rightarrow> 's"
  assumes put_inv: "inv s \<Longrightarrow> inv (put k v s)"
    and lookup_put: "inv s \<Longrightarrow> map_of (records (put k v s)) = (map_of (records s))(k \<mapsto> v)"
    and in_order: "inv s \<Longrightarrow> sorted_wrt (<) (map fst (records s))"
begin

lemma put_all_inv: "inv s \<Longrightarrow> inv (fold (\<lambda>(k, v). put k v) kvs s)"
  by (induction kvs arbitrary: s) (auto simp: put_inv)

text \<open>Of records with the same key the last one stays.\<close>

lemma lookup_put_all:
  "inv s \<Longrightarrow> map_of (records (fold (\<lambda>(k, v). put k v) kvs s)) = map_of (records s) ++ map_of (rev kvs)"
proof (induction kvs arbitrary: s)
  case (Cons kv kvs)
  obtain k v where kv: "kv = (k, v)" by force
  show ?case
    using Cons.IH [OF put_inv [OF Cons.prems, of k v]] Cons.prems
    by (auto simp: kv lookup_put fun_eq_iff map_add_def split: option.splits)
qed simp

lemma records_distinct: "inv s \<Longrightarrow> distinct (map fst (records s))"
  using in_order [of s] by (auto simp: strict_sorted_iff)

lemma records_iff: "inv s \<Longrightarrow> (k, v) \<in> set (records s) \<longleftrightarrow> map_of (records s) k = Some v"
  using records_distinct [of s] by simp

end

lemma keys_put: "fst ` set (idb_put k v s) = insert k (fst ` set s)"
  by (induction k v s rule: idb_put.induct) auto

lemma lookup_idb_put: "sorted_store s \<Longrightarrow> map_of (idb_put k v s) = (map_of s)(k \<mapsto> v)"
proof (induction k v s rule: idb_put.induct)
  case (2 k v k' v' s)
  then show ?case by (auto simp: sorted_store_def fun_eq_iff)
qed auto

lemma sorted_idb_put: "sorted_store s \<Longrightarrow> sorted_store (idb_put k v s)"
proof (induction k v s rule: idb_put.induct)
  case (2 k v k' v' s)
  then show ?case using keys_put [of k v s] by (fastforce simp: sorted_store_def image_iff)
qed (simp add: sorted_store_def)

interpretation idb: object_store sorted_store "\<lambda>s. s" idb_put
  by unfold_locales (simp_all add: sorted_idb_put lookup_idb_put, simp add: sorted_store_def)

section \<open>The database\<close>

record idb =
  emojiStore :: "stored_emoji store"
  keyvalue :: "jstr \<rightharpoonup> json"
  favorites :: "nat store"

definition KEY_ETAG :: jstr where
  "KEY_ETAG = js ''eTag''"

definition KEY_URL :: jstr where
  "KEY_URL = js ''url''"

definition KEY_PREFERRED_SKINTONE :: jstr where
  "KEY_PREFERRED_SKINTONE = js ''skinTone''"

text \<open>The stores of a new database.\<close>

definition initialMigration :: idb where
  "initialMigration = \<lparr>emojiStore = [], keyvalue = Map.empty, favorites = []\<rparr>"

definition get_kv :: "idb \<Rightarrow> jstr \<Rightarrow> json" where
  "get_kv db k = (case keyvalue db k of None \<Rightarrow> JUndefined | Some v \<Rightarrow> v)"

definition set_kv :: "jstr \<Rightarrow> json \<Rightarrow> idb \<Rightarrow> idb" where
  "set_kv k v db = db\<lparr>keyvalue := (keyvalue db)(k \<mapsto> v)\<rparr>"

definition isEmpty :: "idb \<Rightarrow> bool" where
  "isEmpty db \<longleftrightarrow> \<not> truthy (get_kv db KEY_URL)"

definition hasData :: "idb \<Rightarrow> jstr \<Rightarrow> jstr \<Rightarrow> bool" where
  "hasData db url eTag \<longleftrightarrow>
     strict_eq (get_kv db KEY_ETAG) (JStr eTag) \<and> strict_eq (get_kv db KEY_URL) (JStr url)"

definition put_emoji :: "stored_emoji \<Rightarrow> stored_emoji store \<Rightarrow> stored_emoji store" where
  "put_emoji e = idb_put (st_unicode e) e"

definition loadData :: "(jstr \<Rightarrow> jstr) \<Rightarrow> raw_emoji list \<Rightarrow> jstr \<Rightarrow> jstr \<Rightarrow> idb \<Rightarrow> idb" where
  "loadData lower emojiData url eTag db =
     (if hasData db url eTag then db
      else set_kv KEY_URL (JStr url) (set_kv KEY_ETAG (JStr eTag)
             (db\<lparr>emojiStore := fold put_emoji (transformEmojiData lower emojiData) []\<rparr>)))"

section \<open>Queries\<close>

definition in_group :: "int \<Rightarrow> stored_emoji \<Rightarrow> bool" where
  "in_group g e \<longleftrightarrow> (g, 0) \<le> (st_group e, st_order e) \<and> (st_group e, st_order e) < (g + 1, 0)"

definition getEmojiByGroup :: "idb \<Rightarrow> int \<Rightarrow> stored_emoji list" where
  "getEmojiByGroup db g =
     sort_key (\<lambda>e. (st_group e, st_order e)) (filter (in_group g) (map snd (emojiStore db)))"

text \<open>
  The index of the tokens has an entry for every different token of every record, in the order of the
  tokens and then of the keys; \<open>getAll\<close> answers the record of each entry in the range.
\<close>

definition token_index :: "stored_emoji store \<Rightarrow> (jstr \<times> stored_emoji) list" where
  "token_index s = sort_key fst (concat (map (\<lambda>(k, e). map (\<lambda>t. (t, e)) (remdups (st_tokens e))) s))"

definition index_getAll :: "(jstr \<Rightarrow> bool) \<Rightarrow> stored_emoji store \<Rightarrow> stored_emoji list" where
  "index_getAll r s = map snd (filter (\<lambda>(t, e). r t) (token_index s))"

definition range_only :: "jstr \<Rightarrow> jstr \<Rightarrow> bool" where
  "range_only t u \<longleftrightarrow> u = t"

definition range_prefix :: "jstr \<Rightarrow> jstr \<Rightarrow> bool" where
  "range_prefix t u \<longleftrightarrow> t \<le> u \<and> u < t @ [0xFFFF]"

text \<open>
  The results are sorted by a comparison that answers -1 or 1 and never 0. For records with the same
  order it is inconsistent, and the language leaves their order to the implementation; the model keeps
  them in the order they were found.
\<close>

definition getEmojiBySearchQuery :: "(jstr \<Rightarrow> jstr) \<Rightarrow> idb \<Rightarrow> jstr \<Rightarrow> js_error + stored_emoji list" where
  "getEmojiBySearchQuery lower db query =
     (let tokens = query_tokens lower query
      in if tokens = [] then Inr []
         else (case findCommonMembers
                      (token_answers (\<lambda>t. index_getAll (range_only t) (emojiStore db))
                         (\<lambda>t. index_getAll (range_prefix t) (emojiStore db)) tokens) st_unicode of
                 Inl er \<Rightarrow> Inl er
               | Inr results \<Rightarrow> Inr (sort_key st_order results)))"

text \<open>
  The scan in batches of 50 records. An empty key is falsy, and after it the scan would begin again, so
  the loop is written without a proof that it ends; \<open>None\<close> would be a scan that never returns.
\<close>

definition BATCH_SIZE :: nat where
  "BATCH_SIZE = 50"

definition batch :: "jstr option \<Rightarrow> 'v store \<Rightarrow> 'v store" where
  "batch lastKey s =
     take BATCH_SIZE (filter (\<lambda>(k, v). case lastKey of None \<Rightarrow> True | Some l \<Rightarrow> l = [] \<or> l < k) s)"

partial_function (option) processNextBatch ::
    "('v \<Rightarrow> bool) \<Rightarrow> 'v store \<Rightarrow> jstr option \<Rightarrow> 'v option option" where
  "processNextBatch pred s lastKey =
     (let results = batch lastKey s
      in case List.find (\<lambda>(k, v). pred v) results of
           Some (k, v) \<Rightarrow> Some (Some v)
         | None \<Rightarrow>
             if length results < BATCH_SIZE then Some None
             else processNextBatch pred s (Some (fst (last results))))"

definition doFullDatabaseScanForSingleResult :: "idb \<Rightarrow> (stored_emoji \<Rightarrow> bool) \<Rightarrow> stored_emoji option option" where
  "doFullDatabaseScanForSingleResult db predicate = processNextBatch predicate (emojiStore db) None"

definition has_shortcode :: "(jstr \<Rightarrow> jstr) \<Rightarrow> jstr \<Rightarrow> stored_emoji \<Rightarrow> bool" where
  "has_shortcode lower sc e \<longleftrightarrow> lower sc \<in> set (map lower (or_empty (st_shortcodes e)))"

definition getEmojiByShortcode ::
    "(jstr \<Rightarrow> jstr) \<Rightarrow> idb \<Rightarrow> jstr \<Rightarrow> (js_error + stored_emoji option) option" where
  "getEmojiByShortcode lower db shortcode =
     (case getEmojiBySearchQuery lower db shortcode of
        Inl er \<Rightarrow> Some (Inl er)
      | Inr emojis \<Rightarrow>
          if emojis = []
          then map_option Inr (doFullDatabaseScanForSingleResult db
                 (\<lambda>e. lower shortcode \<in> set (or_empty (st_shortcodes e))))
          else Some (Inr (List.find (has_shortcode lower shortcode) emojis)))"

definition getEmojiByUnicode :: "idb \<Rightarrow> jstr \<Rightarrow> stored_emoji option" where
  "getEmojiByUnicode db u =
     (case map_of (emojiStore db) u of
        Some e \<Rightarrow> Some e
      | None \<Rightarrow> map_option snd (List.find (\<lambda>(k, e). u \<in> set (or_empty (skinUnicodes e))) (emojiStore db)))"

section \<open>Favourites\<close>

definition incrementFavoriteEmojiCount :: "jstr \<Rightarrow> idb \<Rightarrow> idb" where
  "incrementFavoriteEmojiCount u db =
     db\<lparr>favorites := idb_put u ((case map_of (favorites db) u of None \<Rightarrow> 0 | Some n \<Rightarrow> n) + 1) (favorites db)\<rparr>"

datatype any_emoji =
    Custom custom_emoji
  | Native stored_emoji

text \<open>The index of the counts, backwards: the largest count first, of equal counts the largest key.\<close>

definition by_count :: "nat store \<Rightarrow> (jstr \<times> nat) list" where
  "by_count s = rev (sort_key snd s)"

definition resolve :: "(jstr \<Rightarrow> jstr) \<Rightarrow> custom_index \<Rightarrow> idb \<Rightarrow> jstr \<Rightarrow> any_emoji option" where
  "resolve lower idx db nm =
     (case byName lower idx nm of
        Some c \<Rightarrow> Some (Custom c)
      | None \<Rightarrow> map_option Native (map_of (emojiStore db) nm))"

fun cursor_loop :: "(jstr \<Rightarrow> any_emoji option) \<Rightarrow> nat \<Rightarrow> any_emoji list \<Rightarrow> (jstr \<times> nat) list \<Rightarrow> any_emoji list" where
  "cursor_loop res limit results [] = results"
| "cursor_loop res limit results ((nm, n) # cursor) =
     (case res nm of
        None \<Rightarrow> cursor_loop res limit results cursor
      | Some e \<Rightarrow>
          if length results + 1 = limit then results @ [e]
          else cursor_loop res limit (results @ [e]) cursor)"

definition getTopFavoriteEmoji :: "(jstr \<Rightarrow> jstr) \<Rightarrow> custom_index \<Rightarrow> nat \<Rightarrow> idb \<Rightarrow> any_emoji list" where
  "getTopFavoriteEmoji lower idx limit db =
     (if limit = 0 then [] else cursor_loop (resolve lower idx db) limit [] (by_count (favorites db)))"

section \<open>Loading and updating\<close>

datatype db_error =
    Raised js_error
  | FailedToFetch nat
  | WrongFormat
  | BadArgument

record response =
  status :: nat
  eTagHeader :: "jstr option"
  json_body :: json

record net =
  head_answer :: response
  get_answer :: response

fun assertEmojiData :: "json \<Rightarrow> bool" where
  "assertEmojiData (JArr (JObj fs # _)) =
     (\<forall>k \<in> {js ''annotation'', js ''emoji'', js ''group'', js ''order'', js ''version''}. k \<in> fst ` set fs)"
| "assertEmojiData _ = False"

definition assertStatus :: "response \<Rightarrow> bool" where
  "assertStatus r \<longleftrightarrow> status r div 100 = 2"

text \<open>A missing tag and an empty one count alike.\<close>

definition usable :: "jstr option \<Rightarrow> jstr option" where
  "usable t = (case t of Some (c # cs) \<Rightarrow> Some (c # cs) | _ \<Rightarrow> None)"

definition getETag :: "response \<Rightarrow> db_error + jstr option" where
  "getETag r = (if assertStatus r then Inr (usable (eTagHeader r)) else Inl (FailedToFetch (status r)))"

definition getETagAndData :: "response \<Rightarrow> db_error + jstr option \<times> json" where
  "getETagAndData r =
     (if \<not> assertStatus r then Inl (FailedToFetch (status r))
      else if \<not> assertEmojiData (json_body r) then Inl WrongFormat
      else Inr (usable (eTagHeader r), json_body r))"

text \<open>Bytes and binary strings: writing a code unit into a byte array keeps its low eight bits.\<close>

definition arrayBufferToBinaryString :: "8 word list \<Rightarrow> jstr" where
  "arrayBufferToBinaryString = map ucast"

definition binaryStringToArrayBuffer :: "jstr \<Rightarrow> 8 word list" where
  "binaryStringToArrayBuffer = map ucast"

definition jsonChecksum ::
    "(json \<Rightarrow> jstr) \<Rightarrow> (8 word list \<Rightarrow> 8 word list) \<Rightarrow> (jstr \<Rightarrow> jstr) \<Rightarrow> json \<Rightarrow> jstr" where
  "jsonChecksum stringify digest btoa v =
     btoa (arrayBufferToBinaryString (digest (binaryStringToArrayBuffer (stringify v))))"

text \<open>\<open>checksum\<close> is \<open>jsonChecksum\<close> with the browser's functions.\<close>

definition tag_or_checksum :: "(json \<Rightarrow> jstr) \<Rightarrow> jstr option \<Rightarrow> json \<Rightarrow> jstr" where
  "tag_or_checksum checksum t data = (case t of Some tag \<Rightarrow> tag | None \<Rightarrow> checksum data)"

definition checkForUpdates ::
    "(jstr \<Rightarrow> jstr) \<Rightarrow> (json \<Rightarrow> raw_emoji list) \<Rightarrow> (json \<Rightarrow> jstr) \<Rightarrow> net \<Rightarrow> jstr \<Rightarrow> idb \<Rightarrow> db_error + idb" where
  "checkForUpdates lower decode checksum n dataSource db =
     (case getETag (head_answer n) of
        Inl er \<Rightarrow> Inl er
      | Inr (Some eTag) \<Rightarrow>
          if hasData db dataSource eTag then Inr db
          else (case getETagAndData (get_answer n) of
                  Inl er \<Rightarrow> Inl er
                | Inr (_, data) \<Rightarrow> Inr (loadData lower (decode data) dataSource eTag db))
      | Inr None \<Rightarrow>
          (case getETagAndData (get_answer n) of
             Inl er \<Rightarrow> Inl er
           | Inr (t, data) \<Rightarrow>
               (let eTag = tag_or_checksum checksum t data
                in if hasData db dataSource eTag then Inr db
                   else Inr (loadData lower (decode data) dataSource eTag db))))"

definition loadDataForFirstTime ::
    "(jstr \<Rightarrow> jstr) \<Rightarrow> (json \<Rightarrow> raw_emoji list) \<Rightarrow> (json \<Rightarrow> jstr) \<Rightarrow> net \<Rightarrow> jstr \<Rightarrow> idb \<Rightarrow> db_error + idb" where
  "loadDataForFirstTime lower decode checksum n dataSource db =
     (case getETagAndData (get_answer n) of
        Inl er \<Rightarrow> Inl er
      | Inr (t, data) \<Rightarrow> Inr (loadData lower (decode data) dataSource (tag_or_checksum checksum t data) db))"

section \<open>The methods of a ready database\<close>

record database =
  dataSource :: jstr
  db_locale :: jstr
  custom :: custom_index
  ready_db :: idb

datatype handed_out =
    CustomEmoji custom_emoji
  | CleanEmoji clean_emoji

definition new_database :: "(jstr \<Rightarrow> jstr) \<Rightarrow> jstr \<Rightarrow> jstr \<Rightarrow> custom_emoji list \<Rightarrow> idb \<Rightarrow> database" where
  "new_database lower src loc customs db =
     \<lparr>dataSource = src, db_locale = loc, custom = customEmojiIndex lower customs, ready_db = db\<rparr>"

text \<open>\<open>_init\<close>: an empty database waits for the data; the update of another one runs on its own.\<close>

definition init_database ::
    "(jstr \<Rightarrow> jstr) \<Rightarrow> (json \<Rightarrow> raw_emoji list) \<Rightarrow> (json \<Rightarrow> jstr) \<Rightarrow> net \<Rightarrow> database \<Rightarrow> db_error + database" where
  "init_database lower decode checksum n d =
     (if isEmpty (ready_db d)
      then (case loadDataForFirstTime lower decode checksum n (dataSource d) (ready_db d) of
              Inl er \<Rightarrow> Inl er
            | Inr db \<Rightarrow> Inr (d\<lparr>ready_db := db\<rparr>))
      else Inr d)"

definition lazyUpdate ::
    "(jstr \<Rightarrow> jstr) \<Rightarrow> (json \<Rightarrow> raw_emoji list) \<Rightarrow> (json \<Rightarrow> jstr) \<Rightarrow> net \<Rightarrow> database \<Rightarrow> database" where
  "lazyUpdate lower decode checksum n d =
     (case checkForUpdates lower decode checksum n (dataSource d) (ready_db d) of
        Inl er \<Rightarrow> d
      | Inr db \<Rightarrow> d\<lparr>ready_db := db\<rparr>)"

definition db_getEmojiByGroup :: "database \<Rightarrow> int \<Rightarrow> clean_emoji list" where
  "db_getEmojiByGroup d g = map cleanEmoji (uniqBy (getEmojiByGroup (ready_db d) g) st_unicode)"

definition db_getEmojiBySearchQuery :: "(jstr \<Rightarrow> jstr) \<Rightarrow> database \<Rightarrow> jstr \<Rightarrow> db_error + handed_out list" where
  "db_getEmojiBySearchQuery lower d query =
     (if query = [] then Inl BadArgument
      else case custom_search lower (custom d) query of
             Inl er \<Rightarrow> Inl (Raised er)
           | Inr customs \<Rightarrow>
               (case getEmojiBySearchQuery lower (ready_db d) query of
                  Inl er \<Rightarrow> Inl (Raised er)
                | Inr natives \<Rightarrow>
                    Inr (map CustomEmoji customs @ map (CleanEmoji \<circ> cleanEmoji) (uniqBy natives st_unicode))))"

definition db_getEmojiByShortcode ::
    "(jstr \<Rightarrow> jstr) \<Rightarrow> database \<Rightarrow> jstr \<Rightarrow> (db_error + handed_out option) option" where
  "db_getEmojiByShortcode lower d sc =
     (if sc = [] then Some (Inl BadArgument)
      else case byShortcode lower (custom d) sc of
             Some c \<Rightarrow> Some (Inr (Some (CustomEmoji c)))
           | None \<Rightarrow>
               map_option (\<lambda>r. case r of Inl er \<Rightarrow> Inl (Raised er)
                                 | Inr e \<Rightarrow> Inr (map_option (CleanEmoji \<circ> cleanEmoji) e))
                 (getEmojiByShortcode lower (ready_db d) sc))"

definition db_getEmojiByUnicodeOrName :: "(jstr \<Rightarrow> jstr) \<Rightarrow> database \<Rightarrow> jstr \<Rightarrow> db_error + handed_out option" where
  "db_getEmojiByUnicodeOrName lower d u =
     (if u = [] then Inl BadArgument
      else case byName lower (custom d) u of
             Some c \<Rightarrow> Inr (Some (CustomEmoji c))
           | None \<Rightarrow> Inr (map_option (CleanEmoji \<circ> cleanEmoji) (getEmojiByUnicode (ready_db d) u)))"

definition db_getPreferredSkinTone :: "database \<Rightarrow> json" where
  "db_getPreferredSkinTone d =
     (let v = get_kv (ready_db d) KEY_PREFERRED_SKINTONE in if truthy v then v else JNum (Fin 0))"

definition db_setPreferredSkinTone :: "json \<Rightarrow> database \<Rightarrow> db_error + database" where
  "db_setPreferredSkinTone v d =
     (case v of JNum _ \<Rightarrow> Inr (d\<lparr>ready_db := set_kv KEY_PREFERRED_SKINTONE v (ready_db d)\<rparr>) | _ \<Rightarrow> Inl BadArgument)"

definition db_incrementFavoriteEmojiCount :: "jstr \<Rightarrow> database \<Rightarrow> db_error + database" where
  "db_incrementFavoriteEmojiCount u d =
     (if u = [] then Inl BadArgument
      else Inr (d\<lparr>ready_db := incrementFavoriteEmojiCount u (ready_db d)\<rparr>))"

definition db_getTopFavoriteEmoji :: "(jstr \<Rightarrow> jstr) \<Rightarrow> nat \<Rightarrow> database \<Rightarrow> handed_out list" where
  "db_getTopFavoriteEmoji lower limit d =
     map (\<lambda>e. case e of Custom c \<Rightarrow> CustomEmoji c | Native s \<Rightarrow> CleanEmoji (cleanEmoji s))
       (getTopFavoriteEmoji lower (custom d) limit (ready_db d))"

definition set_customEmoji :: "(jstr \<Rightarrow> jstr) \<Rightarrow> custom_emoji list \<Rightarrow> database \<Rightarrow> database" where
  "set_customEmoji lower customs d = d\<lparr>custom := customEmojiIndex lower customs\<rparr>"

section \<open>The scan in batches\<close>

lemma find_append: "List.find P (xs @ ys) = (case List.find P xs of None \<Rightarrow> List.find P ys | Some x \<Rightarrow> Some x)"
  by (induction xs) auto

lemma rest_after:
  assumes "sorted_store (xs @ (l, v) # ys)"
  shows "filter (\<lambda>(k, w). l < k) (xs @ (l, v) # ys) = ys"
proof -
  have "\<forall>p\<in>set xs. fst p < l" "\<forall>p\<in>set ys. l < fst p"
    using assms by (auto simp: sorted_store_def sorted_wrt_append)
  then have "filter (\<lambda>(k, w). l < k) xs = []" "filter (\<lambda>(k, w). l < k) ys = ys"
    by (auto simp: filter_empty_conv filter_id_conv case_prod_unfold dest: less_asym)
  then show ?thesis by simp
qed

lemma full_batch_last:
  assumes s: "sorted_store (xs @ ys)" and n: "1 < n" "n \<le> length ys"
  shows "fst (last (take n ys)) \<noteq> []"
    and "filter (\<lambda>(k, v). fst (last (take n ys)) < k) (xs @ ys) = drop n ys"
proof -
  obtain m where m: "n = Suc m" "0 < m" using n(1) by (cases n) auto
  then have l: "last (take n ys) = ys ! m" using n by (simp add: take_Suc_conv_app_nth)
  have "sorted_wrt (<) (map fst ys)" using s by (simp add: sorted_store_def sorted_wrt_append)
  then have "fst (ys ! 0) < fst (ys ! m)" using sorted_wrt_nth_less [of "(<)" "map fst ys" 0 m] m n by (cases ys) auto
  then show "fst (last (take n ys)) \<noteq> []" using l by auto
  have "ys = take m ys @ ys ! m # drop n ys" using m n by (simp add: id_take_nth_drop)
  then have "xs @ ys = (xs @ take m ys) @ (fst (ys ! m), snd (ys ! m)) # drop n ys" by simp
  then show "filter (\<lambda>(k, v). fst (last (take n ys)) < k) (xs @ ys) = drop n ys"
    using rest_after [of "xs @ take m ys" "fst (ys ! m)" "snd (ys ! m)" "drop n ys"] s l by metis
qed

lemma scan_from:
  assumes "sorted_store (xs @ ys)"
    and "filter (\<lambda>(k, v). case lastKey of None \<Rightarrow> True | Some l \<Rightarrow> l = [] \<or> l < k) (xs @ ys) = ys"
  shows "processNextBatch pred (xs @ ys) lastKey = Some (map_option snd (List.find (\<lambda>(k, v). pred v) ys))"
  using assms
proof (induction "length ys" arbitrary: xs ys lastKey rule: less_induct)
  case less
  let ?b = "take BATCH_SIZE ys"
  let ?find = "List.find (\<lambda>(k, v). pred v)"
  have b: "batch lastKey (xs @ ys) = ?b" using less.prems(2) by (simp only: batch_def)
  have split: "?find ys = (case ?find ?b of None \<Rightarrow> ?find (drop BATCH_SIZE ys) | Some x \<Rightarrow> Some x)"
    by (metis append_take_drop_id find_append)
  show ?case
  proof (cases "?find ?b")
    case (Some p)
    then show ?thesis using split by (subst processNextBatch.simps) (simp add: b case_prod_unfold)
  next
    case None
    show ?thesis
    proof (cases "length ys < BATCH_SIZE")
      case True
      then have "?b = ys" by simp
      with None True show ?thesis by (subst processNextBatch.simps) (simp add: b)
    next
      case False
      then have n: "1 < BATCH_SIZE" "BATCH_SIZE \<le> length ys" by (simp_all add: BATCH_SIZE_def)
      note last = full_batch_last [OF less.prems(1) n]
      have "processNextBatch pred (xs @ ys) lastKey = processNextBatch pred (xs @ ys) (Some (fst (last ?b)))"
        using None n by (subst processNextBatch.simps) (simp add: b)
      also have "\<dots> = Some (map_option snd (?find (drop BATCH_SIZE ys)))"
        using less.hyps [of "drop BATCH_SIZE ys" "xs @ ?b" "Some (fst (last ?b))"] less.prems(1) n last by simp
      finally show ?thesis using None split by simp
    qed
  qed
qed

text \<open>
  C29: the scan in batches ends with the first match. On every store in key order the scan returns, with
  the first record in that order that satisfies the predicate, or with none when there is none.
\<close>

theorem batch_scan_is_find:
  "sorted_store s \<Longrightarrow> processNextBatch pred s None = Some (map_option snd (List.find (\<lambda>(k, v). pred v) s))"
  using scan_from [of "[]" s None pred] by simp

theorem batch_scan_is_find_witness:
  "processNextBatch (\<lambda>n. 2 \<le> n) [(js ''a'', 1), (js ''b'', 2), (js ''c'', 3 :: nat)] None = Some (Some 2)"
proof -
  have "sorted_store [(js ''a'', 1), (js ''b'', 2), (js ''c'', 3 :: nat)]"
    by (simp add: sorted_store_def js_def chr16_def)
  from batch_scan_is_find [OF this] show ?thesis by simp
qed

section \<open>Searching\<close>

lemma below_top: "(c :: unit16) < 0xFFFF \<longleftrightarrow> c \<noteq> 0xFFFF"
proof -
  have "unat c < 2 ^ 16" using unsigned_less [of c] by simp
  then show ?thesis by (auto simp: word_less_nat_alt word_unat_eq_iff)
qed

lemma range_prefix_iff: "range_prefix t u \<longleftrightarrow> prefix t u \<and> \<not> prefix (t @ [0xFFFF]) u"
proof (induction t arbitrary: u)
  case Nil
  then show ?case by (cases u) (simp_all add: range_prefix_def below_top)
next
  case (Cons c t)
  show ?case
  proof (cases u)
    case (Cons d us)
    have "range_prefix (c # t) u \<longleftrightarrow> c = d \<and> range_prefix t us"
      unfolding Cons range_prefix_def by (simp add: Cons_le_Cons Cons_less_Cons) (auto dest: less_asym)
    then show ?thesis using Cons.IH Cons by auto
  qed (simp add: range_prefix_def)
qed

lemma set_token_index: "set (token_index s) = {(t, e). \<exists>k. (k, e) \<in> set s \<and> t \<in> set (st_tokens e)}"
  by (fastforce simp: token_index_def)

lemma set_index_getAll: "set (index_getAll r s) = {e \<in> snd ` set s. \<exists>u\<in>set (st_tokens e). r u}"
proof -
  have "set (index_getAll r s) = snd ` {p \<in> set (token_index s). r (fst p)}"
    by (auto simp: index_getAll_def case_prod_unfold)
  also have "\<dots> = {e \<in> snd ` set s. \<exists>u\<in>set (st_tokens e). r u}"
    unfolding set_token_index by (auto simp: image_iff) (metis snd_conv)
  finally show ?thesis .
qed

interpretation emoji_index: token_search "snd ` set s" st_tokens range_prefix
    "\<lambda>t. index_getAll (range_only t) s" "\<lambda>t. index_getAll (range_prefix t) s"
  by unfold_locales (auto simp: set_index_getAll range_only_def range_prefix_iff)

section \<open>Well-formed databases\<close>

text \<open>
  The key of a record is its character, and the tokens of each of its shortcodes are among its tokens.
\<close>

definition wf_record :: "(jstr \<Rightarrow> jstr) \<Rightarrow> jstr \<times> stored_emoji \<Rightarrow> bool" where
  "wf_record lower r \<longleftrightarrow> fst r = st_unicode (snd r) \<and> wf_stored (snd r) \<and>
     (\<forall>sc\<in>set (or_empty (st_shortcodes (snd r))). set (query_tokens lower sc) \<subseteq> set (st_tokens (snd r)))"

definition wf_idb :: "(jstr \<Rightarrow> jstr) \<Rightarrow> idb \<Rightarrow> bool" where
  "wf_idb lower db \<longleftrightarrow> sorted_store (emojiStore db) \<and> sorted_store (favorites db) \<and>
     (\<forall>r\<in>set (emojiStore db). wf_record lower r) \<and> (\<forall>r\<in>set (favorites db). 0 < snd r)"

lemma set_idb_put: "set (idb_put k v s) \<subseteq> insert (k, v) (set s)"
  by (induction k v s rule: idb_put.induct) auto

lemma wf_transform: "wf_record lower (st_unicode (transform_emoji lower e), transform_emoji lower e)"
  using shortcode_tokens [of _ e lower]
  by (auto simp: wf_record_def transform_emoji_def wf_stored_def option.map_comp comp_def)

definition loaded :: "(jstr \<Rightarrow> jstr) \<Rightarrow> raw_emoji list \<Rightarrow> stored_emoji store" where
  "loaded lower data = fold put_emoji (transformEmojiData lower data) []"

lemma loaded_puts:
  "loaded lower data = fold (\<lambda>(k, v). idb_put k v) (map (\<lambda>e. (emoji_char e, transform_emoji lower e)) data) []"
  unfolding loaded_def transformEmojiData_def fold_map
  by (rule arg_cong [of _ _ "\<lambda>f. fold f data []"]) (auto simp: put_emoji_def transform_emoji_def fun_eq_iff)

lemma loaded_sorted: "sorted_store (loaded lower data)"
  unfolding loaded_puts by (rule idb.put_all_inv) (simp add: sorted_store_def)

lemma loaded_lookup:
  "map_of (loaded lower data) = map_of (rev (map (\<lambda>e. (emoji_char e, transform_emoji lower e)) data))"
  using idb.lookup_put_all [of "[]"] by (simp add: loaded_puts sorted_store_def)

lemma loaded_wf: "r \<in> set (loaded lower data) \<Longrightarrow> wf_record lower r"
proof -
  assume "r \<in> set (loaded lower data)"
  then have "map_of (loaded lower data) (fst r) = Some (snd r)"
    using idb.records_iff [OF loaded_sorted, of "fst r" "snd r" lower data] by simp
  then have "(fst r, snd r) \<in> set (rev (map (\<lambda>e. (emoji_char e, transform_emoji lower e)) data))"
    unfolding loaded_lookup by (rule map_of_SomeD)
  then obtain e where "e \<in> set data" "fst r = emoji_char e" "snd r = transform_emoji lower e" by auto
  moreover have "emoji_char e = st_unicode (transform_emoji lower e)" for e by (simp add: transform_emoji_def)
  ultimately show ?thesis using wf_transform [of lower e] by (cases r) simp
qed

lemma wf_loadData: "wf_idb lower db \<Longrightarrow> wf_idb lower (loadData lower data url eTag db)"
  using loaded_sorted loaded_wf by (auto simp: loadData_def wf_idb_def set_kv_def loaded_def)

lemma wf_set_kv: "wf_idb lower db \<Longrightarrow> wf_idb lower (set_kv k v db)"
  by (simp add: wf_idb_def set_kv_def)

lemma wf_increment: "wf_idb lower db \<Longrightarrow> wf_idb lower (incrementFavoriteEmojiCount u db)"
  using set_idb_put [of u _ "favorites db"]
  by (fastforce simp: wf_idb_def incrementFavoriteEmojiCount_def sorted_idb_put)

lemma wf_checkForUpdates:
  "wf_idb lower db \<Longrightarrow> checkForUpdates lower decode checksum n src db = Inr db' \<Longrightarrow> wf_idb lower db'"
  by (auto simp: checkForUpdates_def Let_def wf_loadData split: sum.splits option.splits prod.splits if_splits)

lemma wf_loadDataForFirstTime:
  "wf_idb lower db \<Longrightarrow> loadDataForFirstTime lower decode checksum n src db = Inr db' \<Longrightarrow> wf_idb lower db'"
  by (auto simp: loadDataForFirstTime_def wf_loadData split: sum.splits prod.splits)

text \<open>The operations that write.\<close>

datatype db_op =
    Start net
  | Update net
  | SetSkinTone json
  | Favorite jstr
  | SetCustom "custom_emoji list"

definition on_success :: "database \<Rightarrow> db_error + database \<Rightarrow> database" where
  "on_success d r = (case r of Inl er \<Rightarrow> d | Inr d' \<Rightarrow> d')"

fun db_step ::
    "(jstr \<Rightarrow> jstr) \<Rightarrow> (json \<Rightarrow> raw_emoji list) \<Rightarrow> (json \<Rightarrow> jstr) \<Rightarrow> database \<Rightarrow> db_op \<Rightarrow> database" where
  "db_step lower decode checksum d (Start n) = on_success d (init_database lower decode checksum n d)"
| "db_step lower decode checksum d (Update n) = lazyUpdate lower decode checksum n d"
| "db_step lower decode checksum d (SetSkinTone v) = on_success d (db_setPreferredSkinTone v d)"
| "db_step lower decode checksum d (Favorite u) = on_success d (db_incrementFavoriteEmojiCount u d)"
| "db_step lower decode checksum d (SetCustom cs) = set_customEmoji lower cs d"

interpretation db: machine "db_step lower decode checksum" "\<lambda>d. wf_idb lower (ready_db d)"
proof
  fix d :: database and op
  assume wf: "wf_idb lower (ready_db d)"
  show "wf_idb lower (ready_db (db_step lower decode checksum d op))"
  proof (cases op)
    case (Start n)
    with wf show ?thesis
      by (auto simp: on_success_def init_database_def split: sum.split intro: wf_loadDataForFirstTime)
  next
    case (Update n)
    with wf show ?thesis by (auto simp: lazyUpdate_def split: sum.split intro: wf_checkForUpdates)
  next
    case (SetSkinTone v)
    with wf show ?thesis
      by (auto simp: on_success_def db_setPreferredSkinTone_def wf_set_kv split: json.split)
  next
    case (Favorite u)
    with wf show ?thesis by (simp add: on_success_def db_incrementFavoriteEmojiCount_def wf_increment)
  next
    case (SetCustom cs)
    with wf show ?thesis by (simp add: set_customEmoji_def)
  qed
qed

text \<open>
  C30: the stores stay well formed. Whatever starts, updates, favourites, skin tones and custom emoji a
  database has seen since its creation, with whatever answers of the server, its stores are in key order
  without duplicate keys, every emoji is stored under its own character with three arrays of skins of one
  length and with the tokens of all its shortcodes, and every favourite has been chosen at least once.
\<close>

theorem database_well_formed:
  "wf_idb lower (ready_db (foldl (db_step lower decode checksum)
     (new_database lower src loc customs initialMigration) ops))"
  by (rule db.inv_run) (simp add: new_database_def initialMigration_def wf_idb_def sorted_store_def)

section \<open>What the queries answer\<close>

lemma wf_key: "wf_idb lower db \<Longrightarrow> (k, e) \<in> set (emojiStore db) \<Longrightarrow> k = st_unicode e"
  unfolding wf_idb_def wf_record_def by (metis fst_conv snd_conv)

lemma unicode_inj: "wf_idb lower db \<Longrightarrow> inj_on st_unicode (snd ` set (emojiStore db))"
proof (rule inj_onI)
  fix e e' assume wf: "wf_idb lower db"
    and e: "e \<in> snd ` set (emojiStore db)" "e' \<in> snd ` set (emojiStore db)" "st_unicode e = st_unicode e'"
  then obtain k k' where "(k, e) \<in> set (emojiStore db)" "(k', e') \<in> set (emojiStore db)" by auto
  moreover from this have "k = k'" using wf e(3) by (metis wf_key)
  moreover have "sorted_store (emojiStore db)" using wf by (simp add: wf_idb_def)
  ultimately show "e = e'" using idb.records_iff by (metis option.inject)
qed

lemma native_search:
  assumes "wf_idb lower db" "query_tokens lower query \<noteq> []"
  shows "\<exists>rs. getEmojiBySearchQuery lower db query = Inr rs \<and> sorted (map st_order rs) \<and>
    set rs = emoji_index.found (emojiStore db) (query_tokens lower query)"
proof -
  obtain rs where "findCommonMembers (token_answers (\<lambda>t. index_getAll (range_only t) (emojiStore db))
      (\<lambda>t. index_getAll (range_prefix t) (emojiStore db)) (query_tokens lower query)) st_unicode = Inr rs"
    "set rs = emoji_index.found (emojiStore db) (query_tokens lower query)"
    using emoji_index.common_members [OF assms(2) unicode_inj [OF assms(1)]] by blast
  then show ?thesis
    using assms(2) by (intro exI [of _ "sort_key st_order rs"]) (simp add: getEmojiBySearchQuery_def Let_def)
qed

text \<open>
  C28: what a search finds. In a well-formed database a query with tokens finds, in the order of the data
  and each once, exactly the emoji that have all tokens of the query but the last and a token that begins
  with the last (and goes on with another character than U+FFFF, if at all).
\<close>

theorem search_query_finds:
  assumes "wf_idb lower db" "query_tokens lower query = ts @ [t]"
  shows "\<exists>rs. getEmojiBySearchQuery lower db query = Inr rs \<and> sorted (map st_order (uniqBy rs st_unicode)) \<and>
    distinct (uniqBy rs st_unicode) \<and>
    set (uniqBy rs st_unicode) = {e. (st_unicode e, e) \<in> set (emojiStore db) \<and> (\<forall>w\<in>set ts. w \<in> set (st_tokens e)) \<and>
      (\<exists>w\<in>set (st_tokens e). prefix t w \<and> \<not> prefix (t @ [0xFFFF]) w)}"
proof -
  obtain rs where rs: "getEmojiBySearchQuery lower db query = Inr rs" "sorted (map st_order rs)"
    "set rs = emoji_index.found (emojiStore db) (ts @ [t])"
    using native_search [OF assms(1), of query] assms(2) by auto
  then have "inj_on st_unicode (set rs)"
    using unicode_inj [OF assms(1)] by (auto simp: emoji_index.found_def intro: inj_on_subset)
  then have "set (uniqBy rs st_unicode) = set rs" by (rule set_uniqBy)
  moreover have "e \<in> snd ` set (emojiStore db) \<longleftrightarrow> (st_unicode e, e) \<in> set (emojiStore db)" for e
    using assms(1) by (force simp: wf_idb_def wf_record_def)
  moreover have "distinct (uniqBy rs st_unicode)" using uniqBy_keys(2) [of st_unicode rs] by (simp add: distinct_map)
  moreover have "sorted (map st_order (uniqBy rs st_unicode))" using rs(2) by (simp add: uniqBy_def sorted_uniq_from)
  ultimately show ?thesis using rs by (auto simp: emoji_index.found_def range_prefix_iff)
qed

text \<open>
  An emoji is found by each of its shortcodes. In a well-formed database that holds an emoji with the
  (lower-case) shortcode, the lookup returns an emoji that has that shortcode, also when the shortcode is
  too short for a search and the database is scanned.
\<close>

theorem shortcode_lookup_complete:
  assumes "wf_idb lower db" "(k, e) \<in> set (emojiStore db)" "sc \<in> set (or_empty (st_shortcodes e))" "lower sc = sc"
  shows "\<exists>e'. getEmojiByShortcode lower db sc = Some (Inr (Some e')) \<and> has_shortcode lower sc e' \<and>
    e' \<in> snd ` set (emojiStore db)"
proof (cases "query_tokens lower sc = []")
  case True
  let ?p = "\<lambda>e. lower sc \<in> set (or_empty (st_shortcodes e))"
  have s: "sorted_store (emojiStore db)" using assms(1) by (simp add: wf_idb_def)
  obtain r where r: "List.find (\<lambda>(k, e). ?p e) (emojiStore db) = Some r"
    using assms(2,3,4) by (cases "List.find (\<lambda>(k, e). ?p e) (emojiStore db)") (auto simp: find_None_iff)
  then have "r \<in> set (emojiStore db)" "?p (snd r)"
    by (auto simp: find_Some_iff case_prod_unfold)
  moreover have "getEmojiByShortcode lower db sc = Some (Inr (Some (snd r)))"
    using True r scan_from [of "[]" "emojiStore db" None ?p] s
    by (simp add: getEmojiByShortcode_def getEmojiBySearchQuery_def doFullDatabaseScanForSingleResult_def)
  ultimately show ?thesis using assms(4) by (force simp: has_shortcode_def)
next
  case False
  have own: "set (query_tokens lower sc) \<subseteq> set (st_tokens e)"
    using assms(1,2,3) by (fastforce simp: wf_idb_def wf_record_def)
  obtain rs where rs: "getEmojiBySearchQuery lower db sc = Inr rs"
    "set rs = emoji_index.found (emojiStore db) (query_tokens lower sc)"
    using native_search [OF assms(1) False] by blast
  have "e \<in> snd ` set (emojiStore db)" using assms(2) by force
  then have e: "e \<in> set rs" using emoji_index.found_by_own_tokens [OF _ False own] rs(2) by simp
  have "has_shortcode lower sc e" using assms(3) by (simp add: has_shortcode_def)
  then obtain e' where e': "List.find (has_shortcode lower sc) rs = Some e'"
    using e by (cases "List.find (has_shortcode lower sc) rs") (auto simp: find_None_iff)
  then have "e' \<in> set rs" "has_shortcode lower sc e'" by (auto simp: find_Some_iff)
  moreover have "getEmojiByShortcode lower db sc = Some (Inr (Some e'))"
    using rs(1) e e' by (auto simp: getEmojiByShortcode_def)
  ultimately show ?thesis using rs(2) by (auto simp: emoji_index.found_def)
qed

text \<open>A database with one emoji, loaded from the data file.\<close>

definition star :: raw_emoji where
  "star = \<lparr>annotation = js ''star'', emoticon = None, egroup = 4, eorder = 9, shortcodes = Some [js ''star''],
    skins = None, etags = None, emoji_char = [0x2B50], eversion = JNum (Fin 1)\<rparr>"

definition star_db :: idb where
  "star_db = loadData (\<lambda>s. s) [star] (js ''/data.json'') (js ''v1'') initialMigration"

lemma star_store: "emojiStore star_db = [([0x2B50], transform_emoji (\<lambda>s. s) star)]"
  by (simp add: star_db_def loadData_def hasData_def get_kv_def initialMigration_def set_kv_def
      transformEmojiData_def put_emoji_def transform_emoji_def star_def)

lemma star_wf: "wf_idb (\<lambda>s. s) star_db"
  unfolding star_db_def by (rule wf_loadData) (simp add: initialMigration_def wf_idb_def sorted_store_def)

lemma star_tokens:
  "query_tokens (\<lambda>s. s) (js ''star'') = [js ''star'']" "query_tokens (\<lambda>s. s) (js ''st'') = [js ''st'']"
  "st_tokens (transform_emoji (\<lambda>s. s) star) = [js ''star'']"
proof -
  have x: "extractTokens (\<lambda>s. s) (js ''star'') = [js ''star'']" "extractTokens (\<lambda>s. s) (js ''st'') = [js ''st'']"
    by (simp_all add: extractTokens_def split_runs.simps is_gap_def is_trim_space_def is_white_space_def
        is_word_def js_def chr16_def Let_def irregularEmoticons_def clean_word_def)
  then show "query_tokens (\<lambda>s. s) (js ''star'') = [js ''star'']" "query_tokens (\<lambda>s. s) (js ''st'') = [js ''st'']"
    by (simp_all add: query_tokens_def normalizeTokens_def MIN_SEARCH_TEXT_LENGTH_def)
  show "st_tokens (transform_emoji (\<lambda>s. s) star) = [js ''star'']"
    by (simp add: transform_emoji_def search_tokens_def star_def or_empty_def x normalizeTokens_def
        MIN_SEARCH_TEXT_LENGTH_def)
qed

theorem search_query_finds_witness:
  "\<exists>rs. getEmojiBySearchQuery (\<lambda>s. s) star_db (js ''st'') = Inr rs \<and>
     set (uniqBy rs st_unicode) = {transform_emoji (\<lambda>s. s) star}"
proof -
  have "st_unicode (transform_emoji (\<lambda>s. s) star) = [0x2B50]" by (simp add: transform_emoji_def star_def)
  moreover have "prefix (js ''st'') (js ''star'')" "\<not> prefix (js ''st'' @ [0xFFFF]) (js ''star'')"
    by (simp_all add: js_def chr16_def)
  ultimately show ?thesis
    using search_query_finds [OF star_wf, of "js ''st''" "[]" "js ''st''"] star_tokens
    by (auto simp: star_store)
qed

theorem shortcode_lookup_complete_witness:
  "\<exists>e. getEmojiByShortcode (\<lambda>s. s) star_db (js ''star'') = Some (Inr (Some e)) \<and>
     e = transform_emoji (\<lambda>s. s) star"
  using shortcode_lookup_complete [OF star_wf, of "[0x2B50]" "transform_emoji (\<lambda>s. s) star" "js ''star''"]
  by (auto simp: star_store) (simp add: transform_emoji_def star_def or_empty_def)

section \<open>Updates\<close>

lemma hasData_load [simp]: "hasData (loadData lower data url eTag db) url eTag"
  by (auto simp: loadData_def hasData_def get_kv_def set_kv_def KEY_URL_def KEY_ETAG_def strict_eq_primitive)

text \<open>The tag that stands for the server's data: the tag of the \<open>HEAD\<close> request where it has one, and
  otherwise the tag of the data or its checksum.\<close>

definition server_tag :: "(json \<Rightarrow> jstr) \<Rightarrow> net \<Rightarrow> jstr" where
  "server_tag checksum n =
     (case getETag (head_answer n) of
        Inr (Some t) \<Rightarrow> t
      | _ \<Rightarrow> tag_or_checksum checksum (usable (eTagHeader (get_answer n))) (json_body (get_answer n)))"

lemma checkForUpdates_Inr:
  assumes "checkForUpdates lower decode checksum n src db = Inr db'"
  shows "db' = loadData lower (decode (json_body (get_answer n))) src (server_tag checksum n) db"
  using assms
  by (auto simp: checkForUpdates_def server_tag_def Let_def getETagAndData_def loadData_def
      split: sum.splits option.splits prod.splits if_splits)

lemma checkForUpdates_idle:
  assumes "hasData db src (server_tag checksum n)"
    and "checkForUpdates lower decode checksum n src db0 = Inr db1"
  shows "checkForUpdates lower2 decode2 checksum n src db = Inr db"
  using assms
  by (auto simp: checkForUpdates_def server_tag_def Let_def getETagAndData_def
      split: sum.splits option.splits prod.splits if_splits)

text \<open>
  C31: an update settles. A check for updates that succeeds leaves a database that knows the tag of the
  server's data. It is the same database if it knew the tag before; otherwise its emoji are exactly
  those of the server's data. The same check again finds nothing to do: it neither decodes nor writes
  anything (the result is the same for every other decoder and lower-casing function), and where the
  \<open>HEAD\<close> request has a tag it does not even ask for the data (the result is the same for every other
  answer to that request). Favourites and the preferred skin tone are never touched.
\<close>

theorem update_settles:
  assumes "checkForUpdates lower decode checksum n src db = Inr db'"
  shows "hasData db' src (server_tag checksum n) \<and>
    (if hasData db src (server_tag checksum n) then db' = db
     else emojiStore db' =
       fold put_emoji (transformEmojiData lower (decode (json_body (get_answer n)))) []) \<and>
    (\<forall>lower2 decode2. checkForUpdates lower2 decode2 checksum n src db' = Inr db') \<and>
    (\<forall>t lower2 decode2 g. getETag (head_answer n) = Inr (Some t) \<longrightarrow>
       checkForUpdates lower2 decode2 checksum (n\<lparr>get_answer := g\<rparr>) src db' = Inr db') \<and>
    favorites db' = favorites db \<and>
    get_kv db' KEY_PREFERRED_SKINTONE = get_kv db KEY_PREFERRED_SKINTONE"
proof -
  note db' = checkForUpdates_Inr [OF assms]
  have h: "hasData db' src (server_tag checksum n)" by (simp add: db')
  moreover have "if hasData db src (server_tag checksum n) then db' = db
     else emojiStore db' =
       fold put_emoji (transformEmojiData lower (decode (json_body (get_answer n)))) []"
    by (simp add: db' loadData_def set_kv_def)
  moreover have "checkForUpdates lower2 decode2 checksum n src db' = Inr db'" for lower2 decode2
    using h assms by (rule checkForUpdates_idle)
  moreover have "checkForUpdates lower2 decode2 checksum (n\<lparr>get_answer := g\<rparr>) src db' = Inr db'"
    if "getETag (head_answer n) = Inr (Some t)" for t lower2 decode2 g
    using that h by (simp add: checkForUpdates_def server_tag_def)
  moreover have "favorites db' = favorites db"
    "get_kv db' KEY_PREFERRED_SKINTONE = get_kv db KEY_PREFERRED_SKINTONE"
    by (simp_all add: db' loadData_def set_kv_def get_kv_def KEY_PREFERRED_SKINTONE_def KEY_URL_def KEY_ETAG_def)
  ultimately show ?thesis by blast
qed

definition star_net :: net where
  "star_net = \<lparr>head_answer = \<lparr>status = 200, eTagHeader = Some (js ''v2''), json_body = JNull\<rparr>,
     get_answer = \<lparr>status = 200, eTagHeader = Some (js ''v2''), json_body = JArr [JObj (map (\<lambda>k. (js k, JNull))
       [''annotation'', ''emoji'', ''group'', ''order'', ''version''])]\<rparr>\<rparr>"

theorem update_settles_witness:
  "\<exists>db'. checkForUpdates (\<lambda>s. s) (\<lambda>_. [star]) (\<lambda>_. []) star_net (js ''/data.json'') initialMigration = Inr db' \<and>
     checkForUpdates (\<lambda>s. s) (\<lambda>_. []) (\<lambda>_. []) star_net (js ''/data.json'') db' = Inr db' \<and>
     emojiStore db' = fold put_emoji (transformEmojiData (\<lambda>s. s) [star]) []"
proof -
  obtain db' where db': "checkForUpdates (\<lambda>s. s) (\<lambda>_. [star]) (\<lambda>_. []) star_net (js ''/data.json'') initialMigration =
      Inr db'"
    by (simp add: checkForUpdates_def star_net_def getETag_def getETagAndData_def assertStatus_def usable_def js_Cons
        hasData_def get_kv_def initialMigration_def)
  moreover have "\<not> hasData initialMigration (js ''/data.json'') t" for t
    by (simp add: hasData_def get_kv_def initialMigration_def)
  ultimately show ?thesis using update_settles [OF db'] by (intro exI [of _ db']) simp
qed

text \<open>
  The checksum misses a change. Where the server sends no tag, the data is compared by a checksum of its
  text that keeps only the low byte of every code unit: data whose text differs from the stored data in
  high bytes alone, one emoji put in place of another for instance, counts as unchanged and is not loaded,
  whatever the digest.
\<close>

theorem checksum_misses_change:
  assumes "checksum = jsonChecksum stringify digest btoa"
    and "map (\<lambda>c. unat c mod 256) (stringify v) = map (\<lambda>c. unat c mod 256) (stringify v')"
    and "hasData db src (checksum v)"
    and "assertEmojiData v'" "get_answer n = \<lparr>status = 200, eTagHeader = None, json_body = v'\<rparr>"
    and "status (head_answer n) = 200" "eTagHeader (head_answer n) = None"
  shows "checkForUpdates lower decode checksum n src db = Inr db"
proof -
  have low: "map (ucast :: unit16 \<Rightarrow> 8 word) xs = map ucast ys"
    if "map (\<lambda>c. unat c mod 256) xs = map (\<lambda>c. unat c mod 256) ys" for xs ys
    using that
  proof (induction xs ys rule: list_induct2')
    case (4 x xs y ys)
    then have "unat (ucast x :: 8 word) = unat (ucast y :: 8 word)" by (simp add: unsigned_ucast_eq take_bit_eq_mod)
    then show ?case using 4 by (simp add: word_unat_eq_iff)
  qed simp_all
  have "checksum v' = checksum v"
    using low [OF assms(2)] by (simp add: assms(1) jsonChecksum_def binaryStringToArrayBuffer_def)
  then show ?thesis
    using assms(3-7)
    by (simp add: checkForUpdates_def getETag_def getETagAndData_def assertStatus_def usable_def tag_or_checksum_def)
qed

text \<open>Data whose only text is its first emoji, a star before and a check mark after: their low bytes agree.\<close>

definition one_emoji :: "jstr \<Rightarrow> json" where
  "one_emoji c = JArr [JObj ((js ''emoji'', JStr c) # map (\<lambda>k. (js k, JNull)) [''annotation'', ''group'', ''order'', ''version''])]"

fun emoji_text :: "json \<Rightarrow> jstr" where
  "emoji_text (JArr (JObj ((k, JStr c) # _) # _)) = c"
| "emoji_text _ = []"

definition plain_checksum :: "json \<Rightarrow> jstr" where
  "plain_checksum = jsonChecksum emoji_text (\<lambda>b. b) (\<lambda>s. s)"

theorem checksum_misses_change_witness:
  "let db = loadData (\<lambda>s. s) [star] (js ''/data.json'') (plain_checksum (one_emoji [0x2605])) initialMigration;
       answer = \<lparr>status = 200, eTagHeader = None, json_body = one_emoji [0x2705]\<rparr>
   in one_emoji [0x2605] \<noteq> one_emoji [0x2705] \<and>
      checkForUpdates (\<lambda>s. s) (\<lambda>_. [star]) plain_checksum \<lparr>head_answer = answer, get_answer = answer\<rparr>
        (js ''/data.json'') db = Inr db"
  unfolding Let_def
proof
  show "one_emoji [0x2605] \<noteq> one_emoji [0x2705]" by (simp add: one_emoji_def)
  show "checkForUpdates (\<lambda>s. s) (\<lambda>_. [star]) plain_checksum
      \<lparr>head_answer = \<lparr>status = 200, eTagHeader = None, json_body = one_emoji [0x2705]\<rparr>,
       get_answer = \<lparr>status = 200, eTagHeader = None, json_body = one_emoji [0x2705]\<rparr>\<rparr> (js ''/data.json'')
      (loadData (\<lambda>s. s) [star] (js ''/data.json'') (plain_checksum (one_emoji [0x2605])) initialMigration) =
    Inr (loadData (\<lambda>s. s) [star] (js ''/data.json'') (plain_checksum (one_emoji [0x2605])) initialMigration)"
    by (rule checksum_misses_change [OF plain_checksum_def, of "one_emoji [0x2605]" "one_emoji [0x2705]"])
      (simp_all add: one_emoji_def)
qed

section \<open>Favourites in order\<close>

lemma cursor_loop_take:
  "length results < limit \<Longrightarrow>
     cursor_loop res limit results cur = take limit (results @ List.map_filter res (map fst cur))"
  by (induction res limit results cur rule: cursor_loop.induct) (auto simp: map_filter_simps split: option.split)

lemma count_increments:
  assumes "sorted_store (favorites db)"
  shows "sorted_store (favorites (fold incrementFavoriteEmojiCount us db)) \<and>
    (\<forall>u. map_of (favorites (fold incrementFavoriteEmojiCount us db)) u =
      (if u \<in> set us then Some ((case map_of (favorites db) u of None \<Rightarrow> 0 | Some n \<Rightarrow> n) + count_list us u)
       else map_of (favorites db) u))"
  using assms
proof (induction us arbitrary: db)
  case (Cons w us)
  have "sorted_store (favorites (incrementFavoriteEmojiCount w db))"
    using Cons.prems by (simp add: incrementFavoriteEmojiCount_def sorted_idb_put)
  from Cons.IH [OF this] show ?case
    using Cons.prems by (auto simp: incrementFavoriteEmojiCount_def lookup_idb_put split: option.split)
qed simp

text \<open>
  The favourites are the most chosen. After any choices, of which the counts are kept per name, the
  favourites are the first \<open>limit\<close> known emoji in a list of all chosen names by decreasing number of choices.
\<close>

theorem favourites_ranked:
  "let db = fold incrementFavoriteEmojiCount us (initialMigration\<lparr>emojiStore := s\<rparr>)
   in \<exists>names. getTopFavoriteEmoji lower idx limit db = take limit (List.map_filter (resolve lower idx db) names) \<and>
        set names = set us \<and> distinct names \<and> sorted_wrt (\<lambda>a b. count_list us b \<le> count_list us a) names"
proof -
  define db where "db = fold incrementFavoriteEmojiCount us (initialMigration\<lparr>emojiStore := s\<rparr>)"
  let ?names = "map fst (by_count (favorites db))"
  have fav: "sorted_store (favorites db)"
    and counts: "map_of (favorites db) u = (if u \<in> set us then Some (count_list us u) else None)" for u
    using count_increments [of "initialMigration\<lparr>emojiStore := s\<rparr>" us]
    by (auto simp: db_def initialMigration_def sorted_store_def)
  have d: "distinct (map fst (favorites db))" using fav by (rule idb.records_distinct)
  have entry: "(u, n) \<in> set (favorites db) \<longleftrightarrow> u \<in> set us \<and> n = count_list us u" for u n
    using idb.records_iff [OF fav, of u n] counts [of u] by auto
  have "set ?names = set us" using entry by (auto simp: by_count_def image_iff) (metis fst_conv)
  moreover have "distinct ?names"
    using d by (simp add: by_count_def distinct_map)
  moreover have "sorted_wrt (\<lambda>a b. count_list us b \<le> count_list us a) ?names"
  proof -
    have by_snd: "sorted_wrt (\<lambda>p q. snd q \<le> snd p) (by_count (favorites db))"
      using sorted_sort_key [of snd "favorites db"] by (simp add: by_count_def sorted_wrt_rev sorted_map)
    have c: "snd p = count_list us (fst p)" if "p \<in> set (by_count (favorites db))" for p
      using that entry [of "fst p" "snd p"] by (simp add: by_count_def)
    have "sorted_wrt (\<lambda>p q. count_list us (fst q) \<le> count_list us (fst p)) (by_count (favorites db))"
      by (rule sorted_wrt_mono_rel [OF _ by_snd]) (simp add: c)
    then show ?thesis by (simp add: sorted_wrt_map)
  qed
  moreover have "getTopFavoriteEmoji lower idx limit db = take limit (List.map_filter (resolve lower idx db) ?names)"
    by (simp add: getTopFavoriteEmoji_def cursor_loop_take)
  ultimately show ?thesis unfolding Let_def db_def [symmetric] by blast
qed

end
