(* ===== verification/EmojiLifecycle.thy ===== *)
theory EmojiLifecycle
  imports Prelude
begin

text \<open>
  Opening and closing the emoji database in assets/libs/emoji-picker-element/database.js:
  \<open>openDatabase\<close>, \<open>createDatabase\<close>, \<open>closeDatabase\<close>, \<open>addOnCloseListener\<close>, and \<open>_init\<close>, \<open>ready\<close>, \<open>_clear\<close>
  and \<open>close\<close> of the class \<open>Database\<close>, for the instances of one locale, which share a database name. An
  opening is numbered; its number is also that of its connection. A call of \<open>_init\<close> is a process that waits
  for the opening, for the answer of \<open>isEmpty\<close> and, on an empty database, for the first load. The browser's
  answers and the order in which the processes go on are free. What the stores hold is the matter of
  EmojiDatabase.
\<close>

section \<open>State\<close>

datatype promise = Pending | Resolved | Rejected

datatype init_pc = AwaitOpen nat | AwaitEmpty nat | AwaitLoad nat | InitDone | InitFailed

record instance_state =
  i_db :: "nat option"
  i_ready :: "nat option"
  i_lazyUpdate :: bool

record lifecycle =
  openings :: "promise list"
  cached :: "nat option"
  shut :: "nat list"
  onCloseListeners :: "nat list"
  procs :: "(nat \<times> init_pc) list"
  inst :: "nat \<Rightarrow> instance_state"

definition new_instance :: instance_state where
  "new_instance = \<lparr>i_db = None, i_ready = None, i_lazyUpdate = False\<rparr>"

definition lc_start :: lifecycle where
  "lc_start = \<lparr>openings = [], cached = None, shut = [], onCloseListeners = [], procs = [],
     inst = (\<lambda>_. new_instance)\<rparr>"

section \<open>Operations\<close>

definition createDatabase :: "lifecycle \<Rightarrow> lifecycle" where
  "createDatabase s = s\<lparr>openings := openings s @ [Pending], cached := Some (length (openings s))\<rparr>"

definition openDatabase :: "lifecycle \<Rightarrow> nat \<times> lifecycle" where
  "openDatabase s =
     (case cached s of Some k \<Rightarrow> (k, s) | None \<Rightarrow> (length (openings s), createDatabase s))"

definition set_inst :: "nat \<Rightarrow> instance_state \<Rightarrow> lifecycle \<Rightarrow> lifecycle" where
  "set_inst i x s = s\<lparr>inst := (inst s)(i := x)\<rparr>"

text \<open>\<open>_init\<close> up to its first await.\<close>

definition start_init :: "nat \<Rightarrow> lifecycle \<Rightarrow> lifecycle" where
  "start_init i s =
     (let (k, s1) = openDatabase s
      in set_inst i ((inst s1 i)\<lparr>i_ready := Some (length (procs s1))\<rparr>)
           (s1\<lparr>procs := procs s1 @ [(i, AwaitOpen k)]\<rparr>))"

text \<open>\<open>ready\<close>: its two checks are one operation; the second runs only while there is no connection.\<close>

definition checkReady :: "nat \<Rightarrow> lifecycle \<Rightarrow> lifecycle" where
  "checkReady i s = (if i_ready (inst s i) = None then start_init i s else s)"

definition addOnCloseListener :: "nat \<Rightarrow> lifecycle \<Rightarrow> lifecycle" where
  "addOnCloseListener i s = s\<lparr>onCloseListeners := onCloseListeners s @ [i]\<rparr>"

text \<open>\<open>_init\<close> goes on: a transaction on a closed connection raises.\<close>

definition resume :: "nat \<Rightarrow> bool \<Rightarrow> bool \<Rightarrow> lifecycle \<Rightarrow> lifecycle" where
  "resume p isEmpty loads s =
     (let (i, pc) = procs s ! p; goto = (\<lambda>pc s. s\<lparr>procs := (procs s)[p := (i, pc)]\<rparr>)
      in case pc of
           AwaitOpen k \<Rightarrow>
             (case openings s ! k of
                Pending \<Rightarrow> s
              | Rejected \<Rightarrow> goto InitFailed s
              | Resolved \<Rightarrow>
                  goto (AwaitEmpty k) (addOnCloseListener i (set_inst i ((inst s i)\<lparr>i_db := Some k\<rparr>) s)))
         | AwaitEmpty k \<Rightarrow>
             if k \<in> set (shut s) then goto InitFailed s
             else if isEmpty then goto (AwaitLoad k) s
             else goto InitDone (set_inst i ((inst s i)\<lparr>i_lazyUpdate := True\<rparr>) s)
         | AwaitLoad k \<Rightarrow> if loads \<and> k \<notin> set (shut s) then goto InitDone s else goto InitFailed s
         | InitDone \<Rightarrow> s
         | InitFailed \<Rightarrow> s)"

definition clear_all :: "nat list \<Rightarrow> (nat \<Rightarrow> instance_state) \<Rightarrow> nat \<Rightarrow> instance_state" where
  "clear_all is f i = (if i \<in> set is then new_instance else f i)"

text \<open>\<open>closeDatabase\<close>: reading the result of a request that is still pending raises.\<close>

definition closeDatabase :: "lifecycle \<Rightarrow> lifecycle" where
  "closeDatabase s =
     (case cached s of
        None \<Rightarrow> s\<lparr>onCloseListeners := []\<rparr>
      | Some k \<Rightarrow>
          (case openings s ! k of
             Pending \<Rightarrow> s
           | Rejected \<Rightarrow> s\<lparr>cached := None, onCloseListeners := []\<rparr>
           | Resolved \<Rightarrow>
               s\<lparr>shut := k # shut s, inst := clear_all (onCloseListeners s) (inst s), cached := None,
                 onCloseListeners := []\<rparr>))"

datatype lc_event =
    Ready nat
  | Answer nat bool
  | Resume nat bool bool
  | Close

fun lc_step :: "lifecycle \<Rightarrow> lc_event \<Rightarrow> lifecycle" where
  "lc_step s (Ready i) = checkReady i s"
| "lc_step s (Answer k ok) =
     (if k < length (openings s) \<and> openings s ! k = Pending
      then s\<lparr>openings := (openings s)[k := if ok then Resolved else Rejected]\<rparr> else s)"
| "lc_step s (Resume p isEmpty loads) = (if p < length (procs s) then resume p isEmpty loads s else s)"
| "lc_step s Close = closeDatabase s"

section \<open>Invariant\<close>

fun opening_of :: "init_pc \<Rightarrow> nat option" where
  "opening_of (AwaitOpen k) = Some k"
| "opening_of _ = None"

definition resolved :: "lifecycle \<Rightarrow> nat \<Rightarrow> bool" where
  "resolved s k \<longleftrightarrow> k < length (openings s) \<and> openings s ! k = Resolved"

definition lc_inv :: "lifecycle \<Rightarrow> bool" where
  "lc_inv s \<longleftrightarrow>
     (\<forall>k. cached s = Some k \<longrightarrow> k < length (openings s) \<and> k \<notin> set (shut s)) \<and>
     (\<forall>k\<in>set (shut s). resolved s k) \<and>
     (\<forall>i k. i_db (inst s i) = Some k \<longrightarrow>
        resolved s k \<and> (cached s = Some k \<longrightarrow> i \<in> set (onCloseListeners s))) \<and>
     (\<forall>i p. i_ready (inst s i) = Some p \<longrightarrow> p < length (procs s) \<and> fst (procs s ! p) = i) \<and>
     (\<forall>r\<in>set (procs s). \<forall>k. opening_of (snd r) = Some k \<longrightarrow> k < length (openings s))"

lemma lc_invD:
  assumes "lc_inv s"
  shows "cached s = Some k \<Longrightarrow> k < length (openings s) \<and> k \<notin> set (shut s)"
    and "k \<in> set (shut s) \<Longrightarrow> resolved s k"
    and "i_db (inst s i) = Some k \<Longrightarrow> resolved s k \<and> (cached s = Some k \<longrightarrow> i \<in> set (onCloseListeners s))"
    and "i_ready (inst s i) = Some p \<Longrightarrow> p < length (procs s) \<and> fst (procs s ! p) = i"
    and "r \<in> set (procs s) \<Longrightarrow> opening_of (snd r) = Some k \<Longrightarrow> k < length (openings s)"
  using assms by (auto simp: lc_inv_def)

lemma createDatabase_inv: "lc_inv s \<Longrightarrow> lc_inv (createDatabase s)"
  unfolding lc_inv_def createDatabase_def
  by (auto simp: resolved_def nth_append less_Suc_eq split: if_splits)

lemma open_inv: "lc_inv s \<Longrightarrow> openDatabase s = (k, t) \<Longrightarrow> lc_inv t \<and> k < length (openings t)"
  by (auto simp: openDatabase_def createDatabase_inv lc_invD(1) split: option.splits) (simp add: createDatabase_def)

lemma checkReady_inv: "lc_inv s \<Longrightarrow> lc_inv (checkReady i s)"
proof -
  assume inv: "lc_inv s"
  obtain k t where t: "openDatabase s = (k, t)" by force
  note o = open_inv [OF inv t]
  have "lc_inv (start_init i s)"
    using o by (auto simp: start_init_def t lc_inv_def set_inst_def resolved_def nth_append less_Suc_eq)
  then show ?thesis using inv by (simp add: checkReady_def)
qed

lemma goto_inv:
  assumes "lc_inv s" "p < length (procs s)" "opening_of pc = None"
  shows "lc_inv (s\<lparr>procs := (procs s)[p := (fst (procs s ! p), pc)]\<rparr>)"
  using assms unfolding lc_inv_def resolved_def
  by (auto simp: nth_list_update dest!: set_update_subset_insert [THEN subsetD])

lemma register_inv:
  assumes "lc_inv s" "resolved s k"
  shows "lc_inv (addOnCloseListener i (set_inst i ((inst s i)\<lparr>i_db := Some k\<rparr>) s))"
  using assms by (auto simp: lc_inv_def addOnCloseListener_def set_inst_def resolved_def)

lemma lazy_inv: "lc_inv s \<Longrightarrow> lc_inv (set_inst i ((inst s i)\<lparr>i_lazyUpdate := b\<rparr>) s)"
  by (auto simp: lc_inv_def set_inst_def resolved_def)

lemma resume_inv:
  assumes inv: "lc_inv s" and p: "p < length (procs s)"
  shows "lc_inv (resume p isEmpty loads s)"
proof -
  obtain i pc where r: "procs s ! p = (i, pc)" by force
  then have ip: "(i, pc) \<in> set (procs s)" using p nth_mem by metis
  let ?lazy = "set_inst i ((inst s i)\<lparr>i_lazyUpdate := True\<rparr>) s"
  have lazy: "lc_inv (?lazy\<lparr>procs := (procs s)[p := (i, InitDone)]\<rparr>)"
    using goto_inv [OF lazy_inv [OF inv, of i True], of p InitDone] p r by (simp add: set_inst_def)
  have reg: "lc_inv ((addOnCloseListener i (set_inst i ((inst s i)\<lparr>i_db := Some k\<rparr>) s))
      \<lparr>procs := (procs s)[p := (i, AwaitEmpty k)]\<rparr>)" if "resolved s k" for k
    using goto_inv [OF register_inv [OF inv that, of i], of p "AwaitEmpty k"] p r
    by (simp add: set_inst_def addOnCloseListener_def)
  show ?thesis
    using goto_inv [OF inv p] lazy reg inv r lc_invD(5) [OF inv ip]
    by (auto simp: resume_def Let_def resolved_def set_inst_def addOnCloseListener_def
        split: init_pc.split promise.split)
qed

lemma close_inv: "lc_inv s \<Longrightarrow> lc_inv (closeDatabase s)"
  by (auto simp: lc_inv_def closeDatabase_def clear_all_def new_instance_def resolved_def
      split: option.split promise.split)

lemma open_answer_inv: "lc_inv s \<Longrightarrow> lc_inv (lc_step s (Answer k ok))"
  by (auto simp: lc_inv_def resolved_def nth_list_update)

interpretation lc: machine lc_step lc_inv
proof
  fix s e assume "lc_inv s"
  then show "lc_inv (lc_step s e)"
    using open_answer_inv [of s] by (cases e) (auto simp: checkReady_inv resume_inv close_inv)
qed

lemma lc_start_inv: "lc_inv lc_start"
  by (simp add: lc_start_def lc_inv_def new_instance_def)

text \<open>
  Closing takes the connection from everyone. After any history, closing the open database shuts its connection,
  no instance holds it any more, every instance that held it starts again from nothing, and the next \<open>ready\<close>
  of such an instance opens a connection that was never open before.
\<close>

theorem close_releases_connection:
  assumes "s = foldl lc_step lc_start es" "cached s = Some k" "openings s ! k = Resolved"
  shows "k \<in> set (shut (closeDatabase s)) \<and> (\<forall>i. i_db (inst (closeDatabase s) i) \<noteq> Some k) \<and>
    (\<forall>i. i_db (inst s i) = Some k \<longrightarrow> inst (closeDatabase s) i = new_instance \<and>
       cached (checkReady i (closeDatabase s)) = Some (length (openings s)) \<and> length (openings s) \<notin> set (shut (closeDatabase s)))"
proof -
  have inv: "lc_inv s" unfolding assms(1) by (rule lc.inv_run [OF lc_start_inv])
  note k = lc_invD(1) [OF inv assms(2)]
  have "i \<in> set (onCloseListeners s)" if "i_db (inst s i) = Some k" for i
    using lc_invD(3) [OF inv that] assms(2) by simp
  moreover have "length (openings s) \<notin> set (shut s)" using lc_invD(2) [OF inv] by (auto simp: resolved_def)
  ultimately show ?thesis
    using assms(2,3) k
    by (auto simp: closeDatabase_def clear_all_def new_instance_def checkReady_def start_init_def openDatabase_def
        createDatabase_def set_inst_def)
qed

theorem close_releases_connection_witness:
  "let s = foldl lc_step lc_start [Ready 0, Answer 0 True, Resume 0 False True]
   in i_db (inst s 0) = Some 0 \<and> i_db (inst (closeDatabase s) 0) = None"
proof -
  let ?s = "foldl lc_step lc_start [Ready 0, Answer 0 True, Resume 0 False True]"
  have s: "cached ?s = Some 0" "openings ?s ! 0 = Resolved" "i_db (inst ?s 0) = Some 0"
    by (simp_all add: lc_start_def checkReady_def new_instance_def start_init_def openDatabase_def createDatabase_def
        set_inst_def resume_def addOnCloseListener_def)
  then show ?thesis
    using close_releases_connection [OF refl s(1,2)] by (simp add: Let_def new_instance_def del: lc_step.simps foldl.simps)
qed

text \<open>
  A failed start is never repeated. Once the start of an instance has failed, offline at the first load for
  instance, its \<open>ready\<close> goes on failing: no answer of the browser, no other instance and no further call starts it
  again until the database is closed.
\<close>

definition start_failed :: "nat \<Rightarrow> lifecycle \<Rightarrow> bool" where
  "start_failed i s \<longleftrightarrow> (\<exists>p. i_ready (inst s i) = Some p \<and> p < length (procs s) \<and> procs s ! p = (i, InitFailed))"

theorem failed_start_sticks:
  "start_failed i s \<Longrightarrow> Close \<notin> set es \<Longrightarrow> start_failed i (foldl lc_step s es)"
proof (induction es arbitrary: s)
  case (Cons e es)
  then obtain p where p: "i_ready (inst s i) = Some p" "p < length (procs s)" "procs s ! p = (i, InitFailed)"
    by (auto simp: start_failed_def)
  have "start_failed i (checkReady j s)" for j
    using p by (auto simp: start_failed_def checkReady_def start_init_def openDatabase_def createDatabase_def
        set_inst_def nth_append split: option.split)
  moreover have "start_failed i (resume q b b' s)" if "q < length (procs s)" for q b b'
    using p that by (auto simp: start_failed_def resume_def Let_def set_inst_def addOnCloseListener_def nth_list_update
        split: prod.split init_pc.split promise.split intro!: exI [of _ p])
  ultimately have "start_failed i (lc_step s e)"
    using Cons.prems by (cases e) (auto simp: start_failed_def)
  with Cons show ?case by simp
qed simp

theorem failed_start_sticks_witness:
  "start_failed 0 (foldl lc_step
     (foldl lc_step lc_start [Ready 0, Answer 0 True, Resume 0 True True, Resume 0 True True, Resume 0 True False])
     [Ready 0, Resume 0 False True])"
proof (rule failed_start_sticks)
  show "start_failed 0
      (foldl lc_step lc_start [Ready 0, Answer 0 True, Resume 0 True True, Resume 0 True True, Resume 0 True False])"
    by (simp add: start_failed_def lc_start_def checkReady_def new_instance_def start_init_def openDatabase_def
        createDatabase_def set_inst_def resume_def addOnCloseListener_def)
qed simp

end
