(* ===== verification/EmojiShutdown.thy ===== *)
theory EmojiShutdown
  imports EmojiLifecycle
begin

text \<open>
  Shutting an instance of the emoji database down: \<open>_shutdown\<close>, \<open>close\<close>, \<open>delete\<close> and \<open>deleteDatabase\<close> of
  assets/libs/emoji-picker-element/database.js, on top of EmojiLifecycle. A call is a process that waits for
  \<open>ready\<close> (a second time when the connection was lost meanwhile), for the update that may be running,
  and, for a deletion, for the browser. The starts of the instances, the answers of the browser and
  closes from outside may come in between in any order. The theorem: when such a call reaches its close,
  no connection that this page ever opened is open, so its deletion request waits for nothing of its own.
\<close>

section \<open>Calls of close and delete\<close>

text \<open>
  \<open>SAwaitLazy b\<close> has read \<open>_lazyUpdate\<close>; \<open>b\<close> says whether there is a promise to wait for. Its outcome is
  ignored.
\<close>

datatype shut_pc =
    SAwaitReady nat
  | SAwaitAgain nat
  | SAwaitLazy bool
  | SAwaitDelete nat
  | ShutDone
  | ShutFailed

record shut_call =
  sc_inst :: nat
  sc_delete :: bool
  sc_pc :: shut_pc

record shutdowns =
  sd_lc :: lifecycle
  sd_calls :: "shut_call list"
  sd_deletions :: "promise list"

definition sd_start :: shutdowns where
  "sd_start = \<lparr>sd_lc = lc_start, sd_calls = [], sd_deletions = []\<rparr>"

text \<open>\<open>checkReady\<close> returns the promise of the start it found or made.\<close>

definition ready_promise :: "nat \<Rightarrow> lifecycle \<Rightarrow> nat \<times> lifecycle" where
  "ready_promise i s = (let s1 = checkReady i s in (the (i_ready (inst s1 i)), s1))"

definition shutdown_call :: "nat \<Rightarrow> bool \<Rightarrow> shutdowns \<Rightarrow> shutdowns" where
  "shutdown_call i del s =
     (let (p, l) = ready_promise i (sd_lc s)
      in s\<lparr>sd_lc := l, sd_calls := sd_calls s @ [\<lparr>sc_inst = i, sc_delete = del, sc_pc = SAwaitReady p\<rparr>]\<rparr>)"

text \<open>Whether \<open>closeDatabase\<close> raises: it reads the result of the open request.\<close>

definition close_raises :: "lifecycle \<Rightarrow> bool" where
  "close_raises s \<longleftrightarrow> (case cached s of None \<Rightarrow> False | Some k \<Rightarrow> openings s ! k = Pending)"

definition await_lazy :: "nat \<Rightarrow> lifecycle \<Rightarrow> shut_pc" where
  "await_lazy i s = SAwaitLazy (i_lazyUpdate (inst s i))"

text \<open>\<open>deleteDatabase\<close>: a close, then the request to the browser.\<close>

definition deleteDatabase :: "shutdowns \<Rightarrow> shut_pc \<times> shutdowns" where
  "deleteDatabase s =
     (if close_raises (sd_lc s) then (ShutFailed, s)
      else let s1 = s\<lparr>sd_lc := closeDatabase (sd_lc s)\<rparr>
           in (SAwaitDelete (length (sd_deletions s1)), s1\<lparr>sd_deletions := sd_deletions s1 @ [Pending]\<rparr>))"

definition close_or_delete :: "bool \<Rightarrow> shutdowns \<Rightarrow> shut_pc \<times> shutdowns" where
  "close_or_delete del s =
     (if del then deleteDatabase s
      else if close_raises (sd_lc s) then (ShutFailed, s)
      else (ShutDone, s\<lparr>sd_lc := closeDatabase (sd_lc s)\<rparr>))"

definition shut_goto :: "nat \<Rightarrow> shut_pc \<Rightarrow> shutdowns \<Rightarrow> shutdowns" where
  "shut_goto q pc s = s\<lparr>sd_calls := (sd_calls s)[q := (sd_calls s ! q)\<lparr>sc_pc := pc\<rparr>]\<rparr>"

definition shut_resume :: "nat \<Rightarrow> bool \<Rightarrow> shutdowns \<Rightarrow> shutdowns" where
  "shut_resume q settled s =
     (let c = sd_calls s ! q; i = sc_inst c; l = sd_lc s
      in case sc_pc c of
           SAwaitReady p \<Rightarrow>
             (case snd (procs l ! p) of
                InitDone \<Rightarrow>
                  if i_db (inst l i) = None
                  then let (p', l1) = ready_promise i l in shut_goto q (SAwaitAgain p') (s\<lparr>sd_lc := l1\<rparr>)
                  else shut_goto q (await_lazy i l) s
              | InitFailed \<Rightarrow> shut_goto q ShutFailed s
              | _ \<Rightarrow> s)
         | SAwaitAgain p \<Rightarrow>
             (case snd (procs l ! p) of
                InitDone \<Rightarrow> shut_goto q (await_lazy i l) s
              | InitFailed \<Rightarrow> shut_goto q ShutFailed s
              | _ \<Rightarrow> s)
         | SAwaitLazy b \<Rightarrow>
             if b \<and> \<not> settled then s
             else let (pc, s1) = close_or_delete (sc_delete c) s in shut_goto q pc s1
         | SAwaitDelete d \<Rightarrow>
             (case sd_deletions s ! d of
                Pending \<Rightarrow> s
              | Resolved \<Rightarrow> shut_goto q ShutDone s
              | Rejected \<Rightarrow> shut_goto q ShutFailed s)
         | ShutDone \<Rightarrow> s
         | ShutFailed \<Rightarrow> s)"

datatype sd_event =
    Lifecycle lc_event
  | Shutdown nat bool
  | ShutResume nat bool
  | DeleteAnswer nat bool

fun sd_step :: "shutdowns \<Rightarrow> sd_event \<Rightarrow> shutdowns" where
  "sd_step s (Lifecycle e) = s\<lparr>sd_lc := lc_step (sd_lc s) e\<rparr>"
| "sd_step s (Shutdown i del) = shutdown_call i del s"
| "sd_step s (ShutResume q settled) = (if q < length (sd_calls s) then shut_resume q settled s else s)"
| "sd_step s (DeleteAnswer d ok) =
     (if d < length (sd_deletions s) \<and> sd_deletions s ! d = Pending
      then s\<lparr>sd_deletions := (sd_deletions s)[d := if ok then Resolved else Rejected]\<rparr> else s)"

section \<open>No connection is forgotten\<close>

text \<open>Every opening failed, is the cached one, or was shut.\<close>

definition accounted :: "lifecycle \<Rightarrow> bool" where
  "accounted s \<longleftrightarrow> (\<forall>k < length (openings s). openings s ! k = Rejected \<or> cached s = Some k \<or> k \<in> set (shut s))"

lemma accounted_cong:
  "openings t = openings s \<Longrightarrow> cached t = cached s \<Longrightarrow> shut t = shut s \<Longrightarrow> accounted t = accounted s"
  by (simp add: accounted_def)

lemma accounted_ready: "accounted s \<Longrightarrow> accounted (checkReady i s)"
  by (auto simp: accounted_def checkReady_def start_init_def openDatabase_def createDatabase_def set_inst_def
      nth_append less_Suc_eq split: option.split)

lemma accounted_resume: "accounted s \<Longrightarrow> accounted (resume p e l s)"
  by (subst accounted_cong [of _ s])
    (auto simp: resume_def Let_def set_inst_def addOnCloseListener_def split: prod.split init_pc.split promise.split)

lemma accounted_close: "accounted s \<Longrightarrow> accounted (closeDatabase s)"
  by (auto simp: accounted_def closeDatabase_def split: option.split promise.split)

lemma accounted_answer: "accounted s \<Longrightarrow> accounted (lc_step s (Answer k ok))"
  by (auto simp: accounted_def nth_list_update)

lemma accounted_step: "accounted s \<Longrightarrow> accounted (lc_step s e)"
  using accounted_answer by (cases e) (auto simp: accounted_ready accounted_resume accounted_close)

lemma closed_means_shut:
  assumes "accounted s" "\<not> close_raises s" "k < length (openings s)"
  shows "k \<in> set (shut (closeDatabase s)) \<or> openings s ! k = Rejected"
  using assms by (auto simp: accounted_def close_raises_def closeDatabase_def split: option.splits promise.splits)

section \<open>Invariant\<close>

fun start_of :: "shut_pc \<Rightarrow> nat option" where
  "start_of (SAwaitReady p) = Some p"
| "start_of (SAwaitAgain p) = Some p"
| "start_of _ = None"

fun deletion_of :: "shut_pc \<Rightarrow> nat option" where
  "deletion_of (SAwaitDelete d) = Some d"
| "deletion_of _ = None"

definition call_ok :: "shutdowns \<Rightarrow> shut_call \<Rightarrow> bool" where
  "call_ok s c \<longleftrightarrow> (\<forall>p. start_of (sc_pc c) = Some p \<longrightarrow> p < length (procs (sd_lc s))) \<and>
     (\<forall>d. deletion_of (sc_pc c) = Some d \<longrightarrow> d < length (sd_deletions s))"

definition sd_inv :: "shutdowns \<Rightarrow> bool" where
  "sd_inv s \<longleftrightarrow> lc_inv (sd_lc s) \<and> accounted (sd_lc s) \<and> list_all (call_ok s) (sd_calls s)"

lemma call_ok_mono:
  "call_ok s c \<Longrightarrow> length (procs (sd_lc s)) \<le> length (procs (sd_lc t)) \<Longrightarrow>
   length (sd_deletions s) \<le> length (sd_deletions t) \<Longrightarrow> call_ok t c"
  by (auto simp: call_ok_def)

lemma calls_ok_mono:
  assumes "list_all (call_ok s) cs" "length (procs (sd_lc s)) \<le> length (procs (sd_lc t))"
    "length (sd_deletions s) \<le> length (sd_deletions t)"
  shows "list_all (call_ok t) cs"
  using assms by (auto simp: list_all_iff intro: call_ok_mono)

lemma procs_ready: "length (procs s) \<le> length (procs (checkReady i s))"
  by (auto simp: checkReady_def start_init_def openDatabase_def createDatabase_def set_inst_def split: option.split)

lemma procs_step: "length (procs s) \<le> length (procs (lc_step s e))"
  using procs_ready
  by (cases e) (auto simp: resume_def Let_def set_inst_def addOnCloseListener_def closeDatabase_def
      split: prod.split init_pc.split promise.split option.split)

lemma ready_promise_facts:
  assumes "lc_inv s" "accounted s" "ready_promise i s = (p, l)"
  shows "lc_inv l \<and> accounted l \<and> p < length (procs l) \<and> length (procs s) \<le> length (procs l)"
proof -
  have l: "l = checkReady i s" "p = the (i_ready (inst l i))" using assms(3) by (auto simp: ready_promise_def Let_def)
  have "i_ready (inst l i) \<noteq> None"
    unfolding l(1) by (auto simp: checkReady_def start_init_def set_inst_def split: prod.split)
  then obtain p' where "i_ready (inst l i) = Some p'" by blast
  then show ?thesis
    using lc_invD(4) [of l i p'] checkReady_inv [OF assms(1)] accounted_ready [OF assms(2)] procs_ready l by auto
qed

lemma shut_goto_inv:
  assumes "sd_inv s" "q < length (sd_calls s)" "\<And>c. call_ok s (c\<lparr>sc_pc := pc\<rparr>)"
  shows "sd_inv (shut_goto q pc s)"
proof -
  have "call_ok (shut_goto q pc s) c = call_ok s c" for c by (simp add: call_ok_def shut_goto_def)
  then have "list_all (call_ok (shut_goto q pc s)) (sd_calls (shut_goto q pc s))"
    using assms by (auto simp: sd_inv_def shut_goto_def list_all_iff dest!: set_update_subset_insert [THEN subsetD])
  then show ?thesis using assms(1) by (simp add: sd_inv_def shut_goto_def)
qed

lemma sd_inv_lc:
  assumes "sd_inv s" "lc_inv l" "accounted l" "length (procs (sd_lc s)) \<le> length (procs l)"
  shows "sd_inv (s\<lparr>sd_lc := l\<rparr>)"
  using assms calls_ok_mono [of s "sd_calls s" "s\<lparr>sd_lc := l\<rparr>"] by (simp add: sd_inv_def)

lemma close_or_delete_inv:
  assumes "sd_inv s" "close_or_delete del s = (pc, t)"
  shows "sd_inv t \<and> sd_calls t = sd_calls s \<and> call_ok t (c\<lparr>sc_pc := pc\<rparr>)"
proof -
  let ?s1 = "s\<lparr>sd_lc := closeDatabase (sd_lc s)\<rparr>"
  have 1: "sd_inv ?s1"
    using assms(1) procs_step [of "sd_lc s" Close]
    by (intro sd_inv_lc) (auto simp: sd_inv_def close_inv accounted_close)
  then have "sd_inv (?s1\<lparr>sd_deletions := sd_deletions s @ [Pending]\<rparr>)"
    using calls_ok_mono [of ?s1 "sd_calls s" "?s1\<lparr>sd_deletions := sd_deletions s @ [Pending]\<rparr>"] by (simp add: sd_inv_def)
  with 1 show ?thesis
    using assms by (auto simp: close_or_delete_def deleteDatabase_def Let_def call_ok_def split: if_splits)
qed

lemma shut_resume_inv:
  assumes inv: "sd_inv s" and q: "q < length (sd_calls s)"
  shows "sd_inv (shut_resume q b s)"
proof -
  have go: "sd_inv (shut_goto q pc s)" if "start_of pc = None" "deletion_of pc = None" for pc
    using that by (intro shut_goto_inv [OF inv q]) (simp add: call_ok_def)
  have again: "sd_inv (shut_goto q (SAwaitAgain p) (s\<lparr>sd_lc := l\<rparr>))" if "ready_promise i (sd_lc s) = (p, l)" for i p l
    using ready_promise_facts [OF _ _ that] inv sd_inv_lc [OF inv, of l] q
    by (intro shut_goto_inv) (auto simp: sd_inv_def call_ok_def)
  have fin: "sd_inv (shut_goto q pc t)" if "close_or_delete del s = (pc, t)" for del pc t
    using close_or_delete_inv [OF inv that] q by (intro shut_goto_inv) auto
  show ?thesis
    using inv go again fin
    by (auto simp: shut_resume_def Let_def await_lazy_def split: shut_pc.split init_pc.split promise.split prod.split)
qed

interpretation sd: machine sd_step sd_inv
proof
  fix s e assume inv: "sd_inv s"
  show "sd_inv (sd_step s e)"
  proof (cases e)
    case (Lifecycle x)
    have "sd_inv (s\<lparr>sd_lc := lc_step (sd_lc s) x\<rparr>)"
      using inv procs_step [of "sd_lc s" x] lc.inv_step [of "sd_lc s" x] accounted_step [of "sd_lc s" x]
      by (intro sd_inv_lc) (simp_all add: sd_inv_def)
    then show ?thesis using Lifecycle by simp
  next
    case (Shutdown i del)
    obtain p l where r: "ready_promise i (sd_lc s) = (p, l)" by force
    note f = ready_promise_facts [OF _ _ r]
    have "sd_inv (s\<lparr>sd_lc := l\<rparr>)" using f inv by (intro sd_inv_lc) (auto simp: sd_inv_def)
    then show ?thesis using f inv Shutdown by (auto simp: shutdown_call_def r sd_inv_def list_all_iff call_ok_def)
  next
    case (ShutResume q b)
    then show ?thesis using inv shut_resume_inv by simp
  next
    case (DeleteAnswer d ok)
    then show ?thesis
      using inv calls_ok_mono [of s "sd_calls s" "s\<lparr>sd_deletions := (sd_deletions s)[d := if ok then Resolved else Rejected]\<rparr>"]
      by (simp add: sd_inv_def)
  qed
qed

lemma sd_start_inv: "sd_inv sd_start"
  using lc_start_inv by (simp add: sd_inv_def sd_start_def accounted_def lc_start_def)

text \<open>
  C32: shutting down leaves nothing open. Whatever the instances, the browser and other calls did before, when a call of
  \<open>close\<close> or \<open>delete\<close> comes to its end and no opening is under way, every connection that was ever opened is shut,
  no instance holds one that is not, the next \<open>ready\<close> opens a new one, and only then does a deletion send
  its request.
\<close>

theorem shutdown_leaves_nothing_open:
  assumes "s = foldl sd_step sd_start es" "q < length (sd_calls s)" "sc_pc (sd_calls s ! q) = SAwaitLazy b" "b \<longrightarrow> settled"
    and "\<not> close_raises (sd_lc s)" "t = sd_step s (ShutResume q settled)"
  shows "(\<forall>k < length (openings (sd_lc t)). k \<in> set (shut (sd_lc t)) \<or> openings (sd_lc t) ! k = Rejected) \<and>
    (\<forall>i k. i_db (inst (sd_lc t) i) = Some k \<longrightarrow> k \<in> set (shut (sd_lc t))) \<and> cached (sd_lc t) = None \<and>
    (if sc_delete (sd_calls s ! q) then
       sc_pc (sd_calls t ! q) = SAwaitDelete (length (sd_deletions s)) \<and> sd_deletions t = sd_deletions s @ [Pending]
     else sc_pc (sd_calls t ! q) = ShutDone \<and> sd_deletions t = sd_deletions s)"
proof -
  have inv: "sd_inv s" unfolding assms(1) by (rule sd.inv_run [OF sd_start_inv])
  have t: "sd_lc t = closeDatabase (sd_lc s)"
    "if sc_delete (sd_calls s ! q) then
       sc_pc (sd_calls t ! q) = SAwaitDelete (length (sd_deletions s)) \<and> sd_deletions t = sd_deletions s @ [Pending]
     else sc_pc (sd_calls t ! q) = ShutDone \<and> sd_deletions t = sd_deletions s"
    using assms(2-6) by (auto simp: shut_resume_def Let_def close_or_delete_def deleteDatabase_def shut_goto_def)
  have o: "openings (sd_lc t) = openings (sd_lc s)"
    unfolding t(1) by (simp add: closeDatabase_def split: option.split promise.split)
  have c: "cached (sd_lc t) = None"
    using assms(5) unfolding t(1) by (auto simp: close_raises_def closeDatabase_def split: option.split promise.split)
  have k: "k \<in> set (shut (sd_lc t)) \<or> openings (sd_lc t) ! k = Rejected" if "k < length (openings (sd_lc t))" for k
    using closed_means_shut [OF _ assms(5), of k] inv that o t(1) by (simp add: sd_inv_def)
  have "k \<in> set (shut (sd_lc t))" if "i_db (inst (sd_lc t) i) = Some k" for i k
    using lc_invD(3) [OF close_inv [of "sd_lc s"], of i k] inv that k [of k] t(1) by (auto simp: sd_inv_def resolved_def)
  then show ?thesis using k c t(2) by blast
qed

lemmas shutdown_eval = sd_start_def lc_start_def shutdown_call_def ready_promise_def checkReady_def new_instance_def start_init_def
  openDatabase_def createDatabase_def set_inst_def resume_def addOnCloseListener_def shut_resume_def shut_goto_def await_lazy_def
  close_raises_def

theorem shutdown_leaves_nothing_open_witness:
  "let s = foldl sd_step sd_start [Shutdown 0 True, Lifecycle (Answer 0 True), Lifecycle (Resume 0 False True),
         Lifecycle (Resume 0 False True), ShutResume 0 False];
       t = sd_step s (ShutResume 0 True)
   in shut (sd_lc s) = [] \<and> sc_pc (sd_calls t ! 0) = SAwaitDelete 0 \<and> cached (sd_lc t) = None"
proof -
  let ?es = "[Shutdown 0 True, Lifecycle (Answer 0 True), Lifecycle (Resume 0 False True),
         Lifecycle (Resume 0 False True), ShutResume 0 False]"
  have s: "0 < length (sd_calls (foldl sd_step sd_start ?es))"
    "sc_pc (sd_calls (foldl sd_step sd_start ?es) ! 0) = SAwaitLazy True" "True \<longrightarrow> True"
    "\<not> close_raises (sd_lc (foldl sd_step sd_start ?es))"
    and r: "sc_delete (sd_calls (foldl sd_step sd_start ?es) ! 0)" "sd_deletions (foldl sd_step sd_start ?es) = []"
      "shut (sd_lc (foldl sd_step sd_start ?es)) = []"
    by (simp_all add: shutdown_eval)
  show ?thesis
    using shutdown_leaves_nothing_open [OF refl s refl] r by (simp add: Let_def del: foldl.simps sd_step.simps)
qed

end
