(* ===== verification/Notifications.thy ===== *)
theory Notifications
  imports JsValue
begin

text \<open>
  The \<open>notifications\<close> component of assets/app.js: the toasts of the page. State: the list of
  notifications, the next identifier, the dismissal timers that are running (each the identifier it
  will remove and its delay in milliseconds) and the redirects to the login page that are scheduled.
  Operations: \<open>addNotification\<close>, \<open>removeNotification\<close>, \<open>clearErrorNotifications\<close> and the
  three window listeners that \<open>init\<close> installs.
\<close>

section \<open>State and operations\<close>

record notification =
  nid :: nat
  ntype :: jstr
  message :: json

record notif_state =
  notifications :: "notification list"
  nextId :: nat
  timers :: "(nat \<times> nat) list"
  redirects :: "(jstr \<times> nat) list"

definition notif_init :: notif_state where
  "notif_init = \<lparr>notifications = [], nextId = 1, timers = [], redirects = []\<rparr>"

definition same_toast :: "jstr \<Rightarrow> json \<Rightarrow> notification \<Rightarrow> bool" where
  "same_toast ty msg n \<longleftrightarrow> strict_eq (message n) msg \<and> ntype n = ty"

definition dismiss_time :: "jstr \<Rightarrow> nat option \<Rightarrow> nat" where
  "dismiss_time ty duration =
     (case duration of Some d \<Rightarrow> d | None \<Rightarrow> if ty = js ''error'' then 8000 else 4000)"

definition addNotification ::
  "jstr \<Rightarrow> json \<Rightarrow> nat option \<Rightarrow> notif_state \<Rightarrow> notif_state" where
  "addNotification ty msg duration s =
     (if \<exists>n \<in> set (notifications s). same_toast ty msg n then s
      else let i = nextId s in
        s\<lparr>nextId := i + 1,
          notifications := notifications s @ [\<lparr>nid = i, ntype = ty, message = msg\<rparr>],
          timers := timers s @ [(i, dismiss_time ty duration)]\<rparr>)"

definition removeNotification :: "nat \<Rightarrow> notif_state \<Rightarrow> notif_state" where
  "removeNotification i s = s\<lparr>notifications := filter (\<lambda>n. nid n \<noteq> i) (notifications s)\<rparr>"

definition clearErrorNotifications :: "notif_state \<Rightarrow> notif_state" where
  "clearErrorNotifications s =
     s\<lparr>notifications := filter (\<lambda>n. ntype n \<noteq> js ''error'') (notifications s)\<rparr>"

text \<open>
  The detail of an \<open>ajax:error\<close> event: an optional status and an optional raw body, and possibly
  an \<open>xhr\<close> object with the same two fields.
\<close>

record ajax_info =
  status :: "nat option"
  raw :: "jstr option"

record ajax_detail =
  info :: ajax_info
  xhr :: "ajax_info option"

definition error_detail :: "ajax_detail option \<Rightarrow> ajax_info option" where
  "error_detail ev =
     (case ev of None \<Rightarrow> None
      | Some d \<Rightarrow> (case xhr d of Some x \<Rightarrow> Some x | None \<Rightarrow> Some (info d)))"

definition nonempty :: "jstr option \<Rightarrow> jstr option" where
  "nonempty r = (case r of None \<Rightarrow> None | Some s \<Rightarrow> if s = [] then None else Some s)"

definition error_raw :: "ajax_detail option \<Rightarrow> jstr option" where
  "error_raw ev =
     (case Option.bind ev (\<lambda>d. nonempty (raw (info d))) of
        Some r \<Rightarrow> Some r
      | None \<Rightarrow> Option.bind (error_detail ev) (\<lambda>d. nonempty (raw d)))"

definition body_message :: "json_parse \<Rightarrow> jstr option \<Rightarrow> json" where
  "body_message parse r =
     (case r of None \<Rightarrow> JUndefined
      | Some t \<Rightarrow>
          (case parse t of None \<Rightarrow> JUndefined
           | Some body \<Rightarrow>
               (case get_prop body (js ''message'') of None \<Rightarrow> JUndefined
                | Some m \<Rightarrow> if truthy m then m else JUndefined)))"

definition warn :: jstr where
  "warn = [0x26a0, 0x20]"

definition status_message :: "nat option \<Rightarrow> json" where
  "status_message st =
     (case st of
        None \<Rightarrow> JStr (warn @ js ''Network Error - Unable to complete request'')
      | Some n \<Rightarrow>
          if n = 0 then JStr (warn @ js ''Network Error - Unable to complete request'')
          else if n \<ge> 500 then JStr (warn @ js ''Server Error ('' @ decimal n @ js '')'')
          else if n \<ge> 400 then JStr (warn @ js ''Request Failed ('' @ decimal n @ js '')'')
          else JUndefined)"

definition on_ajax_error :: "json_parse \<Rightarrow> ajax_detail option \<Rightarrow> notif_state \<Rightarrow> notif_state" where
  "on_ajax_error parse ev s =
     (let st = Option.bind (error_detail ev) status;
          m0 = body_message parse (error_raw ev);
          m = (if truthy m0 then m0 else status_message st);
          s1 = (if truthy m then addNotification (js ''error'') m None s else s)
      in if st = Some 401 then s1\<lparr>redirects := redirects s1 @ [(js ''/unlock'', 1500)]\<rparr> else s1)"

definition on_ajax_success :: "notif_state \<Rightarrow> notif_state" where
  "on_ajax_success s = clearErrorNotifications s"

definition on_notify :: "jstr \<Rightarrow> json \<Rightarrow> nat option \<Rightarrow> notif_state \<Rightarrow> notif_state" where
  "on_notify ty msg duration s =
     addNotification (if ty = [] then js ''info'' else ty) msg duration s"

text \<open>
  The events of the component. A \<open>Fire\<close> event runs the first pending timer of an identifier; the
  user may also dismiss a toast (the close button of the template calls \<open>removeNotification\<close>).
\<close>

definition fire_timer :: "nat \<Rightarrow> notif_state \<Rightarrow> notif_state" where
  "fire_timer i s =
     (if i \<in> fst ` set (timers s)
      then removeNotification i (s\<lparr>timers := filter (\<lambda>t. fst t \<noteq> i) (timers s)\<rparr>)
      else s)"

datatype notif_event =
    AjaxError json_parse "ajax_detail option"
  | AjaxSuccess
  | Notify jstr json "nat option"
  | Dismiss nat
  | Fire nat

fun notif_step :: "notif_state \<Rightarrow> notif_event \<Rightarrow> notif_state" where
  "notif_step s (AjaxError p ev) = on_ajax_error p ev s"
| "notif_step s AjaxSuccess = on_ajax_success s"
| "notif_step s (Notify ty m d) = on_notify ty m d s"
| "notif_step s (Dismiss i) = removeNotification i s"
| "notif_step s (Fire i) = fire_timer i s"

section \<open>Invariant\<close>

text \<open>
  No two toasts with the same type and message, identifiers unique and below the counter, and for
  every toast on screen a timer that will remove it.
\<close>

definition no_duplicates :: "notification list \<Rightarrow> bool" where
  "no_duplicates = sorted_wrt (\<lambda>a b. \<not> same_toast (ntype b) (message b) a)"

definition notif_inv :: "notif_state \<Rightarrow> bool" where
  "notif_inv s \<longleftrightarrow>
     no_duplicates (notifications s) \<and>
     distinct (map nid (notifications s)) \<and>
     distinct (map fst (timers s)) \<and>
     (\<forall>n \<in> set (notifications s). nid n \<in> fst ` set (timers s)) \<and>
     (\<forall>t \<in> set (timers s). fst t < nextId s)"

lemma no_duplicates_filter [intro]: "no_duplicates xs \<Longrightarrow> no_duplicates (filter P xs)"
  unfolding no_duplicates_def by (rule sorted_wrt_filter)

lemma no_duplicates_snoc:
  "no_duplicates (xs @ [x]) \<longleftrightarrow>
     no_duplicates xs \<and> (\<forall>n \<in> set xs. \<not> same_toast (ntype x) (message x) n)"
  by (simp add: no_duplicates_def sorted_wrt_append)

lemma distinct_map_filter': "distinct (map f xs) \<Longrightarrow> distinct (map f (filter P xs))"
  by (simp add: distinct_map_filter)

lemma notif_inv_init: "notif_inv notif_init"
  by (simp add: notif_inv_def notif_init_def no_duplicates_def)

lemma addNotification_inv [step_inv]:
  assumes "notif_inv s"
  shows "notif_inv (addNotification ty m d s)"
proof (cases "\<exists>n \<in> set (notifications s). same_toast ty m n")
  case True
  then show ?thesis using assms by (simp add: addNotification_def)
next
  case False
  have fresh: "nextId s \<notin> fst ` set (timers s)"
    using assms by (auto simp: notif_inv_def)
  then have "nextId s \<notin> nid ` set (notifications s)"
    using assms by (auto simp: notif_inv_def)
  with fresh False assms show ?thesis
    by (force simp: addNotification_def notif_inv_def no_duplicates_snoc Let_def)
qed

lemma filtered_inv:
  assumes "notif_inv s"
  shows "notif_inv (s\<lparr>notifications := filter P (notifications s)\<rparr>)"
  using assms by (auto simp: notif_inv_def distinct_map_filter')

lemma removeNotification_inv [step_inv]: "notif_inv s \<Longrightarrow> notif_inv (removeNotification i s)"
  unfolding removeNotification_def by (rule filtered_inv)

lemma clearErrorNotifications_inv [step_inv]: "notif_inv s \<Longrightarrow> notif_inv (clearErrorNotifications s)"
  unfolding clearErrorNotifications_def by (rule filtered_inv)

lemma redirects_inv [simp]: "notif_inv (s\<lparr>redirects := r\<rparr>) \<longleftrightarrow> notif_inv s"
  by (simp add: notif_inv_def)

lemma on_ajax_error_inv [step_inv]: "notif_inv s \<Longrightarrow> notif_inv (on_ajax_error p ev s)"
  by (simp add: on_ajax_error_def Let_def addNotification_inv)

lemma fire_timer_inv [step_inv]:
  assumes "notif_inv s"
  shows "notif_inv (fire_timer i s)"
  using assms
  by (fastforce simp: fire_timer_def removeNotification_def notif_inv_def distinct_map_filter')

lemma notif_step_inv: "notif_inv s \<Longrightarrow> notif_inv (notif_step s e)"
  by (cases e) (simp_all add: step_inv on_ajax_success_def on_notify_def)

interpretation toasts: machine notif_step notif_inv
  by unfold_locales (rule notif_step_inv)

section \<open>Dismissal\<close>

lemma fire_timer_simps:
  "i \<in> fst ` set (timers s) \<Longrightarrow>
     notifications (fire_timer i s) = filter (\<lambda>n. nid n \<noteq> i) (notifications s)"
  "i \<in> fst ` set (timers s) \<Longrightarrow>
     timers (fire_timer i s) = filter (\<lambda>t. fst t \<noteq> i) (timers s)"
  by (simp_all add: fire_timer_def removeNotification_def)

lemma fire_timer_Cons:
  assumes "timers s = (i, d) # ts" "distinct (map fst (timers s))"
  shows "timers (fire_timer i s) = ts"
proof -
  from assms have "\<forall>t \<in> set ts. fst t \<noteq> i"
    by (auto simp: rev_image_eqI)
  then have "filter (\<lambda>t. fst t \<noteq> i) ts = ts"
    by (simp add: filter_id_conv)
  with assms show ?thesis
    by (simp add: fire_timer_simps)
qed

lemma fire_all_empties:
  "notif_inv s \<Longrightarrow>
     notifications (foldl notif_step s (map (Fire \<circ> fst) (timers s))) = []"
proof (induction "timers s" arbitrary: s)
  case Nil
  then show ?case by (auto simp: notif_inv_def)
next
  case (Cons t ts)
  obtain i d where t: "t = (i, d)" by force
  let ?s = "fire_timer i s"
  have dist: "distinct (map fst (timers s))"
    using Cons.prems by (simp add: notif_inv_def)
  have rest: "timers ?s = ts"
    using fire_timer_Cons Cons.hyps(2) t dist by metis
  have "notifications (foldl notif_step ?s (map (Fire \<circ> fst) (timers ?s))) = []"
    using Cons.hyps(1) [of ?s] rest Cons.prems fire_timer_inv by blast
  with rest t Cons.hyps(2) [symmetric] show ?case
    by (simp add: comp_def)
qed

section \<open>Properties\<close>

text \<open>
  C16: whatever events arrive, in whatever order, the page never shows two toasts with the same type
  and (primitive) message, toast identifiers are unique, and every toast on screen has a pending
  dismissal timer.
\<close>

theorem toasts_never_duplicate:
  assumes "s = foldl notif_step notif_init es"
  shows "distinct (map nid (notifications s)) \<and>
     (\<forall>i j. i < j \<and> j < length (notifications s) \<longrightarrow>
        \<not> (strict_eq (message (notifications s ! i)) (message (notifications s ! j)) \<and>
           ntype (notifications s ! i) = ntype (notifications s ! j))) \<and>
     (\<forall>n \<in> set (notifications s). \<exists>d. (nid n, d) \<in> set (timers s))"
proof -
  have "notif_inv s"
    unfolding assms by (rule toasts.inv_run [OF notif_inv_init])
  then show ?thesis
    by (fastforce simp: notif_inv_def no_duplicates_def sorted_wrt_iff_nth_less same_toast_def)
qed

theorem toasts_never_duplicate_witness:
  "\<exists>s. s = foldl notif_step notif_init
          [Notify [] (JStr (js ''saved'')) None, Notify (js ''info'') (JStr (js ''saved'')) (Some 10),
           AjaxError (\<lambda>_. None) None] \<and>
     map message (notifications s) =
       [JStr (js ''saved''), JStr (warn @ js ''Network Error - Unable to complete request'')] \<and>
     timers s = [(1, 4000), (2, 8000)] \<and> distinct (map nid (notifications s))"
  using toasts_never_duplicate [OF refl, of "[Notify [] (JStr (js ''saved'')) None,
    Notify (js ''info'') (JStr (js ''saved'')) (Some 10), AjaxError (\<lambda>_. None) None]"]
  by (simp add: notif_init_def on_notify_def addNotification_def same_toast_def on_ajax_error_def
      error_detail_def error_raw_def body_message_def status_message_def dismiss_time_def Let_def
      warn_def)

text \<open>
  C17: dismissal is certain. From every state the component can reach, running the timers that are
  pending leaves no toast on screen.
\<close>

theorem toasts_all_dismissed:
  "notifications (foldl notif_step (foldl notif_step notif_init es)
     (map (Fire \<circ> fst) (timers (foldl notif_step notif_init es)))) = []"
  by (rule fire_all_empties [OF toasts.inv_run [OF notif_inv_init]])

lemma truthy_status_message:
  "truthy (status_message st) \<longleftrightarrow> (case st of None \<Rightarrow> True | Some n \<Rightarrow> n = 0 \<or> 400 \<le> n)"
  by (auto simp: status_message_def warn_def split: option.splits)

lemma body_message_truthy_iff:
  "truthy (body_message parse r) \<longleftrightarrow> body_message parse r \<noteq> JUndefined"
  by (auto simp: body_message_def split: option.splits)

text \<open>
  Error reporting. A failed request shows the message of the server's JSON body when there is
  one; otherwise the fallback for its status; a status between 1 and 399 with no message shows
  nothing. The toast is of type \<open>error\<close> and is not repeated when it is already on screen. A
  status 401 schedules the redirect to the login page after 1500 ms in every case, and no other
  status does.
\<close>

theorem ajax_error_reports:
  fixes parse :: json_parse and ev :: "ajax_detail option" and s :: notif_state
  assumes "st = Option.bind (error_detail ev) status"
    and "m = (if body_message parse (error_raw ev) \<noteq> JUndefined
              then body_message parse (error_raw ev) else status_message st)"
    and "s' = on_ajax_error parse ev s"
  shows "(if truthy m \<and> \<not> (\<exists>n \<in> set (notifications s). same_toast (js ''error'') m n)
          then notifications s' =
                 notifications s @ [\<lparr>nid = nextId s, ntype = js ''error'', message = m\<rparr>] \<and>
               timers s' = timers s @ [(nextId s, 8000)]
          else notifications s' = notifications s \<and> timers s' = timers s) \<and>
     (truthy m \<longleftrightarrow> body_message parse (error_raw ev) \<noteq> JUndefined \<or>
        (case st of None \<Rightarrow> True | Some n \<Rightarrow> n = 0 \<or> 400 \<le> n)) \<and>
     redirects s' = redirects s @ (if st = Some 401 then [(js ''/unlock'', 1500)] else [])"
  using assms
  by (auto simp: on_ajax_error_def addNotification_def Let_def body_message_truthy_iff
      truthy_status_message dismiss_time_def)

theorem ajax_error_reports_witness:
  "\<exists>s'. s' = on_ajax_error (\<lambda>t. Some (JObj [(js ''message'', JStr (js ''denied''))]))
            (Some \<lparr>info = \<lparr>status = Some 401, raw = Some (js ''body'')\<rparr>, xhr = None\<rparr>) notif_init \<and>
     map message (notifications s') = [JStr (js ''denied'')] \<and>
     redirects s' = [(js ''/unlock'', 1500)]"
  using ajax_error_reports [OF refl refl refl,
      where ev = "Some \<lparr>info = \<lparr>status = Some 401, raw = Some (js ''body'')\<rparr>, xhr = None\<rparr>"
        and parse = "\<lambda>t. Some (JObj [(js ''message'', JStr (js ''denied''))])"
        and s = notif_init]
  by (simp add: error_detail_def error_raw_def body_message_def nonempty_def notif_init_def)

end
