(* ===== verification/Shoutbox.thy ===== *)
theory Shoutbox
  imports Events
begin

text \<open>
  The \<open>shoutboxComposer\<close> component of assets/app.js: Enter sends the message when the key is
  released, Shift+Enter and the Enter that confirms an input-method composition do not, and an Enter
  that chose an autocomplete entry does not. The state is the one flag of the component; a handler
  also tells whether it prevented the default action or submitted the form.
\<close>

section \<open>State and operations\<close>

record composer =
  sendEligible :: bool

definition composer_init :: composer where
  "composer_init = \<lparr>sendEligible = False\<rparr>"

definition composition_key :: "ui_event \<Rightarrow> bool" where
  "composition_key e \<longleftrightarrow> isComposing e \<or> keyCode e = 229"

definition handleSendKeydown :: "ui_event \<Rightarrow> bool \<Rightarrow> composer \<Rightarrow> composer \<times> effect list" where
  "handleSendKeydown e autocompleteOpen s =
     (if key e \<noteq> js ''Enter'' then (s, [])
      else if shiftKey e \<or> composition_key e
      then (if repeat e then s else s\<lparr>sendEligible := False\<rparr>, [])
      else (if repeat e then s else s\<lparr>sendEligible := \<not> autocompleteOpen\<rparr>, [PreventDefault]))"

definition handleSendKeyup :: "ui_event \<Rightarrow> node \<Rightarrow> composer \<Rightarrow> composer \<times> effect list" where
  "handleSendKeyup e form s =
     (s\<lparr>sendEligible := False\<rparr>,
      if sendEligible s \<and> \<not> composition_key e then [RequestSubmit form] else [])"

definition resetSendEligibility :: "composer \<Rightarrow> composer" where
  "resetSendEligibility s = s\<lparr>sendEligible := False\<rparr>"

datatype composer_event = Keydown ui_event bool | Keyup ui_event node | Blur

fun composer_step :: "composer \<Rightarrow> composer_event \<Rightarrow> composer" where
  "composer_step s (Keydown e ac) = fst (handleSendKeydown e ac s)"
| "composer_step s (Keyup e form) = fst (handleSendKeyup e form s)"
| "composer_step s Blur = resetSendEligibility s"

fun composer_effects :: "composer \<Rightarrow> composer_event \<Rightarrow> effect list" where
  "composer_effects s (Keydown e ac) = snd (handleSendKeydown e ac s)"
| "composer_effects s (Keyup e form) = snd (handleSendKeyup e form s)"
| "composer_effects s Blur = []"

fun is_submit :: "effect \<Rightarrow> bool" where
  "is_submit (RequestSubmit _) = True"
| "is_submit _ = False"

fun submissions :: "composer \<Rightarrow> composer_event list \<Rightarrow> nat" where
  "submissions s [] = 0"
| "submissions s (e # es) =
     length (filter is_submit (composer_effects s e)) + submissions (composer_step s e) es"

section \<open>What a send gesture is\<close>

text \<open>
  An event arms the composer when it is the first press of a plain Enter with the autocomplete
  closed; it settles an earlier press when it is any other first press of Enter, a release or a
  loss of focus.
\<close>

fun arms :: "composer_event \<Rightarrow> bool" where
  "arms (Keydown e ac) \<longleftrightarrow>
     key e = js ''Enter'' \<and> \<not> shiftKey e \<and> \<not> composition_key e \<and> \<not> repeat e \<and> \<not> ac"
| "arms _ \<longleftrightarrow> False"

fun settles :: "composer_event \<Rightarrow> bool" where
  "settles (Keydown e ac) \<longleftrightarrow> key e = js ''Enter'' \<and> \<not> repeat e"
| "settles _ \<longleftrightarrow> True"

definition armed_by :: "composer_event list \<Rightarrow> bool" where
  "armed_by es \<longleftrightarrow> (\<exists>es1 e es2. es = es1 @ e # es2 \<and> arms e \<and> (\<forall>x \<in> set es2. \<not> settles x))"

lemma step_eligible:
  "sendEligible (composer_step s e) \<longleftrightarrow> arms e \<or> (\<not> settles e \<and> sendEligible s)"
  by (cases e) (auto simp: handleSendKeydown_def handleSendKeyup_def resetSendEligibility_def)

lemma arms_settles: "arms e \<Longrightarrow> settles e"
  by (cases e) auto

lemma armed_by_snoc: "armed_by (es @ [e]) \<longleftrightarrow> arms e \<or> (\<not> settles e \<and> armed_by es)"
proof
  assume "armed_by (es @ [e])"
  then obtain es1 x es2 where
    eq: "es @ [e] = es1 @ x # es2" and ok: "arms x" "\<forall>y \<in> set es2. \<not> settles y"
    by (auto simp: armed_by_def)
  show "arms e \<or> (\<not> settles e \<and> armed_by es)"
  proof (cases es2 rule: rev_cases)
    case Nil
    with eq ok show ?thesis by simp
  next
    case (snoc es3 y)
    with eq ok show ?thesis by (auto simp: armed_by_def)
  qed
next
  assume "arms e \<or> (\<not> settles e \<and> armed_by es)"
  then show "armed_by (es @ [e])"
  proof
    assume "arms e"
    then show ?thesis by (force simp: armed_by_def)
  next
    assume "\<not> settles e \<and> armed_by es"
    then obtain es1 x es2 where "es @ [e] = es1 @ x # (es2 @ [e])" "arms x"
      "\<forall>y \<in> set (es2 @ [e]). \<not> settles y"
      by (auto simp: armed_by_def)
    then show ?thesis unfolding armed_by_def by blast
  qed
qed

lemma armed_by_Nil [simp]: "\<not> armed_by []"
  by (simp add: armed_by_def)

lemma run_eligible: "sendEligible (foldl composer_step composer_init es) \<longleftrightarrow> armed_by es"
  by (induction es rule: rev_induct) (simp_all add: composer_init_def step_eligible armed_by_snoc)

lemma submit_count_step:
  "length (filter is_submit (composer_effects s e)) + of_bool (sendEligible (composer_step s e))
     \<le> of_bool (sendEligible s) + (of_bool (arms e) :: nat)"
  by (cases e) (auto simp: handleSendKeydown_def handleSendKeyup_def resetSendEligibility_def)

lemma submissions_bound:
  "submissions s es \<le> of_bool (sendEligible s) + length (filter arms es)"
proof (induction es arbitrary: s)
  case Nil
  then show ?case by simp
next
  case (Cons e es)
  have "submissions (composer_step s e) es
      \<le> of_bool (sendEligible (composer_step s e)) + length (filter arms es)"
    by (rule Cons.IH)
  moreover have "length (filter arms (e # es)) = of_bool (arms e) + length (filter arms es)"
    by simp
  ultimately show ?case
    using submit_count_step [of s e] unfolding submissions.simps by linarith
qed

section \<open>Properties\<close>

text \<open>
  Releasing a key submits the form exactly when the last Enter press that was not settled since
  was a plain, first press made with the autocomplete closed and the release is not part of a
  composition: this holds after every sequence of key presses, repeats, releases and focus losses.
\<close>

theorem keyup_submits_iff_armed:
  "snd (handleSendKeyup e form (foldl composer_step composer_init es)) =
     (if armed_by es \<and> \<not> composition_key e then [RequestSubmit form] else [])"
  by (simp add: handleSendKeyup_def run_eligible)

text \<open>
  One press, one send. Over any history the form is submitted at most once for each arming
  press: key repeat, Shift+Enter, compositions and autocomplete choices never add a submission.
\<close>

theorem submissions_at_most_presses:
  "submissions composer_init es \<le> length (filter arms es)"
  using submissions_bound [of composer_init es] by (simp add: composer_init_def)

text \<open>
  The default action of a key press (inserting a newline) is suppressed for every plain Enter,
  repeats included, and for nothing else; no press submits.
\<close>

lemma keydown_prevents_plain_enter:
  "snd (handleSendKeydown e ac s) =
     (if key e = js ''Enter'' \<and> \<not> shiftKey e \<and> \<not> isComposing e \<and> keyCode e \<noteq> 229
      then [PreventDefault] else [])"
  by (auto simp: handleSendKeydown_def composition_key_def)

end
