(* ===== verification/Fuzzy.thy ===== *)
theory Fuzzy
  imports Prelude "HOL-Library.Sublist"
begin

text \<open>
  The function \<open>fuzzyMatch\<close> of assets/app.js, which ranks emoji for the autocomplete. Its score is
  a double: a small integer from which a tenth of the candidate's length is subtracted. Every double
  that occurs is a multiple of \<open>2 ^ -55\<close>, the unit of the literal \<open>0.1\<close>, so a score is
  modelled exactly, as an integer number of these units, and \<open>rnd53\<close> rounds to a 53-bit mantissa,
  to nearest and ties to even, as IEEE binary64 arithmetic does. \<open>String.prototype.toLowerCase\<close> is
  the parameter \<open>lower\<close>.
\<close>

section \<open>Binary64 arithmetic on multiples of one unit\<close>

definition one :: int where
  "one = 2 ^ 55"

definition tenth :: int where
  "tenth = 3602879701896397"

text \<open>The number of bits that do not fit the mantissa.\<close>

fun excess_bits :: "nat \<Rightarrow> nat" where
  "excess_bits m = (if m < 2 ^ 53 then 0 else Suc (excess_bits (m div 2)))"

declare excess_bits.simps [simp del]

definition rnd53_nat :: "nat \<Rightarrow> nat" where
  "rnd53_nat m =
     (let s = excess_bits m; q = m div 2 ^ s; r = 2 * (m mod 2 ^ s)
      in if r < 2 ^ s \<or> r = 2 ^ s \<and> even q then q * 2 ^ s else (q + 1) * 2 ^ s)"

definition rnd53 :: "int \<Rightarrow> int" where
  "rnd53 m = (if m < 0 then - int (rnd53_nat (nat (- m))) else int (rnd53_nat (nat m)))"

lemma excess_bits_lower: "0 < excess_bits m \<Longrightarrow> 2 ^ (52 + excess_bits m) \<le> m"
proof (induction m rule: excess_bits.induct)
  case (1 m)
  then have big: "\<not> m < 2 ^ 53"
    by (auto simp: excess_bits.simps [of m])
  then have s: "excess_bits m = Suc (excess_bits (m div 2))"
    by (simp add: excess_bits.simps [of m])
  show ?case
  proof (cases "0 < excess_bits (m div 2)")
    case True
    then have "2 ^ (52 + excess_bits (m div 2)) \<le> m div 2"
      using 1 big by simp
    then have "2 * 2 ^ (52 + excess_bits (m div 2)) \<le> m" by simp
    then show ?thesis by (simp add: s power_add)
  next
    case False
    with big s show ?thesis by simp
  qed
qed

lemma rnd53_nat_error:
  "2 ^ 53 * rnd53_nat m \<le> (2 ^ 53 + 1) * m \<and> (2 ^ 53 - 1) * m \<le> 2 ^ 53 * rnd53_nat m"
proof -
  define s where "s = excess_bits m"
  define q where "q = m div 2 ^ s"
  define r where "r = m mod 2 ^ s"
  have m: "m = q * 2 ^ s + r" and r: "r < 2 ^ s"
    unfolding q_def r_def by (simp_all only: div_mult_mod_eq) simp
  have big: "2 ^ 53 * (2::nat) ^ s \<le> 2 * m" if "s > 0"
    using excess_bits_lower [of m] that by (simp add: s_def power_add)
  have val: "rnd53_nat m = (if 2 * r < 2 ^ s \<or> 2 * r = 2 ^ s \<and> even q
      then q * 2 ^ s else (q + 1) * 2 ^ s)"
    by (simp add: rnd53_nat_def Let_def s_def q_def r_def)
  show ?thesis
  proof (cases "s > 0")
    case False
    then have "r = 0" using r by simp
    with False m val have "rnd53_nat m = m" by simp
    then show ?thesis by simp
  next
    case True
    show ?thesis
    proof (cases "2 * r < 2 ^ s \<or> 2 * r = 2 ^ s \<and> even q")
      case True
      then have "rnd53_nat m = q * 2 ^ s" and "2 * r \<le> 2 ^ s" using val by auto
      then have "rnd53_nat m + r = m" and "2 * r \<le> 2 ^ s" using m by simp_all
      with big [OF \<open>s > 0\<close>] show ?thesis by simp
    next
      case False
      then have "rnd53_nat m = q * 2 ^ s + 2 ^ s" and "2 ^ s \<le> 2 * r" using val by auto
      then have "rnd53_nat m + r = m + 2 ^ s" and "2 ^ s \<le> 2 * r" using m by simp_all
      with big [OF \<open>s > 0\<close>] r show ?thesis by simp
    qed
  qed
qed

lemma rnd53_pos_iff: "0 < rnd53 m \<longleftrightarrow> 0 < m"
proof (cases "0 < m")
  case True
  then have "(2 ^ 53 - 1) * nat m > 0" by simp
  then have "0 < 2 ^ 53 * rnd53_nat (nat m)"
    using rnd53_nat_error [of "nat m"] by linarith
  with True show ?thesis by (simp add: rnd53_def)
next
  case False
  moreover have "rnd53_nat 0 = 0"
    by (simp add: rnd53_nat_def excess_bits.simps)
  ultimately show ?thesis by (cases "m = 0") (auto simp: rnd53_def)
qed

section \<open>The matcher\<close>

text \<open>
  The first loop walks the text and drops the first character of the query each time it meets it;
  the query's rest after the loop is empty exactly when \<open>qi\<close> reached its end.
\<close>

fun scan :: "jstr \<Rightarrow> jstr \<Rightarrow> jstr" where
  "scan [] q = q"
| "scan (c # t) [] = []"
| "scan (c # t) (d # q) = (if c = d then scan t q else scan t (d # q))"

definition is_separator :: "unit16 \<Rightarrow> bool" where
  "is_separator c \<longleftrightarrow> c = chr16 CHR ''_'' \<or> c = chr16 CHR ''-'' \<or> c = chr16 CHR '' ''"

text \<open>
  The second loop, with the index \<open>ti\<close>, the character before it (none at the start), the index of
  the previous match and the score so far.
\<close>

definition match_points :: "nat \<Rightarrow> unit16 option \<Rightarrow> int \<Rightarrow> nat" where
  "match_points ti before prevMatchIdx =
     1 + (if int ti = prevMatchIdx + 1 then 2 else 0)
       + (if ti = 0 \<or> (case before of None \<Rightarrow> False | Some b \<Rightarrow> is_separator b) then 3 else 0)"

fun score_loop ::
  "nat \<Rightarrow> unit16 option \<Rightarrow> int \<Rightarrow> nat \<Rightarrow> jstr \<Rightarrow> jstr \<Rightarrow> nat" where
  "score_loop ti before prevMatchIdx score [] q = score"
| "score_loop ti before prevMatchIdx score (c # t) [] = score"
| "score_loop ti before prevMatchIdx score (c # t) (d # q) =
     (if c = d
      then score_loop (ti + 1) (Some c) (int ti)
             (score + match_points ti before prevMatchIdx) t q
      else score_loop (ti + 1) (Some c) prevMatchIdx score t (d # q))"

definition fuzzyMatch :: "(jstr \<Rightarrow> jstr) \<Rightarrow> jstr \<Rightarrow> jstr \<Rightarrow> int" where
  "fuzzyMatch lower query text =
     (let q = lower query; t = lower text
      in if scan t q \<noteq> [] then 0
         else rnd53 (int (score_loop 0 None (-2) 0 t q) * one - rnd53 (int (length t) * tenth)))"

section \<open>Correctness of the two loops\<close>

lemma scan_Nil [simp]: "scan t [] = []"
  by (cases t) auto

lemma scan_iff_subseq: "scan t q = [] \<longleftrightarrow> subseq q t"
proof (induction t q rule: scan.induct)
  case (3 c t d q)
  show ?case
  proof (cases "c = d")
    case True
    with 3 show ?thesis by simp
  next
    case False
    with 3 show ?thesis by simp
  qed
qed auto

lemma match_points_bounds: "1 \<le> match_points ti before p \<and> match_points ti before p \<le> 6"
  by (simp add: match_points_def)

lemma score_loop_bounds:
  assumes "scan t q = []"
  shows "score + length q \<le> score_loop ti before p score t q \<and>
     score_loop ti before p score t q \<le> score + 6 * length q"
  using assms
proof (induction ti before p score t q rule: score_loop.induct)
  case (3 ti before p score c t d q)
  show ?case
  proof (cases "c = d")
    case True
    with 3 match_points_bounds [of ti before p] show ?thesis by simp
  next
    case False
    with 3 show ?thesis by simp
  qed
qed auto

lemma score_positive:
  assumes k: "k < 2 ^ 48" and n: "n < 10 * k"
  shows "0 < rnd53 (int k * one - rnd53 (int n * tenth))"
proof -
  have "rnd53 (int n * tenth) = int (rnd53_nat (n * 3602879701896397))"
    by (simp add: rnd53_def tenth_def nat_mult_distrib)
  moreover have "2 ^ 53 * rnd53_nat (n * 3602879701896397) \<le> (2 ^ 53 + 1) * (n * 3602879701896397)"
    using rnd53_nat_error by blast
  moreover have "(2 ^ 53 + 1) * (n * 3602879701896397) < 2 ^ 53 * (k * 2 ^ 55)"
    using k n by simp
  ultimately show ?thesis
    unfolding rnd53_pos_iff one_def by simp
qed

section \<open>The reference\<close>

text \<open>
  What the comment above the function promises. The match of a query in a text is the greedy one: each
  character of the query is found at its first occurrence after the character before it. A match is
  worth a point for every character, two more for every character that directly follows the one before
  it, and three more for every character at the start of a word: at the start of the text or after an
  underscore, a hyphen or a space.
\<close>

primrec greedy_match :: "jstr \<Rightarrow> nat \<Rightarrow> jstr \<Rightarrow> nat list \<Rightarrow> bool" where
  "greedy_match t lo [] ps \<longleftrightarrow> ps = []"
| "greedy_match t lo (d # q) ps \<longleftrightarrow>
     (case ps of
        [] \<Rightarrow> False
      | p # ps' \<Rightarrow> lo \<le> p \<and> p < length t \<and> t ! p = d \<and> (\<forall>j \<in> {lo..<p}. t ! j \<noteq> d) \<and>
          greedy_match t (p + 1) q ps')"





lemma greedy_match_length: "greedy_match t lo q ps \<Longrightarrow> length ps = length q"
  by (induction q arbitrary: lo ps) (auto split: list.splits)




text \<open>Consecutive pairs, the index of the previous match being an integer as in the code.\<close>

definition consecutive_from :: "int \<Rightarrow> nat list \<Rightarrow> nat" where
  "consecutive_from prev ps = length (filter (\<lambda>(p, p'). p' = p + 1) (zip (prev # map int ps) (map int ps)))"

lemma consecutive_from_simps [simp]:
  "consecutive_from prev [] = 0"
  "consecutive_from prev (p # ps) = (if int p = prev + 1 then 1 else 0) + consecutive_from (int p) ps"
  by (simp_all add: consecutive_from_def)





section \<open>Properties\<close>


text \<open>
  A match is accepted (scored above zero) whenever the text is shorter than ten times the query.
  The bound on the query's length keeps every number within the mantissa.
\<close>

theorem fuzzyMatch_accepts:
  assumes "subseq (lower query) (lower text)"
    and "length (lower text) < 10 * length (lower query)"
    and "length (lower query) < 2 ^ 45"
  shows "0 < fuzzyMatch lower query text"
proof -
  let ?k = "score_loop 0 None (-2) 0 (lower text) (lower query)"
  have sc: "scan (lower text) (lower query) = []"
    using assms(1) by (simp add: scan_iff_subseq)
  have "length (lower query) \<le> ?k" "?k \<le> 6 * length (lower query)"
    using score_loop_bounds [OF sc, of 0 0 None "-2"] by auto
  with assms(2,3) have "?k < 2 ^ 48" "length (lower text) < 10 * ?k"
    by simp_all
  from score_positive [OF this] sc show ?thesis
    by (simp add: fuzzyMatch_def Let_def)
qed

theorem fuzzyMatch_accepts_witness:
  "subseq (js ''sml'') (js ''smile'') \<and> 0 < fuzzyMatch (\<lambda>s. s) (js ''sml'') (js ''smile'')"
proof -
  have sub: "subseq (js ''sml'') (js ''smile'')"
    by (simp add: js_def)
  show ?thesis
    using sub fuzzyMatch_accepts [of "\<lambda>s. s" "js ''sml''" "js ''smile''"] by simp
qed

text \<open>
  A match can still be scored below zero, contrary to the comment above the function: one
  matched character in a long text earns a point or four and loses a tenth per character.
\<close>

theorem fuzzyMatch_rejects_a_match:
  "subseq (js ''p'') (js ''abcdefghijklmnop'') \<and>
   fuzzyMatch (\<lambda>s. s) (js ''p'') (js ''abcdefghijklmnop'') < 0"
  by (simp add: fuzzyMatch_def js_def one_def tenth_def rnd53_def rnd53_nat_def excess_bits.simps
      is_separator_def match_points_def)

end
