(* ===== verification/Autocomplete.thy ===== *)
theory Autocomplete
  imports Fuzzy TextField Events
begin

text \<open>
  The \<open>textAutocomplete\<close> component of assets/app.js: mentions (\<open>@name\<close>) and emoji
  (\<open>:code\<close>) in the text fields. State: the fields of the component, and beside them what it has
  given to the browser and will come back later: the timers that are running (each with its number)
  and the profile requests in flight. Operations: \<open>handleInput\<close>, \<open>searchProfiles\<close>,
  \<open>searchEmojis\<close>, \<open>selectResult\<close>, \<open>handleKeydown\<close> and the callbacks of timers and requests.
  Parameters: \<open>lower\<close> is \<open>String.prototype.toLowerCase\<close>; the list of emoji comes from the
  emoji database; the answers of the profile search come from the server.
\<close>

section \<open>State\<close>

datatype ac_type = Mention | Emoji

record emoji =
  shortcodes :: "jstr list option"
  annotation :: "jstr option"
  unicode :: jstr

text \<open>A result is a profile of the search or an emoji; only an emoji result has the field \<open>emoji\<close>.\<close>

datatype result =
    Profile (rostra_id_reference: jstr)
  | EmojiResult (emoji_of: jstr) (shortcode_of: "jstr option")

datatype ac_timer = ProfileSearch | EmojiSearch

record ac_state =
  query :: jstr
  results :: "result list"
  selectedIndex :: nat
  showDropdown :: bool
  debounceTimer :: "nat option"
  autocompleteType :: "ac_type option"
  allEmojis :: "emoji list option"
  ac_timers :: "(nat \<times> ac_timer) list"
  nextTimer :: nat
  fetches :: "jstr list"

definition ac_init :: ac_state where
  "ac_init = \<lparr>query = [], results = [], selectedIndex = 0, showDropdown = False,
     debounceTimer = None, autocompleteType = None, allEmojis = None, ac_timers = [], nextTimer = 1,
     fetches = []\<rparr>"

section \<open>The triggers\<close>

text \<open>
  \<open>/@(\w*)$/\<close> and \<open>/:([a-zA-Z0-9_]{2,})$/\<close>: the word characters at the end of the text,
  with the trigger character right before them.
\<close>

definition trigger_match :: "unit16 \<Rightarrow> nat \<Rightarrow> jstr \<Rightarrow> jstr option" where
  "trigger_match c least s =
     (let w = trailing is_word s; n = length s - length w
      in if 0 < n \<and> s ! (n - 1) = c \<and> least \<le> length w then Some w else None)"

abbreviation at_sign :: unit16 where
  "at_sign \<equiv> chr16 CHR ''@''"

abbreviation colon :: unit16 where
  "colon \<equiv> chr16 CHR '':''"

definition atMatch :: "jstr \<Rightarrow> jstr option" where
  "atMatch = trigger_match at_sign 0"

definition emojiMatch :: "jstr \<Rightarrow> jstr option" where
  "emojiMatch = trigger_match colon 2"

section \<open>Searching\<close>

definition clearTimeout :: "nat option \<Rightarrow> ac_state \<Rightarrow> ac_state" where
  "clearTimeout t s = s\<lparr>ac_timers := filter (\<lambda>p. Some (fst p) \<noteq> t) (ac_timers s)\<rparr>"

definition setTimeout :: "ac_timer \<Rightarrow> ac_state \<Rightarrow> ac_state" where
  "setTimeout k s =
     s\<lparr>debounceTimer := Some (nextTimer s), ac_timers := ac_timers s @ [(nextTimer s, k)],
       nextTimer := nextTimer s + 1\<rparr>"

definition searchProfiles :: "ac_state \<Rightarrow> ac_state" where
  "searchProfiles s = setTimeout ProfileSearch (clearTimeout (debounceTimer s) s)"

definition searchEmojis :: "ac_state \<Rightarrow> ac_state" where
  "searchEmojis s =
     (if allEmojis s = None then s\<lparr>results := []\<rparr>
      else setTimeout EmojiSearch (clearTimeout (debounceTimer s) s))"

text \<open>The callback of the profile timer sends the request for the query of that moment.\<close>

definition profile_timer :: "ac_state \<Rightarrow> ac_state" where
  "profile_timer s = s\<lparr>fetches := fetches s @ [query s]\<rparr>"

text \<open>The answer of a request: the decoded list, or none when the request failed.\<close>

definition profile_response :: "result list option \<Rightarrow> ac_state \<Rightarrow> ac_state" where
  "profile_response r s =
     (case r of Some rs \<Rightarrow> s\<lparr>results := rs, selectedIndex := 0\<rparr> | None \<Rightarrow> s\<lparr>results := []\<rparr>)"

definition emoji_score :: "(jstr \<Rightarrow> jstr) \<Rightarrow> jstr \<Rightarrow> emoji \<Rightarrow> int" where
  "emoji_score lower q e =
     (let codes = (case shortcodes e of None \<Rightarrow> [] | Some cs \<Rightarrow> cs);
          ann = lower (case annotation e of None \<Rightarrow> [] | Some a \<Rightarrow> a);
          score = fold (\<lambda>sc score. max score (fuzzyMatch lower q sc)) codes 0
      in max score (fuzzyMatch lower q ann))"

definition emoji_result :: "emoji \<Rightarrow> result" where
  "emoji_result e =
     EmojiResult (unicode e)
       (case shortcodes e of
          Some (c # _) \<Rightarrow> if c = [] then annotation e else Some c
        | _ \<Rightarrow> annotation e)"

definition ranked_emojis :: "(jstr \<Rightarrow> jstr) \<Rightarrow> jstr \<Rightarrow> emoji list \<Rightarrow> emoji list" where
  "ranked_emojis lower q es =
     take 8 (map snd (sort_key (\<lambda>p. - fst p)
       (filter (\<lambda>p. fst p > 0) (map (\<lambda>e. (emoji_score lower q e, e)) es))))"

text \<open>The callback of the emoji timer. It reads the cached list, which is never unset.\<close>

definition emoji_timer :: "(jstr \<Rightarrow> jstr) \<Rightarrow> ac_state \<Rightarrow> ac_state" where
  "emoji_timer lower s =
     (case allEmojis s of
        None \<Rightarrow> s
      | Some es \<Rightarrow>
          s\<lparr>results := map emoji_result (ranked_emojis lower (lower (query s)) es),
            selectedIndex := 0\<rparr>)"

section \<open>Input\<close>

definition handleInput :: "textarea \<Rightarrow> ac_state \<Rightarrow> ac_state" where
  "handleInput ta s =
     (let before = take (selectionStart ta) (tvalue ta)
      in case atMatch before of
           Some q \<Rightarrow>
             searchProfiles (s\<lparr>autocompleteType := Some Mention, query := q, showDropdown := True\<rparr>)
         | None \<Rightarrow>
             (case emojiMatch before of
                Some q \<Rightarrow>
                  searchEmojis (s\<lparr>autocompleteType := Some Emoji, query := q, showDropdown := True\<rparr>)
              | None \<Rightarrow> s\<lparr>showDropdown := False, autocompleteType := None\<rparr>))"

section \<open>Choosing a result\<close>

text \<open>
  What is inserted: \<open>result.rostra_id_reference\<close> and \<open>result.emoji\<close> are \<open>undefined\<close> on a
  result of the other kind. Concatenating \<open>undefined\<close> writes its name into the text, and reading
  its length then raises.
\<close>

definition undefined_text :: jstr where
  "undefined_text = js ''undefined''"

definition mention_text :: "result \<Rightarrow> jstr" where
  "mention_text r =
     js ''<rostra:'' @ (case r of Profile i \<Rightarrow> i | EmojiResult _ _ \<Rightarrow> undefined_text) @ js ''>''"

definition emoji_text :: "result \<Rightarrow> jstr option" where
  "emoji_text r = (case r of Profile _ \<Rightarrow> None | EmojiResult e _ \<Rightarrow> Some e)"

definition insertion :: "ac_type option \<Rightarrow> result \<Rightarrow> jstr option" where
  "insertion ty r =
     (case ty of None \<Rightarrow> None | Some Mention \<Rightarrow> Some (mention_text r) | Some Emoji \<Rightarrow> emoji_text r)"

definition triggerPos :: "ac_type option \<Rightarrow> jstr \<Rightarrow> int option" where
  "triggerPos ty before =
     (case ty of None \<Rightarrow> None
      | Some Mention \<Rightarrow> Some (lastIndexOf before at_sign)
      | Some Emoji \<Rightarrow> Some (lastIndexOf before colon))"

text \<open>
  The edit of the text: \<open>substring(0, undefined)\<close> is the whole text before the caret. The caret
  position is taken as an unsigned number by the browser, which clamps it; it is not negative, since
  the inserted text is not empty.
\<close>

definition edited :: "ac_type option \<Rightarrow> result \<Rightarrow> textarea \<Rightarrow> textarea" where
  "edited ty r ta =
     (let before = take (selectionStart ta) (tvalue ta); after = drop (selectionStart ta) (tvalue ta);
          kept = (case triggerPos ty before of None \<Rightarrow> before | Some p \<Rightarrow> substring_to before p);
          txt = (case insertion ty r of None \<Rightarrow> undefined_text | Some t \<Rightarrow> t)
      in set_value (kept @ txt @ after) ta)"

definition new_caret :: "ac_type option \<Rightarrow> result \<Rightarrow> jstr \<Rightarrow> nat option" where
  "new_caret ty r before =
     (case (triggerPos ty before, insertion ty r) of
        (Some p, Some t) \<Rightarrow> Some (nat (p + int (length t)))
      | _ \<Rightarrow> None)"

text \<open>
  \<open>selectResult\<close>: with no text area in the component nothing happens. After the edit the caret is
  set and an \<open>input\<close> event runs \<open>handleInput\<close> on the new text, then the dropdown is closed.
\<close>

definition selectResult ::
  "result \<Rightarrow> textarea option \<times> ac_state \<Rightarrow> (textarea option \<times> ac_state) outcome" where
  "selectResult r c =
     (case c of
        (None, s) \<Rightarrow> Inr (None, s)
      | (Some ta, s) \<Rightarrow>
          (let before = take (selectionStart ta) (tvalue ta);
               ta1 = edited (autocompleteType s) r ta
           in case new_caret (autocompleteType s) r before of
                None \<Rightarrow> Inl (TypeError, (Some ta1, s))
              | Some p \<Rightarrow>
                  (let ta2 = setSelectionRange p p ta1; s1 = handleInput ta2 s
                   in Inr (Some ta2, s1\<lparr>showDropdown := False, autocompleteType := None\<rparr>))))"

definition is_next_key :: "ui_event \<Rightarrow> bool" where
  "is_next_key e \<longleftrightarrow> key e = js ''ArrowDown'' \<or> key e = js ''Tab'' \<and> \<not> shiftKey e"

definition is_prev_key :: "ui_event \<Rightarrow> bool" where
  "is_prev_key e \<longleftrightarrow> key e = js ''ArrowUp'' \<or> key e = js ''Tab'' \<and> shiftKey e"

definition handleKeydown ::
  "ui_event \<Rightarrow> textarea option \<times> ac_state \<Rightarrow> effect list \<times> (textarea option \<times> ac_state) outcome" where
  "handleKeydown e c =
     (let ta = fst c; s = snd c in
      if \<not> showDropdown s then ([], Inr c)
      else if is_next_key e
      then ([PreventDefault], Inr (ta,
              if 0 < length (results s)
              then s\<lparr>selectedIndex := min (selectedIndex s + 1) (length (results s) - 1)\<rparr> else s))
      else if is_prev_key e
      then ([PreventDefault], Inr (ta,
              if 0 < length (results s) then s\<lparr>selectedIndex := selectedIndex s - 1\<rparr> else s))
      else if key e = js ''Enter'' \<and> 0 < length (results s)
      then ([PreventDefault],
            if selectedIndex s < length (results s)
            then selectResult (results s ! selectedIndex s) c else Inl (TypeError, c))
      else if key e = js ''Escape'' then ([PreventDefault], Inr (ta, s\<lparr>showDropdown := False\<rparr>))
      else ([], Inr c))"

section \<open>Loading the emoji\<close>

text \<open>
  \<open>_initEmojiDb\<close>: \<open>present\<close> tells whether the emoji module has loaded, \<open>ready\<close> whether the
  database opened, \<open>grp\<close> what \<open>getEmojiByGroup\<close> answers (none when it raises, which is ignored
  for that group only). Besides the state it returns the delay of the retry it scheduled.
\<close>

definition collect_groups :: "(nat \<Rightarrow> emoji list option) \<Rightarrow> emoji list" where
  "collect_groups grp =
     concat (map (\<lambda>g. case grp g of Some es \<Rightarrow> es | None \<Rightarrow> []) [0..<10])"

definition initEmojiDb ::
  "bool \<Rightarrow> bool \<Rightarrow> (nat \<Rightarrow> emoji list option) \<Rightarrow> ac_state \<Rightarrow> ac_state \<times> nat option" where
  "initEmojiDb present ready grp s =
     (if \<not> present then (s, Some 100)
      else if \<not> ready then (s, Some 1000)
      else (s\<lparr>allEmojis := Some (collect_groups grp)\<rparr>, None))"

section \<open>The component as a machine\<close>

text \<open>Moving the caret with the arrow keys fires no \<open>input\<close> event: the component is not told.\<close>

datatype ac_event =
    Input textarea
  | TimerFires nat
  | Answer nat "result list option"
  | Key ui_event
  | Choose nat
  | ClickOutside
  | MoveCaret nat
  | DbTry bool bool "nat \<Rightarrow> emoji list option"

definition fire :: "(jstr \<Rightarrow> jstr) \<Rightarrow> nat \<Rightarrow> ac_state \<Rightarrow> ac_state" where
  "fire lower i s =
     (case map_of (ac_timers s) i of
        None \<Rightarrow> s
      | Some k \<Rightarrow>
          (let s1 = s\<lparr>ac_timers := filter (\<lambda>p. fst p \<noteq> i) (ac_timers s)\<rparr>
           in case k of ProfileSearch \<Rightarrow> profile_timer s1 | EmojiSearch \<Rightarrow> emoji_timer lower s1))"

definition answer :: "nat \<Rightarrow> result list option \<Rightarrow> ac_state \<Rightarrow> ac_state" where
  "answer i r s =
     (if i < length (fetches s)
      then profile_response r
             (s\<lparr>fetches := take i (fetches s) @ drop (Suc i) (fetches s)\<rparr>)
      else s)"

fun ac_step ::
  "(jstr \<Rightarrow> jstr) \<Rightarrow> textarea option \<times> ac_state \<Rightarrow> ac_event \<Rightarrow> textarea option \<times> ac_state" where
  "ac_step lower (ta, s) (Input ta') = (Some ta', handleInput ta' s)"
| "ac_step lower (ta, s) (TimerFires i) = (ta, fire lower i s)"
| "ac_step lower (ta, s) (Answer i r) = (ta, answer i r s)"
| "ac_step lower (ta, s) (Key e) = final_state (snd (handleKeydown e (ta, s)))"
| "ac_step lower (ta, s) (Choose i) =
     (if i < length (results s) then final_state (selectResult (results s ! i) (ta, s)) else (ta, s))"
| "ac_step lower (ta, s) ClickOutside = (ta, s\<lparr>showDropdown := False\<rparr>)"
| "ac_step lower (ta, s) (MoveCaret p) = (map_option (setSelectionRange p p) ta, s)"
| "ac_step lower (ta, s) (DbTry p r g) = (ta, fst (initEmojiDb p r g s))"

section \<open>Lemmas on the triggers\<close>

lemma not_word_triggers [simp]: "\<not> is_word at_sign" "\<not> is_word colon"
  by (simp_all add: is_word_def unat_chr16)

lemma trigger_match_iff:
  assumes "\<not> is_word c"
  shows "trigger_match c least s = Some w \<longleftrightarrow>
     (\<exists>p. s = p @ c # w) \<and> (\<forall>d \<in> set w. is_word d) \<and> least \<le> length w"
proof
  assume L: "trigger_match c least s = Some w"
  obtain p where s: "s = p @ trailing is_word s"
    using trailing_decomp [of s is_word] by blast
  let ?t = "trailing is_word s"
  have n: "length s - length ?t = length p"
    using arg_cong [OF s, of length] by simp
  from L have w: "w = ?t" and p: "0 < length p" "s ! (length p - 1) = c" "least \<le> length w"
    unfolding trigger_match_def Let_def n by (simp_all split: if_splits)
  from p s have "last p = c"
    by (metis append_Nil2 diff_less last_conv_nth length_greater_0_conv less_one nth_append)
  then have "p = butlast p @ [c]" using p(1) by (metis append_butlast_last_id length_greater_0_conv)
  with s w have "s = butlast p @ c # w" by (metis append.assoc append_Cons append_Nil)
  with w p(3) show "(\<exists>p. s = p @ c # w) \<and> (\<forall>d \<in> set w. is_word d) \<and> least \<le> length w"
    using trailing_all by blast
next
  assume "(\<exists>p. s = p @ c # w) \<and> (\<forall>d \<in> set w. is_word d) \<and> least \<le> length w"
  then obtain p where "s = p @ c # w" "\<forall>d \<in> set w. is_word d" "least \<le> length w"
    by blast
  with trailing_append_stop [where P = is_word and c = c and w = w and p = p] assms show "trigger_match c least s = Some w"
    by (simp add: trigger_match_def Let_def nth_append)
qed

lemma word_no_trigger: "\<forall>d \<in> set w. is_word d \<Longrightarrow> \<not> is_word c \<Longrightarrow> c \<notin> set w"
  by auto

lemma lastIndexOf_trigger:
  assumes "\<not> is_word c" "trigger_match c least s = Some w"
  shows "lastIndexOf s c = int (length s) - int (length w) - 1"
proof -
  from trigger_match_iff [OF assms(1), THEN iffD1, OF assms(2)] obtain p where
    "s = p @ c # w" "c \<notin> set w"
    using assms(1) by blast
  then show ?thesis using lastIndexOf_append [of c w p] by simp
qed

section \<open>The edit of a choice\<close>

definition trigger_char :: "ac_type \<Rightarrow> unit16" where
  "trigger_char ty = (case ty of Mention \<Rightarrow> at_sign | Emoji \<Rightarrow> colon)"

definition trigger_of :: "ac_type \<Rightarrow> jstr \<Rightarrow> jstr option" where
  "trigger_of ty = (case ty of Mention \<Rightarrow> atMatch | Emoji \<Rightarrow> emojiMatch)"

definition fits :: "ac_type \<Rightarrow> result \<Rightarrow> bool" where
  "fits ty r = (case ty of Mention \<Rightarrow> (case r of Profile _ \<Rightarrow> True | _ \<Rightarrow> False)
                | Emoji \<Rightarrow> (case r of EmojiResult _ _ \<Rightarrow> True | _ \<Rightarrow> False))"

definition chosen_text :: "ac_type \<Rightarrow> result \<Rightarrow> jstr" where
  "chosen_text ty r =
     (case ty of
        Mention \<Rightarrow> js ''<rostra:'' @ rostra_id_reference r @ js ''>''
      | Emoji \<Rightarrow> emoji_of r)"

lemma insertion_fits: "fits ty r \<Longrightarrow> insertion (Some ty) r = Some (chosen_text ty r)"
  by (auto simp: fits_def insertion_def chosen_text_def mention_text_def emoji_text_def
      split: ac_type.splits result.splits)

lemma trigger_of_match:
  "trigger_of ty s = Some w \<Longrightarrow> \<exists>least. trigger_match (trigger_char ty) least s = Some w"
  by (auto simp: trigger_of_def trigger_char_def atMatch_def emojiMatch_def split: ac_type.splits)

lemma not_word_trigger_char [simp]: "\<not> is_word (trigger_char ty)"
  by (cases ty) (simp_all add: trigger_char_def)

lemma triggerPos_trigger_of:
  assumes "trigger_of ty s = Some w"
  shows "triggerPos (Some ty) s = Some (int (length s) - int (length w) - 1)"
    and "length w < length s"
proof -
  obtain least where m: "trigger_match (trigger_char ty) least s = Some w"
    using trigger_of_match [OF assms] by blast
  from lastIndexOf_trigger [OF _ m]
  show "triggerPos (Some ty) s = Some (int (length s) - int (length w) - 1)"
    by (cases ty) (simp_all add: triggerPos_def trigger_char_def)
  from trigger_match_iff [THEN iffD1, OF _ m] show "length w < length s"
    by auto
qed

text \<open>The state of the field when a choice is made: the trigger and its query end at the caret.\<close>

definition at_trigger :: "ac_type \<Rightarrow> textarea \<Rightarrow> bool" where
  "at_trigger ty ta \<longleftrightarrow> selectionStart ta \<le> length (tvalue ta) \<and>
     trigger_of ty (take (selectionStart ta) (tvalue ta)) \<noteq> None"

definition trigger_start :: "ac_type \<Rightarrow> textarea \<Rightarrow> nat" where
  "trigger_start ty ta =
     (case trigger_of ty (take (selectionStart ta) (tvalue ta)) of
        None \<Rightarrow> 0 | Some w \<Rightarrow> selectionStart ta - length w - 1)"

definition chosen :: "ac_type \<Rightarrow> result \<Rightarrow> textarea \<Rightarrow> textarea" where
  "chosen ty r ta =
     (case new_caret (Some ty) r (take (selectionStart ta) (tvalue ta)) of
        None \<Rightarrow> edited (Some ty) r ta
      | Some p \<Rightarrow> setSelectionRange p p (edited (Some ty) r ta))"

lemma chosen_splice:
  assumes "at_trigger ty ta" "fits ty r"
  shows "chosen ty r ta = splice (trigger_start ty ta) (selectionStart ta) (chosen_text ty r) ta"
    and "new_caret (Some ty) r (take (selectionStart ta) (tvalue ta))
       = Some (trigger_start ty ta + length (chosen_text ty r))"
    and "trigger_start ty ta \<le> selectionStart ta"
proof -
  let ?b = "take (selectionStart ta) (tvalue ta)"
  obtain w where w: "trigger_of ty ?b = Some w" and le: "selectionStart ta \<le> length (tvalue ta)"
    using assms(1) by (auto simp: at_trigger_def)
  note tp = triggerPos_trigger_of [OF w]
  have st: "trigger_start ty ta = selectionStart ta - length w - 1"
    by (simp add: trigger_start_def w)
  have len: "length ?b = selectionStart ta" using le by simp
  then have pos: "triggerPos (Some ty) ?b = Some (int (trigger_start ty ta))"
    using tp st by simp
  then show caret: "new_caret (Some ty) r ?b
       = Some (trigger_start ty ta + length (chosen_text ty r))"
    using insertion_fits [OF assms(2)] by (simp add: new_caret_def nat_int_add)
  show "trigger_start ty ta \<le> selectionStart ta" by (simp add: st)
  have "min (trigger_start ty ta) (selectionStart ta) = trigger_start ty ta"
    using st by simp
  then have "edited (Some ty) r ta =
      set_value (take (trigger_start ty ta) (tvalue ta) @ chosen_text ty r
        @ drop (selectionStart ta) (tvalue ta)) ta"
    using pos insertion_fits [OF assms(2)]
    by (simp add: edited_def substring_to_def)
  with caret show "chosen ty r ta
      = splice (trigger_start ty ta) (selectionStart ta) (chosen_text ty r) ta"
    by (simp add: chosen_def splice_def)
qed

interpretation choice: caret_insertion "chosen ty r" "trigger_start ty" selectionStart
  "\<lambda>_. chosen_text ty r" "\<lambda>ta. at_trigger ty ta \<and> fits ty r" for ty r
  by unfold_locales
    (auto simp: chosen_splice splice_simps at_trigger_def)

section \<open>Invariant\<close>

text \<open>
  The highlighted entry exists whenever there are results, and at most one search is waiting for its
  timer: the one the component can still cancel.
\<close>

definition ac_inv :: "ac_state \<Rightarrow> bool" where
  "ac_inv s \<longleftrightarrow>
     (results s \<noteq> [] \<longrightarrow> selectedIndex s < length (results s)) \<and>
     (\<forall>p \<in> set (ac_timers s). Some (fst p) = debounceTimer s) \<and>
     length (ac_timers s) \<le> 1"

lemma clearTimeout_inv:
  "ac_inv s \<Longrightarrow> ac_timers (clearTimeout (debounceTimer s) s) = []"
  by (auto simp: ac_inv_def clearTimeout_def filter_empty_conv)

lemma debounced_inv [step_inv]:
  assumes "ac_inv s"
  shows "ac_inv (setTimeout k (clearTimeout (debounceTimer s) s))"
  using assms clearTimeout_inv [OF assms]
  by (simp add: ac_inv_def setTimeout_def) (simp add: clearTimeout_def)

lemma searchProfiles_inv [step_inv]: "ac_inv s \<Longrightarrow> ac_inv (searchProfiles s)"
  by (simp add: searchProfiles_def debounced_inv)

lemma searchEmojis_inv [step_inv]: "ac_inv s \<Longrightarrow> ac_inv (searchEmojis s)"
  by (auto simp: searchEmojis_def debounced_inv) (simp add: ac_inv_def)

lemma ac_inv_fields [simp]:
  "ac_inv (s\<lparr>autocompleteType := a\<rparr>) = ac_inv s" "ac_inv (s\<lparr>query := q\<rparr>) = ac_inv s"
  "ac_inv (s\<lparr>showDropdown := b\<rparr>) = ac_inv s" "ac_inv (s\<lparr>fetches := f\<rparr>) = ac_inv s"
  "ac_inv (s\<lparr>allEmojis := es\<rparr>) = ac_inv s"
  by (simp_all add: ac_inv_def)

lemma handleInput_inv [step_inv]: "ac_inv s \<Longrightarrow> ac_inv (handleInput ta s)"
  by (simp add: handleInput_def Let_def searchProfiles_inv searchEmojis_inv split: option.split)

lemma selectResult_inv [step_inv]:
  "ac_inv (snd c) \<Longrightarrow> ac_inv (snd (final_state (selectResult r c)))"
  by (cases c) (auto simp: selectResult_def Let_def handleInput_inv split: option.split)

lemma ac_inv_index [intro]:
  "ac_inv s \<Longrightarrow> i < length (results s) \<Longrightarrow> ac_inv (s\<lparr>selectedIndex := i\<rparr>)"
  by (simp add: ac_inv_def)

lemma ac_inv_selected: "ac_inv s \<Longrightarrow> results s \<noteq> [] \<Longrightarrow> selectedIndex s < length (results s)"
  by (simp add: ac_inv_def)

lemma handleKeydown_inv [step_inv]:
  assumes "ac_inv (snd c)"
  shows "ac_inv (snd (final_state (snd (handleKeydown e c))))"
  using assms ac_inv_selected [OF assms] selectResult_inv [OF assms]
  by (auto simp: handleKeydown_def Let_def)

lemma ac_inv_filter_timers: "ac_inv s \<Longrightarrow> ac_inv (s\<lparr>ac_timers := filter P (ac_timers s)\<rparr>)"
  by (auto simp: ac_inv_def intro: le_trans [OF length_filter_le])

lemma ac_inv_results: "ac_inv s \<Longrightarrow> ac_inv (s\<lparr>results := rs, selectedIndex := 0\<rparr>)"
  by (simp add: ac_inv_def)

lemma fire_inv [step_inv]: "ac_inv s \<Longrightarrow> ac_inv (fire lower i s)"
  using ac_inv_results [OF ac_inv_filter_timers]
  by (simp add: fire_def profile_timer_def emoji_timer_def Let_def ac_inv_filter_timers
      split: option.split ac_timer.split)

lemma answer_inv [step_inv]: "ac_inv s \<Longrightarrow> ac_inv (answer i r s)"
  by (auto simp: answer_def profile_response_def ac_inv_def split: option.split)

lemma ac_step_inv: "ac_inv (snd c) \<Longrightarrow> ac_inv (snd (ac_step lower c e))"
  by (cases c; cases e)
    (auto simp: handleInput_inv fire_inv answer_inv initEmojiDb_def
      intro: handleKeydown_inv [where c = "(a, b)" for a b, simplified]
        selectResult_inv [where c = "(a, b)" for a b, simplified])

interpretation autocomplete: machine "ac_step lower" "\<lambda>c. ac_inv (snd c)" for lower
  by unfold_locales (rule ac_step_inv)

lemma ac_init_inv: "ac_inv ac_init"
  by (simp add: ac_inv_def ac_init_def)

section \<open>Ranking\<close>

lemma insort_key_map: "insort_key f (g x) (map g ys) = map g (insort_key (f \<circ> g) x ys)"
  by (induction ys) auto

lemma sort_key_map: "sort_key f (map g xs) = map g (sort_key (f \<circ> g) xs)"
  by (induction xs) (simp_all add: insort_key_map [unfolded comp_def] comp_def)

lemma ranked_emojis_eq:
  "ranked_emojis lower q es =
     take 8 (sort_key (\<lambda>e. - emoji_score lower q e) (filter (\<lambda>e. 0 < emoji_score lower q e) es))"
  by (simp add: ranked_emojis_def filter_map sort_key_map comp_def)

lemma sorted_take_drop_le:
  assumes "sorted (map f xs)" "x \<in> set (take n xs)" "y \<in> set (drop n xs)"
  shows "f x \<le> f y"
proof -
  have "sorted (map f (take n xs) @ map f (drop n xs))"
    using assms(1) by (simp flip: map_append)
  with assms(2,3) show ?thesis by (auto simp: sorted_append)
qed

lemma atMatch_iff:
  "atMatch s = Some w \<longleftrightarrow> (\<exists>p. s = p @ at_sign # w) \<and> list_all is_word w"
  by (simp add: atMatch_def trigger_match_iff list_all_iff)

lemma emojiMatch_iff:
  "emojiMatch s = Some w \<longleftrightarrow> (\<exists>p. s = p @ colon # w) \<and> list_all is_word w \<and> 2 \<le> length w"
  by (simp add: emojiMatch_def trigger_match_iff list_all_iff)

lemma trigger_unique:
  assumes "p @ c # w = p' @ d # v" "\<not> is_word c" "\<not> is_word d" "list_all is_word w"
    "list_all is_word v"
  shows "c = d"
proof -
  have "w = v"
    using assms trailing_append_stop [where P = is_word and c = c and w = w and p = p]
      trailing_append_stop [where P = is_word and c = d and w = v and p = p']
    by (simp add: list_all_iff)
  then have "(p @ [c]) @ w = (p' @ [d]) @ w" using assms(1) by simp
  then show ?thesis by simp
qed

lemma triggers_exclusive:
  assumes "atMatch s = Some w"
  shows "emojiMatch s = None"
proof (rule ccontr)
  assume "emojiMatch s \<noteq> None"
  then obtain v p p' where "s = p @ at_sign # w" "s = p' @ colon # v"
    "list_all is_word w" "list_all is_word v"
    using assms atMatch_iff emojiMatch_iff by blast
  then have "at_sign = colon"
    using trigger_unique [of p at_sign w p' colon v] by simp
  then show False by simp
qed

lemma search_fields:
  "autocompleteType (searchProfiles u) = autocompleteType u"
  "query (searchProfiles u) = query u" "showDropdown (searchProfiles u) = showDropdown u"
  "autocompleteType (searchEmojis u) = autocompleteType u"
  "query (searchEmojis u) = query u" "showDropdown (searchEmojis u) = showDropdown u"
  by (simp_all add: searchProfiles_def searchEmojis_def setTimeout_def clearTimeout_def)

lemma recognised_trigger:
  assumes "autocompleteType (handleInput ta s) = Some ty"
  shows "trigger_of ty (take (selectionStart ta) (tvalue ta)) = Some (query (handleInput ta s))"
  using assms
  by (auto simp: handleInput_def Let_def search_fields trigger_of_def split: option.splits ac_type.splits)

lemma trigger_of_split:
  "trigger_of ty s = Some w \<Longrightarrow> \<exists>p. s = p @ trigger_char ty # w"
  by (cases ty) (simp_all add: trigger_of_def trigger_char_def atMatch_iff emojiMatch_iff)

lemma emoji_recognised:
  "emojiMatch (take (selectionStart ta) (tvalue ta)) = Some w \<Longrightarrow>
     autocompleteType (handleInput ta s) = Some Emoji \<and> query (handleInput ta s) = w"
  by (cases "atMatch (take (selectionStart ta) (tvalue ta))")
    (auto simp: handleInput_def Let_def search_fields dest: triggers_exclusive)

section \<open>Properties\<close>

text \<open>
  C19: recognition of a trigger. After an input the component offers mentions exactly when the text
  before the caret ends with an at sign and word characters, and the query is these characters;
  otherwise emoji exactly when it ends with a colon and at least two word characters; otherwise the
  dropdown is closed.
\<close>

theorem handleInput_recognises:
  "(autocompleteType (handleInput ta s) = Some Mention \<and> query (handleInput ta s) = w \<longleftrightarrow>
      (\<exists>p. take (selectionStart ta) (tvalue ta) = p @ at_sign # w) \<and> list_all is_word w) \<and>
   (autocompleteType (handleInput ta s) = Some Emoji \<and> query (handleInput ta s) = w \<longleftrightarrow>
      (\<exists>p. take (selectionStart ta) (tvalue ta) = p @ colon # w) \<and> list_all is_word w \<and>
      2 \<le> length w) \<and>
   (showDropdown (handleInput ta s) \<longleftrightarrow> autocompleteType (handleInput ta s) \<noteq> None)"
proof (cases "atMatch (take (selectionStart ta) (tvalue ta))")
  case (Some v)
  then have "autocompleteType (handleInput ta s) = Some Mention" "query (handleInput ta s) = v"
    "showDropdown (handleInput ta s)"
    by (simp_all add: handleInput_def Let_def search_fields)
  moreover have "emojiMatch (take (selectionStart ta) (tvalue ta)) = None"
    by (rule triggers_exclusive [OF Some])
  ultimately show ?thesis using Some by (auto simp flip: atMatch_iff emojiMatch_iff)
next
  case None
  then have "handleInput ta s = (case emojiMatch (take (selectionStart ta) (tvalue ta)) of
      Some q \<Rightarrow> searchEmojis (s\<lparr>autocompleteType := Some Emoji, query := q, showDropdown := True\<rparr>)
    | None \<Rightarrow> s\<lparr>showDropdown := False, autocompleteType := None\<rparr>)"
    by (simp add: handleInput_def Let_def)
  with None show ?thesis
    by (cases "emojiMatch (take (selectionStart ta) (tvalue ta))")
      (auto simp: search_fields simp flip: atMatch_iff emojiMatch_iff)
qed

text \<open>
  C18: choosing a result right after its trigger was recognised replaces exactly the trigger and the
  query by the chosen text, keeps everything before the trigger and everything after the caret, puts
  the caret behind the inserted text, raises no error and closes the dropdown.
\<close>

theorem selectResult_replaces_trigger:
  assumes "wf_field ta" and "autocompleteType (handleInput ta s) = Some ty" and "fits ty r"
    and "query (handleInput ta s) = w"
  shows "\<exists>p after ta' s'.
     tvalue ta = p @ trigger_char ty # w @ after \<and>
     selectionStart ta = length p + 1 + length w \<and>
     selectResult r (Some ta, handleInput ta s) = Inr (Some ta', s') \<and>
     tvalue ta' = p @ chosen_text ty r @ after \<and>
     selectionStart ta' = length p + length (chosen_text ty r) \<and>
     selectionEnd ta' = selectionStart ta' \<and>
     \<not> showDropdown s' \<and> autocompleteType s' = None"
proof -
  let ?b = "take (selectionStart ta) (tvalue ta)" and ?s = "handleInput ta s"
  have tr: "trigger_of ty ?b = Some w"
    using recognised_trigger [OF assms(2)] assms(4) by simp
  have le: "selectionStart ta \<le> length (tvalue ta)"
    using assms(1) by (simp add: wf_field_def)
  then have at: "at_trigger ty ta" using tr by (simp add: at_trigger_def)
  have start: "trigger_start ty ta = selectionStart ta - length w - 1"
    using tr by (simp add: trigger_start_def)
  obtain p where b: "?b = p @ trigger_char ty # w"
    using tr trigger_of_split by blast
  have "length ?b = selectionStart ta" using le by simp
  then have lp: "selectionStart ta = length p + 1 + length w" unfolding b by simp
  have v: "tvalue ta = p @ trigger_char ty # w @ drop (selectionStart ta) (tvalue ta)"
    using b by (metis append.assoc append_Cons append_take_drop_id)
  have sel: "selectResult r (Some ta, ?s) = Inr (Some (chosen ty r ta),
      handleInput (chosen ty r ta) ?s\<lparr>showDropdown := False, autocompleteType := None\<rparr>)"
    using chosen_splice(2) [OF at assms(3)] assms(2)
    by (simp add: selectResult_def Let_def chosen_def)
  have "tvalue (chosen ty r ta) = p @ chosen_text ty r @ drop (selectionStart ta) (tvalue ta)"
    using choice.edit_value [of ty ta r] at assms(3) start lp v by (metis append_eq_conv_conj
        diff_add_inverse2 diff_diff_left add.commute)
  moreover have "selectionStart (chosen ty r ta) = length p + length (chosen_text ty r) \<and>
      selectionEnd (chosen ty r ta) = length p + length (chosen_text ty r)"
    using choice.edit_caret [of ty ta r] at assms(3) start lp by simp
  ultimately show ?thesis using v lp sel by auto
qed

theorem selectResult_replaces_trigger_witness:
  "\<exists>ta s' . selectResult (EmojiResult [0xD83D, 0xDE00] None)
      (Some ta, handleInput ta ac_init) =
        Inr (Some \<lparr>tvalue = js ''hi '' @ [0xD83D, 0xDE00] @ js ''!'',
                    selectionStart = 5, selectionEnd = 5\<rparr>, s') \<and>
     ta = \<lparr>tvalue = js ''hi :smi!'', selectionStart = 7, selectionEnd = 7\<rparr> \<and> \<not> showDropdown s'"
proof -
  let ?ta = "\<lparr>tvalue = js ''hi :smi!'', selectionStart = 7, selectionEnd = 7\<rparr>"
  let ?r = "EmojiResult [0xD83D, 0xDE00] None"
  have b: "take 7 (js ''hi :smi!'') = js ''hi '' @ colon # js ''smi''"
    by (simp add: js_def)
  have w: "list_all is_word (js ''smi'')"
    by (simp add: js_def is_word_def unat_chr16)
  have ty: "autocompleteType (handleInput ?ta ac_init) = Some Emoji \<and>
      query (handleInput ?ta ac_init) = js ''smi''"
    by (rule emoji_recognised) (use b w in \<open>auto simp: emojiMatch_iff\<close>)
  obtain p after ta' s' where r: "tvalue ?ta = p @ trigger_char Emoji # js ''smi'' @ after"
    "selectionStart ?ta = length p + 1 + length (js ''smi'')"
    "selectResult ?r (Some ?ta, handleInput ?ta ac_init) = Inr (Some ta', s')"
    "tvalue ta' = p @ chosen_text Emoji ?r @ after"
    "selectionStart ta' = length p + length (chosen_text Emoji ?r)"
    "selectionEnd ta' = selectionStart ta'" "\<not> showDropdown s'"
    using selectResult_replaces_trigger [of ?ta ac_init Emoji ?r "js ''smi''"] ty
    by (auto simp: wf_field_def fits_def)
  have "js ''hi :smi!'' = js ''hi '' @ colon # js ''smi'' @ js ''!''" by (simp add: js_def)
  moreover have "length p = length (js ''hi '')" using r(2) by simp
  ultimately have "p = js ''hi ''" "after = js ''!''"
    using r(1) by (simp_all add: trigger_char_def)
  with r have "ta' = \<lparr>tvalue = js ''hi '' @ [0xD83D, 0xDE00] @ js ''!'',
                    selectionStart = 5, selectionEnd = 5\<rparr>"
    by (simp add: chosen_text_def)
  with r show ?thesis by blast
qed

text \<open>
  Over any run of inputs, timers, answers, keys and choices, the highlighted index points at an
  existing result whenever there is one (so Enter never reads past the list), and at most one search
  is waiting: a new keystroke cancels the search of the previous one.
\<close>

theorem autocomplete_index_and_debounce:
  "(let s = snd (foldl (ac_step lower) (ta, ac_init) es)
    in (results s = [] \<or> selectedIndex s < length (results s)) \<and> length (ac_timers s) \<le> 1)"
  using autocomplete.inv_run [of "(ta, ac_init)" lower es] ac_init_inv
  by (auto simp: Let_def ac_inv_def)

text \<open>
  The emoji list. At most eight entries, all from the candidates and all with a positive score,
  in descending order of score and in the candidates' order where scores are equal; a candidate with
  a positive score is left out only when eight entries at least as good are listed.
\<close>

theorem ranked_emojis_best:
  assumes "R = ranked_emojis lower q es"
  shows "length R \<le> 8 \<and> set R \<subseteq> {e \<in> set es. 0 < emoji_score lower q e} \<and>
     sorted_wrt (\<lambda>a b. emoji_score lower q b \<le> emoji_score lower q a) R \<and>
     (\<forall>e \<in> set es - set R. 0 < emoji_score lower q e \<longrightarrow>
        length R = 8 \<and> (\<forall>r \<in> set R. emoji_score lower q e \<le> emoji_score lower q r)) \<and>
     (\<exists>rest. \<forall>k. filter (\<lambda>e. emoji_score lower q e = k) (R @ rest) =
        filter (\<lambda>e. emoji_score lower q e = k \<and> 0 < emoji_score lower q e) es)"
proof -
  let ?sc = "emoji_score lower q"
  let ?f = "\<lambda>e. - ?sc e"
  let ?S = "sort_key ?f (filter (\<lambda>e. 0 < ?sc e) es)"
  have R: "R = take 8 ?S" by (simp add: assms ranked_emojis_eq)
  have S: "set ?S = {e \<in> set es. 0 < ?sc e}" by auto
  have srt: "sorted (map ?f ?S)" by simp
  have "sorted_wrt (\<lambda>a b. ?sc b \<le> ?sc a) ?S"
    using srt by (simp add: sorted_map)
  then have "sorted_wrt (\<lambda>a b. ?sc b \<le> ?sc a) R" by (simp add: R sorted_wrt_take)
  moreover have "length R = 8 \<and> (\<forall>r \<in> set R. ?sc e \<le> ?sc r)"
    if "e \<in> set es - set R" "0 < ?sc e" for e
  proof -
    have "e \<in> set ?S" using that S by simp
    then have e: "e \<in> set (drop 8 ?S)"
      using that(1) R by (metis DiffD2 Un_iff append_take_drop_id set_append)
    then have "8 < length ?S"
      by (metis drop_all empty_iff list.set(1) not_less)
    with e R sorted_take_drop_le [OF srt _ e, of _] show ?thesis
      by (auto simp: min_def)
  qed
  moreover have "filter (\<lambda>e. ?sc e = k) (R @ drop 8 ?S) = filter (\<lambda>e. ?sc e = k \<and> 0 < ?sc e) es" for k
    using sort_key_stable [of ?f "- k" "filter (\<lambda>e. 0 < ?sc e) es"]
    by (simp add: R conj_commute)
  moreover have "length R \<le> 8 \<and> set R \<subseteq> {e \<in> set es. 0 < ?sc e}"
    using R S by (auto dest: in_set_takeD)
  ultimately show ?thesis by blast
qed

theorem ranked_emojis_best_witness:
  "\<exists>R e. R = ranked_emojis (\<lambda>s. s) (js ''sm'') [e] \<and>
     e = \<lparr>shortcodes = Some [js ''smile''], annotation = None, unicode = js ''x''\<rparr> \<and>
     R = [e] \<and> length R \<le> 8"
proof -
  let ?e = "\<lparr>shortcodes = Some [js ''smile''], annotation = None, unicode = js ''x''\<rparr>"
  let ?R = "ranked_emojis (\<lambda>s. s) (js ''sm'') [?e]"
  have "0 < fuzzyMatch (\<lambda>s. s) (js ''sm'') (js ''smile'')"
    by (simp add: fuzzyMatch_def js_def one_def tenth_def rnd53_def rnd53_nat_def excess_bits.simps
        is_separator_def match_points_def)
  then have "0 < emoji_score (\<lambda>s. s) (js ''sm'') ?e"
    by (simp add: emoji_score_def)
  then have "?R = [?e]" by (simp add: ranked_emojis_eq)
  with ranked_emojis_best [of ?R "\<lambda>s. s" "js ''sm''" "[?e]", OF refl] show ?thesis by blast
qed

lemma selectResult_wrong_kind_emoji:
  assumes "autocompleteType s = Some Emoji"
  shows "selectResult (Profile i) (Some ta, s) =
     Inl (TypeError, (Some (set_value
       (substring_to (take (selectionStart ta) (tvalue ta))
          (lastIndexOf (take (selectionStart ta) (tvalue ta)) colon)
        @ js ''undefined'' @ drop (selectionStart ta) (tvalue ta)) ta), s))"
  using assms
  by (simp add: selectResult_def edited_def new_caret_def triggerPos_def insertion_def emoji_text_def
      undefined_text_def Let_def)

abbreviation field_of :: "string \<Rightarrow> textarea" where
  "field_of t \<equiv> \<lparr>tvalue = js t, selectionStart = length t, selectionEnd = length t\<rparr>"

text \<open>
  Answers of the profile search are not tied to the query that asked for them. A request sent
  for a mention can be answered when the user is already typing an emoji: its profiles become the
  choices, and taking one writes the word undefined into the text in place of the query, raises a
  TypeError and leaves the dropdown open.
\<close>

theorem stale_answer_corrupts_text:
  "let c = foldl (ac_step (\<lambda>s. s)) (None, ac_init)
        [Input (field_of ''@al''), TimerFires 1, Input (field_of ''@al :sm''),
         Answer 0 (Some [Profile (js ''id'')])]
   in results (snd c) = [Profile (js ''id'')] \<and> autocompleteType (snd c) = Some Emoji \<and>
      snd (handleKeydown (plain_event\<lparr>key := js ''Enter''\<rparr>) c) =
        Inl (TypeError, (Some (field_of ''@al undefined''), snd c)) \<and> showDropdown (snd c)"
proof -
  have m: "atMatch (js ''@al'') = Some (js ''al'')"
    by (simp add: atMatch_iff, intro conjI exI [of _ "[]"])
      (simp_all add: js_def is_word_def unat_chr16)
  have n: "emojiMatch (js ''@al :sm'') = Some (js ''sm'')"
    by (simp add: emojiMatch_iff, intro conjI exI [of _ "js ''@al ''"])
      (simp_all add: js_def is_word_def unat_chr16)
  have "atMatch (js ''@al :sm'') = None"
    using triggers_exclusive [of "js ''@al :sm''"] n by (cases "atMatch (js ''@al :sm'')") auto
  have e: "js ''@al :sm'' = js ''@al '' @ colon # js ''sm''"
    by (simp add: js_def)
  have t: "take 4 (js ''@al :sm'') = js ''@al ''" by (simp add: js_def)
  have "lastIndexOf (js ''@al :sm'') colon = 4"
    unfolding e using lastIndexOf_append [of colon "js ''sm''" "js ''@al ''"]
    by (simp add: js_def)
  then show ?thesis
    using m n \<open>atMatch (js ''@al :sm'') = None\<close>
    by (simp add: handleInput_def Let_def searchProfiles_def searchEmojis_def setTimeout_def
        clearTimeout_def ac_init_def fire_def profile_timer_def answer_def profile_response_def
        handleKeydown_def is_next_key_def is_prev_key_def plain_event_def
        selectResult_wrong_kind_emoji set_value_def substring_to_def t flip: js_append)
qed

text \<open>
  The trigger is looked up again when a result is chosen, in the text before the caret of that
  moment. If the caret was moved in front of the trigger meanwhile, with the dropdown still open, the
  choice deletes all text before the caret.
\<close>

theorem moved_caret_deletes_text:
  "let c = foldl (ac_step (\<lambda>s. s)) (None, ac_init)
        [Input (field_of ''hello @al''), TimerFires 1, Answer 0 (Some [Profile (js ''id'')]),
         MoveCaret 3, Key (plain_event\<lparr>key := js ''Enter''\<rparr>)]
   in map_option tvalue (fst c) = Some (js ''<rostra:id>lo @al'')"
proof -
  have m: "atMatch (js ''hello @al'') = Some (js ''al'')"
    by (simp add: atMatch_iff, intro conjI exI [of _ "js ''hello ''"])
      (simp_all add: js_def is_word_def unat_chr16)
  have t: "take (Suc (Suc (Suc 0))) (js ''hello @al'') = js ''hel''"
    "drop (Suc (Suc (Suc 0))) (js ''hello @al'') = js ''lo @al''"
    by (simp_all add: js_def)
  have "lastIndexOf (js ''hel'') at_sign = -1"
    by (simp add: lastIndexOf_def js_def)
  then show ?thesis
    using m
    by (simp add: handleInput_def Let_def searchProfiles_def setTimeout_def clearTimeout_def
        ac_init_def fire_def profile_timer_def answer_def profile_response_def handleKeydown_def
        is_next_key_def is_prev_key_def plain_event_def selectResult_def new_caret_def edited_def
        triggerPos_def insertion_def mention_text_def substring_to_def setSelectionRange_def t
        flip: js_append)
qed

end
