(* ===== verification/KeyboardNav.thy ===== *)
theory KeyboardNav
  imports Dom PostNavigation
begin

text \<open>
  Keyboard navigation of the timeline in assets/app.js (the block "Keyboard navigation (j/k/l/r) for
  timeline posts"). State: the document, the selected element and the \<open>selectedHref\<close> of the history
  entry. The four listeners of the block and the restoration at load time are the operations; scrolling,
  clicks and page changes are effects. What the browser makes of a scroll, the new rectangles of the
  elements, comes back as a change of the document between two events (\<open>page_change\<close>, \<open>relayout\<close>).
\<close>

section \<open>State and operations\<close>

record nav =
  nav_dom :: dom
  selectedEl :: "node option"
  selectedHref :: "jstr option"

abbreviation postParent :: string where
  "postParent \<equiv> ''m-postContext__postParent''"

abbreviation timelineItem :: string where
  "timelineItem \<equiv> ''o-mainBarTimeline__item''"

definition NAV_SELECTOR :: sel where
  "NAV_SELECTOR =
     SOr (Cls postParent)
    (SOr (Sibling (Cls postParent) (Cls ''m-postContext__postView''))
    (SOr (SAnd (Cls timelineItem) (SAnd (SNot (Cls ''-preview'')) (SNot (SHas (Cls postParent)))))
         (Cls ''o-postOverview__repliesItem'')))"

abbreviation SELECTED_CLASS :: string where
  "SELECTED_CLASS \<equiv> ''-keyboard-selected''"

definition getItems :: "dom \<Rightarrow> node list" where
  "getItems d = doc_querySelectorAll d NAV_SELECTOR"

definition main_sel :: sel where
  "main_sel = SAnd (Cls ''m-postView__main'') (HasAttr ''data-href'')"

definition getItemHref :: "dom \<Rightarrow> node \<Rightarrow> jstr option" where
  "getItemHref d el = Option.bind (querySelector d el main_sel) (\<lambda>m. attr (dat d m) ''data-href'')"

definition saveSelection :: "nav \<Rightarrow> nav" where
  "saveSelection s = s\<lparr>selectedHref := Option.bind (selectedEl s) (getItemHref (nav_dom s))\<rparr>"

definition clearSelection :: "nav \<Rightarrow> nav" where
  "clearSelection s =
     (case selectedEl s of
        None \<Rightarrow> s
      | Some el \<Rightarrow>
          saveSelection (s\<lparr>nav_dom := remove_class el SELECTED_CLASS (nav_dom s), selectedEl := None\<rparr>))"

text \<open>The scroll of a selection: the timeline item of a parent post goes to the top, below the tabs.\<close>

definition scroll_effect :: "dom \<Rightarrow> node \<Rightarrow> effect" where
  "scroll_effect d el =
     (if has_class d el postParent
      then (let scrollTarget = (case closest d (Cls timelineItem) el of None \<Rightarrow> el | Some t \<Rightarrow> t);
                offset = (case doc_querySelector d (Cls ''o-mainBarTimeline__tabs'') of
                            None \<Rightarrow> 0 | Some tabs \<Rightarrow> bottom (rects d tabs))
            in ScrollTo (top (rects d scrollTarget) + scrollTop d - offset))
      else ScrollIntoView el)"

definition expand_parent :: "node \<Rightarrow> dom \<Rightarrow> dom" where
  "expand_parent el d =
     (if has_class d el postParent \<and> \<not> has_class d el ''-expanded'' then add_class el ''-expanded'' d
      else d)"

definition clamp :: "int \<Rightarrow> nat \<Rightarrow> nat" where
  "clamp idx n = (if idx < 0 then 0 else if idx \<ge> int n then n - 1 else nat idx)"

definition selectItem :: "int \<Rightarrow> nav \<Rightarrow> effect list \<times> nav" where
  "selectItem idx s =
     (let items = getItems (nav_dom s)
      in if items = [] then ([], s)
         else (let el = items ! clamp idx (length items);
                   s1 = clearSelection s;
                   d1 = add_class (body (nav_dom s1)) ''-keyboard-nav''
                          (add_class el SELECTED_CLASS (nav_dom s1));
                   d2 = expand_parent el d1
               in ([scroll_effect d2 el],
                   saveSelection (s1\<lparr>nav_dom := d2, selectedEl := Some el\<rparr>))))"

text \<open>\<open>selectedIndex\<close>: forgets an element that is no longer navigable.\<close>

fun index_of :: "node \<Rightarrow> node list \<Rightarrow> nat option" where
  "index_of x [] = None"
| "index_of x (y # ys) = (if x = y then Some 0 else map_option Suc (index_of x ys))"

definition nav_selectedIndex :: "nav \<Rightarrow> int \<times> nav" where
  "nav_selectedIndex s =
     (case selectedEl s of
        None \<Rightarrow> (-1, s)
      | Some el \<Rightarrow>
          (case index_of el (getItems (nav_dom s)) of
             Some i \<Rightarrow> (int i, s)
           | None \<Rightarrow> (-1, s\<lparr>selectedEl := None\<rparr>)))"

definition isInView :: "dom \<Rightarrow> node \<Rightarrow> bool" where
  "isInView d el \<longleftrightarrow> bottom (rects d el) > 0 \<and> top (rects d el) < innerHeight d"

definition firstVisibleIndex :: "dom \<Rightarrow> node list \<Rightarrow> int" where
  "firstVisibleIndex d items =
     (case List.find (\<lambda>i. isInView d (items ! i)) [0..<length items] of
        Some i \<Rightarrow> int i | None \<Rightarrow> 0)"

definition lastVisibleIndex :: "dom \<Rightarrow> node list \<Rightarrow> int" where
  "lastVisibleIndex d items =
     (case List.find (\<lambda>i. isInView d (items ! i)) (rev [0..<length items]) of
        Some i \<Rightarrow> int i | None \<Rightarrow> int (length items) - 1)"

definition getButtonBar :: "dom \<Rightarrow> node \<Rightarrow> node option" where
  "getButtonBar d item =
     (if has_class d item postParent \<or> has_class d item ''m-postContext__postView''
      then querySelector d item
             (Child (Child (Child IsScope (Cls ''m-postView'')) (Cls ''m-postView__body''))
                (Cls ''m-postView__buttonBar''))
      else querySelector d item
             (Child (Child (Child (Child (Child IsScope (Cls ''m-postContext''))
                (Cls ''m-postContext__postView'')) (Cls ''m-postView'')) (Cls ''m-postView__body''))
                (Cls ''m-postView__buttonBar'')))"

section \<open>The key handler\<close>

definition open_dialog_sel :: sel where
  "open_dialog_sel = SAnd (Tag ''DIALOG'') (HasAttr ''open'')"

definition tab_links :: "dom \<Rightarrow> node \<Rightarrow> node list" where
  "tab_links d tabs =
     querySelectorAll d tabs (SAnd (SAnd (Tag ''A'') (HasAttr ''href''))
       (SNot (Cls ''o-mainBarTimeline__back'')))"

text \<open>\<open>parseInt(key, 10)\<close> of a key that starts with a digit.\<close>

definition leading_int :: "jstr \<Rightarrow> nat" where
  "leading_int s = digits_value (takeWhile (\<lambda>c. 48 \<le> unat c \<and> unat c \<le> 57) s)"

definition tab_key :: "jstr \<Rightarrow> dom \<Rightarrow> effect list" where
  "tab_key k d =
     (case doc_querySelector d (Cls ''o-mainBarTimeline__tabs'') of
        None \<Rightarrow> []
      | Some tabs \<Rightarrow>
          (let links = tab_links d tabs; tabIdx = int (leading_int k) - 1
           in if tabIdx < int (length links) then [PreventDefault, Click (links ! nat tabIdx)] else []))"

definition press :: "string \<Rightarrow> node \<Rightarrow> dom \<Rightarrow> (node \<Rightarrow> bool) \<Rightarrow> effect list" where
  "press cls el d ok =
     (case getButtonBar d el of
        None \<Rightarrow> []
      | Some bar \<Rightarrow>
          (case querySelector d bar (Cls cls) of
             None \<Rightarrow> [] | Some btn \<Rightarrow> if ok btn then [Click btn] else []))"

definition move_key :: "bool \<Rightarrow> int \<Rightarrow> node list \<Rightarrow> nav \<Rightarrow> effect list \<times> nav" where
  "move_key down idx items s =
     (let away = (case selectedEl s of None \<Rightarrow> True | Some el \<Rightarrow> \<not> isInView (nav_dom s) el);
          r = (if idx < 0 \<or> away
               then selectItem (if down then firstVisibleIndex (nav_dom s) items
                                else lastVisibleIndex (nav_dom s) items) s
               else selectItem (if down then idx + 1 else idx - 1) s)
      in (PreventDefault # fst r, snd r))"

definition post_key :: "ui_event \<Rightarrow> nav \<Rightarrow> effect list \<times> nav" where
  "post_key e s0 =
     (let items = getItems (nav_dom s0); k = key e
      in if items = [] then ([], s0)
         else (let idx = fst (nav_selectedIndex s0); s = snd (nav_selectedIndex s0); d = nav_dom s
           in if k = js ''j'' \<or> k = js ''ArrowDown'' then move_key True idx items s
              else if k = js ''k'' \<or> k = js ''ArrowUp'' then move_key False idx items s
              else if k = js ''l'' \<or> k = js ''ArrowRight''
              then (PreventDefault # (case selectedEl s of None \<Rightarrow> []
                      | Some el \<Rightarrow> press ''m-postView__repliesButton'' el d
                                    (\<lambda>b. \<not> has_class d b ''u-hidden'')), s)
              else if k = js ''Enter''
              then ((case selectedEl s of None \<Rightarrow> []
                     | Some el \<Rightarrow>
                         (case querySelector d el main_sel of None \<Rightarrow> []
                          | Some m \<Rightarrow> [PreventDefault,
                              Navigate (case attr (dat d m) ''data-href'' of None \<Rightarrow> [] | Some h \<Rightarrow> h)])), s)
              else if k = js ''r''
              then (PreventDefault # (case selectedEl s of None \<Rightarrow> []
                      | Some el \<Rightarrow> press ''m-postView__replyToButton'' el d (\<lambda>_. True)), s)
              else ([], s)))"

definition nav_keydown :: "ui_event \<Rightarrow> nav \<Rightarrow> effect list \<times> nav" where
  "nav_keydown e s =
     (let d = nav_dom s; k = key e
      in if isTextInputFocused d then ([], s)
         else if doc_querySelector d open_dialog_sel \<noteq> None then ([], s)
         else if js ''1'' \<le> k \<and> k \<le> js ''9'' then (tab_key k d, s)
         else if k = js ''q'' then ([PreventDefault, Navigate (js ''/'')], s)
         else if k = js ''h'' \<or> k = js ''ArrowLeft'' then ([PreventDefault, HistoryBack], s)
         else if k = js ''n''
         then (case getElementById d (js ''new-post-content'') of
                 None \<Rightarrow> ([], s)
               | Some t \<Rightarrow> ([PreventDefault], s\<lparr>nav_dom := focus t d\<rparr>))
         else post_key e s)"

definition nav_click :: "ui_event \<Rightarrow> nav \<Rightarrow> nav" where
  "nav_click e s = (if closest (nav_dom s) NAV_SELECTOR (target e) = None then clearSelection s else s)"

definition nav_focusin :: "nav \<Rightarrow> nav" where
  "nav_focusin s = (if isTextInputFocused (nav_dom s) then clearSelection s else s)"

definition nav_mousemove :: "nav \<Rightarrow> nav" where
  "nav_mousemove s = s\<lparr>nav_dom := remove_class (body (nav_dom s)) ''-keyboard-nav'' (nav_dom s)\<rparr>"

text \<open>The restoration of the saved selection when the script starts.\<close>

definition restore :: "nav \<Rightarrow> effect list \<times> nav" where
  "restore s =
     (case selectedHref s of
        None \<Rightarrow> ([], s)
      | Some h \<Rightarrow>
          if h = [] then ([], s)
          else (case List.find (\<lambda>i. getItemHref (nav_dom s) (getItems (nav_dom s) ! i) = Some h)
                       [0..<length (getItems (nav_dom s))] of
                  None \<Rightarrow> ([], s)
                | Some i \<Rightarrow> selectItem (int i) s))"

section \<open>The block and the rest of the page\<close>

text \<open>
  The listeners of the block, one event at a time. Beside them the rest of the page changes the document
  under the block's feet (AJAX swaps, morphing, other scripts, the browser's layout and scrolling). The
  laws of such a change do not speak of the selection. No other code writes the class of the
  highlight, though a morph may take it away. A highlighted element that was taken out of the document
  does not come back. A navigable item that stays in the document stays navigable.
\<close>

datatype nav_event =
    NavKey ui_event
  | NavClick ui_event
  | NavFocusin
  | NavMousemove

fun nav_step :: "nav \<Rightarrow> nav_event \<Rightarrow> nav" where
  "nav_step s (NavKey e) = snd (nav_keydown e s)"
| "nav_step s (NavClick e) = nav_click e s"
| "nav_step s NavFocusin = nav_focusin s"
| "nav_step s NavMousemove = nav_mousemove s"

definition page_change :: "dom \<Rightarrow> dom \<Rightarrow> bool" where
  "page_change d d' \<longleftrightarrow>
     (\<forall>x. has_class d' x SELECTED_CLASS \<longrightarrow> has_class d x SELECTED_CLASS) \<and>
     (\<forall>x. isConnected d' x \<and> has_class d' x SELECTED_CLASS \<longrightarrow> isConnected d x) \<and>
     (\<forall>x. x \<in> set (getItems d) \<and> isConnected d' x \<longrightarrow> x \<in> set (getItems d'))"

inductive nav_move :: "nav \<Rightarrow> nav \<Rightarrow> bool" where
  listener: "nav_move s (nav_step s e)"
| page: "page_change (nav_dom s) d' \<Longrightarrow> nav_move s (s\<lparr>nav_dom := d'\<rparr>)"

definition highlighted :: "dom \<Rightarrow> node list" where
  "highlighted d = filter (\<lambda>x. has_class d x SELECTED_CLASS) (preorder (doc d))"

text \<open>The script starts on a page without a highlight and restores the saved selection.\<close>

definition nav_start :: "nav \<Rightarrow> bool" where
  "nav_start s \<longleftrightarrow>
     (\<exists>s0. highlighted (nav_dom s0) = [] \<and> selectedEl s0 = None \<and> s = snd (restore s0))"

text \<open>The navigable element that is selected, as a set, and the invariant: at most it is highlighted.\<close>

definition current_item :: "nav \<Rightarrow> node set" where
  "current_item s =
     (case selectedEl s of None \<Rightarrow> {} | Some el \<Rightarrow> {el} \<inter> set (getItems (nav_dom s)))"

definition nav_inv :: "nav \<Rightarrow> bool" where
  "nav_inv s \<longleftrightarrow> set (highlighted (nav_dom s)) \<subseteq> current_item s"

section \<open>Laws\<close>

lemma nav_sel_reads [simp]:
  "sel_classes NAV_SELECTOR = [postParent, postParent, ''m-postContext__postView'', timelineItem,
     ''-preview'', postParent, ''o-postOverview__repliesItem'']"
  "sel_attrs NAV_SELECTOR = []" "sel_checked NAV_SELECTOR = False"
  by (simp_all add: NAV_SELECTOR_def)

lemma getItems_agree: "agree_for NAV_SELECTOR d e \<Longrightarrow> getItems d = getItems e"
  by (simp add: getItems_def queries_agree(1))

lemma getItems_marks [simp]:
  "getItems (add_class x SELECTED_CLASS d) = getItems d"
  "getItems (remove_class x SELECTED_CLASS d) = getItems d"
  "getItems (add_class x ''-keyboard-nav'' d) = getItems d"
  "getItems (remove_class x ''-keyboard-nav'' d) = getItems d"
  "getItems (add_class x ''-expanded'' d) = getItems d"
  "getItems (focus x d) = getItems d"
  by (rule getItems_agree; simp)+

lemma getItems_expand [simp]: "getItems (expand_parent el d) = getItems d"
  by (simp add: expand_parent_def)

lemma getItems_connected: "x \<in> set (getItems d) \<Longrightarrow> isConnected d x"
  by (simp add: getItems_def doc_querySelectorAll_connected)

lemma set_highlighted: "x \<in> set (highlighted d) \<longleftrightarrow> isConnected d x \<and> has_class d x SELECTED_CLASS"
  by (auto simp: highlighted_def isConnected_def)

lemma highlighted_Nil: "highlighted d = [] \<longleftrightarrow> (\<forall>x. isConnected d x \<longrightarrow> \<not> has_class d x SELECTED_CLASS)"
  using set_highlighted [of _ d] by (metis empty_iff list.set(1) list.set_sel(1))

lemma connected_ops [simp]:
  "isConnected (add_class x c d) = isConnected d" "isConnected (remove_class x c d) = isConnected d"
  "isConnected (expand_parent x d) = isConnected d"
  by (simp_all add: add_class_def remove_class_def expand_parent_def)

lemma has_class_expand:
  "c \<noteq> ''-expanded'' \<Longrightarrow> has_class (expand_parent x d) y c = has_class d y c"
  by (simp add: expand_parent_def class_simps)

lemma clamp_less: "n > 0 \<Longrightarrow> clamp i n < n"
  by (auto simp: clamp_def)

subsection \<open>The selection mark\<close>

lemma clear_forgets [simp]: "selectedEl (clearSelection s) = None"
  by (simp add: clearSelection_def saveSelection_def split: option.split)

lemma clear_frame [simp]:
  "getItems (nav_dom (clearSelection s)) = getItems (nav_dom s)"
  "isConnected (nav_dom (clearSelection s)) = isConnected (nav_dom s)"
  by (simp_all add: clearSelection_def saveSelection_def split: option.split)

lemma clear_highlight: "nav_inv s \<Longrightarrow> highlighted (nav_dom (clearSelection s)) = []"
  by (auto simp: nav_inv_def current_item_def clearSelection_def saveSelection_def highlighted_Nil
      set_highlighted class_simps subset_iff split: option.splits)

text \<open>What \<open>selectItem\<close> selects, and that it is the only highlighted element then.\<close>

lemma selectItem_selects:
  assumes "getItems (nav_dom s) \<noteq> []"
  shows "selectedEl (snd (selectItem i s)) =
      Some (getItems (nav_dom s) ! clamp i (length (getItems (nav_dom s))))"
    and "getItems (nav_dom (snd (selectItem i s))) = getItems (nav_dom s)"
  using assms by (simp_all add: selectItem_def Let_def saveSelection_def)

lemma select_highlight:
  assumes "nav_inv s" "getItems (nav_dom s) \<noteq> []"
  shows "set (highlighted (nav_dom (snd (selectItem i s)))) =
    {getItems (nav_dom s) ! clamp i (length (getItems (nav_dom s)))}"
proof -
  define el where "el = getItems (nav_dom s) ! clamp i (length (getItems (nav_dom s)))"
  have el: "isConnected (nav_dom s) el"
    using assms(2) by (intro getItems_connected) (simp add: el_def clamp_less)
  from clear_highlight [OF assms(1)]
  have "\<not> has_class (nav_dom (clearSelection s)) x SELECTED_CLASS" if "isConnected (nav_dom s) x" for x
    using that by (simp add: highlighted_Nil)
  with el assms(2) show ?thesis
    by (auto simp: selectItem_def Let_def saveSelection_def set_highlighted has_class_expand class_simps
        simp flip: el_def)
qed

lemma select_current:
  "getItems (nav_dom s) \<noteq> [] \<Longrightarrow> current_item (snd (selectItem i s)) =
     {getItems (nav_dom s) ! clamp i (length (getItems (nav_dom s)))}"
  by (simp add: current_item_def selectItem_selects clamp_less)

text \<open>
  A listener either leaves the highlight and the selected item as they are, or makes the selected item
  the highlighted one.
\<close>

lemma index_current:
  "nav_dom (snd (nav_selectedIndex s)) = nav_dom s" "current_item (snd (nav_selectedIndex s)) = current_item s"
proof -
  have out: "index_of x ys = None \<longleftrightarrow> x \<notin> set ys" for x and ys :: "node list"
    by (induction ys) auto
  show "nav_dom (snd (nav_selectedIndex s)) = nav_dom s"
    "current_item (snd (nav_selectedIndex s)) = current_item s"
    by (auto simp: nav_selectedIndex_def current_item_def out split: option.splits)
qed

definition undisturbed :: "nav \<Rightarrow> nav \<Rightarrow> bool" where
  "undisturbed s t \<longleftrightarrow>
     set (highlighted (nav_dom t)) = current_item t \<or>
     set (highlighted (nav_dom t)) = set (highlighted (nav_dom s)) \<and> current_item t = current_item s"

lemma undisturbed_refl [simp]: "undisturbed s s"
  by (simp add: undisturbed_def)

lemma clear_undisturbed: "nav_inv s \<Longrightarrow> undisturbed s (clearSelection s)"
  by (simp add: undisturbed_def clear_highlight current_item_def)

lemma select_undisturbed:
  assumes "nav_inv s"
  shows "undisturbed s (snd (selectItem i s))"
proof (cases "getItems (nav_dom s) = []")
  case True
  then show ?thesis by (simp add: selectItem_def)
next
  case False
  then show ?thesis using assms by (simp add: undisturbed_def select_highlight select_current)
qed

lemma post_key_undisturbed:
  assumes "nav_inv s"
  shows "undisturbed s (snd (post_key e s))"
proof -
  let ?t = "snd (nav_selectedIndex s)"
  have t: "nav_inv ?t" using assms by (simp add: nav_inv_def index_current)
  have u: "undisturbed s ?t" by (simp add: undisturbed_def index_current)
  have "undisturbed s (snd (selectItem i ?t))" for i
    using select_undisturbed [OF t, of i] by (simp add: undisturbed_def index_current)
  with u show ?thesis by (simp add: post_key_def move_key_def Let_def)
qed

lemma nav_step_undisturbed:
  assumes inv: "nav_inv s"
  shows "undisturbed s (nav_step s e)"
proof -
  have "set (highlighted (focus x (nav_dom s))) = set (highlighted (nav_dom s))"
    "set (highlighted (remove_class x ''-keyboard-nav'' (nav_dom s))) = set (highlighted (nav_dom s))" for x
    by (auto simp: set_highlighted class_simps)
  then have frame: "undisturbed s (s\<lparr>nav_dom := focus x (nav_dom s)\<rparr>)" "undisturbed s (nav_mousemove s)" for x
    by (simp_all add: undisturbed_def nav_mousemove_def current_item_def split: option.split)
  show ?thesis
  proof (cases e)
    case (NavKey k)
    show ?thesis
      using post_key_undisturbed [OF inv, of k] frame(1)
      by (simp add: NavKey nav_keydown_def Let_def split: option.split)
  qed (use clear_undisturbed [OF inv] frame in \<open>simp_all add: nav_click_def nav_focusin_def\<close>)
qed

interpretation navigation: transition_system nav_start nav_move nav_inv
proof
  fix s
  assume "nav_start s"
  then obtain s0 where s0: "highlighted (nav_dom s0) = []" "selectedEl s0 = None" "s = snd (restore s0)"
    by (auto simp: nav_start_def)
  then have i: "nav_inv s0" by (simp add: nav_inv_def)
  then have "nav_inv (snd (selectItem i s0))" for i
    using select_highlight [OF i] select_current [of s0] by (cases "getItems (nav_dom s0) = []")
      (auto simp: nav_inv_def selectItem_def)
  with i s0(3) show "nav_inv s" by (auto simp: restore_def split: option.splits)
next
  fix s t
  assume inv: "nav_inv s" and "nav_move s t"
  from this(2) show "nav_inv t"
  proof cases
    case (listener e)
    with nav_step_undisturbed [OF inv, of e] inv show ?thesis by (auto simp: nav_inv_def undisturbed_def)
  next
    case (page d')
    with inv show ?thesis
      by (auto simp: nav_inv_def page_change_def current_item_def set_highlighted subset_iff split: option.splits)
  qed
qed

subsection \<open>Moving\<close>

text \<open>The handler's guards, and what a selection keeps of what they read.\<close>

definition quiet_page :: "dom \<Rightarrow> bool" where
  "quiet_page d \<longleftrightarrow> \<not> isTextInputFocused d \<and> doc_querySelector d open_dialog_sel = None"

lemma open_dialog_reads [simp]:
  "sel_classes open_dialog_sel = []" "sel_attrs open_dialog_sel = [''open'']"
  "sel_checked open_dialog_sel = False"
  by (simp_all add: open_dialog_sel_def)

lemma focused_class_ops [simp]:
  "isTextInputFocused (add_class x c d) = isTextInputFocused d"
  "isTextInputFocused (remove_class x c d) = isTextInputFocused d"
  by (auto simp: isTextInputFocused_def activeElementDeep_def add_class_def remove_class_def dat_upd
      split: option.split)

lemma quiet_class_ops [simp]:
  "quiet_page (add_class x c d) = quiet_page d" "quiet_page (remove_class x c d) = quiet_page d"
  by (simp_all add: quiet_page_def queries_agree(3) [of open_dialog_sel "add_class x c d" d]
      queries_agree(3) [of open_dialog_sel "remove_class x c d" d])

lemma isInView_class_ops [simp]:
  "isInView (add_class x c d) y = isInView d y" "isInView (remove_class x c d) y = isInView d y"
  by (simp_all add: isInView_def add_class_def remove_class_def)

lemma doc_class_ops [simp]: "doc (add_class x c d) = doc d" "doc (remove_class x c d) = doc d"
  by (simp_all add: add_class_def remove_class_def)

lemma select_keeps:
  "quiet_page (nav_dom (snd (selectItem i s))) = quiet_page (nav_dom s)"
  "isInView (nav_dom (snd (selectItem i s))) y = isInView (nav_dom s) y"
  "doc (nav_dom (snd (selectItem i s))) = doc (nav_dom s)"
  by (auto simp: selectItem_def Let_def clearSelection_def saveSelection_def expand_parent_def
      split: option.split)

lemma index_of_nth: "distinct xs \<Longrightarrow> i < length xs \<Longrightarrow> index_of (xs ! i) xs = Some i"
proof (induction xs arbitrary: i)
  case (Cons x xs)
  then show ?case by (cases i) auto
qed simp

lemma digit_keys [simp]:
  "\<not> k \<le> js ''9''" if "k \<in> {js ''j'', js ''k''}"
  using that by (auto simp: js_def chr16_def)

text \<open>A press of \<open>e\<close> selects the element \<open>el\<close> and asks the browser to scroll to it.\<close>

definition moves_to :: "ui_event \<Rightarrow> nav \<Rightarrow> node \<Rightarrow> bool" where
  "moves_to e s el \<longleftrightarrow>
     selectedEl (snd (nav_keydown e s)) = Some el \<and>
     fst (nav_keydown e s) = [PreventDefault, scroll_effect (nav_dom (snd (nav_keydown e s))) el]"

text \<open>The browser lays the page out anew and scrolls it: every rectangle may change.\<close>

definition relayout :: "nav \<Rightarrow> nav \<Rightarrow> bool" where
  "relayout s t \<longleftrightarrow> (\<exists>rs sc. t = s\<lparr>nav_dom := (nav_dom s)\<lparr>rects := rs, scrollTop := sc\<rparr>\<rparr>)"

definition first_in_view :: "dom \<Rightarrow> node list \<Rightarrow> nat \<Rightarrow> bool" where
  "first_in_view d items n \<longleftrightarrow>
     n < length items \<and> isInView d (items ! n) \<and> list_all (\<lambda>x. \<not> isInView d x) (take n items) \<or>
     n = 0 \<and> list_all (\<lambda>x. \<not> isInView d x) items"

definition last_in_view :: "dom \<Rightarrow> node list \<Rightarrow> nat \<Rightarrow> bool" where
  "last_in_view d items n \<longleftrightarrow>
     n < length items \<and> isInView d (items ! n) \<and> list_all (\<lambda>x. \<not> isInView d x) (drop (n + 1) items) \<or>
     n = length items - 1 \<and> list_all (\<lambda>x. \<not> isInView d x) items"

lemma firstVisibleIndex_spec: "items \<noteq> [] \<Longrightarrow>
    \<exists>n. firstVisibleIndex d items = int n \<and> n < length items \<and> first_in_view d items n"
  by (auto simp: firstVisibleIndex_def first_in_view_def find_Some_iff find_None_iff list_all_length
      in_set_conv_nth split: option.splits)

lemma lastVisibleIndex_spec:
  assumes "items \<noteq> []"
  shows "\<exists>n. lastVisibleIndex d items = int n \<and> n < length items \<and> last_in_view d items n"
proof (cases "List.find (\<lambda>i. isInView d (items ! i)) (rev [0..<length items])")
  case None
  then have "lastVisibleIndex d items = int (length items - 1)"
    using assms by (simp add: lastVisibleIndex_def of_nat_diff Suc_leI)
  with None assms show ?thesis
    by (auto simp: last_in_view_def find_None_iff list_all_length)
next
  case (Some n)
  then obtain k where k: "k < length items" "isInView d (items ! n)" "n = length items - Suc k"
    "\<And>j. j < k \<Longrightarrow> \<not> isInView d (items ! (length items - Suc j))"
    by (auto simp: find_Some_iff rev_nth)
  have "\<not> isInView d (items ! m)" if "n < m" "m < length items" for m
    using k(4) [of "length items - Suc m"] that k(1,3) by (simp add: Suc_diff_Suc)
  then have "last_in_view d items n"
    using k by (auto simp: last_in_view_def list_all_length)
  moreover have "lastVisibleIndex d items = int n" using Some by (simp add: lastVisibleIndex_def)
  moreover have "n < length items" using k by simp
  ultimately show ?thesis by blast
qed

lemma selectItem_scrolls:
  "getItems (nav_dom s) \<noteq> [] \<Longrightarrow> fst (selectItem n s) =
     [scroll_effect (nav_dom (snd (selectItem n s))) (getItems (nav_dom s) ! clamp n (length (getItems (nav_dom s))))]"
  by (simp add: selectItem_def Let_def saveSelection_def)

text \<open>One press on the selected item.\<close>

lemma nav_keydown_select:
  assumes page: "quiet_page (nav_dom s)" "distinct (preorder (doc (nav_dom s)))"
    and sel: "getItems (nav_dom s) = items" "i < length items" "selectedEl s = Some (items ! i)"
  shows "key e = js ''j'' \<Longrightarrow>
      (let r = selectItem (if isInView (nav_dom s) (items ! i) then int i + 1
                           else firstVisibleIndex (nav_dom s) items) s
       in nav_keydown e s = (PreventDefault # fst r, snd r))"
    and "key e = js ''k'' \<Longrightarrow>
      (let r = selectItem (if isInView (nav_dom s) (items ! i) then int i - 1
                           else lastVisibleIndex (nav_dom s) items) s
       in nav_keydown e s = (PreventDefault # fst r, snd r))"
proof -
  have "distinct items" using page(2) sel(1) by (auto simp: getItems_def)
  then have idx: "nav_selectedIndex s = (int i, s)"
    using sel by (simp add: nav_selectedIndex_def index_of_nth)
  have ne: "items \<noteq> []" using sel by auto
  show "key e = js ''j'' \<Longrightarrow>
      (let r = selectItem (if isInView (nav_dom s) (items ! i) then int i + 1
                           else firstVisibleIndex (nav_dom s) items) s
       in nav_keydown e s = (PreventDefault # fst r, snd r))"
    and "key e = js ''k'' \<Longrightarrow>
      (let r = selectItem (if isInView (nav_dom s) (items ! i) then int i - 1
                           else lastVisibleIndex (nav_dom s) items) s
       in nav_keydown e s = (PreventDefault # fst r, snd r))"
    using page(1) sel idx ne
    by (simp_all add: nav_keydown_def Let_def quiet_page_def post_key_def move_key_def)
qed

lemma nav_keydown_move:
  assumes "quiet_page (nav_dom s)" "distinct (preorder (doc (nav_dom s)))"
    and "getItems (nav_dom s) = items" "i < length items" "selectedEl s = Some (items ! i)"
  shows "key e = js ''j'' \<Longrightarrow> moves_to e s (items ! clamp
      (if isInView (nav_dom s) (items ! i) then int i + 1 else firstVisibleIndex (nav_dom s) items) (length items))"
    and "key e = js ''k'' \<Longrightarrow> moves_to e s (items ! clamp
      (if isInView (nav_dom s) (items ! i) then int i - 1 else lastVisibleIndex (nav_dom s) items) (length items))"
proof -
  have ne: "getItems (nav_dom s) \<noteq> []" using assms(3,4) by auto
  have r: "moves_to e s (items ! clamp n (length items))"
    if "let r = selectItem n s in nav_keydown e s = (PreventDefault # fst r, snd r)" for n
    using that selectItem_selects(1) [OF ne] selectItem_scrolls [OF ne] assms(3)
    by (simp add: moves_to_def Let_def)
  show "key e = js ''j'' \<Longrightarrow> moves_to e s (items ! clamp
      (if isInView (nav_dom s) (items ! i) then int i + 1 else firstVisibleIndex (nav_dom s) items) (length items))"
    and "key e = js ''k'' \<Longrightarrow> moves_to e s (items ! clamp
      (if isInView (nav_dom s) (items ! i) then int i - 1 else lastVisibleIndex (nav_dom s) items) (length items))"
    by (rule r, rule nav_keydown_select [OF assms], assumption)+
qed

lemma clamp_step:
  "i < n \<Longrightarrow> clamp (int i + 1) n = min (i + 1) (n - 1)" "i < n \<Longrightarrow> clamp (int i - 1) n = i - 1"
  "i < n \<Longrightarrow> clamp (int i) n = i"
  by (auto simp: clamp_def min_def nat_diff_distrib')

lemma walk_in_view:
  assumes "quiet_page (nav_dom s)" "distinct (preorder (doc (nav_dom s)))"
    and "getItems (nav_dom s) = items" "i < length items" "selectedEl s = Some (items ! i)"
    and "isInView (nav_dom s) (items ! i)"
  shows "key e = js ''j'' \<Longrightarrow> moves_to e s (items ! min (i + 1) (length items - 1))"
    and "key e = js ''k'' \<Longrightarrow> moves_to e s (items ! (i - 1))"
  using nav_keydown_move [OF assms(1-5), of e] assms(4,6) by (simp_all add: clamp_step)

lemma walk_out_of_view:
  assumes "quiet_page (nav_dom s)" "distinct (preorder (doc (nav_dom s)))"
    and "getItems (nav_dom s) = items" "i < length items" "selectedEl s = Some (items ! i)"
    and "\<not> isInView (nav_dom s) (items ! i)"
  shows "key e = js ''j'' \<Longrightarrow> \<exists>n. first_in_view (nav_dom s) items n \<and> moves_to e s (items ! n)"
    and "key e = js ''k'' \<Longrightarrow> \<exists>n. last_in_view (nav_dom s) items n \<and> moves_to e s (items ! n)"
proof -
  have ne: "items \<noteq> []" using assms(4) by auto
  show "\<exists>n. first_in_view (nav_dom s) items n \<and> moves_to e s (items ! n)" if "key e = js ''j''"
    using nav_keydown_move(1) [OF assms(1-5) that] firstVisibleIndex_spec [OF ne, of "nav_dom s"] assms(6)
    by (auto simp: clamp_step)
  show "\<exists>n. last_in_view (nav_dom s) items n \<and> moves_to e s (items ! n)" if "key e = js ''k''"
    using nav_keydown_move(2) [OF assms(1-5) that] lastVisibleIndex_spec [OF ne, of "nav_dom s"] assms(6)
    by (auto simp: clamp_step)
qed

lemma relayout_keeps:
  assumes "relayout s t"
  shows "quiet_page (nav_dom t) = quiet_page (nav_dom s)" "getItems (nav_dom t) = getItems (nav_dom s)"
    "doc (nav_dom t) = doc (nav_dom s)" "selectedEl t = selectedEl s"
proof -
  obtain rs sc where t: "t = s\<lparr>nav_dom := (nav_dom s)\<lparr>rects := rs, scrollTop := sc\<rparr>\<rparr>"
    using assms by (auto simp: relayout_def)
  have a: "agree cs as chk (nav_dom t) (nav_dom s)" for cs as chk
    by (simp add: t agree_def has_class_def)
  have "isTextInputFocused (nav_dom t) = isTextInputFocused (nav_dom s)"
    by (simp add: t isTextInputFocused_def activeElementDeep_def split: option.split)
  then show "quiet_page (nav_dom t) = quiet_page (nav_dom s)"
    by (simp add: quiet_page_def queries_agree(3) [OF a])
  show "getItems (nav_dom t) = getItems (nav_dom s)" by (rule getItems_agree [OF a])
  show "doc (nav_dom t) = doc (nav_dom s)" "selectedEl t = selectedEl s" by (simp_all add: t)
qed

lemma relayout_page_change:
  assumes "relayout s t"
  shows "nav_move s t"
proof -
  obtain rs sc where t: "t = s\<lparr>nav_dom := (nav_dom s)\<lparr>rects := rs, scrollTop := sc\<rparr>\<rparr>"
    using assms by (auto simp: relayout_def)
  have "page_change (nav_dom s) (nav_dom t)"
    using relayout_keeps(2) [OF assms] by (auto simp: page_change_def t has_class_def isConnected_def)
  then show ?thesis using nav_move.page [of s "nav_dom t"] by (simp add: t)
qed

text \<open>After a press and the scrolling, the situation is the one before with the new item selected.\<close>

lemma press_keeps:
  assumes "quiet_page (nav_dom s)" "distinct (preorder (doc (nav_dom s)))" "getItems (nav_dom s) = items"
    "selectedEl s = Some (items ! i)" "i < length items"
    and "key e \<in> {js ''j'', js ''k''}" "relayout (snd (nav_keydown e s)) t"
  shows "quiet_page (nav_dom t)" "distinct (preorder (doc (nav_dom t)))" "getItems (nav_dom t) = items"
    "selectedEl t = selectedEl (snd (nav_keydown e s))"
proof -
  obtain n where n: "snd (nav_keydown e s) = snd (selectItem n s)"
    using nav_keydown_select [OF assms(1-3,5,4), of e] assms(6) unfolding Let_def
    by (metis insertE singletonD snd_conv)
  have "getItems (nav_dom s) \<noteq> []" using assms by auto
  then show "quiet_page (nav_dom t)" "distinct (preorder (doc (nav_dom t)))" "getItems (nav_dom t) = items"
    "selectedEl t = selectedEl (snd (nav_keydown e s))"
    using relayout_keeps [OF assms(7)] assms(1-3) by (simp_all add: n select_keeps selectItem_selects)
qed

subsection \<open>The saved selection\<close>

lemma getItemHref_class_ops:
  "c \<noteq> ''m-postView__main'' \<Longrightarrow> getItemHref (add_class x c d) y = getItemHref d y"
  "c \<noteq> ''m-postView__main'' \<Longrightarrow> getItemHref (remove_class x c d) y = getItemHref d y"
proof -
  have a: "attr (dat (add_class x c d) z) = attr (dat d z)"
    "attr (dat (remove_class x c d) z) = attr (dat d z)" for z
    by (auto simp: add_class_def remove_class_def dat_upd)
  show "c \<noteq> ''m-postView__main'' \<Longrightarrow> getItemHref (add_class x c d) y = getItemHref d y"
    "c \<noteq> ''m-postView__main'' \<Longrightarrow> getItemHref (remove_class x c d) y = getItemHref d y"
    by (simp_all add: getItemHref_def a main_sel_def
        queries_agree(4) [of "SAnd (Cls ''m-postView__main'') (HasAttr ''data-href'')" "add_class x c d" d]
        queries_agree(4) [of "SAnd (Cls ''m-postView__main'') (HasAttr ''data-href'')" "remove_class x c d" d])
qed

lemma select_hrefs: "getItemHref (nav_dom (snd (selectItem i s))) = getItemHref (nav_dom s)"
  by (rule ext) (auto simp: selectItem_def Let_def clearSelection_def saveSelection_def
      expand_parent_def getItemHref_class_ops split: option.split)

lemma select_saves:
  assumes "getItems (nav_dom s) \<noteq> []"
  shows "selectedHref (snd (selectItem i s)) =
    getItemHref (nav_dom s) (getItems (nav_dom s) ! clamp i (length (getItems (nav_dom s))))"
proof -
  have "selectedHref (snd (selectItem i s)) = Option.bind (selectedEl (snd (selectItem i s)))
      (getItemHref (nav_dom (snd (selectItem i s))))"
    using assms by (simp add: selectItem_def Let_def saveSelection_def)
  then show ?thesis by (simp add: select_hrefs selectItem_selects assms)
qed

section \<open>Properties\<close>

text \<open>A page with three replies, each with its post, for the witnesses.\<close>

definition reply_page :: nav where
  "reply_page =
     (let post = (new_element ''DIV'')\<lparr>classList := [''o-postOverview__repliesItem'']\<rparr>;
          main = (\<lambda>h. (new_element ''DIV'')\<lparr>classList := [''m-postView__main''],
                        attr := [''data-href'' \<mapsto> js h]\<rparr>)
      in \<lparr>nav_dom = mk_dom (Node 0 [Node 2 [Node 3 []], Node 4 [Node 5 []], Node 6 [Node 7 []]])
            [(2, post), (3, main ''/a''), (4, post), (5, main ''/b''), (6, post), (7, main ''/c'')],
          selectedEl = None, selectedHref = None\<rparr>)"

lemma reply_page_facts:
  "getItems (nav_dom reply_page) = [2, 4, 6]" "highlighted (nav_dom reply_page) = []"
  "selectedEl reply_page = None" "quiet_page (nav_dom reply_page)"
  "isInView (nav_dom reply_page) 2" "isInView (nav_dom reply_page) 4"
  "distinct (preorder (doc (nav_dom reply_page)))"
  "getItemHref (nav_dom reply_page) 2 = Some (js ''/a'')"
  "getItemHref (nav_dom reply_page) 4 = Some (js ''/b'')"
  "getItemHref (nav_dom reply_page) 6 = Some (js ''/c'')"
  by (simp_all add: reply_page_def getItems_def NAV_SELECTOR_def highlighted_def dom_eval
      preceding_siblings_def quiet_page_def isTextInputFocused_def activeElementDeep_def
      open_dialog_sel_def isInView_def getItemHref_def main_sel_def Let_def)

text \<open>
  C20: The highlight is unique and is the selection. Start the script on a page with no highlighted
  post, restore the saved selection, and let the listeners run and the rest of the page change the
  document in any order, under the laws of \<open>page_change\<close>. In every state that is reached, a highlighted
  element of the document is the selected element, and one of the navigable items, so there is at most
  one. Selecting an item from there highlights this item and nothing else; clearing the selection leaves
  no highlight. Only a page change that drops the class can take the highlight from the selected item:
  every listener keeps the selected item highlighted.
\<close>

theorem highlight_is_selection:
  assumes "reachable nav_start nav_move s"
  shows "set (highlighted (nav_dom s)) \<subseteq>
      (case selectedEl s of None \<Rightarrow> {} | Some el \<Rightarrow> {el} \<inter> set (getItems (nav_dom s))) \<and>
    (getItems (nav_dom s) \<noteq> [] \<longrightarrow>
      (let el = getItems (nav_dom s) ! clamp i (length (getItems (nav_dom s))); t = snd (selectItem i s)
       in selectedEl t = Some el \<and> set (highlighted (nav_dom t)) = {el})) \<and>
    selectedEl (clearSelection s) = None \<and> highlighted (nav_dom (clearSelection s)) = [] \<and>
    (set (highlighted (nav_dom s)) = current_item s \<longrightarrow>
      set (highlighted (nav_dom (nav_step s e))) = current_item (nav_step s e))"
proof -
  have inv: "nav_inv s" using assms by (rule navigation.reachable_inv)
  then show ?thesis
    using clear_highlight [OF inv] select_highlight [OF inv] nav_step_undisturbed [OF inv, of e]
    unfolding nav_inv_def current_item_def [of s, symmetric] undisturbed_def Let_def
    by (simp add: selectItem_selects) blast
qed

theorem highlight_is_selection_witness:
  "\<exists>s. reachable nav_start nav_move s \<and> selectedEl s = Some 2 \<and>
     set (highlighted (nav_dom (snd (selectItem 1 s)))) = {4} \<and>
     highlighted (nav_dom (clearSelection s)) = []"
proof -
  let ?s = "snd (nav_keydown (plain_event\<lparr>key := js ''j''\<rparr>) reply_page)"
  have r0: "snd (restore reply_page) = reply_page" by (simp add: restore_def reply_page_def Let_def)
  have "reachable nav_start nav_move reply_page"
    by (rule reachable.start) (auto simp: nav_start_def reply_page_facts intro!: exI [of _ reply_page] r0 [symmetric])
  then have r: "reachable nav_start nav_move ?s"
    by (rule reachable.move) (use nav_move.listener [of reply_page "NavKey (plain_event\<lparr>key := js ''j''\<rparr>)"] in simp)
  have f: "firstVisibleIndex (nav_dom reply_page) [2, 4, 6] = 0"
    by (simp add: firstVisibleIndex_def reply_page_facts upt_rec)
  have k: "?s = snd (selectItem 0 reply_page)"
    using reply_page_facts(4)
    by (simp add: nav_keydown_def post_key_def move_key_def nav_selectedIndex_def quiet_page_def
        reply_page_facts Let_def f)
  have items: "getItems (nav_dom ?s) = [2, 4, 6]" "selectedEl ?s = Some 2"
    using selectItem_selects [of reply_page 0] by (simp_all add: k reply_page_facts clamp_def)
  show ?thesis
    using highlight_is_selection [OF r, of 1] r items
    by (intro exI [of _ ?s]) (simp add: items Let_def clamp_def)
qed

text \<open>
  C21: The keys j and k walk the items, with no text input focused and no dialog open. When item i is
  selected and in view, j selects item i + 1 (at the end the last item stays selected) and k item i - 1
  (the first stays), and the press asks the browser to scroll to the new item. The two keys undo each
  other in both directions: when the browser has laid out and scrolled the page anew, in whatever way,
  and the new item is in view, the opposite key is back on item i. When the selected item is out of
  view, j selects the first item in view (or the first item) and k the last one in view (or the last).
\<close>

theorem j_k_walk:
  assumes "quiet_page (nav_dom s)" "distinct (preorder (doc (nav_dom s)))"
    and "getItems (nav_dom s) = items" "i < length items" "selectedEl s = Some (items ! i)"
    and "key down = js ''j''" "key up = js ''k''"
  shows "if isInView (nav_dom s) (items ! i)
    then moves_to down s (items ! min (i + 1) (length items - 1)) \<and>
      moves_to up s (items ! (i - 1)) \<and>
      (\<forall>t. i + 1 < length items \<and> relayout (snd (nav_keydown down s)) t \<and> isInView (nav_dom t) (items ! (i + 1)) \<longrightarrow>
         moves_to up t (items ! i)) \<and>
      (\<forall>t. 0 < i \<and> relayout (snd (nav_keydown up s)) t \<and> isInView (nav_dom t) (items ! (i - 1)) \<longrightarrow>
         moves_to down t (items ! i))
    else (\<exists>n. first_in_view (nav_dom s) items n \<and> moves_to down s (items ! n)) \<and>
      (\<exists>n. last_in_view (nav_dom s) items n \<and> moves_to up s (items ! n))"
proof (cases "isInView (nav_dom s) (items ! i)")
  case True
  note walk = walk_in_view [OF assms(1-5) True]
  have again: "moves_to up t (items ! i)"
    if "i + 1 < length items" "relayout (snd (nav_keydown down s)) t" "isInView (nav_dom t) (items ! (i + 1))" for t
  proof -
    have "min (i + 1) (length items - 1) = i + 1" using that(1) by simp
    then show ?thesis
      using press_keeps [OF assms(1-3,5,4) _ that(2)] walk(1) [OF assms(6)] walk_in_view(2) [of t items "i + 1" up]
        that assms(6,7) by (simp add: moves_to_def)
  qed
  have forth: "moves_to down t (items ! i)"
    if "0 < i" "relayout (snd (nav_keydown up s)) t" "isInView (nav_dom t) (items ! (i - 1))" for t
  proof -
    have "min (i - 1 + 1) (length items - 1) = i" using that(1) assms(4) by simp
    then show ?thesis
      using press_keeps [OF assms(1-3,5,4) _ that(2)] walk(2) [OF assms(7)] walk_in_view(1) [of t items "i - 1" down]
        that assms(4,6,7) by (simp add: moves_to_def)
  qed
  show ?thesis using True walk assms(6,7) again forth by simp
next
  case False
  then show ?thesis using walk_out_of_view [OF assms(1-5) False] assms(6,7) by auto
qed

theorem j_k_walk_witness:
  "let s = reply_page\<lparr>selectedEl := Some 2\<rparr>; j = plain_event\<lparr>key := js ''j''\<rparr>; k = plain_event\<lparr>key := js ''k''\<rparr>
   in selectedEl (snd (nav_keydown j s)) = Some 4 \<and>
      selectedEl (snd (nav_keydown k (snd (nav_keydown j s)))) = Some 2"
proof -
  let ?s = "reply_page\<lparr>selectedEl := Some 2\<rparr>"
  let ?j = "plain_event\<lparr>key := js ''j''\<rparr>"
  let ?k = "plain_event\<lparr>key := js ''k''\<rparr>"
  have w: "moves_to ?j ?s 4 \<and>
      (\<forall>t. relayout (snd (nav_keydown ?j ?s)) t \<and> isInView (nav_dom t) 4 \<longrightarrow> moves_to ?k t 2)"
    using j_k_walk [where s = ?s and items = "[2, 4, 6]" and i = 0 and down = ?j and up = ?k]
    by (simp add: reply_page_facts)
  have "relayout (snd (nav_keydown ?j ?s)) (snd (nav_keydown ?j ?s))"
    unfolding relayout_def
    by (intro exI [of _ "rects (nav_dom (snd (nav_keydown ?j ?s)))"]
        exI [of _ "scrollTop (nav_dom (snd (nav_keydown ?j ?s)))"]) simp
  moreover have "isInView (nav_dom (snd (nav_keydown ?j ?s))) 4"
    using nav_keydown_select(1) [of ?s "[2, 4, 6]" 0 ?j]
    by (simp add: reply_page_facts Let_def select_keeps)
  ultimately show ?thesis using w by (simp add: moves_to_def Let_def)
qed

text \<open>
  Going back restores the selection. The link saved by a selection, read on a page with the same
  items and links, makes the restoration select the first item with that link; when no earlier item
  has it, that is the item that was selected.
\<close>

theorem restore_returns:
  assumes "getItems (nav_dom s) = items" "items \<noteq> []"
    and "getItemHref (nav_dom s) (items ! clamp i (length items)) = Some h" "h \<noteq> []"
    and "getItems (nav_dom s') = items" "getItemHref (nav_dom s') = getItemHref (nav_dom s)"
    and "selectedHref s' = selectedHref (snd (selectItem i s))"
    and "distinct (map (getItemHref (nav_dom s)) items)"
  shows "selectedEl (snd (restore s')) = selectedEl (snd (selectItem i s))"
proof -
  let ?c = "clamp i (length items)"
  have c: "?c < length items" using assms(2) by (simp add: clamp_less)
  have "List.find (\<lambda>j. getItemHref (nav_dom s) (items ! j) = Some h) [0..<length items] = Some ?c"
    unfolding find_Some_iff
  proof (intro exI [of _ ?c] conjI allI impI)
    fix j assume "j < ?c"
    with c assms(3) nth_eq_iff_index_eq [OF assms(8), of j ?c]
    show "getItemHref (nav_dom s) (items ! ([0..<length items] ! j)) \<noteq> Some h" by auto
  qed (use c assms(3) in auto)
  moreover have "clamp (int ?c) (length items) = ?c" using c by (simp add: clamp_def)
  ultimately show ?thesis
    using assms by (simp add: restore_def select_saves selectItem_selects)
qed

theorem restore_returns_witness:
  "selectedEl (snd (restore (reply_page\<lparr>selectedHref := selectedHref (snd (selectItem 1 reply_page))\<rparr>))) =
   selectedEl (snd (selectItem 1 reply_page))"
  by (rule restore_returns [where items = "[2, 4, 6]" and h = "js ''/b''"])
    (simp_all add: reply_page_facts clamp_def)

end
