(* ===== verification/MediaUpload.thy ===== *)
theory MediaUpload
  imports Dom JsValue
begin

text \<open>
  Uploading media in assets/app.js: \<open>uploadMediaFile\<close>, \<open>handleMediaPaste\<close>,
  \<open>previewMediaFileWhenDialogReady\<close> with its retry timer, \<open>previewMediaFile\<close> with the closures it
  installs on the dialog's buttons, and \<open>doMediaUpload\<close> with the listeners of its request.
  A click handler is either the inline code of the page or one of the two closures, which carry what
  they captured, the handlers they replaced among it.
\<close>

section \<open>State\<close>

record mfile =
  fname :: jstr
  ftype :: jstr

record preview_els =
  previewEl :: node
  titleEl :: node
  itemsEl :: "node option"
  uploadBtn :: node
  closeBtn :: node

datatype handler =
    Inline jstr
  | UploadClick preview
  | CancelClick preview
and preview =
    Preview (pvFile: mfile) (pvInput: "node option") (pvEls: preview_els) (origTitle: jstr)
      (origUploadClick: "handler option") (origCloseClick: "handler option") (blobUrl: nat)

record retry =
  rt_file :: mfile
  rt_target :: "jstr option"
  rt_attempts :: nat

record upload =
  up_file :: mfile
  up_input :: "node option"
  up_progress :: "node option"
  up_fill :: "node option"
  up_text :: "node option"

record media =
  md_dom :: dom
  onclick :: "node \<rightharpoonup> handler"
  blobs :: "nat list"
  nextBlob :: nat
  retries :: "retry list"
  uploads :: "upload list"
  notified :: "json list"

abbreviation on_dom :: "(dom \<Rightarrow> dom) \<Rightarrow> media \<Rightarrow> media" where
  "on_dom f s \<equiv> s\<lparr>md_dom := f (md_dom s)\<rparr>"

definition notify_error :: "json \<Rightarrow> media \<Rightarrow> media" where
  "notify_error m s = s\<lparr>notified := notified s @ [m]\<rparr>"

definition on_opt :: "(node \<Rightarrow> dom \<Rightarrow> dom) \<Rightarrow> node option \<Rightarrow> dom \<Rightarrow> dom" where
  "on_opt f x d = (case x of None \<Rightarrow> d | Some y \<Rightarrow> f y d)"

text \<open>Reading a property of an element that was not found raises.\<close>

definition need :: "node option \<Rightarrow> (node \<Rightarrow> media \<Rightarrow> media outcome) \<Rightarrow> media \<Rightarrow> media outcome" where
  "need x f s = (case x of None \<Rightarrow> Inl (TypeError, s) | Some y \<Rightarrow> f y s)"

section \<open>The upload request\<close>

definition clear_input :: "node \<Rightarrow> dom \<Rightarrow> dom" where
  "clear_input x = upd_field x (set_value [])"

definition doMediaUpload :: "node option \<Rightarrow> mfile \<Rightarrow> media \<Rightarrow> media" where
  "doMediaUpload inputEl file s =
     (let d = md_dom s;
          progressEl = getElementById d (js ''upload-progress'');
          fillEl = getElementById d (js ''upload-progress-fill'');
          textEl = getElementById d (js ''upload-progress-text'');
          d1 = on_opt (\<lambda>x. add_class x ''-active'') progressEl d;
          d2 = on_opt (\<lambda>x. set_style x ''width'' (js ''0%'')) fillEl d1;
          d3 = on_opt (\<lambda>x. set_text x (js ''0%'')) textEl d2
      in s\<lparr>md_dom := d3,
           uploads := uploads s @ [\<lparr>up_file = file, up_input = inputEl, up_progress = progressEl,
                                    up_fill = fillEl, up_text = textEl\<rparr>]\<rparr>)"

text \<open>
  \<open>Math.round((loaded / total) * 100)\<close>: \<open>fl\<close> is the rounding of the machine's arithmetic, applied
  to the quotient and to the product; the total of a computable length is positive.
\<close>

definition percent :: "(rat \<Rightarrow> rat) \<Rightarrow> nat \<Rightarrow> nat \<Rightarrow> nat" where
  "percent fl loaded tot = nat \<lfloor>fl (fl (of_nat loaded / of_nat tot) * 100) + 1 / 2\<rfloor>"

definition on_progress ::
    "(rat \<Rightarrow> rat) \<Rightarrow> upload \<Rightarrow> bool \<Rightarrow> nat \<Rightarrow> nat \<Rightarrow> media \<Rightarrow> media" where
  "on_progress fl u lengthComputable loaded tot s =
     (if lengthComputable
      then (let p = decimal (percent fl loaded tot) @ js ''%''
            in on_dom (on_opt (\<lambda>x. set_text x p) (up_text u) \<circ>
                       on_opt (\<lambda>x. set_style x ''width'' p) (up_fill u)) s)
      else s)"

definition settle_upload :: "upload \<Rightarrow> media \<Rightarrow> media" where
  "settle_upload u s =
     (on_dom (on_opt clear_input (up_input u) \<circ>
              on_opt (\<lambda>x. remove_class x ''-active'') (up_progress u)) s)
     \<lparr>uploads := remove1 u (uploads s)\<rparr>"

text \<open>
  The answer of the server: the scripts of a successful answer are run (\<open>scripts_of\<close> is the browser's
  reading of the answer as a template), the message of a failed one is reported.
\<close>

definition upload_message :: "json_parse \<Rightarrow> nat \<Rightarrow> jstr \<Rightarrow> json" where
  "upload_message parse status responseText =
     (let message = JStr (js ''Upload failed ('' @ decimal status @ js '')'')
      in case parse responseText of
           None \<Rightarrow> message
         | Some b \<Rightarrow>
             (case get_prop b (js ''message'') of None \<Rightarrow> message
              | Some m \<Rightarrow> if truthy m then m else message))"

definition on_load ::
    "json_parse \<Rightarrow> (jstr \<Rightarrow> jstr list) \<Rightarrow> upload \<Rightarrow> nat \<Rightarrow> jstr \<Rightarrow> media \<Rightarrow> effect list \<times> media" where
  "on_load parse scripts_of u status responseText s =
     (let s1 = settle_upload u s
      in if 200 \<le> status \<and> status < 300 then (map RunScript (scripts_of responseText), s1)
         else ([], notify_error (upload_message parse status responseText) s1))"

definition on_upload_error :: "upload \<Rightarrow> media \<Rightarrow> media" where
  "on_upload_error u s =
     notify_error (JStr (js ''Upload failed - network error'')) (settle_upload u s)"

section \<open>The preview\<close>

definition preview_node :: "jstr \<Rightarrow> (string \<times> string list) option" where
  "preview_node ty =
     (if startsWith ty (js ''image/'') then Some (''IMG'', [])
      else if startsWith ty (js ''video/'') then Some (''VIDEO'', [''controls'', ''muted''])
      else if startsWith ty (js ''audio/'') then Some (''AUDIO'', [''controls''])
      else None)"

definition fill_preview :: "(nat \<Rightarrow> jstr) \<Rightarrow> mfile \<Rightarrow> nat \<Rightarrow> node \<Rightarrow> dom \<Rightarrow> dom" where
  "fill_preview url file blob mediaEl d =
     (let d1 = clear_children mediaEl d
      in case preview_node (ftype file) of
           None \<Rightarrow> d1
         | Some (tg, props) \<Rightarrow>
             (let (x, d2) = createElement tg d1;
                  d3 = fold (\<lambda>p. set_attr x p []) props (set_attr x ''src'' (url blob) d2)
              in appendChild mediaEl x d3))"

definition lastChild :: "dom \<Rightarrow> node \<Rightarrow> node option" where
  "lastChild d x = (case childNodes d x of [] \<Rightarrow> None | ys \<Rightarrow> Some (last ys))"

definition label_close :: "string \<Rightarrow> node \<Rightarrow> media \<Rightarrow> media outcome" where
  "label_close t btn s =
     need (lastChild (md_dom s) btn) (\<lambda>x s. Inr (on_dom (set_text x (js t)) s)) s"

text \<open>The dialog in preview mode, with the closures on its two buttons.\<close>

definition enter_preview :: "preview \<Rightarrow> media \<Rightarrow> media outcome" where
  "enter_preview p s =
     (let e = pvEls p
      in and_then
           (label_close ''Cancel'' (closeBtn e)
             (on_dom (add_class (previewEl e) ''-active'' \<circ>
                      on_opt (\<lambda>x. set_style x ''display'' (js ''none'')) (itemsEl e) \<circ>
                      set_text (titleEl e) (js ''Preview media to upload'')) s))
           (\<lambda>s. Inr (s\<lparr>onclick := (onclick s)(uploadBtn e \<mapsto> UploadClick p, closeBtn e \<mapsto> CancelClick p)\<rparr>)))"

definition previewMediaFile :: "(nat \<Rightarrow> jstr) \<Rightarrow> mfile \<Rightarrow> node option \<Rightarrow> media \<Rightarrow> media outcome" where
  "previewMediaFile url file inputEl s =
     (case (getElementById (md_dom s) (js ''media-list''),
            getElementById (md_dom s) (js ''media-upload-preview'')) of
        (Some dialog, Some pe) \<Rightarrow>
          (let q = (\<lambda>x c d. querySelector d x (Cls c));
               d = md_dom s;
               blob = nextBlob s;
               s0 = s\<lparr>nextBlob := blob + 1, blobs := blobs s @ [blob]\<rparr>;
               nameEl = q pe ''o-mediaList__previewName'' d
           in need (q pe ''o-mediaList__previewMedia'' d) (\<lambda>mediaEl s.
                need nameEl (\<lambda>nameEl s.
                  (let s1 = on_dom (set_text nameEl (fname file)) s; d1 = md_dom s1
                   in need (q dialog ''o-mediaList__title'' d1) (\<lambda>title.
                        need (q dialog ''o-mediaList__uploadButton'' d1) (\<lambda>ub.
                          need (q dialog ''o-mediaList__closeButton'' d1) (\<lambda>cb s.
                            enter_preview
                              (Preview file inputEl
                                 \<lparr>previewEl = pe, titleEl = title,
                                  itemsEl = q dialog ''o-mediaList__items'' d1,
                                  uploadBtn = ub, closeBtn = cb\<rparr>
                                 (textContent (dat (md_dom s) title))
                                 (onclick s ub) (onclick s cb) blob) s))) s1))
                  (on_dom (fill_preview url file blob mediaEl) s)) s0)
      | _ \<Rightarrow> Inr s)"

definition cleanup :: "preview \<Rightarrow> media \<Rightarrow> media outcome" where
  "cleanup p s =
     (let e = pvEls p
      in and_then
           (label_close ''Close'' (closeBtn e)
             (on_dom (set_text (titleEl e) (origTitle p) \<circ>
                      on_opt (\<lambda>x. clear_style x ''display'') (itemsEl e) \<circ>
                      remove_class (previewEl e) ''-active'') s))
           (\<lambda>s. Inr (s\<lparr>onclick := (onclick s)(uploadBtn e := origUploadClick p,
                                              closeBtn e := origCloseClick p),
                       blobs := removeAll (blobUrl p) (blobs s)\<rparr>)))"

text \<open>Running the handler of a button; the inline code of the page is outside this component.\<close>

definition click_button :: "node \<Rightarrow> media \<Rightarrow> media outcome" where
  "click_button b s =
     (case onclick s b of
        Some (UploadClick p) \<Rightarrow> and_then (cleanup p s) (\<lambda>s. Inr (doMediaUpload (pvInput p) (pvFile p) s))
      | Some (CancelClick p) \<Rightarrow> and_then (cleanup p s) (\<lambda>s. Inr (on_dom (on_opt clear_input (pvInput p)) s))
      | _ \<Rightarrow> Inr s)"

section \<open>Choosing and pasting\<close>

definition uploadMediaFile :: "(nat \<Rightarrow> jstr) \<Rightarrow> node \<Rightarrow> mfile option \<Rightarrow> media \<Rightarrow> media outcome" where
  "uploadMediaFile url inputEl files0 s =
     (case files0 of None \<Rightarrow> Inr s | Some file \<Rightarrow> previewMediaFile url file (Some inputEl) s)"

definition dialog_ready :: "jstr option \<Rightarrow> dom \<Rightarrow> bool" where
  "dialog_ready tgt d =
     (case getElementById d (js ''media-list'') of
        None \<Rightarrow> False
      | Some dialog \<Rightarrow>
          (case tgt of None \<Rightarrow> True
           | Some t \<Rightarrow> t = [] \<or> attr (dat d dialog) ''data-target'' = Some t))"

definition previewMediaFileWhenDialogReady ::
    "(nat \<Rightarrow> jstr) \<Rightarrow> mfile \<Rightarrow> jstr option \<Rightarrow> nat \<Rightarrow> media \<Rightarrow> media outcome" where
  "previewMediaFileWhenDialogReady url file tgt attempts s =
     (if dialog_ready tgt (md_dom s) then previewMediaFile url file None s
      else if attempts < 50
      then Inr (s\<lparr>retries := retries s @ [\<lparr>rt_file = file, rt_target = tgt, rt_attempts = attempts + 1\<rparr>]\<rparr>)
      else Inr (notify_error (JStr (js ''Could not open media upload dialog'')) s))"

text \<open>The oldest retry timer fires.\<close>

definition fire_retry :: "(nat \<Rightarrow> jstr) \<Rightarrow> media \<Rightarrow> media outcome" where
  "fire_retry url s =
     (case retries s of
        [] \<Rightarrow> Inr s
      | r # rs \<Rightarrow>
          previewMediaFileWhenDialogReady url (rt_file r) (rt_target r) (rt_attempts r) (s\<lparr>retries := rs\<rparr>))"

record clip_item =
  kind :: jstr
  asFile :: "mfile option"

definition pasted_image :: "clip_item list \<Rightarrow> mfile option" where
  "pasted_image items =
     Option.bind (List.find (\<lambda>f. case f of None \<Rightarrow> False | Some f \<Rightarrow> startsWith (ftype f) (js ''image/''))
       (map asFile (filter (\<lambda>i. kind i = js ''file'') items))) (\<lambda>f. f)"

definition target_input_sel :: sel where
  "target_input_sel = SAnd (Tag ''INPUT'') (AttrEq ''name'' (js ''target''))"

definition handleMediaPaste ::
    "(nat \<Rightarrow> jstr) \<Rightarrow> clip_item list \<Rightarrow> jstr \<Rightarrow> media \<Rightarrow> effect list \<times> media outcome" where
  "handleMediaPaste url items attachFormId s =
     (case pasted_image items of
        None \<Rightarrow> ([], Inr s)
      | Some file \<Rightarrow>
          (case getElementById (md_dom s) attachFormId of
             None \<Rightarrow> ([PreventDefault], Inr s)
           | Some attachForm \<Rightarrow>
               (let tgt = map_option (\<lambda>x. tvalue (field (dat (md_dom s) x)))
                            (querySelector (md_dom s) attachForm target_input_sel)
                in ([PreventDefault, RequestSubmit attachForm],
                    previewMediaFileWhenDialogReady url file tgt 0 s))))"

section \<open>Laws\<close>

lemma need_Inr: "need x f s = Inr t \<longleftrightarrow> (\<exists>y. x = Some y \<and> f y s = Inr t)"
  by (simp add: need_def split: option.split)

lemma need_Some [simp]: "need (Some y) f s = f y s"
  by (simp add: need_def)

lemma agree_on_opt [simp]:
  "agree cs as chk (on_opt (\<lambda>x. set_style x a t) z d) e = agree cs as chk d e"
  by (simp add: on_opt_def split: option.split)

lemma on_opt_ops [simp]: "on_opt f None d = d" "on_opt f (Some x) d = f x d"
  by (simp_all add: on_opt_def)

lemma childNodes_ops [simp]:
  "childNodes (set_text x t d) = childNodes d" "childNodes (set_style x a t d) = childNodes d"
  "childNodes (clear_style x a d) = childNodes d" "childNodes (add_class x c d) = childNodes d"
  "childNodes (remove_class x c d) = childNodes d"
  by (simp_all add: dom_ops)

lemma childNodes_on_opt [simp]:
  "childNodes (on_opt (\<lambda>x. set_style x a t) y d) = childNodes d"
  "childNodes (on_opt (\<lambda>x. clear_style x a) y d) = childNodes d"
  by (simp_all add: on_opt_def split: option.split)

lemma lastChild_cong: "childNodes d = childNodes e \<Longrightarrow> lastChild d = lastChild e"
  by (simp add: lastChild_def fun_eq_iff)

lemma lastChild_ops [simp]:
  "lastChild (set_text x t d) = lastChild d" "lastChild (add_class x c d) = lastChild d"
  "lastChild (remove_class x c d) = lastChild d"
  "lastChild (on_opt (\<lambda>x. set_style x a t) y d) = lastChild d"
  "lastChild (on_opt (\<lambda>x. clear_style x a) y d) = lastChild d"
  by (rule lastChild_cong; simp)+

lemma text_ops [simp]:
  "textContent (dat (set_text x t d) y) = (if y = x then t else textContent (dat d y))"
  "textContent (dat (add_class x c d) y) = textContent (dat d y)"
  "textContent (dat (set_attr x a t d) y) = textContent (dat d y)"
  "textContent (dat (remove_class x c d) y) = textContent (dat d y)"
  "textContent (dat (on_opt (\<lambda>x. set_style x a t) z d) y) = textContent (dat d y)"
  "textContent (dat (on_opt (\<lambda>x. clear_style x a) z d) y) = textContent (dat d y)"
  "textContent (dat (on_opt clear_input z d) y) = textContent (dat d y)"
  by (auto simp: on_opt_def clear_input_def dom_ops dat_upd split: option.split)

lemma style_ops:
  "style (dat (set_text x t d) y) = style (dat d y)" "style (dat (add_class x c d) y) = style (dat d y)"
  "style (dat (remove_class x c d) y) = style (dat d y)"
  "style (dat (on_opt clear_input z d) y) = style (dat d y)"
  "style (dat (set_style x a v d) y) = (if y = x then (style (dat d y))(a \<mapsto> v) else style (dat d y))"
  "style (dat (clear_style x a d) y) = (if y = x then (style (dat d y))(a := None) else style (dat d y))"
  by (auto simp: on_opt_def clear_input_def dom_ops dat_upd split: option.split)

lemma class_on_opt [simp]:
  "has_class (on_opt (\<lambda>x. set_style x a t) z d) y c = has_class d y c"
  "has_class (on_opt (\<lambda>x. clear_style x a) z d) y c = has_class d y c"
  "has_class (on_opt clear_input z d) y c = has_class d y c"
  by (simp_all add: on_opt_def clear_input_def split: option.split)

subsection \<open>Entering and leaving the preview\<close>

lemma enter_preview_Inr:
  "enter_preview p s = Inr t \<longleftrightarrow>
     (\<exists>x. lastChild (md_dom s) (closeBtn (pvEls p)) = Some x \<and>
        t = s\<lparr>md_dom := set_text x (js ''Cancel'') (add_class (previewEl (pvEls p)) ''-active''
                (on_opt (\<lambda>x. set_style x ''display'' (js ''none'')) (itemsEl (pvEls p))
                  (set_text (titleEl (pvEls p)) (js ''Preview media to upload'') (md_dom s)))),
              onclick := (onclick s)(uploadBtn (pvEls p) \<mapsto> UploadClick p, closeBtn (pvEls p) \<mapsto> CancelClick p)\<rparr>)"
  by (auto simp: enter_preview_def label_close_def need_def Let_def split: option.split)

lemma cleanup_Inr:
  assumes "lastChild (md_dom s) (closeBtn (pvEls p)) = Some x"
  shows "cleanup p s =
    Inr (s\<lparr>md_dom := set_text x (js ''Close'') (set_text (titleEl (pvEls p)) (origTitle p)
             (on_opt (\<lambda>x. clear_style x ''display'') (itemsEl (pvEls p))
               (remove_class (previewEl (pvEls p)) ''-active'' (md_dom s)))),
           onclick := (onclick s)(uploadBtn (pvEls p) := origUploadClick p,
                                  closeBtn (pvEls p) := origCloseClick p),
           blobs := removeAll (blobUrl p) (blobs s)\<rparr>)"
  using assms by (simp add: cleanup_def label_close_def need_def Let_def)

text \<open>What a preview captures: the state of the buttons when it was made.\<close>

definition captures :: "mfile \<Rightarrow> node option \<Rightarrow> media \<Rightarrow> preview \<Rightarrow> bool" where
  "captures file inp s p \<longleftrightarrow>
     pvFile p = file \<and> pvInput p = inp \<and> blobUrl p = nextBlob s \<and>
     origUploadClick p = onclick s (uploadBtn (pvEls p)) \<and>
     origCloseClick p = onclick s (closeBtn (pvEls p))"

text \<open>The elements of the dialog the closures of a preview work on.\<close>

definition elements_of :: "node \<Rightarrow> dom \<Rightarrow> preview \<Rightarrow> bool" where
  "elements_of dlg d p \<longleftrightarrow>
     querySelector d dlg (Cls ''o-mediaList__title'') = Some (titleEl (pvEls p)) \<and>
     querySelector d dlg (Cls ''o-mediaList__items'') = itemsEl (pvEls p) \<and>
     querySelector d dlg (Cls ''o-mediaList__uploadButton'') = Some (uploadBtn (pvEls p)) \<and>
     querySelector d dlg (Cls ''o-mediaList__closeButton'') = Some (closeBtn (pvEls p))"

lemma elements_of_agree:
  assumes "agree [''o-mediaList__title'', ''o-mediaList__items'', ''o-mediaList__uploadButton'',
    ''o-mediaList__closeButton''] [] False d e"
  shows "elements_of dlg d p = elements_of dlg e p"
proof -
  have "querySelector d dlg (Cls c) = querySelector e dlg (Cls c)"
    if "c \<in> {''o-mediaList__title'', ''o-mediaList__items'', ''o-mediaList__uploadButton'',
      ''o-mediaList__closeButton''}" for c
    using that by (intro queries_agree(4) agree_mono [OF assms]) auto
  then show ?thesis by (simp add: elements_of_def)
qed

lemma previewMediaFile_Inr:
  assumes "previewMediaFile url file inp s = Inr t"
    and "getElementById (md_dom s) (js ''media-list'') \<noteq> None"
    and "getElementById (md_dom s) (js ''media-upload-preview'') = Some pe"
  shows "\<exists>p d1. captures file inp s p \<and> previewEl (pvEls p) = pe \<and>
    (\<forall>dlg. getElementById (md_dom s) (js ''media-list'') = Some dlg \<longrightarrow> elements_of dlg d1 p) \<and>
    origTitle p = textContent (dat d1 (titleEl (pvEls p))) \<and>
    (\<exists>nameEl mediaEl. d1 = set_text nameEl (fname file) (fill_preview url file (nextBlob s) mediaEl (md_dom s)) \<and>
       querySelector (md_dom s) pe (Cls ''o-mediaList__previewName'') = Some nameEl) \<and>
    enter_preview p (s\<lparr>nextBlob := nextBlob s + 1, blobs := blobs s @ [nextBlob s], md_dom := d1\<rparr>) = Inr t"
proof -
  obtain dlg where dlg: "getElementById (md_dom s) (js ''media-list'') = Some dlg" using assms(2) by auto
  then obtain m n tt ub cb d1 where q: "querySelector (md_dom s) pe (Cls ''o-mediaList__previewName'') = Some n"
    "d1 = set_text n (fname file) (fill_preview url file (nextBlob s) m (md_dom s))"
    and els: "querySelector d1 dlg (Cls ''o-mediaList__title'') = Some tt"
      "querySelector d1 dlg (Cls ''o-mediaList__uploadButton'') = Some ub"
      "querySelector d1 dlg (Cls ''o-mediaList__closeButton'') = Some cb"
    and e: "enter_preview (Preview file inp \<lparr>previewEl = pe, titleEl = tt,
        itemsEl = querySelector d1 dlg (Cls ''o-mediaList__items''), uploadBtn = ub, closeBtn = cb\<rparr>
        (textContent (dat d1 tt)) (onclick s ub) (onclick s cb) (nextBlob s))
      (s\<lparr>nextBlob := nextBlob s + 1, blobs := blobs s @ [nextBlob s], md_dom := d1\<rparr>) = Inr t"
    using assms(1,3) by (auto simp: previewMediaFile_def need_Inr Let_def)
  with q e els dlg show ?thesis
    by (intro exI [of _ "Preview file inp \<lparr>previewEl = pe, titleEl = tt,
        itemsEl = querySelector d1 dlg (Cls ''o-mediaList__items''), uploadBtn = ub, closeBtn = cb\<rparr>
        (textContent (dat d1 tt)) (onclick s ub) (onclick s cb) (nextBlob s)"] exI [of _ d1])
      (auto simp: captures_def elements_of_def)
qed

definition buttons_of :: "media \<Rightarrow> preview \<Rightarrow> bool" where
  "buttons_of t p \<longleftrightarrow>
     onclick t (closeBtn (pvEls p)) = Some (CancelClick p) \<and>
     (uploadBtn (pvEls p) \<noteq> closeBtn (pvEls p) \<longrightarrow> onclick t (uploadBtn (pvEls p)) = Some (UploadClick p))"

lemma enter_cancel:
  assumes e: "enter_preview p (s\<lparr>nextBlob := nextBlob s + 1, blobs := blobs s @ [nextBlob s], md_dom := d1\<rparr>) = Inr t"
    and c: "captures file inp s p" and fresh: "nextBlob s \<notin> set (blobs s)"
  shows "buttons_of t p" and "uploads t = uploads s" and "nextBlob t = nextBlob s + 1"
    and "blobs t = blobs s @ [nextBlob s]" and "retries t = retries s" and "notified t = notified s"
    and "elements_of dlg (md_dom t) p = elements_of dlg d1 p"
    and "has_class (md_dom t) (previewEl (pvEls p)) ''-active''"
    and "\<exists>u x. click_button (closeBtn (pvEls p)) t = Inr u \<and>
      lastChild d1 (closeBtn (pvEls p)) = Some x \<and> lastChild (md_dom u) (closeBtn (pvEls p)) = Some x \<and>
      onclick u = onclick s \<and> blobs u = blobs s \<and> uploads u = uploads s \<and> retries u = retries s \<and>
      notified u = notified s \<and> \<not> has_class (md_dom u) (previewEl (pvEls p)) ''-active'' \<and>
      textContent (dat (md_dom u) x) = js ''Close'' \<and>
      (\<forall>i. itemsEl (pvEls p) = Some i \<longrightarrow> style (dat (md_dom t) i) ''display'' = Some (js ''none'') \<and>
         style (dat (md_dom u) i) ''display'' = None) \<and>
      (titleEl (pvEls p) \<noteq> x \<longrightarrow> textContent (dat (md_dom u) (titleEl (pvEls p))) = origTitle p)"
proof -
  obtain x where x: "lastChild d1 (closeBtn (pvEls p)) = Some x"
    and t: "t = s\<lparr>md_dom := set_text x (js ''Cancel'') (add_class (previewEl (pvEls p)) ''-active''
                (on_opt (\<lambda>x. set_style x ''display'' (js ''none'')) (itemsEl (pvEls p))
                  (set_text (titleEl (pvEls p)) (js ''Preview media to upload'') d1))),
              nextBlob := nextBlob s + 1, blobs := blobs s @ [nextBlob s],
              onclick := (onclick s)(uploadBtn (pvEls p) \<mapsto> UploadClick p, closeBtn (pvEls p) \<mapsto> CancelClick p)\<rparr>"
    using e by (auto simp: enter_preview_Inr)
  show "buttons_of t p" "uploads t = uploads s" "nextBlob t = nextBlob s + 1"
    "blobs t = blobs s @ [nextBlob s]" "retries t = retries s" "notified t = notified s"
    by (simp_all add: t buttons_of_def)
  show "elements_of dlg (md_dom t) p = elements_of dlg d1 p"
    by (rule elements_of_agree) (simp add: t)
  show "has_class (md_dom t) (previewEl (pvEls p)) ''-active''" by (simp add: t class_simps)
  have h: "onclick t (closeBtn (pvEls p)) = Some (CancelClick p)" by (simp add: t)
  have lt: "lastChild (md_dom t) (closeBtn (pvEls p)) = Some x" using x by (simp add: t)
  have i: "childNodes (on_opt clear_input z d) = childNodes d" for z d
    by (simp add: on_opt_def clear_input_def upd_field_def split: option.split)
  have on: "(onclick t)(uploadBtn (pvEls p) := origUploadClick p, closeBtn (pvEls p) := origCloseClick p) =
      onclick s"
    using c by (auto simp: t captures_def)
  show "\<exists>u x. click_button (closeBtn (pvEls p)) t = Inr u \<and>
      lastChild d1 (closeBtn (pvEls p)) = Some x \<and> lastChild (md_dom u) (closeBtn (pvEls p)) = Some x \<and>
      onclick u = onclick s \<and> blobs u = blobs s \<and> uploads u = uploads s \<and> retries u = retries s \<and>
      notified u = notified s \<and> \<not> has_class (md_dom u) (previewEl (pvEls p)) ''-active'' \<and>
      textContent (dat (md_dom u) x) = js ''Close'' \<and>
      (\<forall>i. itemsEl (pvEls p) = Some i \<longrightarrow> style (dat (md_dom t) i) ''display'' = Some (js ''none'') \<and>
         style (dat (md_dom u) i) ''display'' = None) \<and>
      (titleEl (pvEls p) \<noteq> x \<longrightarrow> textContent (dat (md_dom u) (titleEl (pvEls p))) = origTitle p)"
    using x lt on c fresh
    by (simp add: click_button_def h cleanup_Inr [OF lt] class_simps captures_def lastChild_cong [OF i])
      (auto simp: t style_ops)
qed

lemma fill_preview_text:
  "y \<noteq> nextNode d \<Longrightarrow> textContent (dat (fill_preview url file b m d) y) = textContent (dat d y)"
proof -
  assume y: "y \<noteq> nextNode d"
  have attrs: "textContent (dat (fold (\<lambda>p. set_attr x p []) ps d) y) = textContent (dat d y)" for x ps d
    by (induction ps arbitrary: d) auto
  show ?thesis
    using y by (auto simp: fill_preview_def clear_children_def createElement_def appendChild_def attach_def
        attrs Let_def split: option.splits)
qed

text \<open>The result of a preview that is cancelled, for the proofs below.\<close>

lemma preview_then_cancel:
  assumes "previewMediaFile url file inp s = Inr t"
    and "getElementById (md_dom s) (js ''media-list'') \<noteq> None"
    and "getElementById (md_dom s) (js ''media-upload-preview'') = Some pe"
    and "nextBlob s \<notin> set (blobs s)"
  shows "\<exists>p u x. buttons_of t p \<and> captures file inp s p \<and> previewEl (pvEls p) = pe \<and>
    blobs t = blobs s @ [nextBlob s] \<and> nextBlob t = nextBlob s + 1 \<and> uploads t = uploads s \<and>
    retries t = retries s \<and> notified t = notified s \<and>
    (\<forall>dlg. getElementById (md_dom s) (js ''media-list'') = Some dlg \<longrightarrow> elements_of dlg (md_dom t) p) \<and>
    click_button (closeBtn (pvEls p)) t = Inr u \<and> onclick u = onclick s \<and> blobs u = blobs s \<and>
    uploads u = uploads s \<and> lastChild (md_dom u) (closeBtn (pvEls p)) = Some x \<and>
    \<not> has_class (md_dom u) pe ''-active'' \<and> textContent (dat (md_dom u) x) = js ''Close'' \<and>
    has_class (md_dom t) pe ''-active'' \<and>
    (\<forall>i. itemsEl (pvEls p) = Some i \<longrightarrow> style (dat (md_dom t) i) ''display'' = Some (js ''none'') \<and>
       style (dat (md_dom u) i) ''display'' = None) \<and>
    (titleEl (pvEls p) \<noteq> x \<and> titleEl (pvEls p) \<noteq> nextNode (md_dom s) \<and>
     querySelector (md_dom s) pe (Cls ''o-mediaList__previewName'') \<noteq> Some (titleEl (pvEls p)) \<longrightarrow>
       textContent (dat (md_dom u) (titleEl (pvEls p))) = textContent (dat (md_dom s) (titleEl (pvEls p))))"
proof -
  obtain p d1 nameEl mediaEl where p: "captures file inp s p" "previewEl (pvEls p) = pe"
    "\<forall>dlg. getElementById (md_dom s) (js ''media-list'') = Some dlg \<longrightarrow> elements_of dlg d1 p"
    "origTitle p = textContent (dat d1 (titleEl (pvEls p)))"
    "d1 = set_text nameEl (fname file) (fill_preview url file (nextBlob s) mediaEl (md_dom s))"
    "querySelector (md_dom s) pe (Cls ''o-mediaList__previewName'') = Some nameEl"
    and e: "enter_preview p
      (s\<lparr>nextBlob := nextBlob s + 1, blobs := blobs s @ [nextBlob s], md_dom := d1\<rparr>) = Inr t"
    using previewMediaFile_Inr [OF assms(1-3)] by blast
  note r = enter_cancel [OF e p(1) assms(4)]
  have "origTitle p = textContent (dat (md_dom s) (titleEl (pvEls p)))"
    if "titleEl (pvEls p) \<noteq> nextNode (md_dom s)" "titleEl (pvEls p) \<noteq> nameEl"
    using that p by (simp add: fill_preview_text)
  with r p show ?thesis by (intro exI [of _ p]) fastforce
qed

section \<open>Properties\<close>

text \<open>
  C37: cancelling a preview undoes it. \<open>previewMediaFile\<close> on a media list shows the preview, hides the
  list's items and puts its own handlers on the buttons of the dialog. The click on the close button
  then restores the handlers of both buttons, revokes the object URL of the preview, takes the preview
  out of sight, clears the style that hid the items, labels the button "Close" again, gives the dialog
  its title back (when the title is an element of its own), and starts no upload.
\<close>

theorem cancel_restores_dialog:
  assumes "previewMediaFile url file inp s = Inr t"
    and "getElementById (md_dom s) (js ''media-list'') = Some dlg"
    and "getElementById (md_dom s) (js ''media-upload-preview'') = Some pe"
    and "nextBlob s \<notin> set (blobs s)"
  shows "\<exists>p u x. onclick t (closeBtn (pvEls p)) = Some (CancelClick p) \<and> pvFile p = file \<and>
    elements_of dlg (md_dom t) p \<and>
    click_button (closeBtn (pvEls p)) t = Inr u \<and> onclick u = onclick s \<and> blobs u = blobs s \<and>
    uploads u = uploads s \<and> lastChild (md_dom u) (closeBtn (pvEls p)) = Some x \<and>
    \<not> has_class (md_dom u) pe ''-active'' \<and> textContent (dat (md_dom u) x) = js ''Close'' \<and>
    has_class (md_dom t) pe ''-active'' \<and>
    (\<forall>i. itemsEl (pvEls p) = Some i \<longrightarrow> style (dat (md_dom t) i) ''display'' = Some (js ''none'') \<and>
       style (dat (md_dom u) i) ''display'' = None) \<and>
    (titleEl (pvEls p) \<noteq> x \<and> titleEl (pvEls p) \<noteq> nextNode (md_dom s) \<and>
     querySelector (md_dom s) pe (Cls ''o-mediaList__previewName'') \<noteq> Some (titleEl (pvEls p)) \<longrightarrow>
       textContent (dat (md_dom u) (titleEl (pvEls p))) = textContent (dat (md_dom s) (titleEl (pvEls p))))"
proof -
  have "getElementById (md_dom s) (js ''media-list'') \<noteq> None" using assms(2) by simp
  from preview_then_cancel [OF assms(1) this assms(3,4)] assms(2) show ?thesis
    unfolding buttons_of_def captures_def by blast
qed

text \<open>The media list as the server renders it, with the buttons' inline handlers.\<close>

definition media_dialog :: "media" where
  "media_dialog =
     (let c = (\<lambda>tg k. (new_element tg)\<lparr>classList := [k]\<rparr>)
      in \<lparr>md_dom = mk_dom
            (Node 0 [Node 2 [Node 3 [], Node 4 [], Node 5 [Node 6 [], Node 7 []], Node 8 [Node 9 []], Node 10 [Node 11 []]]])
            [(2, (c ''DIALOG'' ''o-mediaList'')\<lparr>attr := [''id'' \<mapsto> js ''media-list'', ''data-target'' \<mapsto> js ''#t'']\<rparr>),
             (3, (c ''H4'' ''o-mediaList__title'')\<lparr>textContent := js ''Select media to attach''\<rparr>),
             (4, c ''DIV'' ''o-mediaList__items''),
             (5, (c ''DIV'' ''o-mediaList__preview'')\<lparr>attr := [''id'' \<mapsto> js ''media-upload-preview'']\<rparr>),
             (6, c ''DIV'' ''o-mediaList__previewMedia''), (7, c ''DIV'' ''o-mediaList__previewName''),
             (8, c ''BUTTON'' ''o-mediaList__uploadButton''),
             (9, (c ''SPAN'' ''u-button__label'')\<lparr>textContent := js ''Upload''\<rparr>),
             (10, c ''BUTTON'' ''o-mediaList__closeButton''),
             (11, (c ''SPAN'' ''u-button__label'')\<lparr>textContent := js ''Close''\<rparr>)],
          onclick = [8 \<mapsto> Inline (js ''choose''), 10 \<mapsto> Inline (js ''close'')], blobs = [], nextBlob = 0,
          retries = [], uploads = [], notified = []\<rparr>)"

lemma media_dialog_facts:
  "getElementById (md_dom media_dialog) (js ''media-list'') = Some 2"
  "getElementById (md_dom media_dialog) (js ''media-upload-preview'') = Some 5"
  "nextBlob media_dialog \<notin> set (blobs media_dialog)"
  by (simp_all add: media_dialog_def Let_def dom_eval)

lemma media_dialog_queries:
  "querySelector (md_dom media_dialog) 5 (Cls ''o-mediaList__previewMedia'') = Some 6"
  "querySelector (md_dom media_dialog) 5 (Cls ''o-mediaList__previewName'') = Some 7"
  "querySelector (md_dom media_dialog) 2 (Cls ''o-mediaList__title'') = Some 3"
  "querySelector (md_dom media_dialog) 2 (Cls ''o-mediaList__items'') = Some 4"
  "querySelector (md_dom media_dialog) 2 (Cls ''o-mediaList__uploadButton'') = Some 8"
  "querySelector (md_dom media_dialog) 2 (Cls ''o-mediaList__closeButton'') = Some 10"
  "childNodes (md_dom media_dialog) 10 = [11]"
  "clear_children 6 (md_dom media_dialog) = md_dom media_dialog"
  by (simp_all add: media_dialog_def Let_def dom_eval childNodes_def clear_children_def)

definition blob_url :: "nat \<Rightarrow> jstr" where
  "blob_url n = js ''blob:'' @ decimal n"

text \<open>A file that is shown by its name only.\<close>

definition text_file :: "string \<Rightarrow> mfile" where
  "text_file n = \<lparr>fname = js n, ftype = js ''text/plain''\<rparr>"

lemma fill_preview_text_file: "fill_preview url (text_file n) b m d = clear_children m d"
  by (simp add: fill_preview_def text_file_def preview_node_def startsWith_def js_def)

abbreviation like_dialog :: "dom \<Rightarrow> bool" where
  "like_dialog d \<equiv> agree [''o-mediaList__previewMedia'', ''o-mediaList__previewName'', ''o-mediaList__title'',
     ''o-mediaList__items'', ''o-mediaList__uploadButton'', ''o-mediaList__closeButton''] [''id''] False d (md_dom media_dialog)"

lemma like_dialog_preview:
  assumes like: "like_dialog (md_dom s)"
  shows "\<exists>t. previewMediaFile url (text_file n) inp s = Inr t \<and> like_dialog (md_dom t)"
proof -
  have q: "querySelector d x (Cls c) = querySelector (md_dom media_dialog) x (Cls c)"
    if "like_dialog d" "c \<in> {''o-mediaList__previewMedia'', ''o-mediaList__previewName'', ''o-mediaList__title'',
     ''o-mediaList__items'', ''o-mediaList__uploadButton'', ''o-mediaList__closeButton''}" for d x c
    using that(2) by (intro queries_agree(4) agree_mono [OF that(1)]) auto
  have i: "getElementById (md_dom s) k = getElementById (md_dom media_dialog) k" for k
    by (rule getElementById_agree [OF like]) simp
  have st: "doc (md_dom s) = doc (md_dom media_dialog)" "loose (md_dom s) = loose (md_dom media_dialog)"
    using like by (simp_all add: agree_def)
  then have ch: "childNodes (md_dom s) = childNodes (md_dom media_dialog)"
    "child_trees (md_dom s) = child_trees (md_dom media_dialog)"
    by (simp_all add: childNodes_def child_trees_def forest_def fun_eq_iff)
  have "doc (clear_children 6 (md_dom media_dialog)) = doc (md_dom media_dialog)"
    "loose (clear_children 6 (md_dom media_dialog)) = loose (md_dom media_dialog)"
    by (simp_all add: media_dialog_queries)
  then have cc: "clear_children 6 (md_dom s) = md_dom s"
    using st ch by (simp add: clear_children_def)
  let ?d = "set_text 7 (fname (text_file n)) (md_dom s)"
  have l: "like_dialog ?d" using like by simp
  have lc: "lastChild (md_dom s) 10 = Some 11" by (simp add: lastChild_def ch media_dialog_queries)
  have qs: "querySelector (md_dom s) 5 (Cls ''o-mediaList__previewMedia'') = Some 6"
    "querySelector (md_dom s) 5 (Cls ''o-mediaList__previewName'') = Some 7"
    "querySelector ?d 2 (Cls ''o-mediaList__title'') = Some 3"
    "querySelector ?d 2 (Cls ''o-mediaList__uploadButton'') = Some 8"
    "querySelector ?d 2 (Cls ''o-mediaList__closeButton'') = Some 10"
    using q [OF like] q [OF l] by (simp_all add: media_dialog_queries)
  show ?thesis
    using like lc
    by (simp add: previewMediaFile_def i media_dialog_facts Let_def qs fill_preview_text_file cc enter_preview_Inr)
qed

theorem cancel_restores_dialog_witness:
  "\<exists>t p u i. previewMediaFile blob_url (text_file ''a.txt'') None media_dialog = Inr t \<and>
     click_button (closeBtn (pvEls p)) t = Inr u \<and> onclick u = onclick media_dialog \<and> uploads u = [] \<and>
     querySelector (md_dom t) 2 (Cls ''o-mediaList__items'') = Some i \<and>
     style (dat (md_dom t) i) ''display'' = Some (js ''none'') \<and> style (dat (md_dom u) i) ''display'' = None"
proof -
  obtain t where t: "previewMediaFile blob_url (text_file ''a.txt'') None media_dialog = Inr t"
    and like: "like_dialog (md_dom t)"
    using like_dialog_preview [of media_dialog blob_url "''a.txt''" None] by auto
  have "uploads media_dialog = []" by (simp add: media_dialog_def Let_def)
  moreover have "querySelector (md_dom t) 2 (Cls ''o-mediaList__items'') =
      querySelector (md_dom media_dialog) 2 (Cls ''o-mediaList__items'')"
    by (intro queries_agree(4) agree_mono [OF like]) auto
  then have "querySelector (md_dom t) 2 (Cls ''o-mediaList__items'') = Some 4"
    by (simp add: media_dialog_queries)
  ultimately show ?thesis
    using t cancel_restores_dialog [OF t media_dialog_facts] unfolding elements_of_def by metis
qed

text \<open>
  A second preview keeps the first one alive. Two images pasted before the media list has arrived
  wait on two timers; when both fire, the second preview takes the first one's handlers for the
  dialog's own. Cancelling it hides the preview but leaves the buttons with the handlers of the first
  file, and (the two buttons being different and the close button having a label) the next click on
  "Upload" sends that file, which nobody confirmed.
\<close>

theorem cancelled_preview_uploads_earlier_file:
  assumes "retries s = [\<lparr>rt_file = A, rt_target = ta, rt_attempts = i\<rparr>, \<lparr>rt_file = B, rt_target = tb, rt_attempts = j\<rparr>]"
    and "fire_retry url s = Inr t1" "fire_retry url t1 = Inr t2"
    and "dialog_ready ta (md_dom s)" "dialog_ready tb (md_dom t1)"
    and "getElementById (md_dom s) (js ''media-upload-preview'') = Some pe"
    and "getElementById (md_dom t1) (js ''media-upload-preview'') = Some pe"
    and "list_all (\<lambda>b. b < nextBlob s) (blobs s)"
    and "uploads s = []"
  shows "\<exists>p q u. pvFile p = A \<and> pvFile q = B \<and>
    onclick t2 (closeBtn (pvEls q)) = Some (CancelClick q) \<and>
    click_button (closeBtn (pvEls q)) t2 = Inr u \<and> uploads u = [] \<and> \<not> has_class (md_dom u) pe ''-active'' \<and>
    onclick u (closeBtn (pvEls p)) = Some (CancelClick p) \<and>
    (uploadBtn (pvEls p) \<noteq> closeBtn (pvEls p) \<and> lastChild (md_dom u) (closeBtn (pvEls p)) \<noteq> None \<longrightarrow>
       onclick u (uploadBtn (pvEls p)) = Some (UploadClick p) \<and>
       (\<exists>v. click_button (uploadBtn (pvEls p)) u = Inr v \<and> map up_file (uploads v) = [A]))"
proof -
  let ?s = "s\<lparr>retries := [\<lparr>rt_file = B, rt_target = tb, rt_attempts = j\<rparr>]\<rparr>"
  have pA: "previewMediaFile url A None ?s = Inr t1"
    using assms(1,2,4) by (simp add: fire_retry_def previewMediaFileWhenDialogReady_def)
  have ml: "getElementById (md_dom ?s) (js ''media-list'') \<noteq> None"
    "getElementById (md_dom t1) (js ''media-list'') \<noteq> None"
    using assms(4,5) by (auto simp: dialog_ready_def split: option.splits)
  have fr: "nextBlob ?s \<notin> set (blobs ?s)" using assms(8) by (auto simp: list_all_iff)
  obtain p where p: "buttons_of t1 p" "captures A None ?s p" "blobs t1 = blobs s @ [nextBlob s]"
    "nextBlob t1 = nextBlob s + 1" "uploads t1 = []" "retries t1 = retries ?s"
    using preview_then_cancel [OF pA ml(1) _ fr] assms(6,9) by auto
  let ?t = "t1\<lparr>retries := []\<rparr>"
  have pB: "previewMediaFile url B None ?t = Inr t2"
    using assms(3,5) p(6) by (simp add: fire_retry_def previewMediaFileWhenDialogReady_def)
  have fr2: "nextBlob ?t \<notin> set (blobs ?t)" using p assms(8) by (auto simp: list_all_iff)
  obtain q u where q: "buttons_of t2 q" "captures B None ?t q" "click_button (closeBtn (pvEls q)) t2 = Inr u"
    "onclick u = onclick t1" "uploads u = []" "\<not> has_class (md_dom u) pe ''-active''"
    using preview_then_cancel [OF pB _ _ fr2] ml(2) assms(7) p(5) by auto
  have up: "onclick u (uploadBtn (pvEls p)) = Some (UploadClick p)"
    if "uploadBtn (pvEls p) \<noteq> closeBtn (pvEls p)"
    using that p(1) q(4) by (simp add: buttons_of_def)
  have "\<exists>v. click_button (uploadBtn (pvEls p)) u = Inr v \<and> map up_file (uploads v) = [A]"
    if "uploadBtn (pvEls p) \<noteq> closeBtn (pvEls p)" "lastChild (md_dom u) (closeBtn (pvEls p)) = Some x" for x
    using p(2) q(5) by (simp add: click_button_def up [OF that(1)] cleanup_Inr [OF that(2)] doMediaUpload_def
        Let_def captures_def)
  with p q up show ?thesis
    by (intro exI [of _ p] exI [of _ q] exI [of _ u]) (auto simp: buttons_of_def captures_def)
qed

theorem cancelled_preview_uploads_earlier_file_witness:
  "\<exists>s t1 t2 p q u. map rt_file (retries s) = [text_file ''a'', text_file ''b''] \<and>
     fire_retry blob_url s = Inr t1 \<and> fire_retry blob_url t1 = Inr t2 \<and> pvFile p = text_file ''a'' \<and>
     pvFile q = text_file ''b'' \<and> click_button (closeBtn (pvEls q)) t2 = Inr u \<and>
     onclick u (closeBtn (pvEls p)) = Some (CancelClick p)"
proof -
  let ?r = "\<lambda>n. \<lparr>rt_file = text_file n, rt_target = None, rt_attempts = 1\<rparr>"
  let ?s = "media_dialog\<lparr>retries := [?r ''a'', ?r ''b'']\<rparr>"
  have ready: "dialog_ready None d" if "like_dialog d" for d
    using getElementById_agree [OF that] by (simp add: dialog_ready_def media_dialog_facts)
  obtain t1 where t1: "previewMediaFile blob_url (text_file ''a'') None (?s\<lparr>retries := [?r ''b'']\<rparr>) = Inr t1"
    "like_dialog (md_dom t1)"
    using like_dialog_preview [of "?s\<lparr>retries := [?r ''b'']\<rparr>" blob_url "''a''" None] by auto
  have r1: "retries t1 = [?r ''b'']"
    using preview_then_cancel [OF t1(1)] media_dialog_facts by auto
  obtain t2 where t2: "previewMediaFile blob_url (text_file ''b'') None (t1\<lparr>retries := []\<rparr>) = Inr t2"
    using like_dialog_preview [of "t1\<lparr>retries := []\<rparr>" blob_url "''b''" None] t1(2) by auto
  have f: "fire_retry blob_url ?s = Inr t1" "fire_retry blob_url t1 = Inr t2"
    using t1 t2 r1 ready by (auto simp: fire_retry_def previewMediaFileWhenDialogReady_def)
  have e: "blobs media_dialog = []" "uploads media_dialog = []" by (simp_all add: media_dialog_def Let_def)
  have g: "getElementById (md_dom t1) (js ''media-upload-preview'') = Some 5"
    using getElementById_agree [OF t1(2)] by (simp add: media_dialog_facts)
  from cancelled_preview_uploads_earlier_file [OF _ f _ _ _ g, where A = "text_file ''a''" and B = "text_file ''b''"
      and ta = None and tb = None and i = 1 and j = 1] f
  show ?thesis
    using ready t1(2) e media_dialog_facts by (intro exI [of _ ?s] exI [of _ t1] exI [of _ t2]) auto
qed

text \<open>
  Waiting for the dialog ends. When the media list never becomes ready, a paste leads to exactly
  fifty timers: until the last of them has fired there is one timer and nothing is reported, then there
  is none and the failure is reported once.
\<close>

theorem retry_gives_up:
  assumes "\<not> dialog_ready tgt (md_dom s)" "retries s = []"
    and "previewMediaFileWhenDialogReady url file tgt 0 s = Inr s1"
    and "r = (\<lambda>k. ((\<lambda>s. final_state (fire_retry url s)) ^^ k) s1)"
  shows "list_all (\<lambda>k. length (retries (r k)) = 1 \<and> notified (r k) = notified s) [0..<50] \<and>
    retries (r 50) = [] \<and>
    notified (r 50) = notified s @ [JStr (js ''Could not open media upload dialog'')]"
proof -
  have k: "k < 50 \<Longrightarrow> r k = s\<lparr>retries := [\<lparr>rt_file = file, rt_target = tgt, rt_attempts = k + 1\<rparr>]\<rparr>" for k
  proof (induction k)
    case 0
    then show ?case using assms by (auto simp: previewMediaFileWhenDialogReady_def)
  next
    case (Suc k)
    then show ?case
      using assms(1,4) by (simp add: fire_retry_def previewMediaFileWhenDialogReady_def)
  qed
  have "r 50 = final_state (fire_retry url (r 49))"
    using assms(4) by (simp add: eval_nat_numeral(3) [of "num.Bit1 num.One"] numeral_eq_Suc)
  then have "r 50 = notify_error (JStr (js ''Could not open media upload dialog'')) s"
    using assms(1,2) by (simp add: k fire_retry_def previewMediaFileWhenDialogReady_def notify_error_def)
  then show ?thesis using k assms(2) by (simp add: list_all_iff notify_error_def)
qed

theorem retry_gives_up_witness:
  "let s = media_dialog\<lparr>md_dom := mk_dom (Node 0 []) []\<rparr>;
       s1 = s\<lparr>retries := [\<lparr>rt_file = text_file ''a'', rt_target = None, rt_attempts = 1\<rparr>]\<rparr>
   in notified (((\<lambda>s. final_state (fire_retry blob_url s)) ^^ 50) s1) =
      [JStr (js ''Could not open media upload dialog'')]"
proof -
  let ?s = "media_dialog\<lparr>md_dom := mk_dom (Node 0 []) []\<rparr>"
  have n: "\<not> dialog_ready None (md_dom ?s)" "retries ?s = []" "notified ?s = []"
    by (simp_all add: dialog_ready_def media_dialog_def Let_def getElementById_def mk_dom_def
        is_element_def new_element_def)
  then have "previewMediaFileWhenDialogReady blob_url (text_file ''a'') None 0 ?s =
      Inr (?s\<lparr>retries := [\<lparr>rt_file = text_file ''a'', rt_target = None, rt_attempts = 1\<rparr>]\<rparr>)"
    by (simp add: previewMediaFileWhenDialogReady_def)
  from retry_gives_up [OF n(1,2) this refl] n(3) show ?thesis by simp
qed

end
