(* ===== verification/Page.thy ===== *)
theory Page
  imports Notifications Shoutbox Autocomplete KeyboardNav PersonaTags Shortcuts MediaUpload
begin

text \<open>
  How the components of assets/app.js meet on one page: the keydown listeners that the script registers
  on the document, in their order, and the two components of the shoutbox field, whose template
  (src/routes/shoutbox.rs) gives a key first to the composer and then to the autocomplete.
\<close>

section \<open>The keyboard\<close>

record page =
  pg_dom :: dom
  pg_selectedEl :: "node option"
  pg_selectedHref :: "jstr option"
  pg_helpDialog :: "node option"
  pg_previousFocus :: "node option"
  pg_closing :: nat

definition nav_view :: "page \<Rightarrow> nav" where
  "nav_view p = \<lparr>nav_dom = pg_dom p, selectedEl = pg_selectedEl p, selectedHref = pg_selectedHref p\<rparr>"

definition put_nav :: "nav \<Rightarrow> page \<Rightarrow> page" where
  "put_nav s p = p\<lparr>pg_dom := nav_dom s, pg_selectedEl := selectedEl s, pg_selectedHref := selectedHref s\<rparr>"

definition help_view :: "page \<Rightarrow> help_state" where
  "help_view p = \<lparr>sc_dom = pg_dom p, sc_dialog = pg_helpDialog p, previousFocus = pg_previousFocus p,
     sc_closing = pg_closing p\<rparr>"

definition put_help :: "help_state \<Rightarrow> page \<Rightarrow> page" where
  "put_help s p = p\<lparr>pg_dom := sc_dom s, pg_helpDialog := sc_dialog s, pg_previousFocus := previousFocus s,
     pg_closing := sc_closing s\<rparr>"

text \<open>A listener that raises has done what it did before; the next listener runs all the same.\<close>

definition listen_dom :: "(dom \<Rightarrow> effect list \<times> dom outcome) \<Rightarrow> page \<Rightarrow> effect list \<times> page" where
  "listen_dom f p = (let (es, r) = f (pg_dom p) in (es, p\<lparr>pg_dom := final_state r\<rparr>))"

definition listeners ::
    "(jstr \<Rightarrow> jstr) \<Rightarrow> (jstr \<Rightarrow> markup list) \<Rightarrow> ui_event \<Rightarrow> (page \<Rightarrow> effect list \<times> page) list" where
  "listeners lower parse_html e =
     [listen_dom (persona_keydown e),
      listen_dom (persona_enter lower parse_html e),
      \<lambda>p. let (es, r) = help_keydown e (help_view p) in (es, put_help (final_state r) p),
      listen_dom (\<lambda>d. let (es, d') = escape_keydown e d in (es, Inr d')),
      \<lambda>p. let (es, s) = nav_keydown e (nav_view p) in (es, put_nav s p)]"

definition page_keydown ::
    "(jstr \<Rightarrow> jstr) \<Rightarrow> (jstr \<Rightarrow> markup list) \<Rightarrow> ui_event \<Rightarrow> page \<Rightarrow> effect list \<times> page" where
  "page_keydown lower parse_html e p =
     foldl (\<lambda>(es, p) f. let (es', p') = f p in (es @ es', p')) ([], p) (listeners lower parse_html e)"

lemma views [simp]: "put_nav (nav_view p) p = p" "put_help (help_view p) p = p"
  "nav_dom (nav_view p) = pg_dom p" "sc_dom (help_view p) = pg_dom p" "sc_dialog (help_view p) = pg_helpDialog p"
  by (simp_all add: put_nav_def nav_view_def put_help_def help_view_def)

text \<open>A key that every listener ignores leaves the page as it is.\<close>

lemma all_ignore:
  "\<forall>f\<in>set (listeners lower parse_html e). f p = ([], p) \<Longrightarrow> page_keydown lower parse_html e p = ([], p)"
  by (simp add: page_keydown_def listeners_def)

section \<open>The field of the shoutbox\<close>

definition shout_keydown ::
    "ui_event \<Rightarrow> composer \<Rightarrow> textarea option \<times> ac_state \<Rightarrow>
       composer \<times> effect list \<times> (textarea option \<times> ac_state) outcome" where
  "shout_keydown e c f =
     (let (c', es) = handleSendKeydown e (showDropdown (snd f)) c
      in if key e = js ''Enter'' \<and> (shiftKey e \<or> isComposing e \<or> keyCode e = 229) then (c', es, Inr f)
         else (let (es', r) = handleKeydown e f in (c', es @ es', r)))"

section \<open>Failed uploads and the toasts\<close>

text \<open>The toasts after the notifications an upload has sent, all of them of type error.\<close>

definition deliver :: "json list \<Rightarrow> notif_state \<Rightarrow> notif_state" where
  "deliver ms n = fold (\<lambda>m. on_notify (js ''error'') m None) ms n"

definition shows_error :: "json \<Rightarrow> notif_state \<Rightarrow> bool" where
  "shows_error m n \<longleftrightarrow> (\<exists>t\<in>set (notifications n). ntype t = js ''error'' \<and> message t = m)"

lemma notify_shows: "shows_error m (on_notify (js ''error'') m dur n)"
  by (auto simp: shows_error_def on_notify_def addNotification_def Let_def same_toast_def strict_eq_primitive)

lemma deliver_last: "shows_error m (deliver (ms @ [m]) n)"
  by (simp add: deliver_def notify_shows)

section \<open>An open dialog\<close>

lemma dialog_is_found:
  assumes "doc_querySelector d active_dialog_sel = Some x" "is_open d x"
  shows "doc_querySelector d open_dialog_sel \<noteq> None"
proof -
  have x: "x \<in> set (preorder (doc d))" "is_element d x" "sel_matches d (root_of (doc d)) active_dialog_sel x"
    using assms(1) by (auto simp: doc_querySelector_def find_Some_iff)
  then have "sel_matches d (root_of (doc d)) open_dialog_sel x"
    using assms(2)
    by (auto simp: open_dialog_sel_def active_dialog_sel_def dialog_class_def image_dialog_sel_def is_open_def)
  then show ?thesis using x by (auto simp: doc_querySelector_def find_None_iff)
qed

lemma dialog_selectors: "any_dialog_sel = open_dialog_sel"
  by (simp add: any_dialog_sel_def open_dialog_sel_def)

end
