(* ===== verification/PickerSupport.thy ===== *)
theory PickerSupport
  imports EmojiDatabase
begin

text \<open>
  The first part of the emoji picker element (libs/emoji-picker-element/picker.js): the groups and the
  other constants, the test of what the browser's font can draw, the skin tones, the summary of an
  emoji that the picker shows, and small helpers. The pixels of a canvas, the widths of rendered nodes
  and the rounding of floating-point numbers are parameters. Emoji are written as their UTF-16 code
  units; a decimal version stands for its double, which is only compared.
\<close>

section \<open>Constants\<close>

record emoji_group =
  gid :: int
  gemoji :: jstr
  gname :: jstr

definition allGroups :: "emoji_group list" where
  "allGroups =
    [\<lparr>gid = -1, gemoji = [0x2728], gname = js ''custom''\<rparr>,
     \<lparr>gid = 0, gemoji = [0xD83D, 0xDE00], gname = js ''smileys-emotion''\<rparr>,
     \<lparr>gid = 1, gemoji = [0xD83D, 0xDC4B], gname = js ''people-body''\<rparr>,
     \<lparr>gid = 3, gemoji = [0xD83D, 0xDC31], gname = js ''animals-nature''\<rparr>,
     \<lparr>gid = 4, gemoji = [0xD83C, 0xDF4E], gname = js ''food-drink''\<rparr>,
     \<lparr>gid = 5, gemoji = [0xD83C, 0xDFE0, 0xFE0F], gname = js ''travel-places''\<rparr>,
     \<lparr>gid = 6, gemoji = [0x26BD], gname = js ''activities''\<rparr>,
     \<lparr>gid = 7, gemoji = [0xD83D, 0xDCDD], gname = js ''objects''\<rparr>,
     \<lparr>gid = 8, gemoji = [0x26D4, 0xFE0F], gname = js ''symbols''\<rparr>,
     \<lparr>gid = 9, gemoji = [0xD83C, 0xDFC1], gname = js ''flags''\<rparr>]"

definition native_groups :: "emoji_group list" where
  "native_groups = drop 1 allGroups"

definition NUM_SKIN_TONES :: nat where
  "NUM_SKIN_TONES = 6"

definition versionsAndTestEmoji :: "(jstr \<times> rat) list" where
  "versionsAndTestEmoji =
    [([0xD83E, 0xDEE9], 16),
     ([0xD83E, 0xDEE8], 151 / 10),
     ([0xD83E, 0xDEE0], 14),
     ([0xD83E, 0xDD72], 131 / 10),
     ([0xD83E, 0xDD7B], 121 / 10),
     ([0xD83E, 0xDD70], 11),
     ([0xD83E, 0xDD29], 5),
     ([0xD83D, 0xDC71, 0x200D, 0x2640, 0xFE0F], 4),
     ([0xD83E, 0xDD23], 3),
     ([0xD83D, 0xDC41, 0xFE0F, 0x200D, 0xD83D, 0xDDE8, 0xFE0F], 2),
     ([0xD83D, 0xDE00], 1),
     ([0xD83D, 0xDE10, 0xFE0F], 7 / 10),
     ([0xD83D, 0xDE03], 6 / 10)]"

definition DEFAULT_SKIN_TONE_EMOJI :: jstr where
  "DEFAULT_SKIN_TONE_EMOJI = [0xD83D, 0xDD90, 0xFE0F]"

definition DEFAULT_NUM_COLUMNS :: nat where
  "DEFAULT_NUM_COLUMNS = 8"

definition MOST_COMMONLY_USED_EMOJI :: "jstr list" where
  "MOST_COMMONLY_USED_EMOJI =
    [[0xD83D, 0xDE0A],
     [0xD83D, 0xDE12],
     [0x2764, 0xFE0F],
     [0xD83D, 0xDC4D, 0xFE0F],
     [0xD83D, 0xDE0D],
     [0xD83D, 0xDE02],
     [0xD83D, 0xDE2D],
     [0x263A, 0xFE0F],
     [0xD83D, 0xDE14],
     [0xD83D, 0xDE29],
     [0xD83D, 0xDE0F],
     [0xD83D, 0xDC95],
     [0xD83D, 0xDE4C],
     [0xD83D, 0xDE18]]"

definition DEFAULT_CATEGORY_SORTING :: "jstr \<Rightarrow> jstr \<Rightarrow> int" where
  "DEFAULT_CATEGORY_SORTING a b = (if a < b then -1 else if a > b then 1 else 0)"

section \<open>What the font can draw\<close>

text \<open>
  \<open>feature text colour\<close> is the pixel that the canvas holds after the text was drawn in the colour;
  \<open>None\<close> is a canvas error.
\<close>

definition compareFeatures :: "nat list \<Rightarrow> nat list \<Rightarrow> bool" where
  "compareFeatures feature1 feature2 \<longleftrightarrow>
     (let feature1Str = join (js '','') (map decimal feature1);
          feature2Str = join (js '','') (map decimal feature2)
      in feature1Str = feature2Str \<and> \<not> startsWith feature1Str (js ''0,0,0,''))"

definition testColorEmojiSupported :: "(jstr \<Rightarrow> jstr \<Rightarrow> nat list option) \<Rightarrow> jstr \<Rightarrow> bool option" where
  "testColorEmojiSupported feature txt =
     (case (feature txt (js ''#000''), feature txt (js ''#fff'')) of
        (Some feature1, Some feature2) \<Rightarrow> Some (compareFeatures feature1 feature2)
      | _ \<Rightarrow> None)"

fun first_supported :: "(jstr \<Rightarrow> bool option) \<Rightarrow> (jstr \<times> rat) list \<Rightarrow> rat option" where
  "first_supported test [] = None"
| "first_supported test ((emoji, version) # entries) =
     (case test emoji of
        None \<Rightarrow> None
      | Some True \<Rightarrow> Some version
      | Some False \<Rightarrow> first_supported test entries)"

definition determineEmojiSupportLevel :: "(jstr \<Rightarrow> jstr \<Rightarrow> nat list option) \<Rightarrow> rat" where
  "determineEmojiSupportLevel feature =
     (case first_supported (testColorEmojiSupported feature) versionsAndTestEmoji of
        Some version \<Rightarrow> version
      | None \<Rightarrow> snd (hd versionsAndTestEmoji))"

text \<open>The promise of the level: made once, settled by the idle callback.\<close>

datatype level_promise = NoPromise | AwaitIdle | Level rat

fun detectEmojiSupportLevel :: "level_promise \<Rightarrow> level_promise" where
  "detectEmojiSupportLevel NoPromise = AwaitIdle"
| "detectEmojiSupportLevel p = p"

fun run_idle :: "(jstr \<Rightarrow> jstr \<Rightarrow> nat list option) \<Rightarrow> level_promise \<Rightarrow> level_promise" where
  "run_idle feature AwaitIdle = Level (determineEmojiSupportLevel feature)"
| "run_idle feature p = p"

section \<open>Skin tones\<close>

definition VARIATION_SELECTOR :: unit16 where
  "VARIATION_SELECTOR = 0xFE0F"

definition SKINTONE_MODIFIER :: unit16 where
  "SKINTONE_MODIFIER = 0xD83C"

definition ZWJ :: unit16 where
  "ZWJ = 0x200D"

definition LIGHT_SKIN_TONE :: nat where
  "LIGHT_SKIN_TONE = 0x1F3FB"

definition LIGHT_SKIN_TONE_MODIFIER :: nat where
  "LIGHT_SKIN_TONE_MODIFIER = 0xDFFB"

text \<open>\<open>String.fromCodePoint\<close> for a code point up to U+10FFFF.\<close>

definition fromCodePoint :: "nat \<Rightarrow> jstr" where
  "fromCodePoint n =
     (if n < 0x10000 then [word_of_nat n]
      else [word_of_nat (0xD800 + (n - 0x10000) div 0x400), word_of_nat (0xDC00 + (n - 0x10000) mod 0x400)])"

definition applySkinTone :: "jstr \<Rightarrow> nat \<Rightarrow> jstr" where
  "applySkinTone str skinTone =
     (if skinTone = 0 then str
      else if ZWJ \<in> set str
      then takeWhile (\<lambda>c. c \<noteq> ZWJ) str @ fromCodePoint (LIGHT_SKIN_TONE + skinTone - 1) @
           dropWhile (\<lambda>c. c \<noteq> ZWJ) str
      else (if str \<noteq> [] \<and> last str = VARIATION_SELECTOR then butlast str else str) @
           SKINTONE_MODIFIER # fromCodePoint (LIGHT_SKIN_TONE_MODIFIER + skinTone - 1))"

section \<open>Small helpers\<close>

definition incrementOrDecrement :: "bool \<Rightarrow> int \<Rightarrow> 'a list \<Rightarrow> int" where
  "incrementOrDecrement decrement val arr =
     (let v = val + (if decrement then -1 else 1)
      in if v < 0 then int (length arr) - 1
         else if v \<ge> int (length arr) then 0 else v)"

definition uniqBy_loop :: "'a list \<Rightarrow> ('a \<Rightarrow> 'k) \<Rightarrow> 'a list" where
  "uniqBy_loop arr func =
     snd (fold (\<lambda>item (seen, res). if func item \<in> set seen then (seen, res) else (seen @ [func item], res @ [item]))
       arr ([], []))"

definition uniq :: "'a list \<Rightarrow> 'a list" where
  "uniq arr = uniqBy_loop arr (\<lambda>x. x)"

text \<open>
  \<open>getFromMap\<close>: the cached object, or the one that \<open>func\<close> makes, which is then kept. Everything
  cached is an object, so it is truthy.
\<close>

definition getFromMap :: "('k \<rightharpoonup> 'v) \<Rightarrow> 'k \<Rightarrow> 'v \<Rightarrow> 'v \<times> ('k \<rightharpoonup> 'v)" where
  "getFromMap cache k made =
     (case cache k of Some cached \<Rightarrow> (cached, cache) | None \<Rightarrow> (made, cache(k \<mapsto> made)))"

fun truthy_str :: "jstr option \<Rightarrow> bool" where
  "truthy_str None = False"
| "truthy_str (Some s) = (s \<noteq> [])"

text \<open>\<open>a || b\<close> on strings that may be undefined.\<close>

definition or_str :: "jstr option \<Rightarrow> jstr option \<Rightarrow> jstr option" where
  "or_str a b = (if truthy_str a then a else b)"

section \<open>The summary of an emoji\<close>

text \<open>
  \<open>v <= level\<close>: the coercion of a value to a number, with \<open>num\<close> for strings, arrays and objects,
  and the comparison.
\<close>

fun to_number :: "(json \<Rightarrow> jnum) \<Rightarrow> json \<Rightarrow> jnum" where
  "to_number num JUndefined = NotANumber"
| "to_number num JNull = Fin 0"
| "to_number num (JBool b) = Fin (of_bool b)"
| "to_number num (JNum n) = n"
| "to_number num v = num v"

fun num_le :: "jnum \<Rightarrow> jnum \<Rightarrow> bool" where
  "num_le NotANumber _ = False"
| "num_le _ NotANumber = False"
| "num_le (Fin p) (Fin q) = (p \<le> q)"
| "num_le NegInf _ = True"
| "num_le _ PosInf = True"
| "num_le _ _ = False"

record emoji_summary =
  su_unicode :: "jstr option"
  su_name :: "jstr option"
  su_shortcodes :: "jstr list option"
  su_url :: "jstr option"
  su_category :: "jstr option"
  su_annotation :: "jstr option"
  su_id :: "jstr option"
  su_skins :: "(jnum \<rightharpoonup> jstr) option"

definition toSimpleSkinsMap :: "(json \<Rightarrow> jnum) \<Rightarrow> jnum \<Rightarrow> skin list \<Rightarrow> jnum \<rightharpoonup> jstr" where
  "toSimpleSkinsMap num level sks =
     fold (\<lambda>sk res. case sk_tone sk of
         JNum t \<Rightarrow> if num_le (to_number num (sk_version sk)) level then res(t \<mapsto> sk_unicode sk) else res
       | _ \<Rightarrow> res) sks Map.empty"

fun summarizeEmoji :: "(json \<Rightarrow> jnum) \<Rightarrow> jnum \<Rightarrow> handed_out \<Rightarrow> emoji_summary" where
  "summarizeEmoji num level (CleanEmoji e) =
     \<lparr>su_unicode = Some (ce_unicode e), su_name = None, su_shortcodes = ce_shortcodes e, su_url = None,
      su_category = None, su_annotation = Some (ce_annotation e),
      su_id = or_str (Some (ce_unicode e)) None,
      su_skins = map_option (toSimpleSkinsMap num level) (ce_skins e)\<rparr>"
| "summarizeEmoji num level (CustomEmoji c) =
     \<lparr>su_unicode = None, su_name = Some (cname c), su_shortcodes = cshortcodes c, su_url = Some (curl c),
      su_category = ccategory c, su_annotation = None,
      su_id = or_str None (Some (cname c)), su_skins = None\<rparr>"

definition summarizeEmojisForUI :: "(json \<Rightarrow> jnum) \<Rightarrow> jnum \<Rightarrow> handed_out list \<Rightarrow> emoji_summary list" where
  "summarizeEmojisForUI num level emojis = map (summarizeEmoji num level) emojis"

definition hasZwj :: "emoji_summary \<Rightarrow> bool" where
  "hasZwj emoji \<longleftrightarrow> (case su_unicode emoji of Some u \<Rightarrow> ZWJ \<in> set u | None \<Rightarrow> False)"

text \<open>\<open>emoji.skins[tone]\<close> of a tone that is not 0, else the plain emoji.\<close>

definition unicodeWithSkin :: "emoji_summary \<Rightarrow> int \<Rightarrow> jstr option" where
  "unicodeWithSkin emoji tone =
     or_str (if tone = 0 then None
             else case su_skins emoji of None \<Rightarrow> None | Some m \<Rightarrow> m (Fin (of_int tone)))
       (su_unicode emoji)"

definition labelWithSkin :: "emoji_summary \<Rightarrow> int \<Rightarrow> jstr" where
  "labelWithSkin emoji tone =
     join (js '', '') (uniq (map the (filter truthy_str
       ([or_str (su_name emoji) (unicodeWithSkin emoji tone), su_annotation emoji] @
        map Some (or_empty (su_shortcodes emoji))))))"

definition titleForEmoji :: "emoji_summary \<Rightarrow> jstr" where
  "titleForEmoji emoji =
     (if truthy_str (su_annotation emoji) then the (su_annotation emoji)
      else join (js '', '') (or_empty (su_shortcodes emoji)))"

section \<open>Joined emoji\<close>

text \<open>
  The widths of joined emoji, kept for the whole page. \<open>width\<close> is the width of the rendered node of
  an emoji, \<open>None\<close> when the page has no such node, and \<open>baseline\<close> the width of the baseline emoji;
  \<open>fl\<close> is the rounding of a quotient.
\<close>

record zwj_memo =
  baselineEmojiWidth :: "rat option"
  supportedZwjEmojis :: "jstr \<rightharpoonup> bool"

definition zwj_supported :: "(rat \<Rightarrow> rat) \<Rightarrow> rat \<Rightarrow> rat \<Rightarrow> bool" where
  "zwj_supported fl base w \<longleftrightarrow> fl (w / fl (18 / 10)) < base"

fun checkZwjSupport ::
    "(rat \<Rightarrow> rat) \<Rightarrow> (emoji_summary \<Rightarrow> rat option) \<Rightarrow> rat \<Rightarrow> emoji_summary list \<Rightarrow> bool \<Rightarrow> zwj_memo \<Rightarrow>
     (js_error \<times> zwj_memo) + (bool \<times> zwj_memo)" where
  "checkZwjSupport fl width baseline [] allSupported m = Inr (allSupported, m)"
| "checkZwjSupport fl width baseline (emoji # emojis) allSupported m =
     (case width emoji of
        None \<Rightarrow> Inl (TypeError, m)
      | Some emojiWidth \<Rightarrow>
          (let base = (case baselineEmojiWidth m of None \<Rightarrow> baseline | Some b \<Rightarrow> b);
               supported = zwj_supported fl base emojiWidth;
               m' = m\<lparr>baselineEmojiWidth := Some base,
                      supportedZwjEmojis := (supportedZwjEmojis m)(the (su_unicode emoji) \<mapsto> supported)\<rparr>
           in checkZwjSupport fl width baseline emojis (allSupported \<and> supported) m'))"

definition isZwjSupported :: "zwj_memo \<Rightarrow> emoji_summary \<Rightarrow> bool" where
  "isZwjSupported m emoji \<longleftrightarrow>
     \<not> truthy_str (su_unicode emoji) \<or> \<not> hasZwj emoji \<or>
     supportedZwjEmojis m (the (su_unicode emoji)) = Some True"


section \<open>The helpers\<close>

lemma uniqBy_loop_uniqBy: "uniqBy_loop arr func = uniqBy arr func"
proof -
  let ?f = "\<lambda>item (seen, res). if func item \<in> set seen then (seen, res) else (seen @ [func item], res @ [item])"
  have "snd (fold ?f arr (seen, res)) = res @ uniq_from seen' func arr" if "set seen = set seen'" for seen seen' res
    using that
  proof (induction arr arbitrary: seen seen' res)
    case (Cons item arr)
    show ?case
      using Cons.IH [of seen seen' res] Cons.IH [of "seen @ [func item]" "func item # seen'" "res @ [item]"] Cons.prems
      by simp
  qed simp
  then show ?thesis
    by (simp add: uniqBy_loop_def uniqBy_def)
qed

lemma incrementOrDecrement_mod:
  assumes "0 \<le> v" "v < int (length arr)"
  shows "incrementOrDecrement d v arr = (v + (if d then -1 else 1)) mod int (length arr)"
proof (cases "0 \<le> v + (if d then -1 else 1) \<and> v + (if d then -1 else 1) < int (length arr)")
  case True
  then show ?thesis by (simp add: incrementOrDecrement_def)
next
  case False
  have "int (length arr) - 1 = (-1) mod int (length arr)"
    using assms by (intro int_mod_pos_eq [of _ _ "-1", symmetric]) auto
  moreover have "v = 0 \<and> d \<or> v = int (length arr) - 1 \<and> \<not> d"
    using False assms by (auto split: if_splits)
  ultimately show ?thesis
  proof (elim disjE)
    assume "v = int (length arr) - 1 \<and> \<not> d"
    then show ?thesis using assms by (auto simp: incrementOrDecrement_def)
  qed (use assms in \<open>auto simp: incrementOrDecrement_def\<close>)
qed

lemma incrementOrDecrement_range:
  "arr \<noteq> [] \<Longrightarrow> -1 \<le> v \<Longrightarrow>
   0 \<le> incrementOrDecrement d v arr \<and> incrementOrDecrement d v arr < int (length arr)"
  by (auto simp: incrementOrDecrement_def Let_def)

lemma incrementOrDecrement_undo:
  "0 \<le> v \<Longrightarrow> v < int (length arr) \<Longrightarrow>
   incrementOrDecrement (\<not> d) (incrementOrDecrement d v arr) arr = v"
  by (auto simp: incrementOrDecrement_def Let_def split: if_splits)

section \<open>Skin tones\<close>

lemma skin_modifier:
  assumes "1 \<le> t" "t \<le> 5"
  shows "fromCodePoint (LIGHT_SKIN_TONE + t - 1) =
    SKINTONE_MODIFIER # fromCodePoint (LIGHT_SKIN_TONE_MODIFIER + t - 1)"
proof -
  have "t = 1 \<or> t = 2 \<or> t = 3 \<or> t = 4 \<or> t = 5" using assms by auto
  then show ?thesis
    by (auto simp: fromCodePoint_def LIGHT_SKIN_TONE_def SKINTONE_MODIFIER_def LIGHT_SKIN_TONE_MODIFIER_def)
qed

lemma skin_modifier_inj:
  assumes "1 \<le> t" "t \<le> 5" "1 \<le> t'" "t' \<le> 5"
    and "fromCodePoint (LIGHT_SKIN_TONE + t - 1) = fromCodePoint (LIGHT_SKIN_TONE + t' - 1)"
  shows "t = t'"
proof -
  have "t \<in> {1, 2, 3, 4, 5}" "t' \<in> {1, 2, 3, 4, 5}" using assms by auto
  then show ?thesis
    using assms(5) by (auto simp: fromCodePoint_def LIGHT_SKIN_TONE_def)
qed

text \<open>
  A skin tone changes the first emoji of a joined sequence. The emoji with a tone of 1 to 5 is the
  plain one with the modifier character of that tone (U+1F3FB for the first) put behind its first
  member: in front of the first joiner when there is one, at the end otherwise, where it replaces a
  variation selector.
\<close>

theorem applySkinTone_modifies_first:
  assumes "1 \<le> t" "t \<le> 5"
  shows "\<exists>p q. applySkinTone str t = p @ fromCodePoint (LIGHT_SKIN_TONE + t - 1) @ q \<and> ZWJ \<notin> set p \<and>
    (q = [] \<or> hd q = ZWJ) \<and>
    p @ q = (if ZWJ \<in> set str \<or> str = [] \<or> last str \<noteq> VARIATION_SELECTOR then str else butlast str)"
proof (cases "ZWJ \<in> set str")
  case True
  let ?p = "takeWhile (\<lambda>c. c \<noteq> ZWJ) str" and ?q = "dropWhile (\<lambda>c. c \<noteq> ZWJ) str"
  have "applySkinTone str t = ?p @ fromCodePoint (LIGHT_SKIN_TONE + t - 1) @ ?q"
    using True assms by (simp add: applySkinTone_def)
  moreover have "ZWJ \<notin> set ?p" by (auto dest: set_takeWhileD)
  moreover have "?q = [] \<or> hd ?q = ZWJ" using hd_dropWhile [of "\<lambda>c. c \<noteq> ZWJ" str] by auto
  moreover have "?p @ ?q = str" by simp
  ultimately show ?thesis
    using True by (intro exI [of _ ?p] exI [of _ ?q] conjI) simp_all
next
  case False
  let ?p = "if str \<noteq> [] \<and> last str = VARIATION_SELECTOR then butlast str else str"
  have "applySkinTone str t = ?p @ fromCodePoint (LIGHT_SKIN_TONE + t - 1) @ []"
    unfolding skin_modifier [OF assms] using False assms by (simp add: applySkinTone_def)
  moreover have "ZWJ \<notin> set ?p" using False by (auto dest: in_set_butlastD)
  ultimately show ?thesis
    using False by (intro exI [of _ ?p] exI [of _ "[]"] conjI) simp_all
qed

theorem applySkinTone_modifies_first_witness:
  "\<exists>p q. applySkinTone [0xD83D, 0xDC71, 0x200D, 0x2640] 3 = p @ fromCodePoint 0x1F3FD @ q \<and>
     p @ q = [0xD83D, 0xDC71, 0x200D, 0x2640]"
proof -
  have "ZWJ \<in> set [0xD83D, 0xDC71, 0x200D, 0x2640]" by (simp add: ZWJ_def)
  moreover obtain p q where
    "applySkinTone [0xD83D, 0xDC71, 0x200D, 0x2640] 3 = p @ fromCodePoint (LIGHT_SKIN_TONE + 3 - 1) @ q"
    "p @ q = (if ZWJ \<in> set [0xD83D, 0xDC71, 0x200D, 0x2640] \<or> [0xD83D, 0xDC71, 0x200D, 0x2640] = ([] :: jstr) \<or>
       last [0xD83D, 0xDC71, 0x200D, 0x2640] \<noteq> VARIATION_SELECTOR
       then [0xD83D, 0xDC71, 0x200D, 0x2640] else butlast [0xD83D, 0xDC71, 0x200D, 0x2640])"
    using applySkinTone_modifies_first [of 3 "[0xD83D, 0xDC71, 0x200D, 0x2640]"] by auto
  ultimately show ?thesis by (intro exI [of _ p] exI [of _ q]) (simp add: LIGHT_SKIN_TONE_def)
qed

section \<open>The level of the font\<close>

lemma first_supported_mem: "first_supported test entries = Some v \<Longrightarrow> v \<in> snd ` set entries"
  by (induction test entries rule: first_supported.induct) (auto split: option.splits bool.splits)

lemma first_supported_find:
  "first_supported test entries =
     (case List.find (\<lambda>(e, v). test e \<noteq> Some False) entries of
        None \<Rightarrow> None
      | Some (e, v) \<Rightarrow> if test e = Some True then Some v else None)"
  by (induction test entries rule: first_supported.induct) (auto split: option.splits bool.splits)

text \<open>
  The level of the font. Whatever the canvas answers, the level is one of the versions of the table,
  so it lies between 0.6 and 16. It is the version of the newest test emoji that is drawn in colour,
  and 16 when the canvas raises an error before one is found or when no emoji is drawn in colour.
\<close>

theorem support_level_bounds:
  "6 / 10 \<le> determineEmojiSupportLevel feature \<and> determineEmojiSupportLevel feature \<le> 16 \<and>
   determineEmojiSupportLevel feature =
     (case List.find (\<lambda>(e, v). testColorEmojiSupported feature e \<noteq> Some False) versionsAndTestEmoji of
        None \<Rightarrow> 16
      | Some (e, v) \<Rightarrow> if testColorEmojiSupported feature e = Some True then v else 16)"
proof -
  have "6 / 10 \<le> determineEmojiSupportLevel feature \<and> determineEmojiSupportLevel feature \<le> 16"
    using first_supported_mem [of "testColorEmojiSupported feature" versionsAndTestEmoji]
    by (auto simp: determineEmojiSupportLevel_def versionsAndTestEmoji_def split: option.split)
  moreover have "snd (hd versionsAndTestEmoji) = 16" by (simp add: versionsAndTestEmoji_def)
  ultimately show ?thesis
    by (auto simp: determineEmojiSupportLevel_def first_supported_find split: option.splits if_splits)
qed

section \<open>Joined emoji\<close>

lemma checkZwjSupport_ok:
  assumes "\<forall>e \<in> set emojis. width e \<noteq> None"
  shows "\<exists>m'. checkZwjSupport fl width baseline emojis ok m =
      Inr (ok \<and> (\<forall>e \<in> set emojis. zwj_supported fl
          (case baselineEmojiWidth m of None \<Rightarrow> baseline | Some b \<Rightarrow> b) (the (width e))), m') \<and>
    dom (supportedZwjEmojis m') = dom (supportedZwjEmojis m) \<union> (the \<circ> su_unicode) ` set emojis"
  using assms
proof (induction emojis arbitrary: ok m)
  case (Cons e emojis)
  then obtain w where w: "width e = Some w" by auto
  let ?base = "case baselineEmojiWidth m of None \<Rightarrow> baseline | Some b \<Rightarrow> b"
  let ?s = "zwj_supported fl ?base w"
  let ?m = "m\<lparr>baselineEmojiWidth := Some ?base,
    supportedZwjEmojis := (supportedZwjEmojis m)(the (su_unicode e) \<mapsto> ?s)\<rparr>"
  show ?case
    using Cons.IH [of "ok \<and> ?s" ?m] Cons.prems w by (auto simp: Let_def)
qed simp

lemma checkZwjSupport_missing:
  assumes "\<exists>e \<in> set emojis. width e = None"
  shows "\<exists>m'. checkZwjSupport fl width baseline emojis ok m = Inl (TypeError, m')"
  using assms
proof (induction emojis arbitrary: ok m)
  case (Cons e emojis)
  then show ?case by (cases "width e") (simp_all add: Let_def)
qed simp

end
