(* ===== verification/PickerReactive.thy ===== *)
theory PickerReactive
  imports Prelude
begin

text \<open>
  The reactive state of the emoji picker: \<open>createState\<close> of libs/emoji-picker-element/picker.js. A
  property that is read while an effect runs makes the effect an observer of the property; a write of
  another value marks the observers as dirty and queues one microtask, which runs them. The callback
  of an effect is a program over the proxy: it reads properties, writes properties, calls something
  outside the state (a request, a timer, an animation frame; the calls are kept in a list), and may raise.
  An observer is named by the number of its effect, in the order of creation. \<open>same\<close> is the strict
  equality of the language: it never holds of two values that differ, but it may fail for equal ones
  (two arrays with the same elements).
\<close>

section \<open>State and operations\<close>

datatype ('p, 'v, 'a) prog =
    Done
  | Raise
  | Get 'p "'v \<Rightarrow> ('p, 'v, 'a) prog"
  | Put 'p 'v "('p, 'v, 'a) prog"
  | Call 'a "('p, 'v, 'a) prog"

record ('p, 'v, 'a) reactive =
  props :: "'p \<Rightarrow> 'v"
  propsToObservers :: "'p \<Rightarrow> nat list"
  dirtyObservers :: "nat list"
  queued :: bool
  microtasks :: nat
  rx_destroyed :: bool
  currentObserver :: "nat option"
  observers :: nat
  calls :: "'a list"

text \<open>The effects that have been created are the observers below \<open>observers\<close>.\<close>

definition createState :: "('p \<Rightarrow> 'v) \<Rightarrow> ('p, 'v, 'a) reactive" where
  "createState vals = \<lparr>props = vals, propsToObservers = (\<lambda>p. []), dirtyObservers = [], queued = False,
     microtasks = 0, rx_destroyed = False, currentObserver = None, observers = 0, calls = []\<rparr>"

text \<open>\<open>Set.add\<close> keeps the order of insertion.\<close>

definition set_add :: "'a \<Rightarrow> 'a list \<Rightarrow> 'a list" where
  "set_add x xs = (if x \<in> set xs then xs else xs @ [x])"

definition proxy_get :: "'p \<Rightarrow> ('p, 'v, 'a) reactive \<Rightarrow> ('p, 'v, 'a) reactive" where
  "proxy_get p s =
     (case currentObserver s of
        None \<Rightarrow> s
      | Some i \<Rightarrow> s\<lparr>propsToObservers := (propsToObservers s)(p := set_add i (propsToObservers s p))\<rparr>)"

definition queue_flush :: "('p, 'v, 'a) reactive \<Rightarrow> ('p, 'v, 'a) reactive" where
  "queue_flush s = (if queued s then s else s\<lparr>queued := True, microtasks := microtasks s + 1\<rparr>)"

definition proxy_set :: "('v \<Rightarrow> 'v \<Rightarrow> bool) \<Rightarrow> 'p \<Rightarrow> 'v \<Rightarrow> ('p, 'v, 'a) reactive \<Rightarrow> ('p, 'v, 'a) reactive" where
  "proxy_set same p v s =
     (if same (props s p) v then s
      else let s1 = s\<lparr>props := (props s)(p := v)\<rparr>; obs = propsToObservers s1 p
           in if obs = [] then s1
              else queue_flush (s1\<lparr>dirtyObservers := fold set_add obs (dirtyObservers s1)\<rparr>))"

primrec run_prog ::
    "('v \<Rightarrow> 'v \<Rightarrow> bool) \<Rightarrow> ('p, 'v, 'a) prog \<Rightarrow> ('p, 'v, 'a) reactive \<Rightarrow> ('p, 'v, 'a) reactive outcome" where
  "run_prog same Done = (\<lambda>s. Inr s)"
| "run_prog same Raise = (\<lambda>s. Inl (TypeError, s))"
| "run_prog same (Get p k) = (\<lambda>s. run_prog same (k (props s p)) (proxy_get p s))"
| "run_prog same (Put p v k) = (\<lambda>s. run_prog same k (proxy_set same p v s))"
| "run_prog same (Call a k) = (\<lambda>s. run_prog same k (s\<lparr>calls := calls s @ [a]\<rparr>))"

text \<open>\<open>runnable\<close>: the previous observer comes back in every case.\<close>

definition runnable ::
    "('v \<Rightarrow> 'v \<Rightarrow> bool) \<Rightarrow> (nat \<Rightarrow> ('p, 'v, 'a) prog) \<Rightarrow> nat \<Rightarrow> ('p, 'v, 'a) reactive \<Rightarrow> ('p, 'v, 'a) reactive outcome" where
  "runnable same eff i s =
     (let oldObserver = currentObserver s
      in case run_prog same (eff i) (s\<lparr>currentObserver := Some i\<rparr>) of
           Inl (er, s1) \<Rightarrow> Inl (er, s1\<lparr>currentObserver := oldObserver\<rparr>)
         | Inr s1 \<Rightarrow> Inr (s1\<lparr>currentObserver := oldObserver\<rparr>))"

definition createEffect ::
    "('v \<Rightarrow> 'v \<Rightarrow> bool) \<Rightarrow> (nat \<Rightarrow> ('p, 'v, 'a) prog) \<Rightarrow> ('p, 'v, 'a) reactive \<Rightarrow> ('p, 'v, 'a) reactive outcome" where
  "createEffect same eff s = runnable same eff (observers s) (s\<lparr>observers := observers s + 1\<rparr>)"

fun run_observers ::
    "('v \<Rightarrow> 'v \<Rightarrow> bool) \<Rightarrow> (nat \<Rightarrow> ('p, 'v, 'a) prog) \<Rightarrow> nat list \<Rightarrow> ('p, 'v, 'a) reactive \<Rightarrow> ('p, 'v, 'a) reactive outcome" where
  "run_observers same eff [] s = Inr s"
| "run_observers same eff (i # is) s = and_then (runnable same eff i s) (run_observers same eff is)"

text \<open>The \<open>finally\<close> block of \<open>flush\<close>.\<close>

definition flush_end :: "('p, 'v, 'a) reactive \<Rightarrow> ('p, 'v, 'a) reactive" where
  "flush_end s =
     (let s1 = s\<lparr>queued := False\<rparr>
      in if dirtyObservers s1 \<noteq> [] then s1\<lparr>queued := True, microtasks := microtasks s1 + 1\<rparr> else s1)"

text \<open>\<open>flush\<close>, run as the next microtask.\<close>

definition flush ::
    "('v \<Rightarrow> 'v \<Rightarrow> bool) \<Rightarrow> (nat \<Rightarrow> ('p, 'v, 'a) prog) \<Rightarrow> ('p, 'v, 'a) reactive \<Rightarrow> ('p, 'v, 'a) reactive outcome" where
  "flush same eff s =
     (let s0 = s\<lparr>microtasks := microtasks s - 1\<rparr>
      in if rx_destroyed s0 then Inr s0
         else case run_observers same eff (dirtyObservers s0) (s0\<lparr>dirtyObservers := []\<rparr>) of
                Inl (er, s1) \<Rightarrow> Inl (er, flush_end s1)
              | Inr s1 \<Rightarrow> Inr (flush_end s1))"

definition abort_state :: "('p, 'v, 'a) reactive \<Rightarrow> ('p, 'v, 'a) reactive" where
  "abort_state s = s\<lparr>rx_destroyed := True\<rparr>"

text \<open>What happens to the state: an effect is created, code outside the effects writes, a microtask runs, the
  element is destroyed.\<close>

datatype ('p, 'v) rx_event = Create | Write 'p 'v | Flush | Abort

fun rx_step ::
    "('v \<Rightarrow> 'v \<Rightarrow> bool) \<Rightarrow> (nat \<Rightarrow> ('p, 'v, 'a) prog) \<Rightarrow> ('p, 'v, 'a) reactive \<Rightarrow> ('p, 'v) rx_event \<Rightarrow>
     ('p, 'v, 'a) reactive outcome" where
  "rx_step same eff s Create = createEffect same eff s"
| "rx_step same eff s (Write p v) = Inr (proxy_set same p v s)"
| "rx_step same eff s Flush = (if microtasks s = 0 then Inr s else flush same eff s)"
| "rx_step same eff s Abort = Inr (abort_state s)"

fun rx_run ::
    "('v \<Rightarrow> 'v \<Rightarrow> bool) \<Rightarrow> (nat \<Rightarrow> ('p, 'v, 'a) prog) \<Rightarrow> ('p, 'v, 'a) reactive \<Rightarrow> ('p, 'v) rx_event list \<Rightarrow>
     ('p, 'v, 'a) reactive outcome" where
  "rx_run same eff s [] = Inr s"
| "rx_run same eff s (e # es) = and_then (rx_step same eff s e) (\<lambda>s1. rx_run same eff s1 es)"

lemma rx_run_append: "rx_run same eff s (es @ fs) = and_then (rx_run same eff s es) (\<lambda>s1. rx_run same eff s1 fs)"
proof (induction es arbitrary: s)
  case (Cons e es)
  then show ?case by (cases "rx_step same eff s e") simp_all
qed simp

section \<open>What a program reads and writes\<close>

text \<open>The reads and the last writes of the path that a program takes on given values.\<close>

primrec path_reads :: "('p, 'v, 'a) prog \<Rightarrow> ('p \<Rightarrow> 'v) \<Rightarrow> 'p set" where
  "path_reads Done t = {}"
| "path_reads Raise t = {}"
| "path_reads (Get p k) t = insert p (path_reads (k (t p)) t)"
| "path_reads (Put p v k) t = path_reads k t"
| "path_reads (Call a k) t = path_reads k t"

primrec last_write :: "('p, 'v, 'a) prog \<Rightarrow> ('p \<Rightarrow> 'v) \<Rightarrow> 'p \<rightharpoonup> 'v" where
  "last_write Done t = (\<lambda>q. None)"
| "last_write Raise t = (\<lambda>q. None)"
| "last_write (Get p k) t = last_write (k (t p)) t"
| "last_write (Put p v k) t =
     (\<lambda>q. case last_write k t q of Some w \<Rightarrow> Some w | None \<Rightarrow> if q = p then Some v else None)"
| "last_write (Call a k) t = last_write k t"

text \<open>What holds of every path.\<close>

primrec reads_only :: "('p \<Rightarrow> bool) \<Rightarrow> ('p, 'v, 'a) prog \<Rightarrow> bool" where
  "reads_only P Done = True"
| "reads_only P Raise = True"
| "reads_only P (Get p k) = (P p \<and> (\<forall>v. reads_only P (k v)))"
| "reads_only P (Put p v k) = reads_only P k"
| "reads_only P (Call a k) = reads_only P k"

primrec writes_only :: "('p \<Rightarrow> bool) \<Rightarrow> ('p, 'v, 'a) prog \<Rightarrow> bool" where
  "writes_only P Done = True"
| "writes_only P Raise = True"
| "writes_only P (Get p k) = (\<forall>v. writes_only P (k v))"
| "writes_only P (Put p v k) = (P p \<and> writes_only P k)"
| "writes_only P (Call a k) = writes_only P k"

text \<open>On values of the right types, a program writes such values and does not raise.\<close>

primrec typed_prog :: "('p \<Rightarrow> 'v \<Rightarrow> bool) \<Rightarrow> ('p, 'v, 'a) prog \<Rightarrow> bool" where
  "typed_prog ok Done = True"
| "typed_prog ok Raise = False"
| "typed_prog ok (Get p k) = (\<forall>v. ok p v \<longrightarrow> typed_prog ok (k v))"
| "typed_prog ok (Put p v k) = (ok p v \<and> typed_prog ok k)"
| "typed_prog ok (Call a k) = typed_prog ok k"

definition typed_state :: "('p \<Rightarrow> 'v \<Rightarrow> bool) \<Rightarrow> ('p, 'v, 'a) reactive \<Rightarrow> bool" where
  "typed_state ok s \<longleftrightarrow> (\<forall>p. ok p (props s p))"

text \<open>The same for programs that may raise.\<close>

primrec puts_ok :: "('p \<Rightarrow> 'v \<Rightarrow> bool) \<Rightarrow> ('p, 'v, 'a) prog \<Rightarrow> bool" where
  "puts_ok ok Done = True"
| "puts_ok ok Raise = True"
| "puts_ok ok (Get p k) = (\<forall>v. puts_ok ok (k v))"
| "puts_ok ok (Put p v k) = (ok p v \<and> puts_ok ok k)"
| "puts_ok ok (Call a k) = puts_ok ok k"

lemma path_cong:
  "\<forall>p \<in> path_reads c t. t' p = t p \<Longrightarrow> path_reads c t' = path_reads c t \<and> last_write c t' = last_write c t"
  by (induction c) auto

lemma writes_only_mono: "writes_only P c \<Longrightarrow> (\<And>p. P p \<Longrightarrow> Q p) \<Longrightarrow> writes_only Q c"
  by (induction c) auto

lemma path_reads_only: "reads_only P c \<Longrightarrow> p \<in> path_reads c t \<Longrightarrow> P p"
  by (induction c) auto

section \<open>What one operation changes\<close>

lemma set_set_add [simp]: "set (set_add x xs) = insert x (set xs)"
  by (auto simp: set_add_def)

lemma set_fold_set_add [simp]: "set (fold set_add xs ys) = set xs \<union> set ys"
  by (induction xs arbitrary: ys) auto

lemma proxy_get_simps [simp]:
  "props (proxy_get p s) = props s" "dirtyObservers (proxy_get p s) = dirtyObservers s"
  "queued (proxy_get p s) = queued s" "microtasks (proxy_get p s) = microtasks s"
  "rx_destroyed (proxy_get p s) = rx_destroyed s" "currentObserver (proxy_get p s) = currentObserver s"
  "observers (proxy_get p s) = observers s"
  by (auto simp: proxy_get_def split: option.split)

lemma proxy_get_subs:
  "set (propsToObservers (proxy_get p s) q) =
     set (propsToObservers s q) \<union> (if q = p then set_option (currentObserver s) else {})"
  by (auto simp: proxy_get_def split: option.split)

lemma queue_flush_simps [simp]:
  "props (queue_flush s) = props s" "propsToObservers (queue_flush s) = propsToObservers s"
  "dirtyObservers (queue_flush s) = dirtyObservers s" "rx_destroyed (queue_flush s) = rx_destroyed s"
  "currentObserver (queue_flush s) = currentObserver s" "observers (queue_flush s) = observers s"
  "queued (queue_flush s)"
  by (auto simp: queue_flush_def)

lemma proxy_set_simps [simp]:
  "propsToObservers (proxy_set same p v s) = propsToObservers s"
  "rx_destroyed (proxy_set same p v s) = rx_destroyed s"
  "currentObserver (proxy_set same p v s) = currentObserver s"
  "observers (proxy_set same p v s) = observers s"
  by (auto simp: proxy_set_def Let_def)

lemma proxy_set_props:
  "props (proxy_set same p v s) = (if same (props s p) v then props s else (props s)(p := v))"
  by (auto simp: proxy_set_def Let_def)

lemma proxy_set_dirty:
  "set (dirtyObservers (proxy_set same p v s)) =
     set (dirtyObservers s) \<union> (if same (props s p) v then {} else set (propsToObservers s p))"
  by (auto simp: proxy_set_def Let_def)

text \<open>What a run of a program leaves as it is, and what only grows.\<close>

lemma run_frame:
  assumes "run_prog same c s = r"
  shows "rx_destroyed (final_state r) = rx_destroyed s \<and> currentObserver (final_state r) = currentObserver s \<and>
    observers (final_state r) = observers s \<and>
    set (dirtyObservers s) \<subseteq> set (dirtyObservers (final_state r)) \<and>
    (\<forall>p. set (propsToObservers s p) \<subseteq> set (propsToObservers (final_state r) p))"
  using assms
proof (induction c arbitrary: s)
  case (Get p k)
  then have "run_prog same (k (props s p)) (proxy_get p s) = r" by simp
  note Get.IH [OF rangeI this]
  then show ?case by (auto simp: proxy_get_subs)
next
  case (Put p v k)
  then show ?case using Put.IH [of "proxy_set same p v s"] by (auto simp: proxy_set_dirty)
next
  case (Call a k)
  then show ?case using Call.IH [of "s\<lparr>calls := calls s @ [a]\<rparr>"] by simp
qed auto

lemma run_writes_only:
  "writes_only P c \<Longrightarrow> run_prog same c s = r \<Longrightarrow> \<not> P q \<Longrightarrow> props (final_state r) q = props s q"
proof (induction c arbitrary: s)
  case (Get p k)
  then have "run_prog same (k (props s p)) (proxy_get p s) = r" by simp
  with Get show ?case by (metis proxy_get_simps(1) rangeI writes_only.simps(3))
next
  case (Put p v k)
  then show ?case using Put.IH [of "proxy_set same p v s"] by (auto simp: proxy_set_props)
next
  case (Call a k)
  then show ?case using Call.IH [of "s\<lparr>calls := calls s @ [a]\<rparr>"] by simp
qed auto

text \<open>A property with an observer that is not dirty afterwards was not changed.\<close>

lemma run_observed:
  "run_prog same c s = r \<Longrightarrow> i \<in> set (propsToObservers s q) \<Longrightarrow> i \<notin> set (dirtyObservers (final_state r)) \<Longrightarrow>
   props (final_state r) q = props s q"
proof (induction c arbitrary: s)
  case (Get p k)
  then have "run_prog same (k (props s p)) (proxy_get p s) = r" by simp
  from Get.IH [OF rangeI this] Get.prems show ?case by (auto simp: proxy_get_subs)
next
  case (Put p v k)
  then have r: "run_prog same k (proxy_set same p v s) = r" by simp
  have "i \<notin> set (dirtyObservers (proxy_set same p v s))"
    using run_frame [OF r] Put.prems by blast
  then have "props (proxy_set same p v s) q = props s q"
    using Put.prems by (auto simp: proxy_set_dirty proxy_set_props split: if_splits)
  then show ?case using Put.IH [OF r] Put.prems by simp
next
  case (Call a k)
  then show ?case using Call.IH [of "s\<lparr>calls := calls s @ [a]\<rparr>"] by simp
qed auto

lemma run_typed:
  "typed_prog ok c \<Longrightarrow> typed_state ok s \<Longrightarrow> \<exists>s'. run_prog same c s = Inr s' \<and> typed_state ok s'"
  by (induction c arbitrary: s) (auto simp: typed_state_def proxy_set_props)

lemma run_puts_ok:
  "puts_ok ok c \<Longrightarrow> typed_state ok s \<Longrightarrow> typed_state ok (final_state (run_prog same c s))"
  by (induction c arbitrary: s) (auto simp: typed_state_def proxy_set_props)

lemma run_new_dirty:
  assumes "writes_only P c" "run_prog same c s = r" "i \<in> set (dirtyObservers (final_state r))"
    and "i \<notin> set (dirtyObservers s)"
  shows "\<exists>p. P p \<and> i \<in> set (propsToObservers (final_state r) p)"
  using assms
proof (induction c arbitrary: s)
  case (Get p k)
  then have r: "run_prog same (k (props s p)) (proxy_get p s) = r" by simp
  from Get.IH [OF rangeI _ r] Get.prems show ?case by auto
next
  case (Put p v k)
  then have r: "run_prog same k (proxy_set same p v s) = r" by simp
  show ?case
  proof (cases "i \<in> set (dirtyObservers (proxy_set same p v s))")
    case True
    then have "i \<in> set (propsToObservers s p)" using Put.prems(4) by (auto simp: proxy_set_dirty split: if_splits)
    then show ?thesis using run_frame [OF r] Put.prems(1) by auto
  next
    case False
    then show ?thesis using Put.IH [OF _ r] Put.prems by auto
  qed
next
  case (Call a k)
  then show ?case using Call.IH [of "s\<lparr>calls := calls s @ [a]\<rparr>"] by simp
qed auto


section \<open>The queue\<close>

text \<open>Outside a flush: the flag is set exactly when something is dirty, and then one microtask is queued.\<close>

definition queue_ok :: "('p, 'v, 'a) reactive \<Rightarrow> bool" where
  "queue_ok s \<longleftrightarrow> (queued s \<longleftrightarrow> dirtyObservers s \<noteq> []) \<and> microtasks s = (if queued s then 1 else 0)"

lemma fold_set_add_nonempty: "xs \<noteq> [] \<Longrightarrow> fold set_add xs ys \<noteq> []"
  by (metis Un_empty set_empty set_fold_set_add)

lemma queue_ok_proxy_set: "queue_ok s \<Longrightarrow> queue_ok (proxy_set same p v s)"
  by (auto simp: queue_ok_def proxy_set_def queue_flush_def fold_set_add_nonempty Let_def)

lemma queue_ok_run: "queue_ok s \<Longrightarrow> run_prog same c s = r \<Longrightarrow> queue_ok (final_state r)"
proof (induction c arbitrary: s)
  case (Get p k)
  then have r: "run_prog same (k (props s p)) (proxy_get p s) = r" by simp
  from Get.IH [OF rangeI _ r] Get.prems show ?case by (simp add: queue_ok_def)
next
  case (Put p v k)
  then show ?case using Put.IH [OF queue_ok_proxy_set [of s same p v]] by simp
next
  case (Call a k)
  then show ?case using Call.IH [of "s\<lparr>calls := calls s @ [a]\<rparr>"] by (simp add: queue_ok_def)
qed auto

lemma run_in_flush:
  "queued s \<Longrightarrow> run_prog same c s = r \<Longrightarrow> queued (final_state r) \<and> microtasks (final_state r) = microtasks s"
proof (induction c arbitrary: s)
  case (Get p k)
  then have r: "run_prog same (k (props s p)) (proxy_get p s) = r" by simp
  from Get.IH [OF rangeI _ r] Get.prems show ?case by simp
next
  case (Put p v k)
  have "queued (proxy_set same p v s)" "microtasks (proxy_set same p v s) = microtasks s"
    using Put.prems(1) by (simp_all add: proxy_set_def queue_flush_def Let_def)
  then show ?case using Put.IH [of "proxy_set same p v s"] Put.prems(2) by simp
next
  case (Call a k)
  then show ?case using Call.IH [of "s\<lparr>calls := calls s @ [a]\<rparr>"] by simp
qed auto

section \<open>Effects that keep derived properties\<close>

text \<open>
  An effect is up to date when it observes everything that it reads on the present values, and every
  property that it alone writes holds what it would write now.
\<close>

definition up_to_date :: "(nat \<Rightarrow> ('p, 'v, 'a) prog) \<Rightarrow> ('p \<Rightarrow> nat option) \<Rightarrow> nat \<Rightarrow> ('p, 'v, 'a) reactive \<Rightarrow> bool" where
  "up_to_date eff own i s \<longleftrightarrow>
     (\<forall>p \<in> path_reads (eff i) (props s). i \<in> set (propsToObservers s p)) \<and>
     (\<forall>q v. own q = Some i \<longrightarrow> last_write (eff i) (props s) q = Some v \<longrightarrow> props s q = v)"

definition rx_inv :: "(nat \<Rightarrow> ('p, 'v, 'a) prog) \<Rightarrow> ('p \<Rightarrow> nat option) \<Rightarrow> ('p, 'v, 'a) reactive \<Rightarrow> bool" where
  "rx_inv eff own s \<longleftrightarrow> currentObserver s = None \<and> (rx_destroyed s \<or> queue_ok s) \<and>
     (\<forall>i < observers s. i \<in> set (dirtyObservers s) \<or> up_to_date eff own i s)"

text \<open>Events in which code outside the effects writes no property that an effect owns.\<close>

fun outside :: "('p \<Rightarrow> nat option) \<Rightarrow> ('p, 'v) rx_event \<Rightarrow> bool" where
  "outside own (Write p v) = (own p = None)"
| "outside own e = True"

text \<open>
  The contract of a client: \<open>own\<close> names the effect that alone writes a property, \<open>None\<close> for the
  properties that anyone may write.
\<close>

locale reactive_client =
  fixes same :: "'v \<Rightarrow> 'v \<Rightarrow> bool"
    and eff :: "nat \<Rightarrow> ('p, 'v, 'a) prog"
    and own :: "'p \<Rightarrow> nat option"
  assumes same_sound: "same x y \<Longrightarrow> x = y"
    and writes_own: "writes_only (\<lambda>p. own p = None \<or> own p = Some i) (eff i)"
begin

lemma own_run_path:
  assumes "run_prog same c s = r" "currentObserver s = Some i" "i \<notin> set (dirtyObservers (final_state r))"
  shows "(\<forall>p \<in> path_reads c (props (final_state r)). i \<in> set (propsToObservers (final_state r) p)) \<and>
    (\<forall>q v. last_write c (props (final_state r)) q = Some v \<longrightarrow> props (final_state r) q = v) \<and>
    (\<forall>q. last_write c (props (final_state r)) q = None \<longrightarrow> props (final_state r) q = props s q)"
  using assms
proof (induction c arbitrary: s)
  case (Get p k)
  then have r: "run_prog same (k (props s p)) (proxy_get p s) = r" by simp
  have "i \<in> set (propsToObservers (proxy_get p s) p)"
    using Get.prems(2) by (simp add: proxy_get_subs)
  with run_observed [OF r this] run_frame [OF r] Get.prems
  have "props (final_state r) p = props s p" "i \<in> set (propsToObservers (final_state r) p)" by auto
  with Get.IH [OF rangeI r] Get.prems show ?case by auto
next
  case (Put p v k)
  then have r: "run_prog same k (proxy_set same p v s) = r" by simp
  have "props (proxy_set same p v s) q = (if q = p then v else props s q)" for q
    using same_sound [of "props s p" v] by (auto simp: proxy_set_props)
  with Put.IH [OF r] Put.prems show ?case by (auto split: option.splits)
next
  case (Call a k)
  then show ?case using Call.IH [of "s\<lparr>calls := calls s @ [a]\<rparr>"] by simp
qed auto

lemma run_up_to_date:
  assumes "run_prog same c s = r" "writes_only (\<lambda>p. own p \<noteq> Some i) c" "up_to_date eff own i s"
    and "i \<notin> set (dirtyObservers (final_state r))"
  shows "up_to_date eff own i (final_state r)"
proof -
  have eq: "\<forall>p \<in> path_reads (eff i) (props s). props (final_state r) p = props s p"
    using assms(3,4) run_observed [OF assms(1), of i] by (auto simp: up_to_date_def)
  have "\<forall>q. own q = Some i \<longrightarrow> props (final_state r) q = props s q"
    using run_writes_only [OF assms(2,1)] by blast
  with path_cong [OF eq] run_frame [OF assms(1)] assms(3) show ?thesis
    by (simp add: up_to_date_def) blast
qed

lemma runnable_run:
  assumes "runnable same eff i s = Inr s'"
  shows "run_prog same (eff i) (s\<lparr>currentObserver := Some i\<rparr>) = Inr (s'\<lparr>currentObserver := Some i\<rparr>)"
    and "currentObserver s' = currentObserver s"
proof -
  from assms obtain s1 where s1: "run_prog same (eff i) (s\<lparr>currentObserver := Some i\<rparr>) = Inr s1"
    "s' = s1\<lparr>currentObserver := currentObserver s\<rparr>"
    by (auto simp: runnable_def Let_def split: sum.splits)
  then have "currentObserver s1 = Some i" using run_frame [OF s1(1)] by simp
  with s1 show "run_prog same (eff i) (s\<lparr>currentObserver := Some i\<rparr>) = Inr (s'\<lparr>currentObserver := Some i\<rparr>)"
    "currentObserver s' = currentObserver s" by simp_all
qed

lemma others_write:
  "i \<noteq> j \<Longrightarrow> writes_only (\<lambda>p. own p \<noteq> Some i) (eff j)"
  by (rule writes_only_mono [OF writes_own [of j]]) auto

text \<open>Running one observer: it is up to date afterwards or dirty again, and so is every other that was before.\<close>

lemma runnable_up_to_date:
  assumes "runnable same eff i s = Inr s'"
  shows "set (dirtyObservers s) \<subseteq> set (dirtyObservers s') \<and> observers s' = observers s \<and>
    rx_destroyed s' = rx_destroyed s \<and> currentObserver s' = currentObserver s \<and>
    (i \<in> set (dirtyObservers s') \<or> up_to_date eff own i s') \<and>
    (\<forall>j. up_to_date eff own j s \<longrightarrow> j \<in> set (dirtyObservers s') \<or> up_to_date eff own j s')"
proof -
  note t = runnable_run [OF assms]
  have u: "up_to_date eff own j (x\<lparr>currentObserver := y\<rparr>) = up_to_date eff own j x" for j x y
    by (simp add: up_to_date_def)
  have own: "i \<in> set (dirtyObservers s') \<or> up_to_date eff own i s'"
    using own_run_path [OF t(1), of i] by (auto simp: up_to_date_def split: option.splits)
  have "j \<in> set (dirtyObservers s') \<or> up_to_date eff own j s'" if "up_to_date eff own j s" for j
  proof (cases "j = i")
    case False
    then show ?thesis
      using run_up_to_date [OF t(1) others_write [OF False]] that by (auto simp: u)
  qed (use own in simp)
  with own run_frame [OF t(1)] t(2) show ?thesis by auto
qed

lemma run_observers_up_to_date:
  assumes "run_observers same eff is s = Inr s'" "queued s"
    and "\<forall>j < observers s. j \<in> set (dirtyObservers s) \<or> j \<in> set is \<or> up_to_date eff own j s"
  shows "observers s' = observers s \<and> rx_destroyed s' = rx_destroyed s \<and> currentObserver s' = currentObserver s \<and>
    queued s' \<and> microtasks s' = microtasks s \<and>
    (\<forall>j < observers s'. j \<in> set (dirtyObservers s') \<or> up_to_date eff own j s')"
  using assms
proof (induction "is" arbitrary: s)
  case (Cons i "is")
  from Cons.prems(1) obtain s1 where s1: "runnable same eff i s = Inr s1" "run_observers same eff is s1 = Inr s'"
    by (auto simp: and_then_Inr_iff)
  note step = runnable_up_to_date [OF s1(1)]
  have q: "queued s1 \<and> microtasks s1 = microtasks s"
    using run_in_flush [OF _ runnable_run(1) [OF s1(1)]] Cons.prems(2) by simp
  have "\<forall>j < observers s1. j \<in> set (dirtyObservers s1) \<or> j \<in> set is \<or> up_to_date eff own j s1"
    using Cons.prems(3) step by auto
  with Cons.IH [OF s1(2)] q step show ?case by simp
qed simp

lemma flush_run:
  assumes "flush same eff s = Inr s'" "\<not> rx_destroyed s"
  obtains s1 where "run_observers same eff (dirtyObservers s) (s\<lparr>microtasks := microtasks s - 1, dirtyObservers := []\<rparr>) = Inr s1"
    "s' = flush_end s1"
  using assms by (auto simp: flush_def Let_def split: sum.splits)

lemma flush_inv:
  assumes "rx_inv eff own s" "microtasks s \<noteq> 0" "flush same eff s = Inr s'"
  shows "rx_inv eff own s' \<and> observers s' = observers s \<and> rx_destroyed s' = rx_destroyed s"
proof (cases "rx_destroyed s")
  case True
  then have "s' = s\<lparr>microtasks := microtasks s - 1\<rparr>" using assms(3) by (simp add: flush_def)
  with True show ?thesis using assms by (simp add: rx_inv_def up_to_date_def)
next
  case False
  with assms have q: "queued s" "microtasks s = 1" by (auto simp: rx_inv_def queue_ok_def split: if_splits)
  let ?s = "s\<lparr>microtasks := microtasks s - 1, dirtyObservers := []\<rparr>"
  obtain s1 where s1: "run_observers same eff (dirtyObservers s) ?s = Inr s1" "s' = flush_end s1"
    using flush_run [OF assms(3) False] by blast
  have "\<forall>j < observers ?s. j \<in> set (dirtyObservers ?s) \<or> j \<in> set (dirtyObservers s) \<or> up_to_date eff own j ?s"
    using assms by (simp add: rx_inv_def up_to_date_def)
  from run_observers_up_to_date [OF s1(1) _ this] q assms(1) show ?thesis
    by (auto simp: s1(2) flush_end_def rx_inv_def queue_ok_def up_to_date_def Let_def)
qed

lemma create_inv:
  assumes "rx_inv eff own s" "createEffect same eff s = Inr s'"
  shows "rx_inv eff own s'"
proof -
  let ?i = "observers s" and ?s = "s\<lparr>observers := observers s + 1\<rparr>"
  have s1: "runnable same eff ?i ?s = Inr s'" using assms(2) by (simp add: createEffect_def)
  note step = runnable_up_to_date [OF s1]
  have "j \<in> set (dirtyObservers s') \<or> up_to_date eff own j s'" if "j < observers s'" for j
  proof (cases "j = ?i")
    case False
    with that step have "j < observers s" by simp
    then have "j \<in> set (dirtyObservers s) \<or> up_to_date eff own j ?s"
      using assms by (auto simp: rx_inv_def up_to_date_def)
    then show ?thesis using step by auto
  qed (use step in simp)
  moreover have "rx_destroyed s' \<or> queue_ok s'"
    using queue_ok_run [OF _ runnable_run(1) [OF s1]] assms step by (auto simp: rx_inv_def queue_ok_def)
  ultimately show ?thesis
    using step assms by (simp add: rx_inv_def)
qed

lemma write_inv:
  assumes "rx_inv eff own s" "own p = None"
  shows "rx_inv eff own (proxy_set same p v s)"
proof -
  have r: "run_prog same (Put p v Done) s = Inr (proxy_set same p v s)" by simp
  have "j \<in> set (dirtyObservers (proxy_set same p v s)) \<or> up_to_date eff own j (proxy_set same p v s)"
    if "j < observers s" for j
    using run_up_to_date [OF r, of j] run_frame [OF r] assms that by (auto simp: rx_inv_def)
  then show ?thesis
    using assms queue_ok_proxy_set [of s same p v] by (auto simp: rx_inv_def)
qed

lemma step_inv:
  assumes "rx_inv eff own s" "outside own e" "rx_step same eff s e = Inr s'"
  shows "rx_inv eff own s'"
proof (cases e)
  case Create
  then show ?thesis using create_inv [of s s'] assms by simp
next
  case (Write p v)
  then show ?thesis using write_inv [of s p v] assms by auto
next
  case Flush
  then show ?thesis using flush_inv [of s s'] assms by (simp split: if_splits)
next
  case Abort
  then show ?thesis using assms by (auto simp: abort_state_def rx_inv_def up_to_date_def)
qed

lemma run_inv:
  "rx_inv eff own s \<Longrightarrow> \<forall>e \<in> set es. outside own e \<Longrightarrow> rx_run same eff s es = Inr s' \<Longrightarrow> rx_inv eff own s'"
proof (induction es arbitrary: s)
  case (Cons e es)
  then obtain s1 where "rx_step same eff s e = Inr s1" "rx_run same eff s1 es = Inr s'"
    by (auto simp: and_then_Inr_iff)
  with Cons step_inv [of s e s1] show ?case by simp
qed simp

lemma quiescent:
  "rx_inv eff own s \<Longrightarrow> \<not> rx_destroyed s \<Longrightarrow> microtasks s = 0 \<Longrightarrow> i < observers s \<Longrightarrow> up_to_date eff own i s"
  by (auto simp: rx_inv_def queue_ok_def split: if_splits)

end

lemma rx_inv_start: "rx_inv eff own (createState vals)"
  by (simp add: rx_inv_def createState_def queue_ok_def)

section \<open>Programs that write nothing new\<close>

primrec silent :: "('v \<Rightarrow> 'v \<Rightarrow> bool) \<Rightarrow> ('p, 'v, 'a) prog \<Rightarrow> ('p \<Rightarrow> 'v) \<Rightarrow> bool" where
  "silent same Done t = True"
| "silent same Raise t = True"
| "silent same (Get p k) t = silent same (k (t p)) t"
| "silent same (Put p v k) t = (same (t p) v \<and> silent same k t)"
| "silent same (Call a k) t = silent same k t"

lemma run_silent:
  "silent same c (props s) \<Longrightarrow> run_prog same c s = r \<Longrightarrow>
   props (final_state r) = props s \<and> dirtyObservers (final_state r) = dirtyObservers s"
proof (induction c arbitrary: s)
  case (Get p k)
  then have r: "run_prog same (k (props s p)) (proxy_get p s) = r" by simp
  from Get.IH [OF rangeI _ r] Get.prems show ?case by simp
next
  case (Put p v k)
  then have "proxy_set same p v s = s" by (simp add: proxy_set_def)
  with Put show ?case by simp
next
  case (Call a k)
  then show ?case using Call.IH [of "s\<lparr>calls := calls s @ [a]\<rparr>"] by simp
qed auto

lemma silent_frame:
  "silent same c t \<Longrightarrow> reads_only R c \<Longrightarrow> writes_only W c \<Longrightarrow> (\<And>p. R p \<or> W p \<Longrightarrow> t' p = t p) \<Longrightarrow> silent same c t'"
  by (induction c) auto

lemma writes_only_conj: "writes_only P c \<Longrightarrow> writes_only Q c \<Longrightarrow> writes_only (\<lambda>p. P p \<and> Q p) c"
  by (induction c) auto

section \<open>Settling\<close>

text \<open>
  A client of effects with types, which then do not raise.
\<close>

locale typed_client = reactive_client same eff own
  for same :: "'v \<Rightarrow> 'v \<Rightarrow> bool" and eff :: "nat \<Rightarrow> ('p, 'v, 'a) prog" and own :: "'p \<Rightarrow> nat option" +
  fixes ok :: "'p \<Rightarrow> 'v \<Rightarrow> bool"
  assumes typed: "typed_prog ok (eff i)"
begin

lemma runnable_typed:
  "typed_state ok s \<Longrightarrow> \<exists>s'. runnable same eff i s = Inr s' \<and> typed_state ok s'"
  using run_typed [OF typed [of i], of "s\<lparr>currentObserver := Some i\<rparr>" same]
  by (auto simp: runnable_def typed_state_def)

lemma run_observers_typed:
  "typed_state ok s \<Longrightarrow> \<exists>s'. run_observers same eff is s = Inr s' \<and> typed_state ok s'"
proof (induction "is" arbitrary: s)
  case (Cons i "is")
  then show ?case using runnable_typed [of s i] by auto
qed simp

lemma flush_typed:
  assumes "typed_state ok s"
  shows "\<exists>s'. rx_step same eff s Flush = Inr s' \<and> typed_state ok s'"
proof -
  let ?s = "s\<lparr>microtasks := microtasks s - 1, dirtyObservers := []\<rparr>"
  obtain s1 where "run_observers same eff (dirtyObservers s) ?s = Inr s1" "typed_state ok s1"
    using run_observers_typed [of ?s "dirtyObservers s"] assms by (auto simp: typed_state_def)
  then show ?thesis
    using assms by (auto simp: flush_def flush_end_def typed_state_def Let_def)
qed

lemma create_typed:
  assumes "typed_state ok s"
  shows "\<exists>s'. rx_run same eff s (replicate n Create) = Inr s' \<and> typed_state ok s'"
  using assms
proof (induction n arbitrary: s)
  case (Suc n)
  obtain s1 where "createEffect same eff s = Inr s1" "typed_state ok s1"
    using runnable_typed [of "s\<lparr>observers := observers s + 1\<rparr>" "observers s"] Suc.prems
    by (auto simp: createEffect_def typed_state_def)
  with Suc.IH [of s1] show ?case by simp
qed simp

end

text \<open>
  A client with levels: an effect of rank \<open>r\<close> reads properties of level at most \<open>r\<close> and writes
  properties of a higher level, so what it writes wakes effects of higher rank only. Except for
  properties that the effect reads and writes itself (\<open>self\<close>): an effect with such a property writes
  nothing else, its run is idempotent, and the others that touch the property are ordered by rank.
\<close>

definition read_rank :: "('p \<Rightarrow> nat) \<Rightarrow> (nat \<Rightarrow> nat) \<Rightarrow> (nat \<Rightarrow> 'p \<Rightarrow> bool) \<Rightarrow> nat \<Rightarrow> 'p \<Rightarrow> bool" where
  "read_rank level rank self i p \<longleftrightarrow> level p \<le> rank i \<and> (\<forall>j. self j p \<and> j \<noteq> i \<longrightarrow> rank j < rank i)"

definition write_rank :: "('p \<Rightarrow> nat) \<Rightarrow> (nat \<Rightarrow> nat) \<Rightarrow> (nat \<Rightarrow> 'p \<Rightarrow> bool) \<Rightarrow> nat \<Rightarrow> 'p \<Rightarrow> bool" where
  "write_rank level rank self i p \<longleftrightarrow>
     (rank i < level p \<or> self i p) \<and> (\<forall>j. self j p \<and> j \<noteq> i \<longrightarrow> rank i < rank j)"

definition subs_ok :: "(nat \<Rightarrow> 'p \<Rightarrow> bool) \<Rightarrow> ('p, 'v, 'a) reactive \<Rightarrow> bool" where
  "subs_ok R s \<longleftrightarrow> (\<forall>p. \<forall>i \<in> set (propsToObservers s p). R i p)"

lemma run_subs:
  "run_prog same c s = r \<Longrightarrow> reads_only (R i) c \<Longrightarrow> currentObserver s = Some i \<Longrightarrow> subs_ok R s \<Longrightarrow>
   subs_ok R (final_state r)"
proof (induction c arbitrary: s)
  case (Get p k)
  then have r: "run_prog same (k (props s p)) (proxy_get p s) = r" by simp
  have "subs_ok R (proxy_get p s)"
    using Get.prems by (auto simp: subs_ok_def proxy_get_subs split: if_splits)
  with Get.IH [OF rangeI r] Get.prems show ?case by simp
next
  case (Put p v k)
  have "run_prog same k (proxy_set same p v s) = r" using Put.prems(1) by simp
  moreover have "subs_ok R (proxy_set same p v s)" using Put.prems(4) by (simp add: subs_ok_def)
  ultimately show ?case using Put.IH [of "proxy_set same p v s"] Put.prems(2,3) by simp
next
  case (Call a k)
  have "run_prog same k (s\<lparr>calls := calls s @ [a]\<rparr>) = r" using Call.prems(1) by simp
  moreover have "subs_ok R (s\<lparr>calls := calls s @ [a]\<rparr>)" using Call.prems(4) by (simp add: subs_ok_def)
  ultimately show ?case using Call.IH [of "s\<lparr>calls := calls s @ [a]\<rparr>"] Call.prems(2,3) by simp
next
  case Done
  then have "r = Inr s" by simp
  with Done show ?case by simp
next
  case Raise
  then have "r = Inl (TypeError, s)" by simp
  with Raise show ?case by simp
qed

text \<open>Events one after the other, an exception in one of them not keeping the next from happening.\<close>

definition rx_go ::
    "('v \<Rightarrow> 'v \<Rightarrow> bool) \<Rightarrow> (nat \<Rightarrow> ('p, 'v, 'a) prog) \<Rightarrow> ('p, 'v, 'a) reactive \<Rightarrow> ('p, 'v) rx_event list \<Rightarrow>
     ('p, 'v, 'a) reactive" where
  "rx_go same eff s es = foldl (\<lambda>s e. final_state (rx_step same eff s e)) s es"

lemma rx_run_go: "rx_run same eff s es = Inr s' \<Longrightarrow> rx_go same eff s es = s'"
  by (induction es arbitrary: s) (auto simp: rx_go_def and_then_Inr_iff)

lemma final_runnable:
  "final_state (runnable same eff i s) =
     (final_state (run_prog same (eff i) (s\<lparr>currentObserver := Some i\<rparr>)))\<lparr>currentObserver := currentObserver s\<rparr>"
  by (simp add: runnable_def Let_def split: sum.split)

lemma final_flush:
  "\<not> rx_destroyed s \<Longrightarrow> final_state (flush same eff s) = flush_end (final_state
     (run_observers same eff (dirtyObservers s) (s\<lparr>microtasks := microtasks s - 1, dirtyObservers := []\<rparr>)))"
  by (simp add: flush_def Let_def split: sum.split)

text \<open>Inside a flush the flag is set, and no microtask is added.\<close>

lemma run_observers_in_flush:
  "queued s \<Longrightarrow> queued (final_state (run_observers same eff is s)) \<and>
     microtasks (final_state (run_observers same eff is s)) = microtasks s \<and>
     rx_destroyed (final_state (run_observers same eff is s)) = rx_destroyed s"
proof (induction "is" arbitrary: s)
  case (Cons i "is")
  let ?s1 = "final_state (runnable same eff i s)"
  have "queued ?s1 \<and> microtasks ?s1 = microtasks s \<and> rx_destroyed ?s1 = rx_destroyed s"
    using run_in_flush [of "s\<lparr>currentObserver := Some i\<rparr>" same "eff i", OF _ refl]
      run_frame [of same "eff i" "s\<lparr>currentObserver := Some i\<rparr>", OF refl] Cons.prems
    by (simp add: final_runnable)
  then show ?case using Cons.IH [of ?s1] by (cases "runnable same eff i s") auto
qed simp

lemma flush_queue_ok:
  assumes "queue_ok s" "\<not> rx_destroyed s"
  shows "queue_ok (final_state (rx_step same eff s Flush)) \<and> \<not> rx_destroyed (final_state (rx_step same eff s Flush))"
proof (cases "microtasks s = 0")
  case False
  with assms have q: "queued s" "microtasks s = 1" by (auto simp: queue_ok_def split: if_splits)
  show ?thesis
    using False q assms(2) run_observers_in_flush [of "s\<lparr>microtasks := microtasks s - 1, dirtyObservers := []\<rparr>" same eff
        "dirtyObservers s"]
    by (simp add: final_flush flush_end_def queue_ok_def Let_def)
qed (use assms in simp)

locale ranked_effects = reactive_client same eff own
  for same :: "'v \<Rightarrow> 'v \<Rightarrow> bool" and eff :: "nat \<Rightarrow> ('p, 'v, 'a) prog" and own :: "'p \<Rightarrow> nat option" +
  fixes level :: "'p \<Rightarrow> nat" and rank :: "nat \<Rightarrow> nat" and self :: "nat \<Rightarrow> 'p \<Rightarrow> bool" and top :: nat
  assumes reads_below: "reads_only (read_rank level rank self i) (eff i)"
    and writes_above: "writes_only (write_rank level rank self i) (eff i)"
    and self_writes: "self i p \<Longrightarrow> writes_only (self i) (eff i)"
    and self_idem: "self i p \<Longrightarrow> silent same (eff i) (props (final_state (run_prog same (eff i) s)))"
    and rank_top: "2 * rank i + 1 < top"
begin

text \<open>Stage \<open>n\<close>: what is dirty has a high enough rank, or has run and would write nothing.\<close>

definition stage :: "nat \<Rightarrow> nat \<Rightarrow> ('p \<Rightarrow> 'v) \<Rightarrow> bool" where
  "stage n j t \<longleftrightarrow> n \<le> 2 * rank j \<or> n \<le> 2 * rank j + 1 \<and> (\<exists>p. self j p) \<and> silent same (eff j) t"

lemma stage_run:
  assumes "writes_only (write_rank level rank self i) c" "run_prog same c s = r"
    and "n \<le> 2 * rank i" "n \<le> n'" "n' \<le> Suc n" "stage n' j (props s)" "j \<noteq> i"
  shows "stage n' j (props (final_state r))"
proof (cases "rank i < rank j")
  case True
  with assms(3,5) show ?thesis by (simp add: stage_def)
next
  case False
  have eq: "props (final_state r) p = props s p" if "read_rank level rank self j p \<or> self j p" for p
  proof -
    have "\<not> write_rank level rank self i p"
      using that False assms(7) by (auto simp: read_rank_def write_rank_def)
    then show ?thesis using run_writes_only [OF assms(1,2)] by blast
  qed
  have "silent same (eff j) (props (final_state r))" if "self j p" "silent same (eff j) (props s)" for p
    by (rule silent_frame [OF that(2) reads_below self_writes [OF that(1)]]) (rule eq)
  with assms(6) show ?thesis by (auto simp: stage_def)
qed

lemma runnable_stage:
  fixes s :: "('p, 'v, 'a) reactive"
  assumes "subs_ok (read_rank level rank self) s" "stage n i (props s)"
    and "\<forall>j \<in> set rest. stage n j (props s)" "\<forall>j \<in> set (dirtyObservers s). stage (Suc n) j (props s)"
  defines "s' \<equiv> final_state (runnable same eff i s)"
  shows "subs_ok (read_rank level rank self) s' \<and> (\<forall>j \<in> set rest. stage n j (props s')) \<and>
    (\<forall>j \<in> set (dirtyObservers s'). stage (Suc n) j (props s'))"
proof -
  define t where "t = run_prog same (eff i) (s\<lparr>currentObserver := Some i\<rparr>)"
  note r = t_def [symmetric]
  have s': "props s' = props (final_state t)" "dirtyObservers s' = dirtyObservers (final_state t)"
    "propsToObservers s' = propsToObservers (final_state t)"
    by (simp_all add: s'_def final_runnable t_def)
  have subs: "subs_ok (read_rank level rank self) s'"
    using run_subs [OF r, of "read_rank level rank self" i] reads_below assms(1) by (simp add: subs_ok_def s')
  show ?thesis
  proof (cases "silent same (eff i) (props s)")
    case True
    then have "props s' = props s \<and> dirtyObservers s' = dirtyObservers s"
      using run_silent [OF _ r] by (simp add: s')
    with subs assms(3,4) show ?thesis by simp
  next
    case False
    with assms(2) have n: "n \<le> 2 * rank i" by (auto simp: stage_def)
    note sr = stage_run [OF writes_above r n, simplified, folded s']
    have own: "stage n i (props s')" using n by (simp add: stage_def)
    have old: "stage (Suc n) i (props s')" if "self i p" for p
      using n that self_idem [OF that, of "s\<lparr>currentObserver := Some i\<rparr>"] by (auto simp: stage_def s' t_def)
    have "stage (Suc n) j (props s')" if j: "j \<in> set (dirtyObservers s')" for j
    proof (cases "j \<in> set (dirtyObservers s)")
      case True
      then have "stage (Suc n) j (props s)" using assms(4) by blast
      then show ?thesis using sr [of "Suc n" j] old by (cases "j = i") (auto simp: stage_def)
    next
      case new: False
      from run_new_dirty [OF writes_above r, of j] j new
      obtain p where p: "write_rank level rank self i p" "j \<in> set (propsToObservers s' p)" by (auto simp: s')
      then have "read_rank level rank self j p" using subs by (auto simp: subs_ok_def)
      with p(1) have "rank i < rank j \<or> j = i \<and> self i p"
        by (auto simp: read_rank_def write_rank_def)
      then show ?thesis using n old by (auto simp: stage_def)
    qed
    moreover have "stage n j (props s')" if "j \<in> set rest" for j
      using sr [of n j] own assms(3) that by (cases "j = i") auto
    ultimately show ?thesis using subs by blast
  qed
qed

lemma run_observers_stage:
  assumes "subs_ok (read_rank level rank self) s"
    and "\<forall>i \<in> set is. stage n i (props s)" "\<forall>j \<in> set (dirtyObservers s). stage (Suc n) j (props s)"
  shows "subs_ok (read_rank level rank self) (final_state (run_observers same eff is s)) \<and>
    (\<forall>j \<in> set (dirtyObservers (final_state (run_observers same eff is s))).
       stage (Suc n) j (props (final_state (run_observers same eff is s))))"
  using assms
proof (induction "is" arbitrary: s)
  case (Cons i "is")
  let ?s1 = "final_state (runnable same eff i s)"
  have "subs_ok (read_rank level rank self) ?s1 \<and> (\<forall>j \<in> set is. stage n j (props ?s1)) \<and>
    (\<forall>j \<in> set (dirtyObservers ?s1). stage (Suc n) j (props ?s1))"
    using runnable_stage [OF Cons.prems(1) _ _ Cons.prems(3), of i "is"] Cons.prems(2) by simp
  then show ?case using Cons.IH [of ?s1] by (cases "runnable same eff i s") auto
qed simp

lemma flush_stage:
  assumes "queue_ok s" "\<not> rx_destroyed s" "subs_ok (read_rank level rank self) s"
    and "\<forall>j \<in> set (dirtyObservers s). stage n j (props s)"
  defines "s' \<equiv> final_state (rx_step same eff s Flush)"
  shows "subs_ok (read_rank level rank self) s' \<and> (\<forall>j \<in> set (dirtyObservers s'). stage (Suc n) j (props s'))"
proof (cases "microtasks s = 0")
  case True
  then have "dirtyObservers s = []" using assms(1) by (auto simp: queue_ok_def split: if_splits)
  with True assms(3) show ?thesis by (simp add: s'_def)
next
  case False
  let ?s = "s\<lparr>microtasks := microtasks s - 1, dirtyObservers := []\<rparr>"
  show ?thesis
    using False assms(2,3,4) run_observers_stage [of ?s "dirtyObservers s" n]
    by (simp add: s'_def final_flush flush_end_def subs_ok_def Let_def)
qed

lemma calms_from:
  assumes "queue_ok s" "\<not> rx_destroyed s" "subs_ok (read_rank level rank self) s"
    and "\<forall>j \<in> set (dirtyObservers s). stage n j (props s)"
  shows "queue_ok (rx_go same eff s (replicate m Flush)) \<and> \<not> rx_destroyed (rx_go same eff s (replicate m Flush)) \<and>
    (\<forall>j \<in> set (dirtyObservers (rx_go same eff s (replicate m Flush))).
       stage (n + m) j (props (rx_go same eff s (replicate m Flush))))"
  using assms
proof (induction m arbitrary: s n)
  case (Suc m)
  let ?s1 = "final_state (rx_step same eff s Flush)"
  have go: "rx_go same eff s (replicate (Suc m) Flush) = rx_go same eff ?s1 (replicate m Flush)"
    by (simp add: rx_go_def)
  show ?case
    using Suc.IH [of ?s1 "Suc n"] flush_stage [OF Suc.prems] flush_queue_ok [OF Suc.prems(1,2), of same eff]
    by (simp add: go del: rx_step.simps replicate_Suc)
qed (simp add: rx_go_def)

text \<open>Enough flushes leave nothing dirty and nothing queued, whether or not effects raise.\<close>

lemma calms:
  assumes "queue_ok s" "\<not> rx_destroyed s" "subs_ok (read_rank level rank self) s"
  defines "s' \<equiv> rx_go same eff s (replicate top Flush)"
  shows "dirtyObservers s' = [] \<and> microtasks s' = 0 \<and> \<not> rx_destroyed s'"
proof -
  have go: "queue_ok s' \<and> \<not> rx_destroyed s' \<and> (\<forall>j \<in> set (dirtyObservers s'). stage top j (props s'))"
    using calms_from [OF assms(1-3), of 0 top] by (simp add: s'_def stage_def)
  have "\<not> stage top j t" for j t
    using rank_top [of j] by (auto simp: stage_def)
  with go have d: "dirtyObservers s' = []"
    by (metis last_in_set)
  with go show ?thesis by (simp add: queue_ok_def)
qed

end

text \<open>With types besides, none of them raises.\<close>

locale ranked_client = typed_client same eff own ok + ranked_effects same eff own level rank self top
  for same :: "'v \<Rightarrow> 'v \<Rightarrow> bool" and eff :: "nat \<Rightarrow> ('p, 'v, 'a) prog" and own :: "'p \<Rightarrow> nat option"
    and ok :: "'p \<Rightarrow> 'v \<Rightarrow> bool" and level :: "'p \<Rightarrow> nat" and rank :: "nat \<Rightarrow> nat"
    and self :: "nat \<Rightarrow> 'p \<Rightarrow> bool" and top :: nat
begin

lemma flushes_typed:
  assumes "typed_state ok s"
  shows "\<exists>s'. rx_run same eff s (replicate m Flush) = Inr s' \<and> typed_state ok s'"
  using assms
proof (induction m arbitrary: s)
  case (Suc m)
  obtain s1 where "rx_step same eff s Flush = Inr s1" "typed_state ok s1"
    using flush_typed [OF Suc.prems] by blast
  with Suc.IH [of s1] show ?case by simp
qed simp

lemma settles:
  assumes "queue_ok s" "\<not> rx_destroyed s" "typed_state ok s" "subs_ok (read_rank level rank self) s"
  shows "\<exists>s'. rx_run same eff s (replicate top Flush) = Inr s' \<and> \<not> rx_destroyed s' \<and>
    typed_state ok s' \<and> dirtyObservers s' = [] \<and> microtasks s' = 0"
proof -
  obtain s' where s': "rx_run same eff s (replicate top Flush) = Inr s'" "typed_state ok s'"
    using flushes_typed [OF assms(3)] by blast
  with calms [OF assms(1,2,4)] rx_run_go [OF s'(1)] show ?thesis by auto
qed

end

section \<open>Programs that may raise\<close>

text \<open>What every write of the effects keeps, the reactive state keeps, also when an effect raises.\<close>

lemma typed_fields:
  "typed_state ok (s\<lparr>currentObserver := x\<rparr>) = typed_state ok s" "typed_state ok (s\<lparr>calls := y\<rparr>) = typed_state ok s"
  "typed_state ok (s\<lparr>dirtyObservers := z\<rparr>) = typed_state ok s" "typed_state ok (s\<lparr>microtasks := n\<rparr>) = typed_state ok s"
  "typed_state ok (s\<lparr>queued := b\<rparr>) = typed_state ok s" "typed_state ok (s\<lparr>observers := n\<rparr>) = typed_state ok s"
  by (simp_all add: typed_state_def)

lemma runnable_keeps_ok:
  assumes "puts_ok ok (eff i)" "typed_state ok s"
  shows "typed_state ok (final_state (runnable same eff i s))"
  using run_puts_ok [OF assms(1), of "s\<lparr>currentObserver := Some i\<rparr>" same] assms(2)
  by (auto simp: runnable_def Let_def typed_fields split: sum.split)

lemma run_observers_keeps_ok:
  "(\<And>i. puts_ok ok (eff i)) \<Longrightarrow> typed_state ok s \<Longrightarrow> typed_state ok (final_state (run_observers same eff is s))"
proof (induction "is" arbitrary: s)
  case (Cons i "is")
  then show ?case
    using runnable_keeps_ok [of ok eff i s same] by (cases "runnable same eff i s") auto
qed simp

lemma flush_keeps_ok:
  assumes "\<And>i. puts_ok ok (eff i)" "typed_state ok s"
  shows "typed_state ok (final_state (rx_step same eff s Flush))"
proof -
  let ?s = "s\<lparr>microtasks := microtasks s - 1, dirtyObservers := []\<rparr>"
  have "typed_state ok (final_state (run_observers same eff (dirtyObservers s) ?s))"
    using assms by (intro run_observers_keeps_ok) (simp_all add: typed_fields)
  then show ?thesis
    using assms by (auto simp: flush_def flush_end_def Let_def typed_fields split: sum.split)
qed

lemma create_keeps_ok:
  assumes "\<And>i. puts_ok ok (eff i)"
  shows "rx_run same eff s (replicate n Create) = Inr s' \<Longrightarrow> typed_state ok s \<Longrightarrow> typed_state ok s'"
proof (induction n arbitrary: s)
  case (Suc n)
  then obtain s1 where r: "runnable same eff (observers s) (s\<lparr>observers := observers s + 1\<rparr>) = Inr s1"
    and s1: "rx_run same eff s1 (replicate n Create) = Inr s'"
    by (auto simp: and_then_Inr_iff createEffect_def)
  have "typed_state ok s1"
    using runnable_keeps_ok [of ok eff "observers s" "s\<lparr>observers := observers s + 1\<rparr>" same] assms r Suc.prems(2)
    by (simp add: typed_fields)
  with Suc.IH [OF s1] show ?case by blast
qed simp

end
