(* ===== verification/PickerState.thy ===== *)
theory PickerState
  imports PickerSupport PickerReactive
begin

text \<open>
  The state of the emoji picker and its effects: the first half of \<open>createRoot\<close> of
  libs/emoji-picker-element/picker.js. Every \<open>createEffect\<close> of the code is a program over the
  reactive state, in the order of creation; the part of an asynchronous function that runs before its
  first \<open>await\<close> belongs to the effect, and what it waits for is a call. The handlers and the
  continuations are in \<open>Picker\<close>.
\<close>

section \<open>Texts\<close>

record i18n =
  categoriesLabel :: jstr
  emojiUnsupportedMessage :: jstr
  favoritesLabel :: jstr
  loadingMessage :: jstr
  networkErrorMessage :: jstr
  regionLabel :: jstr
  searchDescription :: jstr
  searchLabel :: jstr
  searchResultsLabel :: jstr
  skinToneDescription :: jstr
  skinToneLabel :: jstr
  skinTonesLabel :: jstr
  skinToneNames :: "jstr list"
  categories :: "jstr \<rightharpoonup> jstr"

definition enI18n :: i18n where
  "enI18n = \<lparr>
     categoriesLabel = js ''Categories'',
     emojiUnsupportedMessage = js ''Your browser does not support color emoji.'',
     favoritesLabel = js ''Favorites'',
     loadingMessage = js ''Loading'' @ [0x2026],
     networkErrorMessage = js ''Could not load emoji.'',
     regionLabel = js ''Emoji picker'',
     searchDescription = js ''When search results are available, press up or down to select and enter to choose.'',
     searchLabel = js ''Search'',
     searchResultsLabel = js ''Search results'',
     skinToneDescription = js ''When expanded, press up or down to select and enter to choose.'',
     skinToneLabel = js ''Choose a skin tone (currently {skinTone})'',
     skinTonesLabel = js ''Skin tones'',
     skinToneNames = [js ''Default'', js ''Light'', js ''Medium-Light'', js ''Medium'', js ''Medium-Dark'', js ''Dark''],
     categories = [
       js ''custom'' \<mapsto> js ''Custom'',
       js ''smileys-emotion'' \<mapsto> js ''Smileys and emoticons'',
       js ''people-body'' \<mapsto> js ''People and body'',
       js ''animals-nature'' \<mapsto> js ''Animals and nature'',
       js ''food-drink'' \<mapsto> js ''Food and drink'',
       js ''travel-places'' \<mapsto> js ''Travel and places'',
       js ''activities'' \<mapsto> js ''Activities'',
       js ''objects'' \<mapsto> js ''Objects'',
       js ''symbols'' \<mapsto> js ''Symbols'',
       js ''flags'' \<mapsto> js ''Flags'']\<rparr>"

section \<open>Properties and values\<close>

datatype pprop =
    SkinToneEmoji | I18n | Database | CustomEmojis | CustomCategorySorting | EmojiVersion
  | CurrentEmojis | CurrentEmojisWithCategories | RawSearchText | SearchText | SearchMode
  | ActiveSearchItem | Message | SkinTonePickerExpanded | SkinTonePickerExpandedAfterAnimation
  | CurrentSkinTone | ActiveSkinTone | SkinToneButtonText | PickerStyle | SkinToneButtonLabel
  | SkinTones | CurrentFavorites | DefaultFavoriteEmojis | NumColumns | IsRtl | CurrentGroupIndex
  | Groups | DatabaseLoaded | ActiveSearchItemId | CurrentGroup

text \<open>A database object is named by a number; a category is its name with its emoji.\<close>

datatype pval =
    VUndef
  | VNull
  | VBool bool
  | VInt int
  | VNum jnum
  | VStr jstr
  | VStrs "jstr list"
  | VGroup emoji_group
  | VGroups "emoji_group list"
  | VEmojis "emoji_summary list"
  | VCategories "(jstr \<times> emoji_summary list) list"
  | VFavorites "handed_out list"
  | VCustom "custom_emoji list"
  | VDatabase nat
  | VTexts i18n
  | VSorting "jstr \<Rightarrow> jstr \<Rightarrow> int"

text \<open>
  \<open>===\<close> on the values that the code writes. The groups and the two lists of groups are constants of
  the module; every other array or object that is written to the state is a new one.
\<close>

fun compared_by_value :: "pval \<Rightarrow> bool" where
  "compared_by_value (VNum n) = (n \<noteq> NotANumber)"
| "compared_by_value (VStrs _) = False"
| "compared_by_value (VEmojis _) = False"
| "compared_by_value (VCategories _) = False"
| "compared_by_value (VFavorites _) = False"
| "compared_by_value (VCustom _) = False"
| "compared_by_value (VTexts _) = False"
| "compared_by_value (VSorting _) = False"
| "compared_by_value _ = True"

text \<open>Storing the very same array or object again counts as a change here, so the model has more
  writes that wake observers than the program.\<close>

definition strict_same :: "pval \<Rightarrow> pval \<Rightarrow> bool" where
  "strict_same a b \<longleftrightarrow> compared_by_value a \<and> a = b"

lemma strict_same_sound: "strict_same x y \<Longrightarrow> x = y"
  by (simp add: strict_same_def)

text \<open>Reading a value at the type that the code expects.\<close>

fun int_of :: "pval \<Rightarrow> int" where
  "int_of (VInt i) = i"
| "int_of _ = 0"

fun bool_of :: "pval \<Rightarrow> bool" where
  "bool_of (VBool b) = b"
| "bool_of _ = False"

fun str_of :: "pval \<Rightarrow> jstr" where
  "str_of (VStr s) = s"
| "str_of _ = []"

fun strs_of :: "pval \<Rightarrow> jstr list" where
  "strs_of (VStrs s) = s"
| "strs_of _ = []"

fun groups_of :: "pval \<Rightarrow> emoji_group list" where
  "groups_of (VGroups gs) = gs"
| "groups_of _ = []"

fun emojis_of :: "pval \<Rightarrow> emoji_summary list" where
  "emojis_of (VEmojis es) = es"
| "emojis_of _ = []"

fun categories_of :: "pval \<Rightarrow> (jstr \<times> emoji_summary list) list" where
  "categories_of (VCategories cs) = cs"
| "categories_of _ = []"

fun custom_of :: "pval \<Rightarrow> custom_emoji list" where
  "custom_of (VCustom cs) = cs"
| "custom_of _ = []"

text \<open>\<open>xs[i]\<close>: out of range it is undefined.\<close>

definition at_index :: "'a list \<Rightarrow> int \<Rightarrow> 'a option" where
  "at_index xs i = (if 0 \<le> i \<and> i < int (length xs) then Some (xs ! nat i) else None)"

definition opt_str :: "jstr option \<Rightarrow> pval" where
  "opt_str s = (case s of None \<Rightarrow> VUndef | Some w \<Rightarrow> VStr w)"

section \<open>Calls\<close>

text \<open>
  What is under way outside the state: the answers the picker waits for and the callbacks it has
  scheduled. \<open>AwaitReady\<close> knows whether its loading message was shown; \<open>Settled\<close> marks a call that is over.
\<close>

datatype pcall =
    AwaitReady nat bool
  | UpdateCustom nat "custom_emoji list"
  | AskTone nat
  | AskDefaults nat
  | AskFavorites nat "handed_out list" nat
  | AskGroup int
  | AskCustomGroup "custom_emoji list"
  | AskSearch jstr
  | CheckZwj "emoji_summary list"
  | ResetScroll
  | IdleSearch jstr
  | AwaitTransitionEnd
  | FocusSkinToneList
  | AskClicked jstr
  | CountClicked jstr "handed_out option" emoji_summary "jstr option"
  | SaveTone int
  | Settled

type_synonym pprog = "(pprop, pval, pcall) prog"
type_synonym picker = "(pprop, pval, pcall) reactive"

section \<open>Comparison of lists\<close>

fun equal_from :: "('a \<Rightarrow> 'a \<Rightarrow> bool) \<Rightarrow> 'a list \<Rightarrow> 'a list \<Rightarrow> bool" where
  "equal_from areEqual (x # left) (y # right) = (areEqual x y \<and> equal_from areEqual left right)"
| "equal_from areEqual _ _ = True"

definition arraysAreEqualByFunction :: "('a \<Rightarrow> 'a \<Rightarrow> bool) \<Rightarrow> 'a list \<Rightarrow> 'a list \<Rightarrow> bool" where
  "arraysAreEqualByFunction areEqual left right \<longleftrightarrow> length left = length right \<and> equal_from areEqual left right"

definition compareEmojiArrays :: "emoji_summary \<Rightarrow> emoji_summary \<Rightarrow> bool" where
  "compareEmojiArrays a b \<longleftrightarrow> su_id a = su_id b"

definition compareCurrentEmojisWithCategories ::
    "jstr \<times> emoji_summary list \<Rightarrow> jstr \<times> emoji_summary list \<Rightarrow> bool" where
  "compareCurrentEmojisWithCategories a b \<longleftrightarrow>
     fst a = fst b \<and> arraysAreEqualByFunction compareEmojiArrays (snd a) (snd b)"

section \<open>The initial state\<close>

record public_props =
  pp_skinToneEmoji :: pval
  pp_i18n :: pval
  pp_database :: pval
  pp_customEmoji :: pval
  pp_customCategorySorting :: pval
  pp_emojiVersion :: pval

definition initial_state :: "public_props \<Rightarrow> pprop \<Rightarrow> pval" where
  "initial_state pp p =
     (case p of
        SkinToneEmoji \<Rightarrow> pp_skinToneEmoji pp
      | I18n \<Rightarrow> pp_i18n pp
      | Database \<Rightarrow> pp_database pp
      | CustomEmojis \<Rightarrow> pp_customEmoji pp
      | CustomCategorySorting \<Rightarrow> pp_customCategorySorting pp
      | EmojiVersion \<Rightarrow> pp_emojiVersion pp
      | CurrentEmojis \<Rightarrow> VEmojis []
      | CurrentEmojisWithCategories \<Rightarrow> VCategories []
      | RawSearchText \<Rightarrow> VStr []
      | SearchText \<Rightarrow> VStr []
      | SearchMode \<Rightarrow> VBool False
      | ActiveSearchItem \<Rightarrow> VInt (-1)
      | Message \<Rightarrow> VUndef
      | SkinTonePickerExpanded \<Rightarrow> VBool False
      | SkinTonePickerExpandedAfterAnimation \<Rightarrow> VBool False
      | CurrentSkinTone \<Rightarrow> VInt 0
      | ActiveSkinTone \<Rightarrow> VInt 0
      | SkinToneButtonText \<Rightarrow> VUndef
      | PickerStyle \<Rightarrow> VUndef
      | SkinToneButtonLabel \<Rightarrow> VStr []
      | SkinTones \<Rightarrow> VStrs []
      | CurrentFavorites \<Rightarrow> VEmojis []
      | DefaultFavoriteEmojis \<Rightarrow> VUndef
      | NumColumns \<Rightarrow> VInt (int DEFAULT_NUM_COLUMNS)
      | IsRtl \<Rightarrow> VBool False
      | CurrentGroupIndex \<Rightarrow> VInt 0
      | Groups \<Rightarrow> VGroups native_groups
      | DatabaseLoaded \<Rightarrow> VBool False
      | ActiveSearchItemId \<Rightarrow> VUndef
      | CurrentGroup \<Rightarrow> VUndef)"

section \<open>The effects\<close>

text \<open>The group that the index selects.\<close>

definition group_at :: "pval \<Rightarrow> pval \<Rightarrow> pval" where
  "group_at gs i = (case at_index (groups_of gs) (int_of i) of None \<Rightarrow> VUndef | Some g \<Rightarrow> VGroup g)"

definition eff_currentGroup :: pprog where
  "eff_currentGroup =
     Get CurrentGroup (\<lambda>cg. Get Groups (\<lambda>gs. Get CurrentGroupIndex (\<lambda>i.
       if strict_same cg (group_at gs i) then Done else Put CurrentGroup (group_at gs i) Done)))"

fun reads :: "pprop list \<Rightarrow> pprog \<Rightarrow> pprog" where
  "reads [] k = k"
| "reads (p # ps) k = Get p (\<lambda>_. reads ps k)"

text \<open>
  The render reads the state and writes the page. It raises when the texts are missing or, outside the
  search mode, when there is no current group.
\<close>

definition render_rest :: "bool \<Rightarrow> pprog" where
  "render_rest searchMode =
     reads [IsRtl, CurrentGroupIndex, Message, DatabaseLoaded]
      (Get CurrentEmojisWithCategories (\<lambda>cs.
       reads (if categories_of cs = [] then [] else [NumColumns])
      (Get CurrentFavorites (\<lambda>favs.
       reads ((if searchMode \<and> concat (map snd (categories_of cs)) \<noteq> [] then [ActiveSearchItem] else []) @
              (if concat (map snd (categories_of cs)) @ emojis_of favs \<noteq> [] then [CurrentSkinTone] else []))
       Done))))"

definition eff_render :: pprog where
  "eff_render =
     Get I18n (\<lambda>i. case i of VTexts _ \<Rightarrow>
       Get PickerStyle (\<lambda>_. Get SearchMode (\<lambda>m.
       reads ((if bool_of m then [CurrentEmojis] else []) @
             [ActiveSearchItemId, SkinTonePickerExpandedAfterAnimation, SkinTonePickerExpanded,
              SkinToneButtonLabel, SkinToneButtonText, ActiveSkinTone, SkinTones, Groups])
       (if bool_of m then render_rest True
        else Get CurrentGroup (\<lambda>g. case g of VGroup _ \<Rightarrow> render_rest False | _ \<Rightarrow> Raise))))
     | _ \<Rightarrow> Raise)"

definition eff_database :: pprog where
  "eff_database =
     Get Database (\<lambda>d. case d of VDatabase n \<Rightarrow> Call (AwaitReady n False) Done | _ \<Rightarrow> Done)"

definition picker_style :: "nat \<Rightarrow> bool \<Rightarrow> jstr" where
  "picker_style numGroups searchMode =
     [10] @ js ''      --num-groups: '' @ decimal numGroups @ js ''; '' @ [10] @
     js ''      --indicator-opacity: '' @ (if searchMode then js ''0'' else js ''1'') @ js ''; '' @ [10] @
     js ''      --num-skintones: '' @ decimal NUM_SKIN_TONES @ js '';''"

definition eff_pickerStyle :: pprog where
  "eff_pickerStyle =
     Get Groups (\<lambda>gs. Get SearchMode (\<lambda>m.
       Put PickerStyle (VStr (picker_style (length (groups_of gs)) (bool_of m))) Done))"

text \<open>\<open>updateCustomEmoji\<close>, which two effects call.\<close>

definition updateCustomEmoji :: "pprog \<Rightarrow> pprog" where
  "updateCustomEmoji k =
     Get CustomEmojis (\<lambda>c. Get Database (\<lambda>d.
       case d of VDatabase n \<Rightarrow> Call (UpdateCustom n (custom_of c)) k | _ \<Rightarrow> k))"

definition eff_customEmoji :: pprog where
  "eff_customEmoji =
     Get CustomEmojis (\<lambda>c. case c of VCustom _ \<Rightarrow>
       Get Database (\<lambda>d. case d of VDatabase _ \<Rightarrow> updateCustomEmoji Done | _ \<Rightarrow> Done) | _ \<Rightarrow> Done)"

definition eff_groups :: pprog where
  "eff_groups =
     Get CustomEmojis (\<lambda>c.
       if custom_of c \<noteq> [] then
         Get Groups (\<lambda>gs. if strict_same gs (VGroups allGroups) then Done else Put Groups (VGroups allGroups) Done)
       else
         Get Groups (\<lambda>gs. if strict_same gs (VGroups native_groups) then Done else
           Get CurrentGroupIndex (\<lambda>i.
             if int_of i \<noteq> 0
             then Put CurrentGroupIndex (VInt (int_of i - 1)) (Put Groups (VGroups native_groups) Done)
             else Put Groups (VGroups native_groups) Done)))"

definition eff_preferredSkinTone :: pprog where
  "eff_preferredSkinTone =
     Get DatabaseLoaded (\<lambda>b. if bool_of b then
       Get Database (\<lambda>d. case d of VDatabase n \<Rightarrow> Call (AskTone n) Done | _ \<Rightarrow> Done) else Done)"

definition eff_skinTones :: pprog where
  "eff_skinTones =
     Get SkinToneEmoji (\<lambda>e. case e of
         VStr s \<Rightarrow> Put SkinTones (VStrs (map (applySkinTone s) [0..<NUM_SKIN_TONES])) Done
       | _ \<Rightarrow> Raise)"

definition eff_skinToneButtonText :: pprog where
  "eff_skinToneButtonText =
     Get SkinTones (\<lambda>ts. Get CurrentSkinTone (\<lambda>t.
       Put SkinToneButtonText (opt_str (at_index (strs_of ts) (int_of t))) Done))"

text \<open>\<open>s.replace(pat, rep)\<close> with a string pattern: the first occurrence, if there is one.\<close>

fun replace_first :: "jstr \<Rightarrow> jstr \<Rightarrow> jstr \<Rightarrow> jstr" where
  "replace_first pat rep [] = (if pat = [] then rep else [])"
| "replace_first pat rep (c # s) =
     (if startsWith (c # s) pat then rep @ drop (length pat) (c # s) else c # replace_first pat rep s)"

definition skin_tone_label :: "i18n \<Rightarrow> int \<Rightarrow> jstr" where
  "skin_tone_label i tone =
     replace_first (js ''{skinTone}'')
       (case at_index (skinToneNames i) tone of None \<Rightarrow> js ''undefined'' | Some nm \<Rightarrow> nm) (skinToneLabel i)"

definition eff_skinToneButtonLabel :: pprog where
  "eff_skinToneButtonLabel =
     Get I18n (\<lambda>i. case i of
         VTexts i \<Rightarrow> Get CurrentSkinTone (\<lambda>t. Put SkinToneButtonLabel (VStr (skin_tone_label i (int_of t))) Done)
       | _ \<Rightarrow> Raise)"

definition eff_defaultFavorites :: pprog where
  "eff_defaultFavorites =
     Get DatabaseLoaded (\<lambda>b. if bool_of b then
       Get Database (\<lambda>d. case d of VDatabase n \<Rightarrow> Call (AskDefaults n) Done | _ \<Rightarrow> Done) else Done)"

definition eff_favorites :: pprog where
  "eff_favorites =
     Get DatabaseLoaded (\<lambda>b. if bool_of b then
       Get DefaultFavoriteEmojis (\<lambda>f. case f of VFavorites favs \<Rightarrow>
         updateCustomEmoji (Get Database (\<lambda>d. Get NumColumns (\<lambda>n.
           case d of VDatabase db \<Rightarrow> Call (AskFavorites db favs (nat (int_of n))) Done | _ \<Rightarrow> Done)))
       | _ \<Rightarrow> Done) else Done)"

definition eff_emojis :: pprog where
  "eff_emojis =
     Get SearchText (\<lambda>t. Get CurrentGroup (\<lambda>g. Get DatabaseLoaded (\<lambda>b. Get CustomEmojis (\<lambda>c.
       if \<not> bool_of b then Put CurrentEmojis (VEmojis []) (Put SearchMode (VBool False) Done)
       else if length (str_of t) \<ge> MIN_SEARCH_TEXT_LENGTH then Get Database (\<lambda>_. Call (AskSearch (str_of t)) Done)
       else case g of
         VGroup gr \<Rightarrow>
           if gid gr \<noteq> -1 then Get Database (\<lambda>_. Call (AskGroup (gid gr)) Done)
           else if custom_of c \<noteq> [] then Get EmojiVersion (\<lambda>_. Call (AskCustomGroup (custom_of c)) Done)
           else Done
       | _ \<Rightarrow> Done))))"

text \<open>\<open>updateCurrentEmojis\<close> within an effect.\<close>

definition put_emojis :: "emoji_summary list \<Rightarrow> pprog \<Rightarrow> pprog" where
  "put_emojis newEmojis k =
     Get CurrentEmojis (\<lambda>cur.
       if arraysAreEqualByFunction compareEmojiArrays (emojis_of cur) newEmojis then k
       else Put CurrentEmojis (VEmojis newEmojis) k)"

definition truthy_version :: "pval \<Rightarrow> bool" where
  "truthy_version v = (case v of VNum n \<Rightarrow> truthy (JNum n) | _ \<Rightarrow> False)"

definition zwj_to_check :: "zwj_memo \<Rightarrow> emoji_summary list \<Rightarrow> emoji_summary list" where
  "zwj_to_check m emojis =
     filter (\<lambda>e. hasZwj e \<and> supportedZwjEmojis m (the (su_unicode e)) = None)
       (filter (\<lambda>e. truthy_str (su_unicode e)) emojis)"

definition eff_zwj :: "zwj_memo \<Rightarrow> pprog" where
  "eff_zwj m =
     Get CurrentEmojis (\<lambda>cur. Get EmojiVersion (\<lambda>v.
       if \<not> truthy_version v \<and> zwj_to_check m (emojis_of cur) \<noteq> []
       then put_emojis (emojis_of cur) (Call (CheckZwj (zwj_to_check m (emojis_of cur))) Done)
       else put_emojis (if truthy_version v then emojis_of cur else filter (isZwjSupported m) (emojis_of cur))
              (Call ResetScroll Done)))"

text \<open>The emoji of each category, categories in the order of their first emoji.\<close>

definition category_of :: "emoji_summary \<Rightarrow> jstr" where
  "category_of e = (if truthy_str (su_category e) then the (su_category e) else [])"

fun add_to_category :: "emoji_summary \<Rightarrow> (jstr \<times> emoji_summary list) list \<Rightarrow> (jstr \<times> emoji_summary list) list" where
  "add_to_category e [] = [(category_of e, [e])]"
| "add_to_category e ((c, es) # cs) =
     (if c = category_of e then (c, es @ [e]) # cs else (c, es) # add_to_category e cs)"

definition by_category :: "emoji_summary list \<Rightarrow> (jstr \<times> emoji_summary list) list" where
  "by_category emojis = fold add_to_category emojis []"

text \<open>\<open>Array.prototype.sort\<close> is stable.\<close>

fun insert_by :: "('a \<Rightarrow> 'a \<Rightarrow> int) \<Rightarrow> 'a \<Rightarrow> 'a list \<Rightarrow> 'a list" where
  "insert_by cmp x [] = [x]"
| "insert_by cmp x (y # ys) = (if cmp x y \<le> 0 then x # y # ys else y # insert_by cmp x ys)"

definition sort_by :: "('a \<Rightarrow> 'a \<Rightarrow> int) \<Rightarrow> 'a list \<Rightarrow> 'a list" where
  "sort_by cmp xs = foldr (insert_by cmp) xs []"

definition calculateCurrentEmojisWithCategories ::
    "(jstr \<Rightarrow> jstr \<Rightarrow> int) \<Rightarrow> bool \<Rightarrow> emoji_summary list \<Rightarrow> (jstr \<times> emoji_summary list) list" where
  "calculateCurrentEmojisWithCategories sorting searchMode currentEmojis =
     (if searchMode then [([], currentEmojis)]
      else sort_by (\<lambda>a b. sorting (fst a) (fst b)) (by_category currentEmojis))"

definition put_categories :: "(jstr \<times> emoji_summary list) list \<Rightarrow> pprog" where
  "put_categories new =
     Get CurrentEmojisWithCategories (\<lambda>cur.
       if arraysAreEqualByFunction compareCurrentEmojisWithCategories (categories_of cur) new then Done
       else Put CurrentEmojisWithCategories (VCategories new) Done)"

definition eff_categories :: pprog where
  "eff_categories =
     Get SearchMode (\<lambda>m. Get CurrentEmojis (\<lambda>es.
       if bool_of m \<or> length (by_category (emojis_of es)) \<le> 1
       then put_categories (calculateCurrentEmojisWithCategories (\<lambda>_ _. 0) (bool_of m) (emojis_of es))
       else Get CustomCategorySorting (\<lambda>f. case f of
           VSorting sorting \<Rightarrow> put_categories (calculateCurrentEmojisWithCategories sorting False (emojis_of es))
         | _ \<Rightarrow> Raise)))"

definition eff_activeSearchItemId :: pprog where
  "eff_activeSearchItemId =
     Get ActiveSearchItem (\<lambda>a.
       if int_of a = -1 then Put ActiveSearchItemId (VBool False) Done
       else Get CurrentEmojis (\<lambda>es. case at_index (emojis_of es) (int_of a) of
           None \<Rightarrow> Raise
         | Some e \<Rightarrow> Put ActiveSearchItemId (opt_str (su_id e)) Done))"

definition eff_searchInput :: pprog where
  "eff_searchInput = Get RawSearchText (\<lambda>t. Call (IdleSearch (str_of t)) Done)"

definition eff_animation :: pprog where
  "eff_animation =
     Get SkinTonePickerExpanded (\<lambda>b.
       if bool_of b then Call AwaitTransitionEnd Done
       else Put SkinTonePickerExpandedAfterAnimation (VBool False) Done)"

definition effects :: "zwj_memo \<Rightarrow> pprog list" where
  "effects m =
     [eff_currentGroup, eff_render, eff_database, eff_pickerStyle, eff_customEmoji, eff_groups,
      eff_preferredSkinTone, eff_skinTones, eff_skinToneButtonText, eff_skinToneButtonLabel,
      eff_defaultFavorites, eff_favorites, eff_emojis, eff_zwj m, Done, eff_categories,
      eff_activeSearchItemId, eff_searchInput, eff_animation]"

definition picker_eff :: "zwj_memo \<Rightarrow> nat \<Rightarrow> pprog" where
  "picker_eff m i = (if i < length (effects m) then effects m ! i else Done)"

text \<open>\<open>createRoot\<close>: the initial values, then every effect is created and runs once.\<close>

definition createRoot :: "zwj_memo \<Rightarrow> public_props \<Rightarrow> picker outcome" where
  "createRoot m pp =
     rx_run strict_same (picker_eff m) (createState (initial_state pp)) (replicate (length (effects m)) Create)"

end
