(* ===== verification/Picker.thy ===== *)
theory Picker
  imports PickerState Events
begin

text \<open>
  The handlers and continuations of \<open>createRoot\<close> in libs/emoji-picker-element/picker.js: what the
  picker does with a key, a click or an input, and what it does when an answer of the database, a timer
  or an animation frame arrives. Code outside the effects reads the state without observing it.
\<close>

section \<open>Access to the state\<close>

abbreviation put :: "pprop \<Rightarrow> pval \<Rightarrow> picker \<Rightarrow> picker" where
  "put \<equiv> proxy_set strict_same"

lemma props_put [simp]: "props (put p v s) = (props s)(p := v)"
  using strict_same_sound [of "props s p" v] by (auto simp: proxy_set_props)

definition call :: "pcall \<Rightarrow> picker \<Rightarrow> picker" where
  "call a s = s\<lparr>calls := calls s @ [a]\<rparr>"

text \<open>The call number \<open>k\<close> goes on as another, or is over.\<close>

definition continue :: "nat \<Rightarrow> pcall \<Rightarrow> picker \<Rightarrow> picker" where
  "continue k a s = s\<lparr>calls := (calls s)[k := a]\<rparr>"

definition call_at :: "nat \<Rightarrow> picker \<Rightarrow> pcall" where
  "call_at k s = (if k < length (calls s) then calls s ! k else Settled)"

abbreviation emojis :: "picker \<Rightarrow> emoji_summary list" where
  "emojis s \<equiv> emojis_of (props s CurrentEmojis)"

text \<open>What a handler does outside the state.\<close>

datatype pk_effect =
    Halt
  | FocusId jstr
  | FocusNavButton nat
  | ClearSearchBox
  | ScrollToTop
  | FireEmojiClick "handed_out option" int "jstr option" "jstr option"
  | FireSkinToneChange int

definition halt :: "pk_effect list" where
  "halt = [Halt]"

definition updateCurrentEmojis :: "emoji_summary list \<Rightarrow> picker \<Rightarrow> picker" where
  "updateCurrentEmojis newEmojis s =
     (if arraysAreEqualByFunction compareEmojiArrays (emojis s) newEmojis then s
      else put CurrentEmojis (VEmojis newEmojis) s)"

definition updateSearchMode :: "bool \<Rightarrow> picker \<Rightarrow> picker" where
  "updateSearchMode newSearchMode s =
     (if strict_same (props s SearchMode) (VBool newSearchMode) then s
      else put SearchMode (VBool newSearchMode) s)"

section \<open>Loading the database\<close>

text \<open>The texts are an object: reading one of a missing object raises.\<close>

definition put_message :: "(i18n \<Rightarrow> jstr) \<Rightarrow> picker \<Rightarrow> picker outcome" where
  "put_message txt s =
     (case props s I18n of VTexts i \<Rightarrow> Inr (put Message (VStr (txt i)) s) | _ \<Rightarrow> Inl (TypeError, s))"

text \<open>The level of the font is known: \<open>detectEmojiSupportLevel().then\<close>.\<close>

definition on_support_level :: "rat \<Rightarrow> picker \<Rightarrow> picker outcome" where
  "on_support_level lv s = (if lv = 0 then put_message emojiUnsupportedMessage s else Inr s)"

text \<open>\<open>handleDatabaseLoading\<close>: its timer, and the end of \<open>ready\<close> with the \<open>finally\<close> block.\<close>

definition load_timer :: "nat \<Rightarrow> picker \<Rightarrow> picker outcome" where
  "load_timer k s =
     (case call_at k s of
        AwaitReady n False \<Rightarrow> put_message loadingMessage (continue k (AwaitReady n True) s)
      | _ \<Rightarrow> Inr s)"

definition load_finally :: "nat \<Rightarrow> bool \<Rightarrow> picker \<Rightarrow> picker" where
  "load_finally k showingLoadingMessage s =
     continue k Settled (if showingLoadingMessage then put Message (VStr []) s else s)"

definition ready_answer :: "nat \<Rightarrow> bool \<Rightarrow> picker \<Rightarrow> picker outcome" where
  "ready_answer k ok s =
     (case call_at k s of
        AwaitReady n showing \<Rightarrow>
          if ok then Inr (load_finally k showing (put DatabaseLoaded (VBool True) s))
          else (case put_message networkErrorMessage s of
                  Inl (er, s1) \<Rightarrow> Inl (er, load_finally k showing s1)
                | Inr s1 \<Rightarrow> Inr (load_finally k showing s1))
      | _ \<Rightarrow> Inr s)"

section \<open>Answers of the database\<close>

text \<open>
  The level that emoji must not exceed: the version that the page sets, else the level of the font.
  \<open>num\<close> is the coercion of values to numbers.
\<close>

definition support_level :: "rat \<Rightarrow> picker \<Rightarrow> jnum" where
  "support_level lv s =
     (case props s EmojiVersion of VNum n \<Rightarrow> if truthy (JNum n) then n else Fin lv | _ \<Rightarrow> Fin lv)"

fun version_of :: "handed_out \<Rightarrow> json" where
  "version_of (CleanEmoji e) = ce_version e"
| "version_of (CustomEmoji c) = JUndefined"

definition filterEmojisByVersion :: "(json \<Rightarrow> jnum) \<Rightarrow> jnum \<Rightarrow> handed_out list \<Rightarrow> handed_out list" where
  "filterEmojisByVersion num lv es =
     filter (\<lambda>e. \<not> truthy (version_of e) \<or> num_le (to_number num (version_of e)) lv) es"

definition summarizeEmojis :: "(json \<Rightarrow> jnum) \<Rightarrow> rat \<Rightarrow> picker \<Rightarrow> handed_out list \<Rightarrow> emoji_summary list" where
  "summarizeEmojis num lv s es = summarizeEmojisForUI num (support_level lv s) es"

text \<open>What \<open>getEmojisByGroup\<close> and \<open>getEmojisBySearchQuery\<close> make of an answer.\<close>

definition shown_emojis :: "(json \<Rightarrow> jnum) \<Rightarrow> rat \<Rightarrow> picker \<Rightarrow> handed_out list \<Rightarrow> emoji_summary list" where
  "shown_emojis num lv s es = summarizeEmojis num lv s (filterEmojisByVersion num (support_level lv s) es)"

definition same_group :: "int \<Rightarrow> picker \<Rightarrow> bool" where
  "same_group g s = (case props s CurrentGroup of VGroup gr \<Rightarrow> gid gr = g | _ \<Rightarrow> False)"

definition show_group :: "(json \<Rightarrow> jnum) \<Rightarrow> rat \<Rightarrow> int \<Rightarrow> handed_out list \<Rightarrow> picker \<Rightarrow> picker" where
  "show_group num lv g es s =
     (if same_group g s then updateSearchMode False (updateCurrentEmojis (shown_emojis num lv s es) s) else s)"

definition group_answer :: "(json \<Rightarrow> jnum) \<Rightarrow> rat \<Rightarrow> nat \<Rightarrow> handed_out list \<Rightarrow> picker \<Rightarrow> picker" where
  "group_answer num lv k es s =
     (case call_at k s of
        AskGroup g \<Rightarrow> continue k Settled (show_group num lv g es s)
      | AskCustomGroup cs \<Rightarrow> continue k Settled (show_group num lv (-1) (map CustomEmoji cs) s)
      | _ \<Rightarrow> s)"

definition search_answer :: "(json \<Rightarrow> jnum) \<Rightarrow> rat \<Rightarrow> nat \<Rightarrow> db_error + handed_out list \<Rightarrow> picker \<Rightarrow> picker" where
  "search_answer num lv k ans s =
     (case call_at k s of
        AskSearch searchText \<Rightarrow>
          continue k Settled
            (case ans of
               Inl er \<Rightarrow> s
             | Inr es \<Rightarrow>
                 if strict_same (props s SearchText) (VStr searchText)
                 then updateSearchMode True (updateCurrentEmojis (shown_emojis num lv s es) s) else s)
      | _ \<Rightarrow> s)"

definition tone_answer :: "nat \<Rightarrow> int \<Rightarrow> picker \<Rightarrow> picker" where
  "tone_answer k tone s =
     (case call_at k s of AskTone n \<Rightarrow> continue k Settled (put CurrentSkinTone (VInt tone) s) | _ \<Rightarrow> s)"

definition defaults_answer :: "nat \<Rightarrow> handed_out option list \<Rightarrow> picker \<Rightarrow> picker" where
  "defaults_answer k found s =
     (case call_at k s of
        AskDefaults n \<Rightarrow>
          continue k Settled (put DefaultFavoriteEmojis (VFavorites (map the (filter (\<lambda>e. e \<noteq> None) found))) s)
      | _ \<Rightarrow> s)"

fun unicode_or_name :: "handed_out \<Rightarrow> jstr option" where
  "unicode_or_name (CleanEmoji e) = or_str (Some (ce_unicode e)) None"
| "unicode_or_name (CustomEmoji c) = Some (cname c)"

definition favorites_of :: "handed_out list \<Rightarrow> handed_out list \<Rightarrow> nat \<Rightarrow> handed_out list" where
  "favorites_of dbFavorites defaults numColumns = take numColumns (uniqBy_loop (dbFavorites @ defaults) unicode_or_name)"

definition favorites_answer :: "(json \<Rightarrow> jnum) \<Rightarrow> rat \<Rightarrow> nat \<Rightarrow> handed_out list \<Rightarrow> picker \<Rightarrow> picker" where
  "favorites_answer num lv k dbFavorites s =
     (case call_at k s of
        AskFavorites n defaults numColumns \<Rightarrow>
          continue k Settled
            (put CurrentFavorites (VEmojis (summarizeEmojis num lv s (favorites_of dbFavorites defaults numColumns))) s)
      | _ \<Rightarrow> s)"

section \<open>Frames, idle time and layout\<close>

definition calculateEmojiGridStyle :: "int \<Rightarrow> bool \<Rightarrow> picker \<Rightarrow> picker" where
  "calculateEmojiGridStyle newNumColumns newIsRtl s =
     put IsRtl (VBool newIsRtl) (put NumColumns (VInt newNumColumns) s)"

text \<open>
  \<open>checkZwjSupportAndUpdate\<close> in the animation frame: the widths are those of the page at that time.
\<close>

definition checkZwjSupportAndUpdate ::
    "(rat \<Rightarrow> rat) \<Rightarrow> (emoji_summary \<Rightarrow> rat option) \<Rightarrow> rat \<Rightarrow> nat \<Rightarrow> zwj_memo \<times> picker \<Rightarrow> (zwj_memo \<times> picker) outcome" where
  "checkZwjSupportAndUpdate fl width baseline k ms =
     (case call_at k (snd ms) of
        CheckZwj es \<Rightarrow>
          (let s1 = continue k Settled (snd ms)
           in case checkZwjSupport fl width baseline es True (fst ms) of
                Inl (er, m1) \<Rightarrow> Inl (er, (m1, s1))
              | Inr (True, m1) \<Rightarrow> Inr (m1, call ResetScroll s1)
              | Inr (False, m1) \<Rightarrow> Inr (m1, put CurrentEmojis (VEmojis (emojis s1)) s1))
      | _ \<Rightarrow> Inr ms)"

definition scroll_frame :: "nat \<Rightarrow> picker \<Rightarrow> pk_effect list \<times> picker" where
  "scroll_frame k s =
     (case call_at k s of ResetScroll \<Rightarrow> ([ScrollToTop], continue k Settled s) | _ \<Rightarrow> ([], s))"

definition idle_search :: "nat \<Rightarrow> picker \<Rightarrow> picker" where
  "idle_search k s =
     (case call_at k s of
        IdleSearch rawSearchText \<Rightarrow>
          continue k Settled (put ActiveSearchItem (VInt (-1)) (put SearchText (VStr (trim rawSearchText)) s))
      | _ \<Rightarrow> s)"

definition transition_end :: "nat \<Rightarrow> picker \<Rightarrow> picker" where
  "transition_end k s =
     (case call_at k s of
        AwaitTransitionEnd \<Rightarrow> continue k Settled (put SkinTonePickerExpandedAfterAnimation (VBool True) s)
      | _ \<Rightarrow> s)"

definition focus_frame :: "nat \<Rightarrow> picker \<Rightarrow> pk_effect list \<times> picker" where
  "focus_frame k s =
     (case call_at k s of
        FocusSkinToneList \<Rightarrow> ([FocusId (js ''skintone-list'')], continue k Settled s)
      | _ \<Rightarrow> ([], s))"

section \<open>Choosing an emoji\<close>

definition clickEmoji :: "jstr option \<Rightarrow> picker \<Rightarrow> picker" where
  "clickEmoji unicodeOrName s =
     (case (props s Database, unicodeOrName) of
        (VDatabase _, Some u) \<Rightarrow> call (AskClicked u) s
      | _ \<Rightarrow> s)"

definition clicked_answer :: "nat \<Rightarrow> db_error + handed_out option \<Rightarrow> picker \<Rightarrow> picker" where
  "clicked_answer k ans s =
     (case call_at k s of
        AskClicked u \<Rightarrow>
          (case ans of
             Inl er \<Rightarrow> continue k Settled s
           | Inr emoji \<Rightarrow>
               (case List.find (\<lambda>e. su_id e = Some u) (emojis s @ emojis_of (props s CurrentFavorites)) of
                  None \<Rightarrow> continue k Settled s
                | Some summary \<Rightarrow>
                    continue k (CountClicked u emoji summary
                      (if truthy_str (su_unicode summary)
                       then unicodeWithSkin summary (int_of (props s CurrentSkinTone)) else su_unicode summary)) s))
      | _ \<Rightarrow> s)"

definition truthy_part :: "jstr option \<Rightarrow> jstr option" where
  "truthy_part x = (if truthy_str x then x else None)"

definition counted_answer :: "nat \<Rightarrow> picker \<Rightarrow> pk_effect list \<times> picker" where
  "counted_answer k s =
     (case call_at k s of
        CountClicked u emoji summary skinTonedUnicode \<Rightarrow>
          ([FireEmojiClick emoji (int_of (props s CurrentSkinTone)) (truthy_part skinTonedUnicode)
              (truthy_part (su_name summary))],
           continue k Settled s)
      | _ \<Rightarrow> ([], s))"

text \<open>The target of the click: whether it has the class \<open>emoji\<close>, and its id.\<close>

definition onEmojiClick :: "bool \<Rightarrow> jstr \<Rightarrow> picker \<Rightarrow> pk_effect list \<times> picker" where
  "onEmojiClick isEmoji target_id s =
     (if \<not> isEmoji then ([], s) else (halt, clickEmoji (Some (substring_from target_id 4)) s))"

section \<open>Searching and navigating\<close>

definition onSearchKeydown :: "jstr \<Rightarrow> picker \<Rightarrow> pk_effect list \<times> picker outcome" where
  "onSearchKeydown k s =
     (let es = emojis s; active = int_of (props s ActiveSearchItem)
      in if \<not> bool_of (props s SearchMode) \<or> es = [] then ([], Inr s)
         else if k = js ''ArrowDown''
         then (halt, Inr (put ActiveSearchItem (VInt (incrementOrDecrement False active es)) s))
         else if k = js ''ArrowUp''
         then (halt, Inr (put ActiveSearchItem (VInt (incrementOrDecrement True active es)) s))
         else if k = js ''Enter''
         then if active = -1 then ([], Inr (put ActiveSearchItem (VInt 0) s))
              else (halt, case at_index es active of
                            None \<Rightarrow> Inl (TypeError, s)
                          | Some e \<Rightarrow> Inr (clickEmoji (su_id e) s))
         else ([], Inr s))"

definition find_group :: "int \<Rightarrow> emoji_group list \<Rightarrow> int" where
  "find_group groupId gs =
     (let n = length (takeWhile (\<lambda>g. gid g \<noteq> groupId) gs) in if n < length gs then int n else -1)"

definition onNavClick :: "int \<Rightarrow> picker \<Rightarrow> pk_effect list \<times> picker" where
  "onNavClick groupId s =
     ([ClearSearchBox],
      put CurrentGroupIndex (VInt (find_group groupId (groups_of (props s Groups))))
        (put ActiveSearchItem (VInt (-1)) (put SearchText (VStr []) (put RawSearchText (VStr []) s))))"

text \<open>The target is the navigation button number \<open>pos\<close> of \<open>buttons\<close>.\<close>

definition onNavKeydown :: "jstr \<Rightarrow> nat \<Rightarrow> nat \<Rightarrow> pk_effect list" where
  "onNavKeydown k pos buttons =
     (if k = js ''ArrowLeft'' then (if 0 < pos then halt @ [FocusNavButton (pos - 1)] else [])
      else if k = js ''ArrowRight'' then (if pos + 1 < buttons then halt @ [FocusNavButton (pos + 1)] else [])
      else if k = js ''Home'' then halt @ [FocusNavButton 0]
      else if k = js ''End'' then halt @ [FocusNavButton (buttons - 1)]
      else [])"

definition onSearchInput :: "jstr \<Rightarrow> picker \<Rightarrow> picker" where
  "onSearchInput txt s = put RawSearchText (VStr txt) s"

section \<open>Skin tones\<close>

definition changeSkinTone :: "int \<Rightarrow> picker \<Rightarrow> pk_effect list \<times> picker" where
  "changeSkinTone skinTone s =
     ([FocusId (js ''skintone-button''), FireSkinToneChange skinTone],
      call (SaveTone skinTone)
        (put SkinTonePickerExpanded (VBool False) (put CurrentSkinTone (VInt skinTone) s)))"

text \<open>\<open>id.match(/^skintone-(\d)/)\<close>: the digit.\<close>

definition skin_tone_option :: "jstr \<Rightarrow> int option" where
  "skin_tone_option i =
     (if startsWith i (js ''skintone-'') \<and> 9 < length i \<and> 48 \<le> unat (i ! 9) \<and> unat (i ! 9) \<le> 57
      then Some (int (unat (i ! 9)) - 48) else None)"

definition onSkinToneOptionsClick :: "jstr \<Rightarrow> picker \<Rightarrow> pk_effect list \<times> picker" where
  "onSkinToneOptionsClick target_id s =
     (case skin_tone_option target_id of
        None \<Rightarrow> ([], s)
      | Some skinTone \<Rightarrow> (let (es, s1) = changeSkinTone skinTone s in (halt @ es, s1)))"

definition onClickSkinToneButton :: "picker \<Rightarrow> pk_effect list \<times> picker" where
  "onClickSkinToneButton s =
     (let s1 = put SkinTonePickerExpanded (VBool (\<not> bool_of (props s SkinTonePickerExpanded))) s;
          s2 = put ActiveSkinTone (props s1 CurrentSkinTone) s1
      in if bool_of (props s2 SkinTonePickerExpanded) then (halt, call FocusSkinToneList s2) else ([], s2))"

definition onSkinToneOptionsKeydown :: "jstr \<Rightarrow> picker \<Rightarrow> pk_effect list \<times> picker" where
  "onSkinToneOptionsKeydown k s =
     (let tones = strs_of (props s SkinTones); active = int_of (props s ActiveSkinTone);
          changeActiveSkinTone = (\<lambda>n. (halt, put ActiveSkinTone (VInt n) s))
      in if \<not> bool_of (props s SkinTonePickerExpanded) then ([], s)
         else if k = js ''ArrowUp'' then changeActiveSkinTone (incrementOrDecrement True active tones)
         else if k = js ''ArrowDown'' then changeActiveSkinTone (incrementOrDecrement False active tones)
         else if k = js ''Home'' then changeActiveSkinTone 0
         else if k = js ''End'' then changeActiveSkinTone (int (length tones) - 1)
         else if k = js ''Enter'' then (let (es, s1) = changeSkinTone active s in (halt @ es, s1))
         else if k = js ''Escape''
         then (halt @ [FocusId (js ''skintone-button'')], put SkinTonePickerExpanded (VBool False) s)
         else ([], s))"

definition onSkinToneOptionsKeyup :: "jstr \<Rightarrow> picker \<Rightarrow> pk_effect list \<times> picker" where
  "onSkinToneOptionsKeyup k s =
     (if \<not> bool_of (props s SkinTonePickerExpanded) then ([], s)
      else if k = js '' '' then (let (es, s1) = changeSkinTone (int_of (props s ActiveSkinTone)) s in (halt @ es, s1))
      else ([], s))"

text \<open>The element that gets the focus, by its id; \<open>None\<close> when there is none.\<close>

definition onSkinToneOptionsFocusOut :: "jstr option \<Rightarrow> picker \<Rightarrow> picker" where
  "onSkinToneOptionsFocusOut relatedTarget s =
     (if relatedTarget \<noteq> Some (js ''skintone-list'') then put SkinTonePickerExpanded (VBool False) s else s)"


section \<open>The picker as a machine\<close>

text \<open>
  What the page gives the picker: the level of its font, the coercion of values to numbers, the
  rounding of quotients.
\<close>

record host =
  h_level :: rat
  h_num :: "json \<Rightarrow> jnum"
  h_fl :: "rat \<Rightarrow> rat"

datatype pevent =
    Microtask
  | Destroy
  | SetPublic pprop pval
  | SupportLevel
  | LoadTimer nat
  | ReadyAnswer nat bool
  | GroupAnswer nat "handed_out list"
  | SearchAnswer nat "db_error + handed_out list"
  | ToneAnswer nat int
  | DefaultsAnswer nat "handed_out option list"
  | FavoritesAnswer nat "handed_out list"
  | ClickedAnswer nat "db_error + handed_out option"
  | CountedAnswer nat
  | Layout int bool
  | ZwjFrame nat "emoji_summary \<Rightarrow> rat option" rat
  | ScrollFrame nat
  | FocusFrame nat
  | IdleTurn nat
  | TransitionEnd nat
  | EmojiButton bool jstr
  | SearchBox jstr
  | SearchKey jstr
  | NavButton int
  | SkinOption jstr
  | SkinButton
  | SkinDown jstr
  | SkinUp jstr
  | SkinBlur "jstr option"

text \<open>\<open>$set\<close> is called for the public properties only.\<close>

definition set_public :: "pprop \<Rightarrow> pval \<Rightarrow> picker \<Rightarrow> picker" where
  "set_public p v s =
     (if p \<in> {SkinToneEmoji, I18n, Database, CustomEmojis, CustomCategorySorting, EmojiVersion}
      then put p v s else s)"

fun pk_event :: "host \<Rightarrow> pevent \<Rightarrow> picker \<Rightarrow> picker outcome" where
  "pk_event h Destroy s = Inr (abort_state s)"
| "pk_event h (SetPublic p v) s = Inr (set_public p v s)"
| "pk_event h SupportLevel s = on_support_level (h_level h) s"
| "pk_event h (LoadTimer k) s = load_timer k s"
| "pk_event h (ReadyAnswer k ok) s = ready_answer k ok s"
| "pk_event h (GroupAnswer k es) s = Inr (group_answer (h_num h) (h_level h) k es s)"
| "pk_event h (SearchAnswer k ans) s = Inr (search_answer (h_num h) (h_level h) k ans s)"
| "pk_event h (ToneAnswer k t) s = Inr (tone_answer k t s)"
| "pk_event h (DefaultsAnswer k es) s = Inr (defaults_answer k es s)"
| "pk_event h (FavoritesAnswer k es) s = Inr (favorites_answer (h_num h) (h_level h) k es s)"
| "pk_event h (ClickedAnswer k ans) s = Inr (clicked_answer k ans s)"
| "pk_event h (CountedAnswer k) s = Inr (snd (counted_answer k s))"
| "pk_event h (Layout n r) s = Inr (calculateEmojiGridStyle n r s)"
| "pk_event h (ScrollFrame k) s = Inr (snd (scroll_frame k s))"
| "pk_event h (FocusFrame k) s = Inr (snd (focus_frame k s))"
| "pk_event h (IdleTurn k) s = Inr (idle_search k s)"
| "pk_event h (TransitionEnd k) s = Inr (transition_end k s)"
| "pk_event h (EmojiButton b i) s = Inr (snd (onEmojiClick b i s))"
| "pk_event h (SearchBox t) s = Inr (onSearchInput t s)"
| "pk_event h (SearchKey k) s = snd (onSearchKeydown k s)"
| "pk_event h (NavButton g) s = Inr (snd (onNavClick g s))"
| "pk_event h (SkinOption i) s = Inr (snd (onSkinToneOptionsClick i s))"
| "pk_event h SkinButton s = Inr (snd (onClickSkinToneButton s))"
| "pk_event h (SkinDown k) s = Inr (snd (onSkinToneOptionsKeydown k s))"
| "pk_event h (SkinUp k) s = Inr (snd (onSkinToneOptionsKeyup k s))"
| "pk_event h (SkinBlur r) s = Inr (onSkinToneOptionsFocusOut r s)"
| "pk_event h _ s = Inr s"

definition with_memo :: "zwj_memo \<Rightarrow> picker outcome \<Rightarrow> (zwj_memo \<times> picker) outcome" where
  "with_memo m r = (case r of Inl (er, s) \<Rightarrow> Inl (er, (m, s)) | Inr s \<Rightarrow> Inr (m, s))"

definition pk_step :: "host \<Rightarrow> zwj_memo \<times> picker \<Rightarrow> pevent \<Rightarrow> (zwj_memo \<times> picker) outcome" where
  "pk_step h ms e =
     (case e of
        Microtask \<Rightarrow> with_memo (fst ms) (rx_step strict_same (picker_eff (fst ms)) (snd ms) Flush)
      | ZwjFrame k width baseline \<Rightarrow> checkZwjSupportAndUpdate (h_fl h) width baseline k ms
      | _ \<Rightarrow> with_memo (fst ms) (pk_event h e (snd ms)))"

text \<open>A run that an exception ends, and one that goes on: the browser reports the exception, and the next
  event finds the state as the code left it.\<close>

fun pk_run :: "host \<Rightarrow> zwj_memo \<times> picker \<Rightarrow> pevent list \<Rightarrow> (zwj_memo \<times> picker) outcome" where
  "pk_run h ms [] = Inr ms"
| "pk_run h ms (e # es) = and_then (pk_step h ms e) (\<lambda>ms1. pk_run h ms1 es)"

definition pk_go :: "host \<Rightarrow> zwj_memo \<times> picker \<Rightarrow> pevent list \<Rightarrow> zwj_memo \<times> picker" where
  "pk_go h ms es = foldl (\<lambda>ms e. final_state (pk_step h ms e)) ms es"

section \<open>The derived state\<close>

text \<open>The properties that one effect alone writes.\<close>

definition picker_own :: "pprop \<Rightarrow> nat option" where
  "picker_own p =
     (case p of CurrentGroup \<Rightarrow> Some 0 | PickerStyle \<Rightarrow> Some 3 | Groups \<Rightarrow> Some 5 | SkinTones \<Rightarrow> Some 7
      | SkinToneButtonText \<Rightarrow> Some 8 | SkinToneButtonLabel \<Rightarrow> Some 9
      | CurrentEmojisWithCategories \<Rightarrow> Some 15 | ActiveSearchItemId \<Rightarrow> Some 16 | _ \<Rightarrow> None)"

lemmas effect_defs = eff_currentGroup_def eff_render_def render_rest_def eff_database_def eff_pickerStyle_def
  eff_customEmoji_def updateCustomEmoji_def eff_groups_def eff_preferredSkinTone_def eff_skinTones_def
  eff_skinToneButtonText_def eff_skinToneButtonLabel_def eff_defaultFavorites_def eff_favorites_def
  eff_emojis_def eff_zwj_def put_emojis_def eff_categories_def put_categories_def
  eff_activeSearchItemId_def eff_searchInput_def eff_animation_def

lemma writes_only_reads [simp]: "writes_only P (reads ps k) = writes_only P k"
  by (induction ps) auto

lemma length_effects: "length (effects m) = 19"
  by (simp add: effects_def)

lemma picker_eff_beyond: "19 \<le> i \<Longrightarrow> picker_eff m i = Done"
  by (simp add: picker_eff_def effects_def)

lemma less_19: "(i :: nat) < 19 \<longleftrightarrow>
  i = 18 \<or> i = 16 \<or> i = 14 \<or> i = 12 \<or> i = 10 \<or> i = 8 \<or> i = 6 \<or> i = 4 \<or> i = 2 \<or> i = 0 \<or>
  i = 17 \<or> i = 15 \<or> i = 13 \<or> i = 11 \<or> i = 9 \<or> i = 7 \<or> i = 5 \<or> i = 3 \<or> i = 1"
  by presburger

lemma picker_eff_nth:
  "picker_eff m 0 = eff_currentGroup" "picker_eff m (Suc 0) = eff_render" "picker_eff m 2 = eff_database"
  "picker_eff m 3 = eff_pickerStyle" "picker_eff m 4 = eff_customEmoji" "picker_eff m 5 = eff_groups"
  "picker_eff m 6 = eff_preferredSkinTone" "picker_eff m 7 = eff_skinTones"
  "picker_eff m 8 = eff_skinToneButtonText" "picker_eff m 9 = eff_skinToneButtonLabel"
  "picker_eff m 10 = eff_defaultFavorites" "picker_eff m 11 = eff_favorites" "picker_eff m 12 = eff_emojis"
  "picker_eff m 13 = eff_zwj m" "picker_eff m 14 = Done" "picker_eff m 15 = eff_categories"
  "picker_eff m 16 = eff_activeSearchItemId" "picker_eff m 17 = eff_searchInput" "picker_eff m 18 = eff_animation"
  by (simp_all add: picker_eff_def effects_def)

lemma picker_writes_own: "writes_only (\<lambda>p. picker_own p = None \<or> picker_own p = Some i) (picker_eff m i)"
proof (cases "i < 19")
  case True
  then show ?thesis
    unfolding less_19
    by (elim disjE; simp add: picker_eff_nth effect_defs picker_own_def split: pval.split option.split)
qed (simp add: picker_eff_beyond)

interpretation px: reactive_client strict_same "picker_eff m" picker_own for m
  by unfold_locales (auto intro: strict_same_sound picker_writes_own)

lemma up_to_date_memo: "up_to_date (picker_eff m) picker_own i s \<longleftrightarrow> up_to_date (picker_eff m') picker_own i s"
proof (cases "i = 13")
  case True
  have "picker_own q \<noteq> Some 13" for q by (simp add: picker_own_def split: pprop.split)
  moreover have "path_reads (picker_eff m 13) t = {CurrentEmojis, EmojiVersion}" for m t
    by (auto simp: picker_eff_nth eff_zwj_def put_emojis_def)
  ultimately show ?thesis by (simp add: up_to_date_def True)
next
  case False
  then have "picker_eff m i = picker_eff m' i"
  proof (cases "i < 19")
    case True
    then show ?thesis using \<open>i \<noteq> 13\<close> unfolding less_19 by (elim disjE; simp add: picker_eff_nth)
  qed (simp add: picker_eff_beyond)
  then show ?thesis by (simp add: up_to_date_def)
qed

abbreviation pk_inv :: "picker \<Rightarrow> bool" where
  "pk_inv \<equiv> rx_inv (picker_eff \<lparr>baselineEmojiWidth = None, supportedZwjEmojis = Map.empty\<rparr>) picker_own"

lemma pk_inv_memo: "rx_inv (picker_eff m) picker_own s \<longleftrightarrow> pk_inv s"
  unfolding rx_inv_def using up_to_date_memo by blast

lemma pk_inv_put: "pk_inv s \<Longrightarrow> picker_own p = None \<Longrightarrow> pk_inv (put p v s)"
  by (rule px.write_inv)

lemma pk_inv_calls [simp]: "pk_inv (s\<lparr>calls := xs\<rparr>) = pk_inv s"
  by (simp add: rx_inv_def queue_ok_def up_to_date_def)

lemma pk_inv_call [simp]: "pk_inv (call a s) = pk_inv s" "pk_inv (continue k a s) = pk_inv s"
  by (simp_all add: call_def continue_def)

lemmas handler_defs = set_public_def on_support_level_def put_message_def load_timer_def load_finally_def
  ready_answer_def group_answer_def show_group_def search_answer_def tone_answer_def defaults_answer_def
  favorites_answer_def clicked_answer_def counted_answer_def calculateEmojiGridStyle_def scroll_frame_def
  focus_frame_def idle_search_def transition_end_def onEmojiClick_def clickEmoji_def onSearchInput_def
  onSearchKeydown_def onNavClick_def onSkinToneOptionsClick_def onClickSkinToneButton_def changeSkinTone_def
  onSkinToneOptionsKeydown_def onSkinToneOptionsKeyup_def onSkinToneOptionsFocusOut_def
  updateCurrentEmojis_def updateSearchMode_def

lemma picker_own_None [simp]:
  "picker_own SkinToneEmoji = None" "picker_own I18n = None" "picker_own Database = None"
  "picker_own CustomEmojis = None" "picker_own CustomCategorySorting = None" "picker_own EmojiVersion = None"
  "picker_own CurrentEmojis = None" "picker_own RawSearchText = None" "picker_own SearchText = None"
  "picker_own SearchMode = None" "picker_own ActiveSearchItem = None" "picker_own Message = None"
  "picker_own SkinTonePickerExpanded = None" "picker_own SkinTonePickerExpandedAfterAnimation = None"
  "picker_own CurrentSkinTone = None" "picker_own ActiveSkinTone = None" "picker_own CurrentFavorites = None"
  "picker_own DefaultFavoriteEmojis = None" "picker_own NumColumns = None" "picker_own IsRtl = None"
  "picker_own CurrentGroupIndex = None" "picker_own DatabaseLoaded = None"
  by (simp_all add: picker_own_def)

lemma pk_event_inv:
  assumes "pk_inv s"
  shows "pk_inv (final_state (pk_event h e s))"
proof -
  have "pk_inv (abort_state s)" using assms by (simp add: abort_state_def rx_inv_def up_to_date_def)
  with assms show ?thesis
    by (cases e) (simp_all add: handler_defs halt_def Let_def pk_inv_put split: option.split pval.split pcall.split sum.split bool.split)
qed

lemma pk_event_frame: "observers (final_state (pk_event h e s)) = observers s"
  by (cases e) (simp_all add: handler_defs halt_def abort_state_def call_def continue_def Let_def
      split: option.split pval.split pcall.split sum.split bool.split)

lemma pk_step_inv:
  assumes "pk_step h (m, s) e = Inr (m', s')" "pk_inv s"
  shows "pk_inv s' \<and> observers s' = observers s"
proof (cases e)
  case Microtask
  then have f: "rx_step strict_same (picker_eff m) s Flush = Inr s'"
    using assms(1) by (auto simp: pk_step_def with_memo_def split: sum.splits)
  have inv: "rx_inv (picker_eff m) picker_own s" using assms(2) pk_inv_memo by blast
  have "pk_inv s'"
    using px.step_inv [OF inv _ f] pk_inv_memo [of m s'] by simp
  moreover have "observers s' = observers s"
    using px.flush_inv [OF inv] f by (cases "microtasks s = 0") auto
  ultimately show ?thesis by blast
next
  case (ZwjFrame k width baseline)
  then show ?thesis
    using assms
    by (auto simp: pk_step_def checkZwjSupportAndUpdate_def Let_def pk_inv_put call_def continue_def
        split: pcall.splits sum.splits bool.splits)
qed (use assms pk_event_inv [of s h e] pk_event_frame [of h e s] in
      \<open>auto simp: pk_step_def with_memo_def split: sum.splits\<close>)

lemma pk_run_inv:
  "pk_run h ms es = Inr ms' \<Longrightarrow> pk_inv (snd ms) \<Longrightarrow> pk_inv (snd ms') \<and> observers (snd ms') = observers (snd ms)"
proof (induction es arbitrary: ms)
  case (Cons e es)
  then obtain m1 s1 where "pk_step h ms e = Inr (m1, s1)" "pk_run h (m1, s1) es = Inr ms'"
    by (auto simp: and_then_Inr_iff)
  with Cons pk_step_inv [of h "fst ms" "snd ms" e m1 s1] show ?case by fastforce
qed simp

lemma create_observers:
  "rx_run strict_same (picker_eff m) s (replicate n Create) = Inr s' \<Longrightarrow> observers s' = observers s + n"
proof (induction n arbitrary: s)
  case (Suc n)
  then obtain s1 where s1: "createEffect strict_same (picker_eff m) s = Inr s1"
    "rx_run strict_same (picker_eff m) s1 (replicate n Create) = Inr s'"
    by (auto simp: and_then_Inr_iff)
  then have "observers s1 = observers s + 1"
    using px.runnable_up_to_date [of m "observers s" "s\<lparr>observers := observers s + 1\<rparr>" s1]
    by (simp add: createEffect_def)
  with Suc.IH [OF s1(2)] show ?case by simp
qed simp

lemma create_destroyed:
  "rx_run strict_same (picker_eff m) s (replicate n Create) = Inr s' \<Longrightarrow> rx_destroyed s' = rx_destroyed s"
proof (induction n arbitrary: s)
  case (Suc n)
  then obtain s1 where s1: "createEffect strict_same (picker_eff m) s = Inr s1"
    "rx_run strict_same (picker_eff m) s1 (replicate n Create) = Inr s'"
    by (auto simp: and_then_Inr_iff)
  then have "rx_destroyed s1 = rx_destroyed s"
    using px.runnable_up_to_date [of m "observers s" "s\<lparr>observers := observers s + 1\<rparr>" s1]
    by (simp add: createEffect_def)
  with Suc.IH [OF s1(2)] show ?case by simp
qed simp

lemma createRoot_inv:
  assumes "createRoot m pp = Inr s"
  shows "pk_inv s \<and> observers s = 19"
proof -
  have r: "rx_run strict_same (picker_eff m) (createState (initial_state pp)) (replicate 19 Create) = Inr s"
    using assms unfolding createRoot_def length_effects .
  have "rx_inv (picker_eff m) picker_own s"
    by (rule px.run_inv [OF rx_inv_start _ r]) simp
  then have "pk_inv s" using pk_inv_memo by blast
  then show ?thesis using create_observers [OF r] by (simp add: createState_def)
qed

lemma equal_from_refl: "(\<And>x. areEqual x x) \<Longrightarrow> equal_from areEqual xs xs"
  by (induction xs) auto

lemma arraysAreEqual_refl: "(\<And>x. areEqual x x) \<Longrightarrow> arraysAreEqualByFunction areEqual xs xs"
  by (simp add: arraysAreEqualByFunction_def equal_from_refl)

lemma compare_refl [simp]: "compareEmojiArrays x x" "compareCurrentEmojisWithCategories c c"
  by (simp_all add: compareEmojiArrays_def compareCurrentEmojisWithCategories_def arraysAreEqual_refl)

lemma sort_by_short: "length xs \<le> 1 \<Longrightarrow> sort_by cmp xs = xs"
  by (cases xs) (auto simp: sort_by_def)

text \<open>What the effects that are up to date say of the state.\<close>

lemma derived_from_effects:
  assumes "\<forall>i<19. up_to_date (picker_eff m) picker_own i s"
  defines "t \<equiv> props s"
  shows "t CurrentGroup = group_at (t Groups) (t CurrentGroupIndex)"
    and "t Groups = VGroups (if custom_of (t CustomEmojis) \<noteq> [] then allGroups else native_groups)"
    and "t PickerStyle = VStr (picker_style (length (groups_of (t Groups))) (bool_of (t SearchMode)))"
    and "t SkinToneEmoji = VStr e \<Longrightarrow> t SkinTones = VStrs (map (applySkinTone e) [0..<NUM_SKIN_TONES])"
    and "t SkinToneButtonText = opt_str (at_index (strs_of (t SkinTones)) (int_of (t CurrentSkinTone)))"
    and "t I18n = VTexts x \<Longrightarrow> t SkinToneButtonLabel = VStr (skin_tone_label x (int_of (t CurrentSkinTone)))"
    and "t CustomCategorySorting = VSorting f \<Longrightarrow>
      arraysAreEqualByFunction compareCurrentEmojisWithCategories (categories_of (t CurrentEmojisWithCategories))
        (calculateCurrentEmojisWithCategories f (bool_of (t SearchMode)) (emojis_of (t CurrentEmojis)))"
    and "t ActiveSearchItem = VInt (-1) \<Longrightarrow> t ActiveSearchItemId = VBool False"
    and "at_index (emojis_of (t CurrentEmojis)) (int_of (t ActiveSearchItem)) = Some y \<Longrightarrow>
      t ActiveSearchItemId = opt_str (su_id y)"
proof -
  have u: "props s q = v" if "picker_own q = Some i" "last_write (picker_eff m i) (props s) q = Some v" "i < 19" for i q v
    using assms(1) that by (auto simp: up_to_date_def)
  show "t CurrentGroup = group_at (t Groups) (t CurrentGroupIndex)"
  proof (cases "strict_same (t CurrentGroup) (group_at (t Groups) (t CurrentGroupIndex))")
    case False
    then show ?thesis
      unfolding t_def by (intro u [of _ 0]) (simp_all add: picker_own_def picker_eff_nth eff_currentGroup_def)
  qed (rule strict_same_sound)
  show "t Groups = VGroups (if custom_of (t CustomEmojis) \<noteq> [] then allGroups else native_groups)"
    (is "_ = VGroups ?gs")
  proof (cases "strict_same (t Groups) (VGroups ?gs)")
    case False
    have "last_write eff_groups t Groups = Some (VGroups ?gs)"
      using False by (cases "custom_of (t CustomEmojis) \<noteq> []"; cases "int_of (t CurrentGroupIndex) = 0") (simp_all add: eff_groups_def)
    then show ?thesis unfolding t_def by (intro u [of _ 5]) (simp_all add: picker_own_def picker_eff_nth)
  qed (rule strict_same_sound)
  show "t PickerStyle = VStr (picker_style (length (groups_of (t Groups))) (bool_of (t SearchMode)))"
    unfolding t_def by (intro u [of _ 3]) (simp_all add: picker_own_def picker_eff_nth eff_pickerStyle_def)
  show "t SkinTones = VStrs (map (applySkinTone e) [0..<NUM_SKIN_TONES])" if "t SkinToneEmoji = VStr e"
    using that unfolding t_def by (intro u [of _ 7]) (simp_all add: picker_own_def picker_eff_nth eff_skinTones_def)
  show "t SkinToneButtonText = opt_str (at_index (strs_of (t SkinTones)) (int_of (t CurrentSkinTone)))"
    unfolding t_def by (intro u [of _ 8]) (simp_all add: picker_own_def picker_eff_nth eff_skinToneButtonText_def)
  show "t SkinToneButtonLabel = VStr (skin_tone_label x (int_of (t CurrentSkinTone)))" if "t I18n = VTexts x"
    using that unfolding t_def by (intro u [of _ 9]) (simp_all add: picker_own_def picker_eff_nth eff_skinToneButtonLabel_def)
  show "arraysAreEqualByFunction compareCurrentEmojisWithCategories (categories_of (t CurrentEmojisWithCategories))
      (calculateCurrentEmojisWithCategories f (bool_of (t SearchMode)) (emojis_of (t CurrentEmojis)))"
    if f: "t CustomCategorySorting = VSorting f"
  proof -
    let ?c = "calculateCurrentEmojisWithCategories f (bool_of (t SearchMode)) (emojis_of (t CurrentEmojis))"
    have "last_write eff_categories t CurrentEmojisWithCategories =
      (if arraysAreEqualByFunction compareCurrentEmojisWithCategories (categories_of (t CurrentEmojisWithCategories)) ?c
       then None else Some (VCategories ?c))"
      using f by (auto simp: eff_categories_def put_categories_def calculateCurrentEmojisWithCategories_def sort_by_short)
    then have "t CurrentEmojisWithCategories = VCategories ?c" if "\<not> arraysAreEqualByFunction
        compareCurrentEmojisWithCategories (categories_of (t CurrentEmojisWithCategories)) ?c"
      using that unfolding t_def by (intro u [of _ 15]) (simp_all add: picker_own_def picker_eff_nth)
    then show ?thesis by (metis arraysAreEqual_refl categories_of.simps(1) compare_refl(2))
  qed
  show "t ActiveSearchItemId = VBool False" if "t ActiveSearchItem = VInt (-1)"
    using that unfolding t_def by (intro u [of _ 16]) (simp_all add: picker_own_def picker_eff_nth eff_activeSearchItemId_def)
  show "t ActiveSearchItemId = opt_str (su_id y)"
    if "at_index (emojis_of (t CurrentEmojis)) (int_of (t ActiveSearchItem)) = Some y"
    using that unfolding t_def
    by (intro u [of _ 16]) (auto simp: picker_own_def picker_eff_nth eff_activeSearchItemId_def at_index_def split: if_splits)
qed

section \<open>The effects settle\<close>

text \<open>The types under which no effect raises: no search result is active, and the index is that of a native group.\<close>

definition pk_ok :: "pprop \<Rightarrow> pval \<Rightarrow> bool" where
  "pk_ok p v =
     (case p of
        I18n \<Rightarrow> (case v of VTexts _ \<Rightarrow> True | _ \<Rightarrow> False)
      | SkinToneEmoji \<Rightarrow> (case v of VStr _ \<Rightarrow> True | _ \<Rightarrow> False)
      | CustomCategorySorting \<Rightarrow> (case v of VSorting _ \<Rightarrow> True | _ \<Rightarrow> False)
      | Groups \<Rightarrow> v = VGroups native_groups \<or> v = VGroups allGroups
      | CurrentGroupIndex \<Rightarrow> (case v of VInt i \<Rightarrow> 0 \<le> i \<and> i < 9 | _ \<Rightarrow> False)
      | CurrentGroup \<Rightarrow> (case v of VGroup _ \<Rightarrow> True | _ \<Rightarrow> False)
      | ActiveSearchItem \<Rightarrow> v = VInt (-1)
      | _ \<Rightarrow> True)"

definition pk_rank :: "nat \<Rightarrow> nat" where
  "pk_rank i = (if i \<in> {5, 7, 9, 18} then 0 else if i \<in> {0, 8} then 1 else if i = 12 then 2
     else if i \<in> {3, 13} then 3 else if i \<in> {15, 16} then 4 else 5)"

definition pk_level :: "pprop \<Rightarrow> nat" where
  "pk_level p =
     (case p of CurrentGroup \<Rightarrow> 1 | SkinTones \<Rightarrow> 1 | SkinToneButtonLabel \<Rightarrow> 1
      | SkinTonePickerExpandedAfterAnimation \<Rightarrow> 1 | SkinToneButtonText \<Rightarrow> 2 | CurrentEmojis \<Rightarrow> 3 | SearchMode \<Rightarrow> 3
      | PickerStyle \<Rightarrow> 4 | CurrentEmojisWithCategories \<Rightarrow> 4 | ActiveSearchItemId \<Rightarrow> 5 | _ \<Rightarrow> 0)"

definition pk_self :: "nat \<Rightarrow> pprop \<Rightarrow> bool" where
  "pk_self i p \<longleftrightarrow> i = 0 \<and> p = CurrentGroup \<or> i = 5 \<and> (p = Groups \<or> p = CurrentGroupIndex) \<or>
     i = 13 \<and> p = CurrentEmojis \<or> i = 15 \<and> p = CurrentEmojisWithCategories"

lemma reads_only_reads [simp]: "reads_only P (reads ps k) \<longleftrightarrow> list_all P ps \<and> reads_only P k"
  by (induction ps) auto

lemma typed_prog_reads [simp]: "typed_prog ok k \<Longrightarrow> typed_prog ok (reads ps k)"
  by (induction ps) auto

lemma length_groups: "length native_groups = 9" "length allGroups = 10"
  by (simp_all add: native_groups_def allGroups_def)

lemma pk_ok_group_at: "pk_ok Groups gs \<Longrightarrow> pk_ok CurrentGroupIndex i \<Longrightarrow> pk_ok CurrentGroup (group_at gs i)"
  by (auto simp: pk_ok_def group_at_def at_index_def length_groups split: pval.splits)

lemma pk_ok_simps:
  "pk_ok I18n v \<longleftrightarrow> (\<exists>x. v = VTexts x)" "pk_ok SkinToneEmoji v \<longleftrightarrow> (\<exists>x. v = VStr x)"
  "pk_ok CustomCategorySorting v \<longleftrightarrow> (\<exists>x. v = VSorting x)"
  "pk_ok CurrentGroup v \<longleftrightarrow> (\<exists>x. v = VGroup x)" "pk_ok ActiveSearchItem v \<longleftrightarrow> v = VInt (-1)"
  "pk_ok CurrentGroupIndex v \<longleftrightarrow> (\<exists>i. v = VInt i \<and> 0 \<le> i \<and> i < 9)"
  "pk_ok Groups v \<longleftrightarrow> v = VGroups native_groups \<or> v = VGroups allGroups"
  "pk_ok CurrentEmojis v" "pk_ok CurrentEmojisWithCategories v" "pk_ok SearchMode v" "pk_ok PickerStyle v"
  "pk_ok SkinTones v" "pk_ok SkinToneButtonText v" "pk_ok SkinToneButtonLabel v" "pk_ok ActiveSearchItemId v"
  "pk_ok SkinTonePickerExpandedAfterAnimation v"
  by (auto simp: pk_ok_def split: pval.splits)

lemma pk_typed: "typed_prog pk_ok (picker_eff m i)"
proof (cases "i < 19")
  case True
  have "typed_prog pk_ok eff_currentGroup"
    using pk_ok_group_at by (simp add: eff_currentGroup_def)
  moreover have "typed_prog pk_ok eff_groups"
    by (auto simp: eff_groups_def pk_ok_simps)
  moreover have "typed_prog pk_ok (picker_eff m i)" if "i \<noteq> 0" "i \<noteq> 5"
    using True that unfolding less_19
    by (elim disjE; simp add: picker_eff_nth; auto simp: effect_defs pk_ok_simps split: pval.split)
  ultimately show ?thesis
    by (cases "i = 0 \<or> i = 5") (auto simp: picker_eff_nth)
qed (simp add: picker_eff_beyond)

lemma pk_reads_below: "reads_only (read_rank pk_level pk_rank pk_self i) (picker_eff m i)"
proof (cases "i < 19")
  case True
  then show ?thesis
    unfolding less_19
    by (elim disjE; simp add: picker_eff_nth effect_defs read_rank_def pk_level_def pk_rank_def pk_self_def
        split: pval.split option.split; auto)
qed (simp add: picker_eff_beyond)

lemma pk_writes_above: "writes_only (write_rank pk_level pk_rank pk_self i) (picker_eff m i)"
proof (cases "i < 19")
  case True
  then show ?thesis
    unfolding less_19
    by (elim disjE; simp add: picker_eff_nth effect_defs write_rank_def pk_level_def pk_rank_def pk_self_def
        split: pval.split option.split; auto)
qed (simp add: picker_eff_beyond)

lemma pk_self_writes: "pk_self i p \<Longrightarrow> writes_only (pk_self i) (picker_eff m i)"
  unfolding pk_self_def
  by (elim disjE conjE; simp add: picker_eff_nth effect_defs split: pval.split)

text \<open>A run of an effect that reads what it writes leaves nothing for a second run to write.\<close>

lemma zwj_to_check_filter:
  "zwj_to_check m es = [] \<Longrightarrow> zwj_to_check m (filter P es) = []"
  by (auto simp: zwj_to_check_def filter_empty_conv)

lemma idem_currentGroup:
  "silent strict_same eff_currentGroup (props (final_state (run_prog strict_same eff_currentGroup s)))"
proof -
  have "strict_same (group_at gs i) (group_at gs i)" for gs i
    by (simp add: group_at_def strict_same_def split: option.split)
  then show ?thesis
    by (simp add: eff_currentGroup_def proxy_set_props)
qed

lemma idem_groups: "silent strict_same eff_groups (props (final_state (run_prog strict_same eff_groups s)))"
proof -
  let ?r = "final_state (run_prog strict_same eff_groups s)"
  have same: "strict_same (VGroups gs) (VGroups gs)" for gs by (simp add: strict_same_def)
  let ?gs = "VGroups (if custom_of (props s CustomEmojis) \<noteq> [] then allGroups else native_groups)"
  have "props ?r CustomEmojis = props s CustomEmojis" "strict_same (props ?r Groups) ?gs"
    by (auto simp: eff_groups_def same)
  then show ?thesis
    by (simp add: eff_groups_def split: if_splits)
qed

lemma idem_zwj: "silent strict_same (eff_zwj m) (props (final_state (run_prog strict_same (eff_zwj m) s)))"
proof -
  let ?r = "final_state (run_prog strict_same (eff_zwj m) s)"
  let ?e = "emojis_of (props s CurrentEmojis)" and ?v = "truthy_version (props s EmojiVersion)"
  let ?n = "if ?v then ?e else filter (isZwjSupported m) ?e"
  have refl: "arraysAreEqualByFunction compareEmojiArrays es es" for es
    by (simp add: arraysAreEqual_refl)
  have "props ?r EmojiVersion = props s EmojiVersion"
    and cases: "emojis_of (props ?r CurrentEmojis) = ?e \<and>
         (arraysAreEqualByFunction compareEmojiArrays ?e ?n \<or> \<not> ?v \<and> zwj_to_check m ?e \<noteq> []) \<or>
       emojis_of (props ?r CurrentEmojis) = ?n \<and> (?v \<or> zwj_to_check m ?e = [])"
    by (auto simp: eff_zwj_def put_emojis_def refl)
  then show ?thesis
    using zwj_to_check_filter [of m ?e "isZwjSupported m"]
    by (auto simp: eff_zwj_def put_emojis_def refl split: if_splits)
qed

text \<open>Writing the categories, and the effect that does it; it raises before it writes.\<close>

lemma put_categories_run:
  "q \<noteq> CurrentEmojisWithCategories \<Longrightarrow>
     props (final_state (run_prog strict_same (put_categories cs) s)) q = props s q"
  "arraysAreEqualByFunction compareCurrentEmojisWithCategories
     (categories_of (props (final_state (run_prog strict_same (put_categories cs) s)) CurrentEmojisWithCategories)) cs"
  by (auto simp: put_categories_def arraysAreEqual_refl)

lemma idem_categories:
  "silent strict_same eff_categories (props (final_state (run_prog strict_same eff_categories s)))"
proof (cases "bool_of (props s SearchMode) \<or> length (by_category (emojis s)) \<le> 1")
  case True
  let ?cs = "calculateCurrentEmojisWithCategories (\<lambda>_ _. 0) (bool_of (props s SearchMode)) (emojis s)"
  let ?s = "proxy_get CurrentEmojis (proxy_get SearchMode s)"
  have "run_prog strict_same eff_categories s = run_prog strict_same (put_categories ?cs) ?s"
    using True by (simp add: eff_categories_def)
  with True put_categories_run [where cs = ?cs and s = ?s] show ?thesis
    by (simp add: eff_categories_def) (simp add: put_categories_def)
next
  case False
  show ?thesis
  proof (cases "\<exists>f. props s CustomCategorySorting = VSorting f")
    case True
    then obtain f where f: "props s CustomCategorySorting = VSorting f" by blast
    let ?cs = "calculateCurrentEmojisWithCategories f False (emojis s)"
    let ?s = "proxy_get CustomCategorySorting (proxy_get CurrentEmojis (proxy_get SearchMode s))"
    have "run_prog strict_same eff_categories s = run_prog strict_same (put_categories ?cs) ?s"
      using False f by (simp add: eff_categories_def)
    with False f put_categories_run [where cs = ?cs and s = ?s] show ?thesis
      by (simp add: eff_categories_def) (simp add: put_categories_def)
  next
    case other: False
    then have "props (final_state (run_prog strict_same eff_categories s)) = props s"
      using False by (simp add: eff_categories_def split: pval.split)
    with False other show ?thesis by (simp add: eff_categories_def split: pval.split)
  qed
qed

lemma pk_self_idem:
  "pk_self i p \<Longrightarrow>
   silent strict_same (picker_eff m i) (props (final_state (run_prog strict_same (picker_eff m i) s)))"
  unfolding pk_self_def
  by (elim disjE conjE)
    (simp_all only: picker_eff_nth idem_currentGroup idem_groups idem_zwj idem_categories)

lemma pk_rank_top: "2 * pk_rank i + 1 < 12"
  by (simp add: pk_rank_def)

interpretation ps: ranked_client strict_same "picker_eff m" picker_own pk_ok pk_level pk_rank pk_self 12 for m
  by unfold_locales (simp_all add: pk_typed pk_reads_below pk_writes_above pk_self_writes pk_self_idem pk_rank_top [simplified])

abbreviation pk_subs :: "picker \<Rightarrow> bool" where
  "pk_subs \<equiv> subs_ok (read_rank pk_level pk_rank pk_self)"

lemma runnable_subs: "runnable strict_same (picker_eff m) i s = Inr s' \<Longrightarrow> pk_subs s \<Longrightarrow> pk_subs s'"
  using run_subs [OF px.runnable_run(1), of m i s s' "read_rank pk_level pk_rank pk_self" i] pk_reads_below [of i m]
  by (simp add: subs_ok_def)

lemma run_observers_subs:
  "run_observers strict_same (picker_eff m) is s = Inr s' \<Longrightarrow> pk_subs s \<Longrightarrow> pk_subs s'"
  by (induction "is" arbitrary: s) (auto simp: and_then_Inr_iff dest: runnable_subs)

lemma pk_event_subs: "propsToObservers (final_state (pk_event h e s)) = propsToObservers s"
  by (cases e) (simp_all add: handler_defs halt_def abort_state_def call_def continue_def Let_def
      split: option.split pval.split pcall.split sum.split bool.split)

lemma flush_subs:
  assumes "rx_step strict_same (picker_eff m) s Flush = Inr s'" "pk_subs s"
  shows "pk_subs s'"
proof (cases "microtasks s = 0 \<or> rx_destroyed s")
  case False
  then have "flush strict_same (picker_eff m) s = Inr s'" using assms(1) by simp
  then obtain s1 where s1: "s' = flush_end s1" "run_observers strict_same (picker_eff m) (dirtyObservers s)
      (s\<lparr>microtasks := microtasks s - 1, dirtyObservers := []\<rparr>) = Inr s1"
    using px.flush_run [of m s s'] False by blast
  have "pk_subs s1" using run_observers_subs [OF s1(2)] assms(2) by (simp add: subs_ok_def)
  then show ?thesis by (simp add: s1(1) flush_end_def subs_ok_def Let_def)
next
  case True
  then show ?thesis using assms by (auto simp: flush_def subs_ok_def split: if_splits)
qed

lemma pk_step_subs:
  assumes "pk_step h (m, s) e = Inr (m', s')" "pk_subs s"
  shows "pk_subs s'"
proof (cases e)
  case Microtask
  then show ?thesis
    using assms flush_subs [of m s s'] by (auto simp: pk_step_def with_memo_def split: sum.splits)
next
  case (ZwjFrame k width baseline)
  then show ?thesis
    using assms
    by (auto simp: pk_step_def checkZwjSupportAndUpdate_def Let_def call_def continue_def subs_ok_def
        split: pcall.splits sum.splits bool.splits)
qed (use assms pk_event_subs [of h e s] in
      \<open>auto simp: pk_step_def with_memo_def subs_ok_def split: sum.splits\<close>)

lemma pk_run_subs: "pk_run h ms es = Inr ms' \<Longrightarrow> pk_subs (snd ms) \<Longrightarrow> pk_subs (snd ms')"
proof (induction es arbitrary: ms)
  case (Cons e es)
  then obtain m1 s1 where "pk_step h ms e = Inr (m1, s1)" "pk_run h (m1, s1) es = Inr ms'"
    by (auto simp: and_then_Inr_iff)
  with Cons pk_step_subs [of h "fst ms" "snd ms" e m1 s1] show ?case by fastforce
qed simp

lemma createRoot_subs:
  assumes "createRoot m pp = Inr s"
  shows "pk_subs s"
proof -
  have "pk_subs s'" if "rx_run strict_same (picker_eff m) s0 (replicate n Create) = Inr s'" "pk_subs s0" for s0 s' n
    using that
  proof (induction n arbitrary: s0)
    case (Suc n)
    then obtain s1 where
      r: "runnable strict_same (picker_eff m) (observers s0) (s0\<lparr>observers := observers s0 + 1\<rparr>) = Inr s1"
      and s1: "rx_run strict_same (picker_eff m) s1 (replicate n Create) = Inr s'"
      by (auto simp: and_then_Inr_iff createEffect_def)
    have "pk_subs s1" using runnable_subs [OF r] Suc.prems(2) by (simp add: subs_ok_def)
    with Suc.IH [OF s1] show ?case by blast
  qed simp
  from this [OF assms [unfolded createRoot_def]] show ?thesis
    by (simp add: createState_def subs_ok_def)
qed

lemma pk_run_microtasks:
  "rx_run strict_same (picker_eff m) s (replicate n Flush) = Inr s' \<Longrightarrow>
   pk_run h (m, s) (replicate n Microtask) = Inr (m, s')"
proof (induction n arbitrary: s)
  case (Suc n)
  then obtain s1 where "rx_step strict_same (picker_eff m) s Flush = Inr s1"
    "rx_run strict_same (picker_eff m) s1 (replicate n Flush) = Inr s'"
    by (auto simp: and_then_Inr_iff)
  with Suc.IH [of s1] show ?case by (simp add: pk_step_def with_memo_def)
qed simp

text \<open>The queue and the subscriptions are in order after any events, also after code that raised.\<close>

definition pk_calm :: "picker \<Rightarrow> bool" where
  "pk_calm s \<longleftrightarrow> (rx_destroyed s \<or> queue_ok s) \<and> pk_subs s"

lemma pk_calm_put: "pk_calm s \<Longrightarrow> pk_calm (put p v s)"
  by (auto simp: pk_calm_def subs_ok_def queue_ok_proxy_set)

lemma pk_calm_fields [simp]:
  "pk_calm (call a s) = pk_calm s" "pk_calm (continue k a s) = pk_calm s"
  by (simp_all add: pk_calm_def call_def continue_def subs_ok_def queue_ok_def)

lemma pk_event_calm:
  assumes "pk_calm s"
  shows "pk_calm (final_state (pk_event h e s))"
proof -
  have "pk_calm (abort_state s)" using assms by (simp add: abort_state_def pk_calm_def subs_ok_def)
  with assms show ?thesis
    by (cases e) (simp_all add: handler_defs halt_def Let_def pk_calm_put split: option.split pval.split pcall.split sum.split bool.split)
qed

lemma pk_flush_calm:
  assumes "pk_calm s"
  shows "pk_calm (final_state (rx_step strict_same (picker_eff m) s Flush))"
proof (cases "rx_destroyed s")
  case True
  with assms show ?thesis by (simp add: pk_calm_def flush_def subs_ok_def)
next
  case False
  with assms have q: "queue_ok s" "pk_subs s" by (simp_all add: pk_calm_def)
  have "\<forall>j \<in> set (dirtyObservers s). ps.stage m 0 j (props s)" by (simp add: ps.stage_def)
  from ps.flush_stage [OF q(1) False q(2) this] flush_queue_ok [OF q(1) False, of strict_same "picker_eff m"]
  show ?thesis by (simp add: pk_calm_def)
qed

lemma final_with_memo: "final_state (with_memo m r) = (m, final_state r)"
  by (simp add: with_memo_def split: sum.split)

lemma pk_step_calm:
  assumes "pk_calm (snd ms)"
  shows "pk_calm (snd (final_state (pk_step h ms e)))"
proof (cases e)
  case Microtask
  then show ?thesis using pk_flush_calm [OF assms] by (simp add: pk_step_def final_with_memo)
next
  case (ZwjFrame k width baseline)
  then show ?thesis
    using assms
    by (simp add: pk_step_def checkZwjSupportAndUpdate_def Let_def pk_calm_put
        split: pcall.split sum.split bool.split prod.split)
qed (use pk_event_calm [OF assms, of h e] in \<open>simp_all add: pk_step_def final_with_memo\<close>)

lemma pk_go_calm: "pk_calm (snd ms) \<Longrightarrow> pk_calm (snd (pk_go h ms es))"
  by (induction es arbitrary: ms) (auto simp: pk_go_def pk_step_calm)

lemma pk_go_append: "pk_go h ms (es @ fs) = pk_go h (pk_go h ms es) fs"
  by (simp add: pk_go_def)

lemma pk_event_alive: "e \<noteq> Destroy \<Longrightarrow> rx_destroyed (final_state (pk_event h e s)) = rx_destroyed s"
  by (cases e) (simp_all add: handler_defs halt_def call_def continue_def Let_def
      split: option.split pval.split pcall.split sum.split bool.split)

lemma pk_step_alive:
  assumes "pk_calm (snd ms)" "\<not> rx_destroyed (snd ms)" "e \<noteq> Destroy"
  shows "\<not> rx_destroyed (snd (final_state (pk_step h ms e)))"
proof (cases e)
  case Microtask
  then show ?thesis
    using assms flush_queue_ok [of "snd ms" strict_same "picker_eff (fst ms)"]
    by (simp add: pk_step_def final_with_memo pk_calm_def)
next
  case (ZwjFrame k width baseline)
  then show ?thesis
    using assms(2)
    by (simp add: pk_step_def checkZwjSupportAndUpdate_def Let_def call_def continue_def
        split: pcall.split sum.split bool.split prod.split)
qed (use assms(2,3) pk_event_alive [of e h "snd ms"] in \<open>simp_all add: pk_step_def final_with_memo\<close>)

lemma pk_go_alive:
  "pk_calm (snd ms) \<Longrightarrow> \<not> rx_destroyed (snd ms) \<Longrightarrow> Destroy \<notin> set es \<Longrightarrow> \<not> rx_destroyed (snd (pk_go h ms es))"
proof (induction es arbitrary: ms)
  case (Cons e es)
  then have "e \<noteq> Destroy" by auto
  with Cons show ?case
    using Cons.IH [of "final_state (pk_step h ms e)"] by (simp add: pk_go_def pk_step_calm pk_step_alive)
qed (simp add: pk_go_def)

lemma createRoot_calm: "createRoot m pp = Inr s \<Longrightarrow> pk_calm s"
  using createRoot_inv [of m pp s] createRoot_subs [of m pp s] by (simp add: pk_calm_def rx_inv_def)

lemma pk_go_microtasks:
  "pk_go h (m, s) (replicate n Microtask) = (m, rx_go strict_same (picker_eff m) s (replicate n Flush))"
proof (induction n arbitrary: s)
  case (Suc n)
  let ?s = "final_state (rx_step strict_same (picker_eff m) s Flush)"
  have "pk_go h (m, s) (replicate (Suc n) Microtask) = pk_go h (m, ?s) (replicate n Microtask)"
    by (simp add: pk_go_def pk_step_def final_with_memo del: rx_step.simps)
  moreover have "rx_go strict_same (picker_eff m) s (replicate (Suc n) Flush) =
      rx_go strict_same (picker_eff m) ?s (replicate n Flush)"
    by (simp add: rx_go_def)
  ultimately show ?case using Suc.IH [of ?s] by simp
qed (simp add: pk_go_def rx_go_def)

text \<open>
  C6: the effects of the picker settle. From every state that events can produce, those in which code raised
  included, as long as the picker is not destroyed: twelve microtasks later no effect is dirty and no
  microtask is pending, although some effects write what they read, and whether or not effects raise on the
  way. None of them raises where the texts and settings are present, no search result is active and the
  index is that of a native group.
\<close>

theorem picker_settles:
  assumes "createRoot m pp = Inr s0" "pk_go h (m, s0) es = (m', s)" "\<not> rx_destroyed s"
  shows "\<exists>s'. pk_go h (m', s) (replicate 12 Microtask) = (m', s') \<and> dirtyObservers s' = [] \<and> microtasks s' = 0 \<and>
    \<not> rx_destroyed s' \<and>
    ((\<forall>p. pk_ok p (props s p)) \<longrightarrow>
       pk_run h (m', s) (replicate 12 Microtask) = Inr (m', s') \<and> (\<forall>p. pk_ok p (props s' p)))"
proof -
  have "pk_calm s" using createRoot_calm [OF assms(1)] pk_go_calm [of "(m, s0)" h es] assms(2) by simp
  then have q: "queue_ok s" "pk_subs s" using assms(3) by (simp_all add: pk_calm_def)
  let ?t = "rx_go strict_same (picker_eff m') s (replicate 12 Flush)"
  have "pk_run h (m', s) (replicate 12 Microtask) = Inr (m', ?t) \<and> (\<forall>p. pk_ok p (props ?t p))"
    if ok: "\<forall>p. pk_ok p (props s p)"
  proof -
    have "typed_state pk_ok s" using ok by (simp add: typed_state_def)
    from ps.settles [OF q(1) assms(3) this q(2), of m'] obtain s1 where
      "rx_run strict_same (picker_eff m') s (replicate 12 Flush) = Inr s1" "typed_state pk_ok s1" by blast
    then show ?thesis
      using pk_run_microtasks [of m' s 12 s1 h] rx_run_go [of strict_same "picker_eff m'" s "replicate 12 Flush" s1]
      by (simp add: typed_state_def)
  qed
  with ps.calms [OF q(1) assms(3) q(2), of m'] show ?thesis by (simp add: pk_go_microtasks)
qed

text \<open>A picker with texts, a skin tone emoji and a sorting starts without an error.\<close>

lemma createRoot_starts:
  assumes "pp_i18n pp = VTexts x" "pp_skinToneEmoji pp = VStr e" "pp_customCategorySorting pp = VSorting f"
  shows "\<exists>s. createRoot m pp = Inr s \<and> typed_state pk_ok s \<and> \<not> rx_destroyed s"
proof -
  let ?s = "createState (initial_state pp) :: picker"
  have g: "group_at (VGroups native_groups) (VInt 0) = VGroup (native_groups ! 0)"
    by (simp add: group_at_def at_index_def length_groups)
  have first: "createEffect strict_same (picker_eff m) ?s = Inr s1 \<Longrightarrow> props s1 = (props ?s)(CurrentGroup := VGroup (native_groups ! 0)) \<and> \<not> rx_destroyed s1" for s1
    by (auto simp: createEffect_def runnable_def createState_def picker_eff_nth eff_currentGroup_def initial_state_def g
        strict_same_def)
  have "\<exists>s1. createEffect strict_same (picker_eff m) ?s = Inr s1"
    by (simp add: createEffect_def runnable_def createState_def picker_eff_nth eff_currentGroup_def)
  then obtain s1 where s1: "createEffect strict_same (picker_eff m) ?s = Inr s1"
    "props s1 = (initial_state pp)(CurrentGroup := VGroup (native_groups ! 0))" "\<not> rx_destroyed s1"
    using first by (auto simp: createState_def)
  have "pk_ok p (props s1 p)" for p
    using assms by (cases p) (simp_all add: s1(2) pk_ok_def initial_state_def)
  then have "typed_state pk_ok s1" by (simp add: typed_state_def)
  from ps.create_typed [OF this, of m 18] obtain s where
    s: "rx_run strict_same (picker_eff m) s1 (replicate 18 Create) = Inr s" "typed_state pk_ok s" by auto
  have "createRoot m pp = Inr s"
    unfolding createRoot_def length_effects using s1(1) s(1) by (simp add: numeral_eq_Suc)
  moreover have "\<not> rx_destroyed s"
    using create_destroyed [OF s(1)] s1(3) by simp
  ultimately show ?thesis using s(2) by blast
qed

definition no_memo :: zwj_memo where
  "no_memo = \<lparr>baselineEmojiWidth = None, supportedZwjEmojis = Map.empty\<rparr>"

definition plain_props :: public_props where
  "plain_props = \<lparr>pp_skinToneEmoji = VStr DEFAULT_SKIN_TONE_EMOJI, pp_i18n = VTexts enI18n, pp_database = VDatabase 0,
     pp_customEmoji = VNull, pp_customCategorySorting = VSorting DEFAULT_CATEGORY_SORTING, pp_emojiVersion = VNull\<rparr>"

definition plain_host :: host where
  "plain_host = \<lparr>h_level = 16, h_num = (\<lambda>_. NotANumber), h_fl = (\<lambda>x. x)\<rparr>"

lemma plain_start: "\<exists>s. createRoot no_memo plain_props = Inr s \<and> typed_state pk_ok s \<and> \<not> rx_destroyed s"
  by (rule createRoot_starts) (simp_all add: plain_props_def)

theorem picker_settles_witness:
  "\<exists>s0 s. createRoot no_memo plain_props = Inr s0 \<and>
     pk_go plain_host (no_memo, s0)
       ([SetPublic I18n VNull, Microtask, SearchBox (js ''st''), SkinButton] @ replicate 12 Microtask) = (no_memo, s) \<and>
     microtasks s = 0 \<and> dirtyObservers s = []"
proof -
  obtain s0 where s0: "createRoot no_memo plain_props = Inr s0" "\<not> rx_destroyed s0"
    using plain_start by blast
  let ?es = "[SetPublic I18n VNull, Microtask, SearchBox (js ''st''), SkinButton]"
  have "fst (pk_go plain_host (no_memo, s0) ?es) = no_memo"
    by (simp add: pk_go_def pk_step_def final_with_memo)
  moreover have "\<not> rx_destroyed (snd (pk_go plain_host (no_memo, s0) ?es))"
    using createRoot_calm [OF s0(1)] s0(2) by (intro pk_go_alive) simp_all
  ultimately obtain s where s: "pk_go plain_host (no_memo, s0) ?es = (no_memo, s)" "\<not> rx_destroyed s"
    by (metis prod.collapse)
  from picker_settles [OF s0(1) s] obtain s' where
    "pk_go plain_host (no_memo, s) (replicate 12 Microtask) = (no_memo, s')" "microtasks s' = 0" "dirtyObservers s' = []"
    by blast
  with s0(1) s(1) show ?thesis by (intro exI [of _ s0] exI [of _ s'] conjI) (simp_all only: pk_go_append)
qed

text \<open>
  C5: the derived state of the picker is consistent whenever nothing is queued. After any events in which no
  code raised, as long as the picker is not destroyed and no microtask is pending: the current group is
  the one that the index selects; the custom group is among the groups exactly when there are custom
  emoji; the style, the skin tones, the text and the label of the skin tone button belong to the present
  values; the categories are those of the present emoji; and the id of the active search result is that
  of the emoji at the active position.
\<close>

theorem derived_state_consistent:
  assumes "createRoot m pp = Inr s0" "pk_run h (m, s0) es = Inr (m', s)" "\<not> rx_destroyed s" "microtasks s = 0"
    and "props s SkinToneEmoji = VStr e" "props s I18n = VTexts x" "props s CustomCategorySorting = VSorting f"
  shows "props s CurrentGroup = group_at (props s Groups) (props s CurrentGroupIndex) \<and>
    props s Groups = VGroups (if custom_of (props s CustomEmojis) \<noteq> [] then allGroups else native_groups) \<and>
    props s PickerStyle = VStr (picker_style (length (groups_of (props s Groups))) (bool_of (props s SearchMode))) \<and>
    props s SkinTones = VStrs (map (applySkinTone e) [0..<NUM_SKIN_TONES]) \<and>
    props s SkinToneButtonText = opt_str (at_index (strs_of (props s SkinTones)) (int_of (props s CurrentSkinTone))) \<and>
    props s SkinToneButtonLabel = VStr (skin_tone_label x (int_of (props s CurrentSkinTone))) \<and>
    arraysAreEqualByFunction compareCurrentEmojisWithCategories
      (categories_of (props s CurrentEmojisWithCategories))
      (calculateCurrentEmojisWithCategories f (bool_of (props s SearchMode)) (emojis s)) \<and>
    (props s ActiveSearchItem = VInt (-1) \<longrightarrow> props s ActiveSearchItemId = VBool False) \<and>
    (\<forall>y. at_index (emojis s) (int_of (props s ActiveSearchItem)) = Some y \<longrightarrow>
       props s ActiveSearchItemId = opt_str (su_id y))"
proof -
  have inv: "pk_inv s \<and> observers s = 19"
    using pk_run_inv [OF assms(2)] createRoot_inv [OF assms(1)] by simp
  have "\<forall>i<19. up_to_date (picker_eff m) picker_own i s"
    using px.quiescent [OF conjunct1 [OF inv] assms(3,4)] inv up_to_date_memo by metis
  note d = derived_from_effects [OF this]
  show ?thesis
    using d(1-3) d(4) [OF assms(5)] d(5) d(6) [OF assms(6)] d(7) [OF assms(7)] d(8,9) by blast
qed

theorem derived_state_consistent_witness:
  "\<exists>s0 s. createRoot no_memo plain_props = Inr s0 \<and>
     pk_run plain_host (no_memo, s0) (replicate 12 Microtask) = Inr (no_memo, s) \<and>
     props s CurrentGroup = group_at (props s Groups) (props s CurrentGroupIndex)"
proof -
  obtain s0 where s0: "createRoot no_memo plain_props = Inr s0" "typed_state pk_ok s0" "\<not> rx_destroyed s0"
    using plain_start by blast
  have "queue_ok s0" using createRoot_inv [OF s0(1)] s0(3) by (simp add: rx_inv_def)
  from ps.settles [OF this s0(3,2) createRoot_subs [OF s0(1)]] obtain s where
    s: "rx_run strict_same (picker_eff no_memo) s0 (replicate 12 Flush) = Inr s" "\<not> rx_destroyed s"
    "typed_state pk_ok s" "microtasks s = 0" by blast
  then have "pk_ok SkinToneEmoji (props s SkinToneEmoji)" "pk_ok I18n (props s I18n)"
    "pk_ok CustomCategorySorting (props s CustomCategorySorting)" by (simp_all only: typed_state_def)
  then obtain e x f where "props s SkinToneEmoji = VStr e" "props s I18n = VTexts x"
    "props s CustomCategorySorting = VSorting f" by (auto simp: pk_ok_simps)
  from derived_state_consistent [OF s0(1) pk_run_microtasks [OF s(1)] s(2,4) this] show ?thesis
    using s0(1) pk_run_microtasks [OF s(1)] by blast
qed

end
