(* ===== verification/PickerBehaviour.thy ===== *)
theory PickerBehaviour
  imports Picker
begin

text \<open>
  What the emoji picker does over its events: loading and its messages, searching and stale answers, the
  keys of the search box, the categories of the emoji, the groups and the skin tones.
\<close>

section \<open>Loading\<close>

lemma call_at_continue [simp]:
  "call_at k (continue k a s) = (if k < length (calls s) then a else Settled)"
  by (simp add: call_at_def continue_def)

lemma props_continue [simp]: "props (continue k a s) = props s" "props (call a s) = props s"
  by (simp_all add: continue_def call_def)

lemma calls_put [simp]: "calls (put p v s) = calls s"
  by (simp add: proxy_set_def queue_flush_def Let_def)

lemma call_at_put [simp]: "call_at k (put p v s) = call_at k s"
  by (simp add: call_at_def)

lemma call_at_valid: "call_at k s \<noteq> Settled \<Longrightarrow> k < length (calls s)"
  by (simp add: call_at_def split: if_splits)

text \<open>
  A slow failure is not reported. When the database cannot be loaded, the picker shows the network error
  if the failure comes within a second; if it comes later, after the loading message was shown, the
  error message is removed again at once, and the picker stays empty with no message.
\<close>

theorem slow_failure_is_silent:
  assumes "call_at k s = AwaitReady n False" "props s I18n = VTexts x"
  shows "(\<exists>s'. ready_answer k False s = Inr s' \<and> props s' Message = VStr (networkErrorMessage x) \<and>
      props s' DatabaseLoaded = props s DatabaseLoaded) \<and>
    (\<exists>s1 s2. load_timer k s = Inr s1 \<and> props s1 Message = VStr (loadingMessage x) \<and>
      ready_answer k False s1 = Inr s2 \<and> props s2 Message = VStr [] \<and>
      props s2 DatabaseLoaded = props s DatabaseLoaded)"
  using assms call_at_valid [of k s]
  by (simp add: ready_answer_def load_timer_def load_finally_def put_message_def)

definition loading_picker :: picker where
  "loading_picker = (createState (initial_state plain_props))\<lparr>calls := [AwaitReady 0 False]\<rparr>"

theorem slow_failure_is_silent_witness:
  "\<exists>s1 s2. load_timer 0 loading_picker = Inr s1 \<and> ready_answer 0 False s1 = Inr s2 \<and>
     props s2 Message = VStr [] \<and> props s2 DatabaseLoaded = VBool False"
proof -
  have "call_at 0 loading_picker = AwaitReady 0 False" "props loading_picker I18n = VTexts enI18n"
    "props loading_picker DatabaseLoaded = VBool False"
    by (simp_all add: loading_picker_def call_at_def createState_def initial_state_def plain_props_def)
  with slow_failure_is_silent [OF this(1,2)] show ?thesis by auto
qed

section \<open>Answers\<close>

lemma compare_ids:
  "arraysAreEqualByFunction compareEmojiArrays xs ys \<longleftrightarrow> map su_id xs = map su_id ys"
proof -
  have "length xs = length ys \<Longrightarrow> equal_from compareEmojiArrays xs ys \<longleftrightarrow> map su_id xs = map su_id ys"
    by (induction xs ys rule: list_induct2) (auto simp: compareEmojiArrays_def)
  then show ?thesis
    unfolding arraysAreEqualByFunction_def by (metis length_map)
qed

lemma updateCurrentEmojis_ids:
  "map su_id (emojis (updateCurrentEmojis es s)) = map su_id es"
  "q \<noteq> CurrentEmojis \<Longrightarrow> props (updateCurrentEmojis es s) q = props s q"
  by (auto simp: updateCurrentEmojis_def compare_ids)

lemma updateSearchMode_props:
  "props (updateSearchMode b s) = (props s)(SearchMode := VBool b)"
  using strict_same_sound [of "props s SearchMode" "VBool b"] by (auto simp: updateSearchMode_def)

text \<open>
  One answer. It changes nothing when the text has changed since or the search failed; otherwise the
  picker is in the search mode and shows, by their ids, the emoji of the answer that the font supports.
\<close>

lemma search_answer_effect:
  assumes "call_at k s = AskSearch t"
  shows "(case ans of
       Inl er \<Rightarrow> props (search_answer num lv k ans s) = props s
     | Inr es \<Rightarrow>
         if props s SearchText = VStr t
         then map su_id (emojis (search_answer num lv k ans s)) = map su_id (shown_emojis num lv s es) \<and>
              props (search_answer num lv k ans s) SearchMode = VBool True
         else props (search_answer num lv k ans s) = props s)"
  using assms
  by (cases ans) (auto simp: search_answer_def strict_same_def updateSearchMode_props updateCurrentEmojis_ids)

lemma search_answer_frame:
  "q \<noteq> CurrentEmojis \<Longrightarrow> q \<noteq> SearchMode \<Longrightarrow> props (search_answer num lv k ans s) q = props s q"
  "j \<noteq> k \<Longrightarrow> call_at j (search_answer num lv k ans s) = call_at j s"
proof -
  have c: "calls (updateSearchMode b s) = calls s" "calls (updateCurrentEmojis es s) = calls s" for b es s
    by (simp_all add: updateSearchMode_def updateCurrentEmojis_def)
  show "q \<noteq> CurrentEmojis \<Longrightarrow> q \<noteq> SearchMode \<Longrightarrow> props (search_answer num lv k ans s) q = props s q"
    by (simp add: search_answer_def updateSearchMode_props updateCurrentEmojis_ids split: pcall.split sum.split)
  show "j \<noteq> k \<Longrightarrow> call_at j (search_answer num lv k ans s) = call_at j s"
    by (simp add: search_answer_def call_at_def continue_def c split: pcall.split sum.split)
qed

lemma search_answer_other: "\<forall>t. call_at k s \<noteq> AskSearch t \<Longrightarrow> search_answer num lv k ans s = s"
  by (simp add: search_answer_def split: pcall.split)

lemma search_answer_ignored:
  assumes "props s SearchText = VStr t" "call_at k s \<noteq> AskSearch t \<or> isl ans"
  shows "props (search_answer num lv k ans s) = props s"
proof (cases "\<exists>u. call_at k s = AskSearch u")
  case True
  then obtain u where u: "call_at k s = AskSearch u" by blast
  show ?thesis
    using assms search_answer_effect [OF u, where ans = ans and num = num and lv = lv]
    by (cases ans) (simp_all add: u)
next
  case False
  then show ?thesis by (simp add: search_answer_other)
qed

text \<open>Answers that arrive one after the other, each with the number of its call, and the successful
  ones among them whose search was for the text \<open>t\<close>.\<close>

fun search_answers ::
    "(json \<Rightarrow> jnum) \<Rightarrow> rat \<Rightarrow> (nat \<times> (db_error + handed_out list)) list \<Rightarrow> picker \<Rightarrow> picker" where
  "search_answers num lv [] s = s"
| "search_answers num lv ((k, ans) # rest) s = search_answers num lv rest (search_answer num lv k ans s)"

fun answers_for :: "jstr \<Rightarrow> picker \<Rightarrow> (nat \<times> (db_error + handed_out list)) list \<Rightarrow> handed_out list list" where
  "answers_for t s [] = []"
| "answers_for t s ((k, Inr es) # rest) =
     (if call_at k s = AskSearch t then es # answers_for t s rest else answers_for t s rest)"
| "answers_for t s ((k, Inl er) # rest) = answers_for t s rest"

lemma answers_for_cong:
  "(\<And>k. k \<in> fst ` set arr \<Longrightarrow> call_at k s = call_at k s') \<Longrightarrow> answers_for t s arr = answers_for t s' arr"
proof (induction t s arr rule: answers_for.induct)
  case (2 t s k es rest)
  then have "call_at k s = call_at k s'" "answers_for t s rest = answers_for t s' rest" by auto
  then show ?case by simp
qed auto

lemma shown_emojis_cong: "props s EmojiVersion = props s' EmojiVersion \<Longrightarrow> shown_emojis num lv s = shown_emojis num lv s'"
  by (simp add: fun_eq_iff shown_emojis_def summarizeEmojis_def support_level_def)

text \<open>
  C35: late answers to earlier searches do not disturb the present one. While the search text is \<open>t\<close>, let
  any answers to searches arrive, those of earlier texts among them, in any order and some of them
  failures. Afterwards the picker is in the search mode and shows, by their ids, the emoji of the last
  successful answer to a search for \<open>t\<close> that the font supports; if there was no such answer, it is as it
  was. Nothing but the emoji and the search mode changes.
\<close>

theorem search_answers_fit_text:
  assumes "props s SearchText = VStr t" "distinct (map fst arr)"
  shows "let s' = search_answers num lv arr s; hits = answers_for t s arr
    in (if hits = [] then props s' = props s
        else map su_id (emojis s') = map su_id (shown_emojis num lv s (last hits)) \<and>
             props s' SearchMode = VBool True) \<and>
       (\<forall>q. q \<noteq> CurrentEmojis \<longrightarrow> q \<noteq> SearchMode \<longrightarrow> props s' q = props s q)"
  using assms
proof (induction arr arbitrary: s)
  case (Cons a arr)
  obtain k ans where a: "a = (k, ans)" by fastforce
  let ?u = "search_answer num lv k ans s"
  have text_u: "props ?u SearchText = VStr t" using Cons.prems(1) by (simp add: search_answer_frame)
  have hits_u: "answers_for t ?u arr = answers_for t s arr"
    using Cons.prems(2) by (intro answers_for_cong search_answer_frame) (auto simp: a)
  have shown_u: "shown_emojis num lv ?u = shown_emojis num lv s"
    by (intro shown_emojis_cong search_answer_frame) simp_all
  have IH: "if answers_for t s arr = [] then props (search_answers num lv arr ?u) = props ?u
      else map su_id (emojis (search_answers num lv arr ?u)) =
             map su_id (shown_emojis num lv s (last (answers_for t s arr))) \<and>
           props (search_answers num lv arr ?u) SearchMode = VBool True"
    and frame: "\<And>q. q \<noteq> CurrentEmojis \<Longrightarrow> q \<noteq> SearchMode \<Longrightarrow> props (search_answers num lv arr ?u) q = props s q"
    using Cons.IH [OF text_u] Cons.prems(2) by (auto simp: a Let_def hits_u shown_u search_answer_frame)
  have eff: "map su_id (emojis (search_answers num lv (a # arr) s)) = map su_id (shown_emojis num lv s (last hits)) \<and>
      props (search_answers num lv (a # arr) s) SearchMode = VBool True"
    if h: "hits = answers_for t s (a # arr)" "hits \<noteq> []" for hits
  proof (cases "answers_for t s arr = []")
    case True
    then obtain es where "ans = Inr es" "call_at k s = AskSearch t" "hits = [es]"
      using h True by (cases ans) (auto simp: a split: if_splits)
    then show ?thesis
      using IH True Cons.prems(1) search_answer_effect [where k = k and s = s and t = t and ans = ans and num = num and lv = lv] by (simp add: a)
  next
    case False
    then have "last hits = last (answers_for t s arr)" using h by (cases ans) (simp_all add: a)
    with IH False show ?thesis by (simp add: a)
  qed
  have "props (search_answers num lv (a # arr) s) = props s" if "answers_for t s (a # arr) = []"
  proof -
    have "answers_for t s arr = []" "call_at k s \<noteq> AskSearch t \<or> isl ans"
      using that by (cases ans; simp add: a split: if_splits)+
    with IH search_answer_ignored [OF Cons.prems(1)] show ?thesis by (simp add: a)
  qed
  with eff frame show ?case by (simp add: a Let_def)
qed simp

definition star_answer :: clean_emoji where
  "star_answer = \<lparr>ce_annotation = js ''star'', ce_group = 5, ce_order = 1, ce_tags = None, ce_unicode = [0x2B50],
     ce_version = JNum (Fin 1), ce_emoticon = None, ce_shortcodes = None, ce_skins = None\<rparr>"

definition searching_picker :: picker where
  "searching_picker = (createState ((initial_state plain_props)(SearchText := VStr (js ''star''),
       CurrentGroup := VGroup (native_groups ! 0))))\<lparr>calls := [AskSearch (js ''star''), AskGroup 0, AskSearch (js ''sta'')]\<rparr>"

theorem search_answers_fit_text_witness:
  "map su_id (emojis (search_answers (\<lambda>_. NotANumber) 16 [(0, Inr [CleanEmoji star_answer]), (2, Inr [])]
     searching_picker)) = [Some [0x2B50]]"
proof -
  have "props searching_picker SearchText = VStr (js ''star'')" "props searching_picker EmojiVersion = VNull"
    "call_at 0 searching_picker = AskSearch (js ''star'')" "call_at 2 searching_picker = AskSearch (js ''sta'')"
    by (simp_all add: searching_picker_def call_at_def createState_def initial_state_def plain_props_def)
  moreover have "js ''sta'' \<noteq> js ''star''" by (simp add: js_def)
  ultimately show ?thesis
    using search_answers_fit_text [of searching_picker "js ''star''" "[(0, Inr [CleanEmoji star_answer]), (2, Inr [])]"
        "\<lambda>_. NotANumber" 16]
    by (simp add: Let_def shown_emojis_def summarizeEmojis_def summarizeEmojisForUI_def filterEmojisByVersion_def
        support_level_def star_answer_def or_str_def del: search_answers.simps)
qed

text \<open>
  A late answer for a group replaces the results of a search. The answer for a group is compared with the
  current group only: when a search was made in the meantime, the emoji of the group are shown and the
  search mode ends although the search text is still there.
\<close>

theorem late_group_answer_hides_search:
  assumes "call_at k s = AskGroup g" "same_group g s" "props s SearchMode = VBool True" "props s SearchText = VStr t"
    and "MIN_SEARCH_TEXT_LENGTH \<le> length t"
  shows "map su_id (emojis (group_answer num lv k es s)) = map su_id (shown_emojis num lv s es) \<and>
    props (group_answer num lv k es s) SearchMode = VBool False \<and>
    props (group_answer num lv k es s) SearchText = VStr t"
  using assms
  by (simp add: group_answer_def show_group_def updateSearchMode_props updateCurrentEmojis_ids)

theorem late_group_answer_hides_search_witness:
  "let s = search_answer (\<lambda>_. NotANumber) 16 0 (Inr [CleanEmoji star_answer]) searching_picker
   in props s SearchMode = VBool True \<and>
      props (group_answer (\<lambda>_. NotANumber) 16 1 [] s) SearchMode = VBool False \<and>
      props (group_answer (\<lambda>_. NotANumber) 16 1 [] s) SearchText = VStr (js ''star'')"
proof -
  let ?s = "search_answer (\<lambda>_. NotANumber) 16 0 (Inr [CleanEmoji star_answer]) searching_picker"
  have "gid (native_groups ! 0) = 0" by (simp add: native_groups_def allGroups_def)
  then have "call_at 1 ?s = AskGroup 0" "same_group 0 ?s" "props ?s SearchMode = VBool True"
    "props ?s SearchText = VStr (js ''star'')"
    by (simp_all add: search_answer_def searching_picker_def call_at_def continue_def createState_def
        updateSearchMode_def updateCurrentEmojis_def same_group_def initial_state_def strict_same_def)
  moreover have "MIN_SEARCH_TEXT_LENGTH \<le> length (js ''star'')" by (simp add: MIN_SEARCH_TEXT_LENGTH_def)
  ultimately show ?thesis
    using late_group_answer_hides_search [of 1 ?s 0 "js ''star''" "\<lambda>_. NotANumber" 16 "[]"] by (simp add: Let_def)
qed

section \<open>The keys of the search box\<close>

definition press :: "picker \<Rightarrow> jstr \<Rightarrow> picker" where
  "press s k = final_state (snd (onSearchKeydown k s))"

lemma press_down:
  assumes "props s SearchMode = VBool True" "emojis s \<noteq> []"
  shows "props (press s (js ''ArrowDown'')) =
    (props s)(ActiveSearchItem := VInt (incrementOrDecrement False (int_of (props s ActiveSearchItem)) (emojis s)))"
  using assms by (simp add: press_def onSearchKeydown_def Let_def)

lemma presses_down:
  assumes "props s SearchMode = VBool True" "emojis s \<noteq> []" "props s ActiveSearchItem = VInt (-1)"
  shows "props (foldl press s (replicate (Suc n) (js ''ArrowDown''))) =
    (props s)(ActiveSearchItem := VInt (int n mod int (length (emojis s))))"
proof (induction n)
  case 0
  then show ?case
    using assms press_down [OF assms(1,2)] by (simp add: incrementOrDecrement_def Let_def)
next
  case (Suc n)
  let ?s = "foldl press s (replicate (Suc n) (js ''ArrowDown''))" and ?l = "int (length (emojis s))"
  have IH: "props ?s = (props s)(ActiveSearchItem := VInt (int n mod ?l))" by (rule Suc.IH)
  have l: "0 < ?l" using assms(2) by simp
  have "incrementOrDecrement False (int n mod ?l) (emojis s) = (int n mod ?l + 1) mod ?l"
    using incrementOrDecrement_mod [of "int n mod ?l" "emojis s" False] l by simp
  then have "incrementOrDecrement False (int n mod ?l) (emojis s) = int (Suc n) mod ?l"
    using mod_add_left_eq [of "int n" ?l 1] by (simp add: add.commute)
  moreover have "replicate (Suc (Suc n)) (js ''ArrowDown'') = replicate (Suc n) (js ''ArrowDown'') @ [js ''ArrowDown'']"
    by (simp add: replicate_append_same)
  then have "foldl press s (replicate (Suc (Suc n)) (js ''ArrowDown'')) = press ?s (js ''ArrowDown'')"
    by (simp only: foldl_append foldl.simps)
  ultimately show ?case
    using press_down [of ?s] assms by (simp add: IH del: replicate_Suc foldl.simps)
qed

text \<open>
  The arrow key walks through the results in a circle, and Enter chooses the active one. With results
  shown and none active, the key pressed \<open>n + 1\<close> times makes the result number \<open>n\<close> active, counted
  from 0 and modulo their number; Enter then asks for that emoji.
\<close>

theorem search_keys_cycle:
  assumes "props s SearchMode = VBool True" "emojis s \<noteq> []" "props s ActiveSearchItem = VInt (-1)"
  shows "let s' = foldl press s (replicate (Suc n) (js ''ArrowDown'')); i = n mod length (emojis s)
    in props s' ActiveSearchItem = VInt (int i) \<and>
       onSearchKeydown (js ''Enter'') s' = (halt, Inr (clickEmoji (su_id (emojis s ! i)) s'))"
proof -
  let ?s = "foldl press s (replicate (Suc n) (js ''ArrowDown''))" and ?i = "n mod length (emojis s)"
  have p: "props ?s = (props s)(ActiveSearchItem := VInt (int ?i))"
    using presses_down [OF assms, of n] by (simp add: zmod_int del: replicate_Suc foldl.simps)
  have "?i < length (emojis s)" using assms(2) by simp
  then have "at_index (emojis s) (int ?i) = Some (emojis s ! ?i)" by (simp add: at_index_def)
  then show ?thesis
    using assms by (simp add: onSearchKeydown_def p Let_def del: replicate_Suc foldl.simps)
qed

definition results_picker :: picker where
  "results_picker = createState ((initial_state plain_props)(SearchMode := VBool True,
     CurrentEmojis := VEmojis [summarizeEmoji (\<lambda>_. NotANumber) (Fin 16) (CleanEmoji star_answer)]))"

theorem search_keys_cycle_witness:
  "onSearchKeydown (js ''Enter'') (foldl press results_picker [js ''ArrowDown'', js ''ArrowDown'']) =
     (halt, Inr (clickEmoji (Some [0x2B50]) (foldl press results_picker [js ''ArrowDown'', js ''ArrowDown''])))"
proof -
  have "props results_picker SearchMode = VBool True" "props results_picker ActiveSearchItem = VInt (-1)"
    and e: "emojis results_picker = [summarizeEmoji (\<lambda>_. NotANumber) (Fin 16) (CleanEmoji star_answer)]"
    by (simp_all add: results_picker_def createState_def initial_state_def)
  with search_keys_cycle [of results_picker 1] have
    "onSearchKeydown (js ''Enter'') (foldl press results_picker (replicate 2 (js ''ArrowDown''))) =
     (halt, Inr (clickEmoji (su_id (emojis results_picker ! 0)) (foldl press results_picker (replicate 2 (js ''ArrowDown'')))))"
    by (simp add: Let_def numeral_2_eq_2)
  then show ?thesis by (simp add: e star_answer_def or_str_def numeral_2_eq_2)
qed

section \<open>Categories\<close>

lemma add_to_category_names:
  "map fst (add_to_category e cs) = (if category_of e \<in> fst ` set cs then map fst cs else map fst cs @ [category_of e])"
  by (induction e cs rule: add_to_category.induct) auto

lemma by_category_snoc: "by_category (es @ [e]) = add_to_category e (by_category es)"
  by (simp add: by_category_def)

definition category_parts :: "emoji_summary list \<Rightarrow> (jstr \<times> emoji_summary list) list \<Rightarrow> bool" where
  "category_parts es cs \<longleftrightarrow> distinct (map fst cs) \<and> fst ` set cs = category_of ` set es \<and>
     (\<forall>(c, xs) \<in> set cs. xs = filter (\<lambda>e. category_of e = c) es)"

lemma add_to_category_set:
  "distinct (map fst cs) \<Longrightarrow> (c, xs) \<in> set (add_to_category e cs) \<Longrightarrow>
   c = category_of e \<and> (xs = [e] \<and> category_of e \<notin> fst ` set cs \<or> (\<exists>ys. (c, ys) \<in> set cs \<and> xs = ys @ [e])) \<or>
   c \<noteq> category_of e \<and> (c, xs) \<in> set cs"
proof (induction e cs rule: add_to_category.induct)
  case (2 e c' es cs)
  then show ?case by (cases "c' = category_of e") (auto simp: image_iff)
qed simp

lemma by_category_parts: "category_parts es (by_category es)"
proof (induction es rule: rev_induct)
  case Nil
  then show ?case by (simp add: by_category_def category_parts_def)
next
  case (snoc e es)
  let ?cs = "by_category es" and ?cs' = "add_to_category e (by_category es)"
  have d: "distinct (map fst ?cs)" and n: "fst ` set ?cs = category_of ` set es"
    and f: "\<And>c xs. (c, xs) \<in> set ?cs \<Longrightarrow> xs = filter (\<lambda>e. category_of e = c) es"
    using snoc by (auto simp: category_parts_def)
  have "distinct (map fst ?cs')" using d by (auto simp: add_to_category_names)
  moreover have "fst ` set ?cs' = category_of ` set (es @ [e])"
    using n by (metis (no_types, lifting) Un_insert_right add_to_category_names image_insert insert_absorb list.set(1) list.set_map list.simps(15) set_append sup_bot_right)
  moreover have "xs = filter (\<lambda>e. category_of e = c) (es @ [e])" if "(c, xs) \<in> set ?cs'" for c xs
  proof (cases "c = category_of e")
    case True
    have "filter (\<lambda>x. category_of x = category_of e) es = []" if "category_of e \<notin> fst ` set ?cs"
      using that n by (force simp: filter_empty_conv image_iff)
    with add_to_category_set [OF d that] f True show ?thesis by auto
  next
    case False
    with add_to_category_set [OF d that] f show ?thesis by auto
  qed
  ultimately show ?case by (auto simp: category_parts_def by_category_snoc)
qed

abbreviation by_name :: "jstr \<times> 'a \<Rightarrow> jstr \<times> 'a \<Rightarrow> int" where
  "by_name a b \<equiv> DEFAULT_CATEGORY_SORTING (fst a) (fst b)"

lemma insert_by_name:
  "insert_by by_name x xs = insort_key fst x xs"
  by (induction xs) (auto simp: DEFAULT_CATEGORY_SORTING_def)

lemma sort_by_name: "sort_by by_name xs = sort_key fst xs"
  by (induction xs) (auto simp: sort_by_def insert_by_name)

text \<open>
  The categories of the emoji. Outside the search mode, with the default sorting, the list of categories
  is that of the names that occur, in increasing order, each with its emoji in their order; in the search
  mode there is one category without a name.
\<close>

theorem categories_partition:
  "calculateCurrentEmojisWithCategories DEFAULT_CATEGORY_SORTING searchMode es =
     (if searchMode then [([], es)]
      else map (\<lambda>c. (c, filter (\<lambda>e. category_of e = c) es)) (sorted_list_of_set (category_of ` set es)))"
proof -
  let ?cs = "sort_by by_name (by_category es)"
  have p: "category_parts es (by_category es)" by (rule by_category_parts)
  then have cs: "category_parts es ?cs"
    by (auto simp: category_parts_def sort_by_name distinct_map)
  have "map fst ?cs = sorted_list_of_set (category_of ` set es)"
    using cs by (intro sorted_distinct_set_unique) (auto simp: category_parts_def sort_by_name)
  moreover have "map (\<lambda>x. (fst x, filter (\<lambda>e. category_of e = fst x) es)) ?cs = ?cs"
    using cs by (intro map_idI) (auto simp: category_parts_def)
  then have "?cs = map (\<lambda>c. (c, filter (\<lambda>e. category_of e = c) es)) (map fst ?cs)"
    by (simp add: comp_def)
  ultimately show ?thesis by (simp add: calculateCurrentEmojisWithCategories_def)
qed

section \<open>An effect that raises\<close>

text \<open>
  C36: an effect that raises takes the later ones with it. When the list of results becomes shorter than the
  position of the active result, the effect for the id of the active result (number 16) raises a
  TypeError in the microtask. The effects that were waiting behind it are not run, and they are not
  dirty any more: they run again only when something they read is written anew.
\<close>

theorem shrunk_results_lose_effects:
  assumes "dirtyObservers s = pre @ 16 # post" "\<not> rx_destroyed s"
    and "run_observers strict_same (picker_eff m) pre
           (s\<lparr>microtasks := microtasks s - 1, dirtyObservers := []\<rparr>) = Inr s1"
    and "props s1 ActiveSearchItem = VInt a" "a \<noteq> -1" "at_index (emojis s1) a = None"
  shows "\<exists>s2. flush strict_same (picker_eff m) s = Inl (TypeError, s2) \<and>
    dirtyObservers s2 = dirtyObservers s1 \<and> props s2 = props s1"
proof -
  have split: "run_observers strict_same (picker_eff m) (xs @ ys) t =
      and_then (run_observers strict_same (picker_eff m) xs t) (run_observers strict_same (picker_eff m) ys)" for xs ys t
  proof (induction xs arbitrary: t)
    case (Cons x xs)
    then show ?case by (cases "runnable strict_same (picker_eff m) x t") simp_all
  qed simp
  obtain s2 where s2: "runnable strict_same (picker_eff m) 16 s1 = Inl (TypeError, s2)"
    "dirtyObservers s2 = dirtyObservers s1" "props s2 = props s1"
    using assms(4-6) by (auto simp: runnable_def picker_eff_nth eff_activeSearchItemId_def)
  then have "run_observers strict_same (picker_eff m) (dirtyObservers s)
      (s\<lparr>microtasks := microtasks s - 1, dirtyObservers := []\<rparr>) = Inl (TypeError, s2)"
    by (simp only: assms(1,3) split and_then.simps run_observers.simps)
  then have "flush strict_same (picker_eff m) s = Inl (TypeError, flush_end s2)"
    using assms(2) by (simp add: flush_def)
  moreover have "dirtyObservers (flush_end s2) = dirtyObservers s2" "props (flush_end s2) = props s2"
    by (simp_all add: flush_end_def Let_def)
  ultimately show ?thesis using s2 by auto
qed

definition shrunk_picker :: picker where
  "shrunk_picker = (createState ((initial_state plain_props)(SearchMode := VBool True, ActiveSearchItem := VInt 3)))
     \<lparr>dirtyObservers := [16, 1], queued := True, microtasks := 1, observers := 19\<rparr>"

theorem shrunk_results_lose_effects_witness:
  "\<exists>s2. flush strict_same (picker_eff no_memo) shrunk_picker = Inl (TypeError, s2) \<and> dirtyObservers s2 = []"
proof -
  let ?s1 = "shrunk_picker\<lparr>microtasks := microtasks shrunk_picker - 1, dirtyObservers := []\<rparr>"
  have "dirtyObservers shrunk_picker = [] @ 16 # [1]" "\<not> rx_destroyed shrunk_picker"
    "run_observers strict_same (picker_eff no_memo) [] ?s1 = Inr ?s1"
    "props ?s1 ActiveSearchItem = VInt 3" "at_index (emojis ?s1) 3 = None" "dirtyObservers ?s1 = []"
    by (simp_all add: shrunk_picker_def createState_def initial_state_def at_index_def)
  with shrunk_results_lose_effects [OF this(1-4) _ this(5)] show ?thesis by auto
qed

section \<open>The groups\<close>

text \<open>
  Custom emoji shift the selected group. When custom emoji are set while a group other than the first is
  selected, the custom group is put in front but the index stays: the group before the selected one is
  shown. When the custom emoji are removed again the index is decremented, so the shift remains.
\<close>

theorem custom_emoji_shift_group:
  assumes "props s Groups = VGroups native_groups" "props s CurrentGroupIndex = VInt i" "0 < i" "i < 9" "cs \<noteq> []"
  shows "let s1 = final_state (run_prog strict_same eff_groups (put CustomEmojis (VCustom cs) s));
             s2 = final_state (run_prog strict_same eff_groups (put CustomEmojis VNull s1))
    in group_at (props s Groups) (props s CurrentGroupIndex) = VGroup (native_groups ! nat i) \<and>
       group_at (props s1 Groups) (props s1 CurrentGroupIndex) = VGroup (native_groups ! nat (i - 1)) \<and>
       group_at (props s2 Groups) (props s2 CurrentGroupIndex) = VGroup (native_groups ! nat (i - 1))"
proof -
  have ne: "native_groups \<noteq> allGroups" using length_groups by (metis numeral_eq_iff semiring_norm(89) semiring_norm(87) num.distinct(5))
  have all: "allGroups ! nat i = native_groups ! nat (i - 1)"
    using assms(3,4) by (simp add: native_groups_def nat_diff_distrib length_groups)
  have d: "props s1 Groups = VGroups allGroups \<and> props s1 CurrentGroupIndex = VInt i"
    if "s1 = final_state (run_prog strict_same eff_groups (put CustomEmojis (VCustom cs) s))" for s1
    using that assms ne by (simp add: eff_groups_def strict_same_def)
  have e: "props s2 Groups = VGroups native_groups \<and> props s2 CurrentGroupIndex = VInt (i - 1)"
    if "s2 = final_state (run_prog strict_same eff_groups (put CustomEmojis VNull s1))"
      "props s1 Groups = VGroups allGroups" "props s1 CurrentGroupIndex = VInt i" for s1 s2
    using that assms ne by (simp add: eff_groups_def strict_same_def)
  show ?thesis
    using d [OF refl] e [OF refl] assms(1-4) all
    by (simp add: Let_def group_at_def at_index_def length_groups)
qed

theorem custom_emoji_shift_group_witness:
  "let s = createState ((initial_state plain_props)(CurrentGroupIndex := VInt 3)) :: picker;
       s1 = final_state (run_prog strict_same eff_groups (put CustomEmojis (VCustom [crab]) s))
   in group_at (props s Groups) (props s CurrentGroupIndex) = VGroup (native_groups ! 3) \<and>
      group_at (props s1 Groups) (props s1 CurrentGroupIndex) = VGroup (native_groups ! 2)"
  using custom_emoji_shift_group [of "createState ((initial_state plain_props)(CurrentGroupIndex := VInt 3))" 3 "[crab]"]
  by (simp add: Let_def createState_def initial_state_def)

section \<open>Skin tones and groups stay in range\<close>

definition tone_ok :: "pprop \<Rightarrow> pval \<Rightarrow> bool" where
  "tone_ok p v =
     (case p of
        CurrentSkinTone \<Rightarrow> (case v of VInt t \<Rightarrow> 0 \<le> t \<and> t \<le> 5 | _ \<Rightarrow> False)
      | ActiveSkinTone \<Rightarrow> (case v of VInt t \<Rightarrow> 0 \<le> t \<and> t \<le> 5 | _ \<Rightarrow> False)
      | SkinTones \<Rightarrow> length (strs_of v) = NUM_SKIN_TONES
      | _ \<Rightarrow> True)"

definition groups_ok :: "(pprop \<Rightarrow> pval) \<Rightarrow> bool" where
  "groups_ok t \<longleftrightarrow> (t Groups = VGroups native_groups \<or> t Groups = VGroups allGroups) \<and>
     (\<exists>i. t CurrentGroupIndex = VInt i \<and> 0 \<le> i \<and> i < int (length (groups_of (t Groups))))"

definition in_range :: "picker \<Rightarrow> bool" where
  "in_range s \<longleftrightarrow> typed_state tone_ok s \<and> groups_ok (props s)"

text \<open>
  The user clicks buttons that are there, and the database answers a tone that it was given.
\<close>

fun admissible :: "picker \<Rightarrow> pevent \<Rightarrow> bool" where
  "admissible s (NavButton g) = (g \<in> gid ` set (groups_of (props s Groups)))"
| "admissible s (ToneAnswer k t) = (0 \<le> t \<and> t \<le> 5)"
| "admissible s (SkinOption i) = (case skin_tone_option i of Some t \<Rightarrow> t \<le> 5 | None \<Rightarrow> True)"
| "admissible s e = True"

inductive picker_move :: "host \<Rightarrow> zwj_memo \<times> picker \<Rightarrow> zwj_memo \<times> picker \<Rightarrow> bool" for h :: host where
  event: "admissible (snd ms) e \<Longrightarrow> picker_move h ms (final_state (pk_step h ms e))"

inductive_cases picker_moveE: "picker_move h ms ms'"

definition picker_start :: "zwj_memo \<times> picker \<Rightarrow> bool" where
  "picker_start ms \<longleftrightarrow> (\<exists>pp. createRoot (fst ms) pp = Inr (snd ms))"

lemma puts_ok_reads [simp]: "puts_ok ok k \<Longrightarrow> puts_ok ok (reads ps k)"
  by (induction ps) auto

lemma effects_tone_ok: "puts_ok tone_ok (picker_eff m i)"
proof (cases "i < 19")
  case True
  then show ?thesis
    unfolding less_19
    by (elim disjE; simp add: picker_eff_nth effect_defs tone_ok_def split: pval.split option.split)
qed (simp add: picker_eff_beyond)

lemma groups_effect: "groups_ok (props s) \<Longrightarrow> groups_ok (props (final_state (run_prog strict_same eff_groups s)))"
  by (auto simp: eff_groups_def groups_ok_def length_groups split: if_splits)

lemma effects_groups_ok:
  assumes "groups_ok (props s)"
  shows "groups_ok (props (final_state (run_prog strict_same (picker_eff m i) s)))"
proof (cases "i = 5")
  case True
  then show ?thesis using groups_effect [OF assms] by (simp add: picker_eff_nth)
next
  case False
  have "writes_only (\<lambda>p. p \<noteq> Groups \<and> p \<noteq> CurrentGroupIndex) (picker_eff m i)"
  proof (cases "i < 19")
    case True
    with False show ?thesis
      unfolding less_19
      by (elim disjE; simp add: picker_eff_nth effect_defs split: pval.split option.split)
  qed (simp add: picker_eff_beyond)
  from run_writes_only [OF this refl] assms show ?thesis by (simp add: groups_ok_def)
qed

lemma in_range_fields:
  "in_range (s\<lparr>currentObserver := x\<rparr>) = in_range s" "in_range (s\<lparr>calls := y\<rparr>) = in_range s"
  "in_range (s\<lparr>dirtyObservers := z\<rparr>) = in_range s" "in_range (s\<lparr>microtasks := n\<rparr>) = in_range s"
  "in_range (s\<lparr>queued := b\<rparr>) = in_range s" "in_range (s\<lparr>observers := n\<rparr>) = in_range s"
  "in_range (abort_state s) = in_range s"
  by (simp_all add: in_range_def typed_state_def abort_state_def)

lemma runnable_in_range:
  assumes "in_range s"
  shows "in_range (final_state (runnable strict_same (picker_eff m) i s))"
proof -
  let ?s = "s\<lparr>currentObserver := Some i\<rparr>"
  have "in_range (final_state (run_prog strict_same (picker_eff m i) ?s))"
    using run_puts_ok [OF effects_tone_ok, of ?s strict_same m i] effects_groups_ok [of ?s m i] assms
    by (simp add: in_range_def typed_state_def)
  then show ?thesis
    by (auto simp: runnable_def Let_def in_range_fields split: sum.split)
qed

lemma run_observers_in_range:
  "in_range s \<Longrightarrow> in_range (final_state (run_observers strict_same (picker_eff m) is s))"
proof (induction "is" arbitrary: s)
  case (Cons i "is")
  then show ?case
    using runnable_in_range [OF Cons.prems, of m i] by (cases "runnable strict_same (picker_eff m) i s") auto
qed simp

lemma flush_in_range:
  assumes "in_range s"
  shows "in_range (final_state (rx_step strict_same (picker_eff m) s Flush))"
proof -
  let ?s = "s\<lparr>microtasks := microtasks s - 1, dirtyObservers := []\<rparr>"
  have "in_range (final_state (run_observers strict_same (picker_eff m) (dirtyObservers s) ?s))"
    using assms by (intro run_observers_in_range) (simp add: in_range_fields)
  then show ?thesis
    using assms by (auto simp: flush_def flush_end_def Let_def in_range_fields split: sum.split)
qed

lemma in_range_put:
  "in_range s \<Longrightarrow> tone_ok p v \<Longrightarrow> p \<noteq> Groups \<Longrightarrow> p \<noteq> CurrentGroupIndex \<Longrightarrow> in_range (put p v s)"
  by (simp add: in_range_def typed_state_def groups_ok_def)

lemma tone_ok_other [simp]: "p \<noteq> CurrentSkinTone \<Longrightarrow> p \<noteq> ActiveSkinTone \<Longrightarrow> p \<noteq> SkinTones \<Longrightarrow> tone_ok p v"
  by (cases p) (simp_all add: tone_ok_def)

lemma tone_ok_tone: "tone_ok CurrentSkinTone (VInt t) \<longleftrightarrow> 0 \<le> t \<and> t \<le> 5" "tone_ok ActiveSkinTone (VInt t) \<longleftrightarrow> 0 \<le> t \<and> t \<le> 5"
  by (simp_all add: tone_ok_def)

lemma in_range_tones:
  assumes "in_range s"
  obtains t a where "props s CurrentSkinTone = VInt t" "0 \<le> t" "t \<le> 5" "props s ActiveSkinTone = VInt a" "0 \<le> a" "a \<le> 5"
    "length (strs_of (props s SkinTones)) = 6"
proof -
  have "tone_ok CurrentSkinTone (props s CurrentSkinTone)" "tone_ok ActiveSkinTone (props s ActiveSkinTone)"
    "tone_ok SkinTones (props s SkinTones)"
    using assms unfolding in_range_def typed_state_def by blast+
  then show ?thesis
    using that by (auto simp: tone_ok_def NUM_SKIN_TONES_def split: pval.splits)
qed

lemma in_range_calls [simp]: "in_range (call a s) = in_range s" "in_range (continue k a s) = in_range s"
  by (simp_all add: call_def continue_def in_range_fields)

lemma find_group_range: "g \<in> gid ` set gs \<Longrightarrow> 0 \<le> find_group g gs \<and> find_group g gs < int (length gs)"
proof -
  assume "g \<in> gid ` set gs"
  then have "takeWhile (\<lambda>x. gid x \<noteq> g) gs \<noteq> gs" by (auto simp: takeWhile_eq_all_conv)
  then have "length (takeWhile (\<lambda>x. gid x \<noteq> g) gs) < length gs"
    by (metis length_takeWhile_le nat_less_le take_all_iff takeWhile_eq_take)
  then show ?thesis by (simp add: find_group_def Let_def)
qed

lemma nav_in_range:
  assumes "in_range s" "g \<in> gid ` set (groups_of (props s Groups))"
  shows "in_range (snd (onNavClick g s))"
  using assms find_group_range [OF assms(2)]
  by (auto simp: onNavClick_def in_range_def typed_state_def groups_ok_def)

lemma change_tone_in_range:
  "in_range s \<Longrightarrow> 0 \<le> t \<Longrightarrow> t \<le> 5 \<Longrightarrow> in_range (snd (changeSkinTone t s))"
  by (simp add: changeSkinTone_def in_range_put tone_ok_tone)

lemma skin_keys_in_range:
  assumes "in_range s"
  shows "in_range (snd (onSkinToneOptionsKeydown k s))" "in_range (snd (onSkinToneOptionsKeyup k s))"
    "in_range (snd (onClickSkinToneButton s))"
proof -
  obtain t a where t: "props s CurrentSkinTone = VInt t" "0 \<le> t" "t \<le> 5" "props s ActiveSkinTone = VInt a" "0 \<le> a" "a \<le> 5"
    "length (strs_of (props s SkinTones)) = 6"
    by (rule in_range_tones [OF assms])
  have "0 \<le> incrementOrDecrement d a (strs_of (props s SkinTones)) \<and> incrementOrDecrement d a (strs_of (props s SkinTones)) \<le> 5" for d
    using incrementOrDecrement_range [of "strs_of (props s SkinTones)" a d] t by fastforce
  then show "in_range (snd (onSkinToneOptionsKeydown k s))"
    using assms t change_tone_in_range [of s a]
    by (auto simp: onSkinToneOptionsKeydown_def Let_def in_range_put tone_ok_tone split: prod.split)
  show "in_range (snd (onSkinToneOptionsKeyup k s))"
    using assms t change_tone_in_range [of s a] by (auto simp: onSkinToneOptionsKeyup_def split: prod.split)
  show "in_range (snd (onClickSkinToneButton s))"
    using assms t by (simp add: onClickSkinToneButton_def Let_def in_range_put tone_ok_tone)
qed

lemma option_in_range:
  assumes "in_range s" "case skin_tone_option i of Some t \<Rightarrow> t \<le> 5 | None \<Rightarrow> True"
  shows "in_range (snd (onSkinToneOptionsClick i s))"
proof -
  have "0 \<le> t" if "skin_tone_option i = Some t" for t
    using that of_nat_mono [of 48 "unat (i ! 9)", where 'a = int]
    by (auto simp: skin_tone_option_def split: if_splits)
  then show ?thesis
    using assms change_tone_in_range [of s]
    by (auto simp: onSkinToneOptionsClick_def split: option.split prod.split) (metis snd_conv)
qed

lemma pk_event_in_range:
  assumes "in_range s" "admissible s e"
  shows "in_range (final_state (pk_event h e s))"
proof -
  have s: "in_range s" by fact
  show ?thesis
  proof (cases e)
    case (NavButton g)
    then show ?thesis using nav_in_range [OF s] assms(2) by simp
  next
    case (SkinOption i)
    then show ?thesis using option_in_range [OF s] assms(2) by simp
  next
    case (ToneAnswer k t)
    then show ?thesis using assms by (simp add: tone_answer_def in_range_put tone_ok_tone split: pcall.split)
  next
    case (SkinDown k)
    then show ?thesis using skin_keys_in_range [OF s] by simp
  next
    case (SkinUp k)
    then show ?thesis using skin_keys_in_range [OF s] by simp
  next
    case SkinButton
    then show ?thesis using skin_keys_in_range [OF s] by simp
  qed (use s in \<open>simp_all add: in_range_fields in_range_put handler_defs Let_def
        split: option.split pval.split pcall.split sum.split bool.split\<close>)
qed

lemma pk_step_in_range:
  assumes "in_range (snd ms)" "admissible (snd ms) e"
  shows "in_range (snd (final_state (pk_step h ms e)))"
proof -
  have w: "snd (final_state (with_memo m r)) = final_state r" for m r
    by (simp add: with_memo_def split: sum.split)
  show ?thesis
  proof (cases e)
    case Microtask
    then show ?thesis using flush_in_range [OF assms(1), of "fst ms"] by (simp add: pk_step_def w del: rx_step.simps)
  next
    case (ZwjFrame k width baseline)
    then show ?thesis
      using assms(1) by (auto simp: pk_step_def checkZwjSupportAndUpdate_def Let_def in_range_put
          split: pcall.split sum.split bool.split)
  qed (use pk_event_in_range [OF assms, of h] in \<open>simp_all add: pk_step_def w del: pk_event.simps\<close>)
qed

lemma create_keeps:
  assumes "\<And>i. puts_ok ok (picker_eff m i)"
  shows "rx_run strict_same (picker_eff m) s (replicate n Create) = Inr s' \<Longrightarrow>
    typed_state ok s \<and> groups_ok (props s) \<Longrightarrow> typed_state ok s' \<and> groups_ok (props s')"
proof (induction n arbitrary: s)
  case (Suc n)
  then obtain s1 where r: "runnable strict_same (picker_eff m) (observers s) (s\<lparr>observers := observers s + 1\<rparr>) = Inr s1"
    and s1: "rx_run strict_same (picker_eff m) s1 (replicate n Create) = Inr s'"
    by (auto simp: and_then_Inr_iff createEffect_def)
  let ?s = "s\<lparr>observers := observers s + 1, currentObserver := Some (observers s)\<rparr>"
  have "typed_state ok s1 \<and> groups_ok (props s1)"
    using run_puts_ok [OF assms, of ?s strict_same "observers s"] effects_groups_ok [of ?s m "observers s"]
      px.runnable_run(1) [OF r] Suc.prems(2) by (simp add: typed_state_def)
  with Suc.IH [OF s1] show ?case by blast
qed simp

lemma puts_ok_mono: "puts_ok ok c \<Longrightarrow> (\<And>p v. ok p v \<Longrightarrow> ok' p v) \<Longrightarrow> puts_ok ok' c"
  by (induction c) auto

lemma createRoot_in_range:
  assumes "createRoot m pp = Inr s"
  shows "in_range s"
proof -
  let ?run = "rx_run strict_same (picker_eff m)" and ?ok = "\<lambda>p v. p = SkinTones \<or> tone_ok p v"
  have "replicate 19 Create = replicate 7 Create @ Create # replicate 11 (Create :: (pprop, pval) rx_event)"
    by (simp add: numeral_eq_Suc)
  then obtain s1 s2 where s1: "?run (createState (initial_state pp)) (replicate 7 Create) = Inr s1"
    and s2: "createEffect strict_same (picker_eff m) s1 = Inr s2" and s: "?run s2 (replicate 11 Create) = Inr s"
    using assms unfolding createRoot_def length_effects by (auto simp: rx_run_append and_then_Inr_iff)
  have "?ok p (initial_state pp p)" for p
    by (cases p) (simp_all add: initial_state_def tone_ok_tone)
  then have "typed_state ?ok (createState (initial_state pp)) \<and> groups_ok (props (createState (initial_state pp) :: picker))"
    by (simp add: createState_def typed_state_def groups_ok_def initial_state_def length_groups)
  moreover have "puts_ok ?ok (picker_eff m i)" for i
    by (rule puts_ok_mono [OF effects_tone_ok]) simp
  ultimately have t1: "typed_state ?ok s1 \<and> groups_ok (props s1)"
    using create_keeps [OF _ s1] by blast
  have "observers s1 = 7" using create_observers [OF s1] by (simp add: createState_def)
  then have r: "run_prog strict_same eff_skinTones (s1\<lparr>observers := 8, currentObserver := Some 7\<rparr>) =
      Inr (s2\<lparr>currentObserver := Some 7\<rparr>)"
    using px.runnable_run(1) [of m 7 "s1\<lparr>observers := 8\<rparr>" s2] s2 by (simp add: createEffect_def picker_eff_nth)
  then have "final_state (run_prog strict_same eff_skinTones (s1\<lparr>observers := 8, currentObserver := Some 7\<rparr>)) =
      s2\<lparr>currentObserver := Some 7\<rparr>" by simp
  then have "props s2 = props (final_state (run_prog strict_same eff_skinTones (s1\<lparr>observers := 8, currentObserver := Some 7\<rparr>)))"
    by simp
  then have "\<exists>e. props s2 = (props s1)(SkinTones := VStrs (map (applySkinTone e) [0..<NUM_SKIN_TONES]))"
    using r by (cases "props s1 SkinToneEmoji") (auto simp: eff_skinTones_def)
  then obtain e where "props s2 = (props s1)(SkinTones := VStrs (map (applySkinTone e) [0..<NUM_SKIN_TONES]))" ..
  with t1 have "typed_state tone_ok s2 \<and> groups_ok (props s2)"
    by (auto simp: typed_state_def groups_ok_def tone_ok_def)
  with create_keeps [OF effects_tone_ok s] show ?thesis by (simp add: in_range_def)
qed

interpretation pr: transition_system picker_start "picker_move h" "\<lambda>ms. in_range (snd ms)" for h
proof unfold_locales
  show "in_range (snd ms)" if "picker_start ms" for ms
    using that createRoot_in_range by (auto simp: picker_start_def)
  show "in_range (snd ms')" if "in_range (snd ms)" "picker_move h ms ms'" for ms ms'
    using that(2,1) by (cases rule: picker_move.cases) (simp add: pk_step_in_range)
qed

text \<open>
  C34: skin tones and groups stay in range. In every state that the picker can reach, also after code that
  raised, the current and the active skin tone are between 0 and 5 and there are six tones to choose from,
  so the skin tone button always has a text; and the index of the group selects one of the groups, which
  are the native ones or all.
\<close>

theorem picker_stays_in_range:
  assumes "reachable picker_start (picker_move h) (m, s)"
  shows "(\<exists>t. props s CurrentSkinTone = VInt t \<and> 0 \<le> t \<and> t \<le> 5) \<and>
    (\<exists>a. props s ActiveSkinTone = VInt a \<and> 0 \<le> a \<and> a \<le> 5) \<and>
    length (strs_of (props s SkinTones)) = 6 \<and>
    (\<exists>g. group_at (props s Groups) (props s CurrentGroupIndex) = VGroup g \<and> g \<in> set allGroups)"
proof -
  have r: "in_range s" using pr.reachable_inv [OF assms] by simp
  have "set native_groups \<subseteq> set allGroups" by (simp add: native_groups_def set_drop_subset)
  then have "\<exists>g. group_at (props s Groups) (props s CurrentGroupIndex) = VGroup g \<and> g \<in> set allGroups"
    using r by (auto simp: in_range_def groups_ok_def group_at_def at_index_def)
  with in_range_tones [OF r] show ?thesis by metis
qed

theorem picker_stays_in_range_witness:
  "\<exists>s. reachable picker_start (picker_move plain_host) (no_memo, s) \<and> length (strs_of (props s SkinTones)) = 6"
proof -
  obtain s where "createRoot no_memo plain_props = Inr s" using plain_start by blast
  then have "reachable picker_start (picker_move plain_host) (no_memo, s)"
    by (intro reachable.start) (auto simp: picker_start_def)
  with picker_stays_in_range [OF this] show ?thesis by blast
qed

end
