(* ===== verification/PickerElement.thy ===== *)
theory PickerElement
  imports PickerBehaviour
begin

text \<open>
  The custom element of libs/emoji-picker-element/picker.js: the class \<open>PickerElement\<close> with its life cycle,
  its attributes and properties, and the creation of its database. The component inside is the one of
  \<open>Picker\<close>. The element's microtasks are a queue; those of the component are events of the component, so
  they may come before or after any task of the element. A database object is named by its place in
  the list of the databases that the element has created. A component that was destroyed is kept
  in a list and has no further events. \<open>parseFloat\<close> is an argument.
\<close>

section \<open>Properties of the element\<close>

datatype element_prop =
    P_customEmoji | P_customCategorySorting | P_database | P_dataSource | P_i18n | P_locale
  | P_skinToneEmoji | P_emojiVersion

text \<open>The property of the component that has the same name; \<open>locale\<close> and \<open>dataSource\<close> have no reader there.\<close>

definition state_prop :: "element_prop \<Rightarrow> pprop option" where
  "state_prop p =
     (case p of
        P_customEmoji \<Rightarrow> Some CustomEmojis
      | P_customCategorySorting \<Rightarrow> Some CustomCategorySorting
      | P_database \<Rightarrow> Some Database
      | P_i18n \<Rightarrow> Some I18n
      | P_skinToneEmoji \<Rightarrow> Some SkinToneEmoji
      | P_emojiVersion \<Rightarrow> Some EmojiVersion
      | P_dataSource \<Rightarrow> None
      | P_locale \<Rightarrow> None)"

definition DEFAULT_DATA_SOURCE :: jstr where
  "DEFAULT_DATA_SOURCE = js ''https://cdn.jsdelivr.net/npm/emoji-picker-element-data@^1/en/emojibase/data.json''"

definition DEFAULT_LOCALE :: jstr where
  "DEFAULT_LOCALE = js ''en''"

text \<open>A database object: what its constructor keeps of its two options. A default replaces undefined.\<close>

record db_object =
  dbLocale :: pval
  dbDataSource :: pval

definition new_Database :: "pval \<Rightarrow> pval \<Rightarrow> db_object" where
  "new_Database lang source =
     \<lparr>dbLocale = (if lang = VUndef then VStr DEFAULT_LOCALE else lang),
      dbDataSource = (if source = VUndef then VStr DEFAULT_DATA_SOURCE else source)\<rparr>"

datatype element_task = DbCreate | CheckConnected

record element =
  ctx :: "element_prop \<Rightarrow> pval"
  cmp :: "picker option"
  isConnected :: bool
  tasks :: "element_task list"
  databases :: "db_object list"
  closes :: "nat list"
  retired :: "picker list"
  memo :: zwj_memo

section \<open>Operations\<close>

definition dbFlush :: "element \<Rightarrow> element" where
  "dbFlush e = e\<lparr>tasks := tasks e @ [DbCreate]\<rparr>"

definition default_prop :: "(jstr \<Rightarrow> jstr \<Rightarrow> int) \<Rightarrow> element_prop \<Rightarrow> pval" where
  "default_prop sorting p =
     (case p of
        P_locale \<Rightarrow> VStr DEFAULT_LOCALE
      | P_dataSource \<Rightarrow> VStr DEFAULT_DATA_SOURCE
      | P_skinToneEmoji \<Rightarrow> VStr DEFAULT_SKIN_TONE_EMOJI
      | P_customCategorySorting \<Rightarrow> VSorting sorting
      | P_customEmoji \<Rightarrow> VNull
      | P_i18n \<Rightarrow> VTexts enI18n
      | P_emojiVersion \<Rightarrow> VNull
      | P_database \<Rightarrow> VUndef)"

text \<open>
  The options given to the constructor, and the properties that the node had before it became an element.
\<close>

definition el_constructor ::
    "zwj_memo \<Rightarrow> (element_prop \<rightharpoonup> pval) \<Rightarrow> (element_prop \<rightharpoonup> pval) \<Rightarrow> element" where
  "el_constructor m options own =
     dbFlush \<lparr>ctx = (\<lambda>p.
         case (if p = P_database then None else own p) of
           Some v \<Rightarrow> v
         | None \<Rightarrow> (case options p of Some v \<Rightarrow> v | None \<Rightarrow> default_prop DEFAULT_CATEGORY_SORTING p)),
       cmp = None, isConnected = False, tasks = [], databases = [], closes = [], retired = [], memo = m\<rparr>"

definition el_set :: "element_prop \<Rightarrow> pval \<Rightarrow> element \<Rightarrow> element" where
  "el_set p newValue e =
     (let e1 = e\<lparr>ctx := (ctx e)(p := newValue)\<rparr>;
          e2 = (case cmp e1 of
                  None \<Rightarrow> e1
                | Some s \<Rightarrow> e1\<lparr>cmp := Some (case state_prop p of None \<Rightarrow> s | Some q \<Rightarrow> set_public q newValue s)\<rparr>)
      in if p = P_locale \<or> p = P_dataSource then dbFlush e2 else e2)"

definition fresh_database :: "element \<Rightarrow> element" where
  "fresh_database e =
     el_set P_database (VDatabase (length (databases e)))
       (e\<lparr>databases := databases e @ [new_Database (ctx e P_locale) (ctx e P_dataSource)]\<rparr>)"

definition dbCreate :: "element \<Rightarrow> element" where
  "dbCreate e =
     (case ctx e P_database of
        VDatabase n \<Rightarrow>
          if strict_same (dbLocale (databases e ! n)) (ctx e P_locale) \<and>
             strict_same (dbDataSource (databases e ! n)) (ctx e P_dataSource) then e
          else fresh_database e
      | _ \<Rightarrow> fresh_database e)"

definition public_of :: "(element_prop \<Rightarrow> pval) \<Rightarrow> public_props" where
  "public_of c = \<lparr>pp_skinToneEmoji = c P_skinToneEmoji, pp_i18n = c P_i18n, pp_database = c P_database,
     pp_customEmoji = c P_customEmoji, pp_customCategorySorting = c P_customCategorySorting,
     pp_emojiVersion = c P_emojiVersion\<rparr>"

definition connectedCallback :: "element \<Rightarrow> element outcome" where
  "connectedCallback e =
     (case cmp e of
        Some _ \<Rightarrow> Inr e
      | None \<Rightarrow> (case createRoot (memo e) (public_of (ctx e)) of
            Inl (er, _) \<Rightarrow> Inl (er, e)
          | Inr s \<Rightarrow> Inr (e\<lparr>cmp := Some s\<rparr>)))"

definition disconnectedCallback :: "element \<Rightarrow> element" where
  "disconnectedCallback e = e\<lparr>tasks := tasks e @ [CheckConnected]\<rparr>"

text \<open>The microtask of \<open>disconnectedCallback\<close>; \<open>close\<close> of no database raises.\<close>

definition check_connected :: "element \<Rightarrow> element outcome" where
  "check_connected e =
     (case cmp e of
        None \<Rightarrow> Inr e
      | Some s \<Rightarrow>
          if isConnected e then Inr e
          else let e1 = e\<lparr>cmp := None, retired := retired e @ [abort_state s]\<rparr>
               in case ctx e1 P_database of
                    VDatabase n \<Rightarrow> Inr (e1\<lparr>closes := closes e1 @ [n]\<rparr>)
                  | _ \<Rightarrow> Inl (TypeError, e1))"

text \<open>\<open>attrName.replace(/-([a-z])/g, (_, up) => up.toUpperCase())\<close>\<close>

fun camelCase :: "jstr \<Rightarrow> jstr" where
  "camelCase (a # b # s) =
     (if a = 45 \<and> 97 \<le> b \<and> b \<le> 122 then (b - 32) # camelCase s else a # camelCase (b # s))"
| "camelCase s = s"

definition observedAttributes :: "jstr list" where
  "observedAttributes = [js ''locale'', js ''data-source'', js ''skin-tone-emoji'', js ''emoji-version'']"

definition PROPS :: "(jstr \<times> element_prop) list" where
  "PROPS = [(js ''customEmoji'', P_customEmoji), (js ''customCategorySorting'', P_customCategorySorting),
     (js ''database'', P_database), (js ''dataSource'', P_dataSource), (js ''i18n'', P_i18n),
     (js ''locale'', P_locale), (js ''skinToneEmoji'', P_skinToneEmoji), (js ''emojiVersion'', P_emojiVersion)]"

text \<open>The browser calls it for the observed attributes; a removed attribute is null.\<close>

definition attributeChangedCallback ::
    "(jstr \<Rightarrow> jnum) \<Rightarrow> jstr \<Rightarrow> jstr option \<Rightarrow> element \<Rightarrow> element" where
  "attributeChangedCallback parseFloat attrName newValue e =
     (case map_of PROPS (camelCase attrName) of
        None \<Rightarrow> e
      | Some p \<Rightarrow>
          el_set p
            (if attrName = js ''emoji-version''
             then VNum (case newValue of None \<Rightarrow> NotANumber | Some w \<Rightarrow> parseFloat w)
             else case newValue of None \<Rightarrow> VNull | Some w \<Rightarrow> VStr w) e)"

definition get_prop :: "element_prop \<Rightarrow> element \<Rightarrow> pval \<times> element" where
  "get_prop p e = (let e1 = (if p = P_database then dbCreate e else e) in (ctx e1 p, e1))"

definition set_prop :: "element_prop \<Rightarrow> pval \<Rightarrow> element \<Rightarrow> element outcome" where
  "set_prop p val e = (if p = P_database then Inl (GeneralError, e) else Inr (el_set p val e))"

fun run_task :: "element_task \<Rightarrow> element \<Rightarrow> element outcome" where
  "run_task DbCreate e = Inr (dbCreate e)"
| "run_task CheckConnected e = check_connected e"

section \<open>The element as a machine\<close>

datatype el_event =
    Connect
  | Disconnect
  | Attribute jstr "jstr option"
  | ReadProp element_prop
  | WriteProp element_prop pval
  | NextTask
  | Inside pevent

text \<open>What happens inside the component: the element itself sets its properties and destroys it.\<close>

fun component_event :: "pevent \<Rightarrow> bool" where
  "component_event (SetPublic _ _) = False"
| "component_event Destroy = False"
| "component_event _ = True"

definition inside :: "host \<Rightarrow> pevent \<Rightarrow> element \<Rightarrow> element outcome" where
  "inside h ev e =
     (case cmp e of
        None \<Rightarrow> Inr e
      | Some s \<Rightarrow> (case pk_step h (memo e, s) ev of
            Inl (er, m, s1) \<Rightarrow> Inl (er, e\<lparr>memo := m, cmp := Some s1\<rparr>)
          | Inr (m, s1) \<Rightarrow> Inr (e\<lparr>memo := m, cmp := Some s1\<rparr>)))"

fun el_step :: "host \<Rightarrow> (jstr \<Rightarrow> jnum) \<Rightarrow> element \<Rightarrow> el_event \<Rightarrow> element outcome" where
  "el_step h pf e Connect = connectedCallback (e\<lparr>isConnected := True\<rparr>)"
| "el_step h pf e Disconnect = Inr (disconnectedCallback (e\<lparr>isConnected := False\<rparr>))"
| "el_step h pf e (Attribute a v) =
     Inr (if a \<in> set observedAttributes then attributeChangedCallback pf a v e else e)"
| "el_step h pf e (ReadProp p) = Inr (snd (get_prop p e))"
| "el_step h pf e (WriteProp p v) = set_prop p v e"
| "el_step h pf e NextTask =
     (case tasks e of [] \<Rightarrow> Inr e | t # ts \<Rightarrow> run_task t (e\<lparr>tasks := ts\<rparr>))"
| "el_step h pf e (Inside ev) = (if component_event ev then inside h ev e else Inr e)"

fun el_run :: "host \<Rightarrow> (jstr \<Rightarrow> jnum) \<Rightarrow> element \<Rightarrow> el_event list \<Rightarrow> element outcome" where
  "el_run h pf e [] = Inr e"
| "el_run h pf e (x # xs) = and_then (el_step h pf e x) (\<lambda>e1. el_run h pf e1 xs)"

lemma observed_props:
  "map (map_of PROPS \<circ> camelCase) observedAttributes =
     [Some P_locale, Some P_dataSource, Some P_skinToneEmoji, Some P_emojiVersion]"
  by code_simp

section \<open>The component sees the properties of the element\<close>

text \<open>No effect and no handler of the component writes a public property.\<close>

definition public_ok :: "(pprop \<Rightarrow> pval) \<Rightarrow> pprop \<Rightarrow> pval \<Rightarrow> bool" where
  "public_ok t p v \<longleftrightarrow> (p \<in> {SkinToneEmoji, I18n, Database, CustomEmojis, CustomCategorySorting, EmojiVersion} \<longrightarrow> v = t p)"

lemma effects_public: "puts_ok (public_ok t) (picker_eff m i)"
proof (cases "i < 19")
  case True
  then show ?thesis
    unfolding less_19
    by (elim disjE; simp add: picker_eff_nth effect_defs public_ok_def split: pval.split option.split)
qed (simp add: picker_eff_beyond)

lemma public_put: "typed_state (public_ok t) s \<Longrightarrow> public_ok t p v \<Longrightarrow> typed_state (public_ok t) (put p v s)"
  by (simp add: typed_state_def)

lemma public_calls [simp]:
  "typed_state ok (call a s) = typed_state ok s" "typed_state ok (continue k a s) = typed_state ok s"
  by (simp_all add: call_def continue_def typed_fields)

lemma public_ok_private [simp]:
  "p \<notin> {SkinToneEmoji, I18n, Database, CustomEmojis, CustomCategorySorting, EmojiVersion} \<Longrightarrow> public_ok t p v"
  by (auto simp: public_ok_def)

lemma pk_event_public:
  assumes "typed_state (public_ok t) s" "component_event e"
  shows "typed_state (public_ok t) (final_state (pk_event h e s))"
  using assms
  by (cases e) (simp_all add: typed_fields public_put handler_defs Let_def
        split: option.split pval.split pcall.split sum.split bool.split prod.split)

lemma pk_step_public:
  assumes "typed_state (public_ok t) s" "component_event e"
  shows "typed_state (public_ok t) (snd (final_state (pk_step h (m, s) e)))"
proof -
  have w: "snd (final_state (with_memo m r)) = final_state r" for m r
    by (simp add: with_memo_def split: sum.split)
  show ?thesis
  proof (cases e)
    case Microtask
    then show ?thesis
      using flush_keeps_ok [of "public_ok t" "picker_eff m" s strict_same] effects_public assms(1) by (simp add: pk_step_def w del: rx_step.simps)
  next
    case (ZwjFrame k width baseline)
    then show ?thesis
      using assms(1) by (auto simp: pk_step_def checkZwjSupportAndUpdate_def Let_def public_put
          split: pcall.split sum.split bool.split)
  qed (use pk_event_public [OF assms, of h] in \<open>simp_all add: pk_step_def w del: pk_event.simps\<close>)
qed

lemma createRoot_public:
  assumes "createRoot m pp = Inr s"
  shows "typed_state (public_ok (initial_state pp)) s"
  using create_keeps_ok [OF effects_public assms [unfolded createRoot_def]]
  by (simp add: createState_def typed_state_def public_ok_def)

text \<open>The database is the one of the current locale and source.\<close>

definition db_matches :: "element \<Rightarrow> bool" where
  "db_matches e \<longleftrightarrow> (\<exists>n. ctx e P_database = VDatabase n \<and> n < length (databases e) \<and>
     databases e ! n = new_Database (ctx e P_locale) (ctx e P_dataSource))"

definition has_database :: "element \<Rightarrow> bool" where
  "has_database e \<longleftrightarrow> (\<exists>n. ctx e P_database = VDatabase n \<and> n < length (databases e))"

definition el_core :: "element \<Rightarrow> bool" where
  "el_core e \<longleftrightarrow>
     (\<forall>s p q. cmp e = Some s \<longrightarrow> state_prop p = Some q \<longrightarrow> props s q = ctx e p) \<and>
     (\<forall>n. ctx e P_database = VDatabase n \<longrightarrow> n < length (databases e)) \<and>
     (\<forall>d \<in> set (databases e). dbLocale d \<noteq> VUndef \<and> dbDataSource d \<noteq> VUndef)"

definition el_inv :: "element \<Rightarrow> bool" where
  "el_inv e \<longleftrightarrow> el_core e \<and> (db_matches e \<or> DbCreate \<in> set (tasks e)) \<and>
     (has_database e \<or> (\<exists>ts. tasks e = DbCreate # ts))"

lemma matches_has: "db_matches e \<Longrightarrow> has_database e"
  by (auto simp: db_matches_def has_database_def)

lemma el_core_fields [simp]:
  "el_core (e\<lparr>tasks := ts\<rparr>) = el_core e" "el_core (e\<lparr>isConnected := b\<rparr>) = el_core e"
  "el_core (e\<lparr>closes := ns\<rparr>) = el_core e" "el_core (e\<lparr>retired := rs\<rparr>) = el_core e"
  "el_core (e\<lparr>memo := m\<rparr>) = el_core e" "db_matches (e\<lparr>tasks := ts\<rparr>) = db_matches e"
  "db_matches (e\<lparr>isConnected := b\<rparr>) = db_matches e" "has_database (e\<lparr>tasks := ts\<rparr>) = has_database e"
  "has_database (e\<lparr>isConnected := b\<rparr>) = has_database e"
  "db_matches (e\<lparr>cmp := c\<rparr>) = db_matches e" "has_database (e\<lparr>cmp := c\<rparr>) = has_database e"
  "db_matches (e\<lparr>memo := m\<rparr>) = db_matches e" "has_database (e\<lparr>memo := m\<rparr>) = has_database e"
  "db_matches (e\<lparr>closes := ns\<rparr>) = db_matches e" "has_database (e\<lparr>closes := ns\<rparr>) = has_database e"
  "db_matches (e\<lparr>retired := rs\<rparr>) = db_matches e" "has_database (e\<lparr>retired := rs\<rparr>) = has_database e"
  by (simp_all add: el_core_def db_matches_def has_database_def)

lemma el_core_None [simp]: "el_core e \<Longrightarrow> el_core (e\<lparr>cmp := None\<rparr>)"
  by (simp add: el_core_def)

lemma el_core_Some:
  "el_core e \<Longrightarrow> (\<And>p q. state_prop p = Some q \<Longrightarrow> props s q = ctx e p) \<Longrightarrow> el_core (e\<lparr>cmp := Some s\<rparr>)"
  by (simp add: el_core_def)

lemma state_prop_public:
  "state_prop p = Some q \<Longrightarrow> q \<in> {SkinToneEmoji, I18n, Database, CustomEmojis, CustomCategorySorting, EmojiVersion}"
  by (auto simp: state_prop_def split: element_prop.splits)

lemma state_prop_inj: "state_prop p = Some q \<Longrightarrow> state_prop p' = Some q \<longleftrightarrow> p' = p"
  by (cases p; cases p') (auto simp: state_prop_def)

lemma state_prop_settings [simp]: "state_prop P_locale = None" "state_prop P_dataSource = None"
  "state_prop P_database = Some Database"
  by (simp_all add: state_prop_def)

text \<open>What \<open>_set\<close> changes.\<close>

lemma el_set_fields [simp]:
  "ctx (el_set p v e) = (ctx e)(p := v)" "isConnected (el_set p v e) = isConnected e"
  "databases (el_set p v e) = databases e" "closes (el_set p v e) = closes e" "memo (el_set p v e) = memo e"
  "retired (el_set p v e) = retired e"
  "tasks (el_set p v e) = tasks e @ (if p = P_locale \<or> p = P_dataSource then [DbCreate] else [])"
  "cmp (el_set p v e) = map_option (\<lambda>s. case state_prop p of None \<Rightarrow> s | Some q \<Rightarrow> set_public q v s) (cmp e)"
  by (auto simp: el_set_def dbFlush_def Let_def split: option.split)

lemma el_set_core:
  assumes "el_core e" "\<And>n. p = P_database \<Longrightarrow> v = VDatabase n \<Longrightarrow> n < length (databases e)"
  shows "el_core (el_set p v e)"
proof -
  have "props s q = ctx (el_set p v e) p'"
    if c: "cmp (el_set p v e) = Some s" and q: "state_prop p' = Some q" for s p' q
  proof -
    obtain s0 where s0: "cmp e = Some s0" "s = (case state_prop p of None \<Rightarrow> s0 | Some r \<Rightarrow> set_public r v s0)"
      using c by auto
    then have old: "props s0 q = ctx e p'" using assms(1) q by (simp add: el_core_def)
    show ?thesis
    proof (cases "state_prop p")
      case None
      then show ?thesis using old s0 q by auto
    next
      case (Some r)
      then have "props s = (props s0)(r := v)"
        using s0 state_prop_public [OF Some] by (simp add: set_public_def)
      then show ?thesis using old q state_prop_inj [OF Some, of p'] by (cases "p' = p") (auto simp: Some)
    qed
  qed
  then show ?thesis using assms by (auto simp: el_core_def)
qed

lemma el_set_inv:
  assumes "el_inv e" "p \<noteq> P_database"
  shows "el_inv (el_set p v e)"
  using assms el_set_core [of e p v] by (auto simp: el_inv_def db_matches_def has_database_def)

lemma fresh_database_core:
  assumes "el_core e"
  shows "el_core (fresh_database e) \<and> db_matches (fresh_database e)"
proof -
  let ?e = "e\<lparr>databases := databases e @ [new_Database (ctx e P_locale) (ctx e P_dataSource)]\<rparr>"
  have "el_core ?e" using assms by (auto simp: el_core_def new_Database_def less_SucI)
  then have "el_core (fresh_database e)" unfolding fresh_database_def by (rule el_set_core) simp
  then show ?thesis by (simp add: db_matches_def) (simp add: fresh_database_def)
qed

lemma dbCreate_core:
  assumes "el_core e"
  shows "el_core (dbCreate e) \<and> db_matches (dbCreate e)"
proof (cases "dbCreate e = fresh_database e")
  case True
  with fresh_database_core [OF assms] show ?thesis by simp
next
  case False
  then obtain n where n: "dbCreate e = e" "ctx e P_database = VDatabase n"
      "dbLocale (databases e ! n) = ctx e P_locale" "dbDataSource (databases e ! n) = ctx e P_dataSource"
    by (auto simp: dbCreate_def strict_same_def split: pval.splits if_splits)
  then have l: "n < length (databases e)" using assms by (simp add: el_core_def)
  then have "databases e ! n = new_Database (ctx e P_locale) (ctx e P_dataSource)"
    using n assms by (auto simp: el_core_def new_Database_def)
  with n l assms show ?thesis by (auto simp: db_matches_def)
qed

lemma initial_public: "state_prop p = Some q \<Longrightarrow> initial_state (public_of c) q = c p"
  by (cases p) (auto simp: state_prop_def initial_state_def public_of_def)

lemma connected_inv:
  assumes "el_inv e"
  shows "el_inv (final_state (connectedCallback e))"
proof -
  have "el_inv (e\<lparr>cmp := Some s\<rparr>)" if "createRoot (memo e) (public_of (ctx e)) = Inr s" for s
  proof -
    have "props s q = ctx e p" if "state_prop p = Some q" for p q
      using createRoot_public [OF \<open>createRoot _ _ = _\<close>] state_prop_public [OF that] initial_public [OF that]
      unfolding typed_state_def public_ok_def by metis
    then have "el_core (e\<lparr>cmp := Some s\<rparr>)" using assms by (intro el_core_Some) (auto simp: el_inv_def)
    then show ?thesis using assms by (simp add: el_inv_def)
  qed
  then show ?thesis using assms by (auto simp: connectedCallback_def split: option.split sum.split)
qed

lemma inside_inv:
  assumes "el_inv e" "component_event ev"
  shows "el_inv (final_state (inside h ev e))"
proof (cases "cmp e")
  case (Some s)
  obtain m s1 where r: "final_state (pk_step h (memo e, s) ev) = (m, s1)" by fastforce
  have "typed_state (public_ok (props s)) s" by (simp add: typed_state_def public_ok_def)
  from pk_step_public [OF this assms(2), of h "memo e"] r
  have "public_ok (props s) q (props s1 q)" for q by (simp add: typed_state_def)
  then have "props s1 q = props s q" if "state_prop p = Some q" for p q
    using state_prop_public [OF that] by (simp only: public_ok_def)
  moreover have "props s q = ctx e p" if "state_prop p = Some q" for p q
    using assms(1) Some that by (simp add: el_inv_def el_core_def)
  ultimately have "el_core (e\<lparr>memo := m, cmp := Some s1\<rparr>)"
    using assms(1) by (intro el_core_Some) (auto simp: el_inv_def)
  moreover have "final_state (inside h ev e) = e\<lparr>memo := m, cmp := Some s1\<rparr>"
    using r Some by (cases "pk_step h (memo e, s) ev") (auto simp: inside_def)
  ultimately show ?thesis using assms(1) by (simp add: el_inv_def)
qed (use assms in \<open>simp add: inside_def\<close>)

lemma task_inv:
  assumes "el_inv e" "tasks e = t # ts"
  shows "el_inv (final_state (run_task t (e\<lparr>tasks := ts\<rparr>)))"
proof (cases t)
  case DbCreate
  then show ?thesis using dbCreate_core [of "e\<lparr>tasks := ts\<rparr>"] assms(1) by (auto simp: el_inv_def matches_has)
next
  case CheckConnected
  then have "el_inv (e\<lparr>tasks := ts\<rparr>)" "has_database e" using assms by (auto simp: el_inv_def)
  then show ?thesis
    unfolding CheckConnected
    by (auto simp: check_connected_def Let_def has_database_def el_inv_def split: option.split)
qed

lemma el_step_inv:
  assumes "el_inv e"
  shows "el_inv (final_state (el_step h pf e x))"
proof (cases x)
  case Connect
  then show ?thesis using connected_inv [of "e\<lparr>isConnected := True\<rparr>"] assms by (simp add: el_inv_def)
next
  case Disconnect
  then show ?thesis using assms by (auto simp: el_inv_def disconnectedCallback_def)
next
  case (Attribute a v)
  have "p \<noteq> P_database" if "a \<in> set observedAttributes" "map_of PROPS (camelCase a) = Some p" for p
    using that observed_props by (auto simp: observedAttributes_def)
  then show ?thesis
    using assms el_set_inv [OF assms] Attribute by (auto simp: attributeChangedCallback_def split: option.split)
next
  case (ReadProp p)
  then show ?thesis
    using assms dbCreate_core [of e] by (auto simp: get_prop_def Let_def el_inv_def matches_has)
next
  case (WriteProp p v)
  then show ?thesis using assms el_set_inv [OF assms] by (simp add: set_prop_def)
next
  case NextTask
  then show ?thesis using assms task_inv [OF assms] by (auto split: list.split)
next
  case (Inside ev)
  then show ?thesis using assms inside_inv by simp
qed

inductive element_move :: "host \<Rightarrow> (jstr \<Rightarrow> jnum) \<Rightarrow> element \<Rightarrow> element \<Rightarrow> bool" for h pf where
  move: "element_move h pf e (final_state (el_step h pf e x))"

definition element_start :: "element \<Rightarrow> bool" where
  "element_start e \<longleftrightarrow> (\<exists>m options own. options P_database = None \<and> e = el_constructor m options own)"

lemma constructor_start: "options P_database = None \<Longrightarrow> element_start (el_constructor m options own)"
  unfolding element_start_def by blast

lemma start_inv: "element_start e \<Longrightarrow> el_inv e"
  by (auto simp: element_start_def el_constructor_def dbFlush_def el_inv_def el_core_def default_prop_def)

interpretation el: transition_system element_start "element_move h pf" el_inv for h pf
proof unfold_locales
  show "el_inv e'" if "el_inv e" "element_move h pf e e'" for e e'
    using that(2,1) by (cases rule: element_move.cases) (simp add: el_step_inv)
qed (rule start_inv)

text \<open>
  C7: the element and its component agree. In every reachable state the component reads the values of the
  element's properties; when no task of \<open>_dbFlush\<close> is waiting, there is a database and it was made for the
  current locale and data source (undefined stands for the default); and the task that follows a
  disconnection never runs before there is a database to close, so it does not raise.
\<close>

theorem element_in_sync:
  assumes "reachable element_start (element_move h pf) e"
  shows "(\<forall>s p q. cmp e = Some s \<longrightarrow> state_prop p = Some q \<longrightarrow> props s q = ctx e p) \<and>
    (DbCreate \<notin> set (tasks e) \<longrightarrow> (\<exists>n. ctx e P_database = VDatabase n \<and> n < length (databases e) \<and>
       databases e ! n = new_Database (ctx e P_locale) (ctx e P_dataSource))) \<and>
    (\<forall>ts. tasks e = CheckConnected # ts \<longrightarrow> (\<exists>e'. el_step h pf e NextTask = Inr e'))"
proof -
  have "el_inv e" using el.reachable_inv [OF assms] .
  then show ?thesis
    by (auto simp: el_inv_def el_core_def db_matches_def has_database_def check_connected_def Let_def split: option.split)
qed

lemma el_run_append: "el_run h pf e (xs @ ys) = and_then (el_run h pf e xs) (\<lambda>e1. el_run h pf e1 ys)"
proof (induction xs arbitrary: e)
  case (Cons x xs)
  then show ?case by (cases "el_step h pf e x") simp_all
qed simp

lemma el_run_reachable:
  "reachable element_start (element_move h pf) e \<Longrightarrow> el_run h pf e xs = Inr e' \<Longrightarrow>
   reachable element_start (element_move h pf) e'"
proof (induction xs arbitrary: e)
  case (Cons x xs)
  then obtain e1 where e1: "el_step h pf e x = Inr e1" "el_run h pf e1 xs = Inr e'"
    by (auto simp: and_then_Inr_iff)
  have "element_move h pf e (final_state (el_step h pf e x))" by (rule element_move.move)
  then show ?case using Cons.IH [OF reachable.move [OF Cons.prems(1)] e1(2)] e1(1) by simp
qed simp

section \<open>One database for many changes\<close>

fun setting_event :: "el_event \<Rightarrow> bool" where
  "setting_event (WriteProp p _) = (p \<noteq> P_database)"
| "setting_event (Attribute _ _) = True"
| "setting_event _ = False"

lemma dbCreate_tasks: "dbCreate (e\<lparr>tasks := ts\<rparr>) = (dbCreate e)\<lparr>tasks := ts\<rparr>"
  by (simp add: dbCreate_def fresh_database_def el_set_def Let_def split: pval.split option.split)

lemma dbCreate_fields [simp]: "tasks (dbCreate e) = tasks e" "ctx (dbCreate e) P_locale = ctx e P_locale"
  "ctx (dbCreate e) P_dataSource = ctx e P_dataSource"
  by (auto simp: dbCreate_def fresh_database_def split: pval.split)

lemma same_database:
  "strict_same (dbLocale x) (VStr l) \<and> strict_same (dbDataSource x) (VStr d) \<longleftrightarrow> new_Database (VStr l) (VStr d) = x"
  by (cases x) (auto simp: strict_same_def new_Database_def)

lemma dbCreate_again:
  assumes "ctx e P_locale = VStr l" "ctx e P_dataSource = VStr d"
  shows "dbCreate (dbCreate e) = dbCreate e"
proof (cases "dbCreate e = fresh_database e")
  case True
  have "dbCreate (fresh_database e) = fresh_database e"
    using assms by (simp add: dbCreate_def fresh_database_def new_Database_def strict_same_def)
  with True show ?thesis by simp
next
  case False
  then have "dbCreate e = e" by (auto simp: dbCreate_def split: pval.splits if_splits)
  then show ?thesis by simp
qed

lemma drain_DbCreate:
  "ctx e P_locale = VStr l \<Longrightarrow> ctx e P_dataSource = VStr d \<Longrightarrow> tasks e = replicate k DbCreate \<Longrightarrow> k \<le> n \<Longrightarrow>
   el_run h pf e (replicate n NextTask) = Inr (if k = 0 then e else dbCreate (e\<lparr>tasks := []\<rparr>))"
proof (induction n arbitrary: e k)
  case (Suc n)
  show ?case
  proof (cases k)
    case 0
    then show ?thesis using Suc.IH [of e 0] Suc.prems by simp
  next
    case (Suc j)
    let ?e = "(dbCreate e)\<lparr>tasks := replicate j DbCreate\<rparr>"
    have "el_run h pf ?e (replicate n NextTask) = Inr (if j = 0 then ?e else dbCreate (?e\<lparr>tasks := []\<rparr>))"
      using Suc.IH [of ?e j] Suc.prems Suc by simp
    also have "\<dots> = Inr (dbCreate (e\<lparr>tasks := []\<rparr>))"
      using dbCreate_again [OF Suc.prems(1,2)] by (simp add: dbCreate_tasks)
    finally show ?thesis using Suc.prems Suc by (simp add: dbCreate_tasks)
  qed
qed simp

lemma setting_step:
  assumes "setting_event x" "el_step h pf e x = Inr e1"
  shows "\<exists>p v. e1 = e \<or> (p \<noteq> P_database \<and> e1 = el_set p v e)"
proof (cases x)
  case (Attribute a v)
  have "p \<noteq> P_database" if "a \<in> set observedAttributes" "map_of PROPS (camelCase a) = Some p" for p
    using that observed_props by (auto simp: observedAttributes_def)
  then show ?thesis using assms Attribute by (auto simp: attributeChangedCallback_def split: if_splits option.splits)
qed (use assms in \<open>auto simp: set_prop_def split: if_splits\<close>)

lemma settings_run:
  "list_all setting_event xs \<Longrightarrow> el_run h pf e xs = Inr e1 \<Longrightarrow> tasks e = replicate j DbCreate \<Longrightarrow>
   \<exists>k \<le> length xs. tasks e1 = replicate (j + k) DbCreate \<and> databases e1 = databases e \<and>
     ctx e1 P_database = ctx e P_database \<and>
     (k = 0 \<longrightarrow> ctx e1 P_locale = ctx e P_locale \<and> ctx e1 P_dataSource = ctx e P_dataSource)"
proof (induction xs arbitrary: e j)
  case (Cons x xs)
  then obtain e0 where e0: "el_step h pf e x = Inr e0" "el_run h pf e0 xs = Inr e1"
    by (auto simp: and_then_Inr_iff)
  obtain p v where pv: "e0 = e \<or> (p \<noteq> P_database \<and> e0 = el_set p v e)"
    using setting_step [OF _ e0(1)] Cons.prems(1) by auto
  show ?case
  proof (cases "e0 \<noteq> e \<and> (p = P_locale \<or> p = P_dataSource)")
    case True
    then have "tasks e0 = replicate (Suc j) DbCreate"
      using pv Cons.prems(3) by (auto simp: replicate_append_same)
    from Cons.IH [OF _ e0(2) this] Cons.prems(1) obtain k where
      "k \<le> length xs" "tasks e1 = replicate (Suc j + k) DbCreate" "databases e1 = databases e0"
      "ctx e1 P_database = ctx e0 P_database" by auto
    then show ?thesis using pv True by (intro exI [of _ "Suc k"]) auto
  next
    case False
    then have "tasks e0 = replicate j DbCreate" using pv Cons.prems(3) by auto
    from Cons.IH [OF _ e0(2) this] Cons.prems(1) obtain k where
      "k \<le> length xs" "tasks e1 = replicate (j + k) DbCreate" "databases e1 = databases e0"
      "ctx e1 P_database = ctx e0 P_database"
      "k = 0 \<longrightarrow> ctx e1 P_locale = ctx e0 P_locale \<and> ctx e1 P_dataSource = ctx e0 P_dataSource" by auto
    then show ?thesis using pv False by (intro exI [of _ k]) auto
  qed
qed simp

text \<open>
  C8: one database for many changes. However many properties and attributes are set in one turn, the tasks
  that follow create one database when the locale or the data source has become another, and none
  otherwise; afterwards the database is the one of the new settings.
\<close>

theorem one_database_per_turn:
  assumes "reachable element_start (element_move h pf) e" "tasks e = []"
    and "list_all setting_event xs" "el_run h pf e xs = Inr e1"
    and "ctx e1 P_locale = VStr l" "ctx e1 P_dataSource = VStr d" "length xs \<le> n"
  shows "\<exists>e2. el_run h pf e1 (replicate n NextTask) = Inr e2 \<and> tasks e2 = [] \<and> db_matches e2 \<and>
    databases e2 = databases e @
      (if new_Database (VStr l) (VStr d) = new_Database (ctx e P_locale) (ctx e P_dataSource) then []
       else [new_Database (VStr l) (VStr d)])"
proof -
  obtain k where k: "k \<le> length xs" "tasks e1 = replicate k DbCreate" "databases e1 = databases e"
    "ctx e1 P_database = ctx e P_database"
    "k = 0 \<Longrightarrow> ctx e1 P_locale = ctx e P_locale \<and> ctx e1 P_dataSource = ctx e P_dataSource"
    using settings_run [OF assms(3,4), of 0] assms(2) by auto
  obtain m where m: "ctx e P_database = VDatabase m" "m < length (databases e)"
    "databases e ! m = new_Database (ctx e P_locale) (ctx e P_dataSource)"
    using el.reachable_inv [OF assms(1)] assms(2) by (auto simp: el_inv_def db_matches_def)
  have "el_core e1" using el.reachable_inv [OF el_run_reachable [OF assms(1,4)]] by (simp add: el_inv_def)
  then have match: "db_matches (dbCreate (e1\<lparr>tasks := []\<rparr>))" using dbCreate_core by simp
  have run: "el_run h pf e1 (replicate n NextTask) = Inr (if k = 0 then e1 else dbCreate (e1\<lparr>tasks := []\<rparr>))"
    using drain_DbCreate [OF assms(5,6) k(2)] k(1) assms(7) by simp
  show ?thesis
  proof (cases "k = 0")
    case True
    then have "db_matches e1" using k m by (simp add: db_matches_def)
    with True k run assms(5,6) show ?thesis by simp
  next
    case False
    have "databases (dbCreate e1) = databases e @
      (if new_Database (VStr l) (VStr d) = new_Database (ctx e P_locale) (ctx e P_dataSource) then []
       else [new_Database (VStr l) (VStr d)])"
      using m k assms(5,6) by (simp add: dbCreate_def same_database) (simp add: fresh_database_def)
    with False run match show ?thesis by (simp add: dbCreate_tasks)
  qed
qed

definition first_element :: element where
  "first_element = dbCreate ((el_constructor no_memo Map.empty Map.empty)\<lparr>tasks := []\<rparr>)"

lemma first_element_fields:
  "tasks first_element = []" "ctx first_element P_locale = VStr DEFAULT_LOCALE" "cmp first_element = None"
  "ctx first_element P_dataSource = VStr DEFAULT_DATA_SOURCE" "ctx first_element P_database = VDatabase 0"
  "databases first_element = [new_Database (VStr DEFAULT_LOCALE) (VStr DEFAULT_DATA_SOURCE)]"
  by (simp_all add: first_element_def el_constructor_def dbFlush_def dbCreate_def default_prop_def fresh_database_def)

lemma first_element_reachable: "reachable element_start (element_move h pf) first_element"
proof -
  let ?e = "el_constructor no_memo Map.empty Map.empty"
  have "reachable element_start (element_move h pf) ?e"
    by (intro reachable.start constructor_start) simp
  moreover have "element_move h pf ?e (final_state (el_step h pf ?e NextTask))" by (rule element_move.move)
  moreover have "final_state (el_step h pf ?e NextTask) = first_element"
    by (simp add: first_element_def el_constructor_def dbFlush_def)
  ultimately show ?thesis using reachable.move by metis
qed

theorem element_in_sync_witness:
  "\<exists>e n. reachable element_start (element_move plain_host (\<lambda>_. NotANumber)) e \<and> ctx e P_database = VDatabase n \<and>
     databases e ! n = new_Database (ctx e P_locale) (ctx e P_dataSource)"
  using element_in_sync [OF first_element_reachable [of plain_host "\<lambda>_. NotANumber"]] first_element_reachable
  by (simp add: first_element_fields(1)) blast

theorem one_database_per_turn_witness:
  "\<exists>e1 e2. el_run plain_host (\<lambda>_. NotANumber) first_element
       [WriteProp P_locale (VStr (js ''de'')), WriteProp P_dataSource (VStr (js ''de.json''))] = Inr e1 \<and>
     el_run plain_host (\<lambda>_. NotANumber) e1 (replicate 2 NextTask) = Inr e2 \<and> length (databases e2) \<le> 2"
proof -
  let ?xs = "[WriteProp P_locale (VStr (js ''de'')), WriteProp P_dataSource (VStr (js ''de.json''))]"
  obtain e1 where e1: "el_run plain_host (\<lambda>_. NotANumber) first_element ?xs = Inr e1"
      "ctx e1 P_locale = VStr (js ''de'')" "ctx e1 P_dataSource = VStr (js ''de.json'')"
    by (auto simp: set_prop_def)
  from one_database_per_turn [OF first_element_reachable first_element_fields(1) _ e1, of 2]
  show ?thesis using e1(1) by (auto simp: first_element_fields split: if_splits)
qed

text \<open>
  An undefined locale makes a database at every turn. The constructor of the database replaces undefined by
  the default, so the comparison of \<open>_dbCreate\<close> never holds: every read of the property \<open>database\<close> creates
  another database, and the component moves to it.
\<close>

theorem undefined_locale_recreates:
  assumes "reachable element_start (element_move h pf) e" "ctx e P_locale = VUndef"
  shows "\<exists>e'. el_run h pf e (replicate n (ReadProp P_database)) = Inr e' \<and>
    length (databases e') = length (databases e) + n"
  using assms
proof (induction n arbitrary: e)
  case (Suc n)
  have i: "el_inv e" using el.reachable_inv [OF Suc.prems(1)] .
  have f: "dbCreate e = fresh_database e"
    using i Suc.prems(2) by (auto simp: dbCreate_def strict_same_def el_inv_def el_core_def split: pval.split)
  have r: "el_step h pf e (ReadProp P_database) = Inr (fresh_database e)" by (simp add: get_prop_def Let_def f)
  have "element_move h pf e (final_state (el_step h pf e (ReadProp P_database)))" by (rule element_move.move)
  then have "reachable element_start (element_move h pf) (fresh_database e)"
    using reachable.move [OF Suc.prems(1)] r by simp
  from Suc.IH [OF this] obtain e' where
    "el_run h pf (fresh_database e) (replicate n (ReadProp P_database)) = Inr e'"
    "length (databases e') = length (databases (fresh_database e)) + n"
    using Suc.prems(2) by (auto simp: fresh_database_def)
  then show ?case using r by (simp add: fresh_database_def)
qed simp

theorem undefined_locale_recreates_witness:
  "\<exists>e e'. e = el_constructor no_memo [P_locale \<mapsto> VUndef] Map.empty \<and>
     el_run plain_host (\<lambda>_. NotANumber) e (replicate 3 (ReadProp P_database)) = Inr e' \<and> length (databases e') = 3"
proof -
  let ?e = "el_constructor no_memo [P_locale \<mapsto> VUndef] Map.empty"
  have "reachable element_start (element_move plain_host (\<lambda>_. NotANumber)) ?e"
    by (intro reachable.start constructor_start) simp
  moreover have "ctx ?e P_locale = VUndef" "databases ?e = []" by (simp_all add: el_constructor_def dbFlush_def)
  ultimately show ?thesis using undefined_locale_recreates [of plain_host "\<lambda>_. NotANumber" ?e 3] by auto
qed

section \<open>Moves of the element\<close>

definition connected_after :: "bool \<Rightarrow> el_event list \<Rightarrow> bool" where
  "connected_after b cs = foldl (\<lambda>_ c. c = Connect) b cs"

lemma moves_run:
  assumes "cmp e = Some s"
  shows "set cs \<subseteq> {Connect, Disconnect} \<Longrightarrow>
    el_run h pf (e\<lparr>isConnected := b, tasks := ts\<rparr>) cs =
      Inr (e\<lparr>isConnected := connected_after b cs,
            tasks := ts @ replicate (count_list cs Disconnect) CheckConnected\<rparr>)"
proof (induction cs arbitrary: b ts)
  case (Cons c cs)
  have swap: "e\<lparr>tasks := ts, isConnected := True\<rparr> = e\<lparr>isConnected := True, tasks := ts\<rparr>" by simp
  show ?case
    using Cons assms by (auto simp: connected_after_def connectedCallback_def disconnectedCallback_def swap)
qed (simp add: connected_after_def)

lemma drain_connected:
  "isConnected e \<Longrightarrow> tasks e = replicate k CheckConnected \<Longrightarrow> k \<le> n \<Longrightarrow>
   el_run h pf e (replicate n NextTask) = Inr (e\<lparr>tasks := []\<rparr>)"
proof (induction n arbitrary: e k)
  case (Suc n)
  then show ?case
  proof (cases k)
    case (Suc j)
    have "el_run h pf (e\<lparr>tasks := replicate j CheckConnected\<rparr>) (replicate n NextTask) = Inr (e\<lparr>tasks := []\<rparr>)"
      using Suc.IH [of "e\<lparr>tasks := replicate j CheckConnected\<rparr>" j] Suc.prems Suc by simp
    then show ?thesis using Suc.prems Suc by (simp add: check_connected_def split: option.split)
  qed auto
qed simp

lemma drain_gone:
  "cmp e = None \<Longrightarrow> tasks e = replicate k CheckConnected \<Longrightarrow> k \<le> n \<Longrightarrow>
   el_run h pf e (replicate n NextTask) = Inr (e\<lparr>tasks := []\<rparr>)"
proof (induction n arbitrary: e k)
  case (Suc n)
  then show ?case
  proof (cases k)
    case (Suc j)
    have "el_run h pf (e\<lparr>tasks := replicate j CheckConnected\<rparr>) (replicate n NextTask) = Inr (e\<lparr>tasks := []\<rparr>)"
      using Suc.IH [of "e\<lparr>tasks := replicate j CheckConnected\<rparr>" j] Suc.prems Suc by simp
    then show ?thesis using Suc.prems Suc by (simp add: check_connected_def)
  qed auto
qed simp

text \<open>
  C9: moves of the element. Whatever connections and disconnections happen in one turn, only the last one
  counts: an element that ends up connected keeps its component untouched and closes nothing; one that ends
  up disconnected destroys its component and closes its database once.
\<close>

theorem moves_keep_component:
  assumes "reachable element_start (element_move h pf) e" "tasks e = []" "cmp e = Some s"
    and "set cs \<subseteq> {Connect, Disconnect}" "cs \<noteq> []" "length cs \<le> n"
  shows "\<exists>k. ctx e P_database = VDatabase k \<and>
    el_run h pf e (cs @ replicate n NextTask) =
      Inr (if last cs = Connect then e\<lparr>isConnected := True\<rparr>
           else e\<lparr>isConnected := False, cmp := None, retired := retired e @ [abort_state s], closes := closes e @ [k]\<rparr>)"
proof -
  obtain k where k: "ctx e P_database = VDatabase k"
    using el.reachable_inv [OF assms(1)] assms(2) by (auto simp: el_inv_def has_database_def)
  have last: "connected_after b cs = (last cs = Connect)" for b
    using \<open>cs \<noteq> []\<close> by (induction cs rule: rev_induct) (auto simp: connected_after_def)
  let ?c = "count_list cs Disconnect"
  let ?e = "e\<lparr>isConnected := (last cs = Connect), tasks := replicate ?c CheckConnected\<rparr>"
  have "e\<lparr>isConnected := isConnected e, tasks := []\<rparr> = e" using assms(2) by (cases e) simp
  then have run: "el_run h pf e cs = Inr ?e"
    using moves_run [OF assms(3,4), where b = "isConnected e" and ts = "[]" and h = h and pf = pf] last by simp
  have c: "?c \<le> n" using assms(6) count_le_length [of cs Disconnect] by linarith
  show ?thesis
  proof (cases "last cs = Connect")
    case True
    have "el_run h pf ?e (replicate n NextTask) = Inr (?e\<lparr>tasks := []\<rparr>)"
      using True c by (intro drain_connected) auto
    with True k run assms(2) show ?thesis by (simp add: el_run_append)
  next
    case False
    then have "last cs = Disconnect" using assms(4,5) last_in_set [of cs] by blast
    then have "Disconnect \<in> set cs" using last_in_set [OF assms(5)] by simp
    then obtain j where j: "?c = Suc j" by (metis count_list_0_iff not0_implies_Suc)
    then obtain i where i: "n = Suc i" using c by (cases n) auto
    let ?g = "e\<lparr>isConnected := False, tasks := replicate j CheckConnected, cmp := None,
      retired := retired e @ [abort_state s], closes := closes e @ [k]\<rparr>"
    have "el_run h pf ?g (replicate i NextTask) = Inr (?g\<lparr>tasks := []\<rparr>)"
      using c i j by (intro drain_gone) auto
    then have "el_run h pf ?e (replicate n NextTask) = Inr (?g\<lparr>tasks := []\<rparr>)"
      using False i j assms(3) k by (simp add: check_connected_def Let_def)
    with False k run assms(2) show ?thesis by (simp add: el_run_append)
  qed
qed

theorem moves_keep_component_witness:
  "\<exists>e s. cmp e = Some s \<and> isConnected e \<and>
     el_run plain_host (\<lambda>_. NotANumber) e ([Disconnect, Connect, Disconnect, Connect] @ replicate 4 NextTask) = Inr e"
proof -
  let ?pf = "\<lambda>_. NotANumber"
  obtain s where s: "createRoot (memo first_element) (public_of (ctx first_element)) = Inr s"
    using createRoot_starts [of "public_of (ctx first_element)" enI18n DEFAULT_SKIN_TONE_EMOJI DEFAULT_CATEGORY_SORTING]
    by (auto simp: public_of_def first_element_def el_constructor_def dbFlush_def dbCreate_def default_prop_def
        fresh_database_def)
  let ?e = "first_element\<lparr>isConnected := True, cmp := Some s\<rparr>"
  have "el_run plain_host ?pf first_element [Connect] = Inr ?e"
    using s first_element_fields(3) by (simp add: connectedCallback_def)
  from el_run_reachable [OF first_element_reachable this]
  have r: "reachable element_start (element_move plain_host ?pf) ?e" .
  have "el_run plain_host ?pf ?e ([Disconnect, Connect, Disconnect, Connect] @ replicate 4 NextTask) =
      Inr (?e\<lparr>isConnected := True\<rparr>)"
    using moves_keep_component [OF r, of s "[Disconnect, Connect, Disconnect, Connect]" 4]
    by (simp add: first_element_fields del: el_run.simps)
  then show ?thesis by (intro exI [of _ ?e] exI [of _ s]) (simp del: el_run.simps)
qed

end
