(* ===== verification/PickerParse.thy ===== *)
theory PickerParse
  imports Prelude
begin

text \<open>
  The templates of the emoji picker and their parser: \<open>parse\<close> of libs/emoji-picker-element/picker.js and the
  five templates that \<open>render\<close> writes. A tagged template comes as the list of the texts between its
  expressions; the parser joins them and notes for each expression the element and the attribute it stands
  in. The reference is a tree with holes and its printer. The templates written as
  such trees print to the texts of the code.
\<close>

section \<open>Templates\<close>

record tbinding =
  attributeName :: "jstr option"
  attributeValuePre :: "jstr option"
  attributeValuePost :: "jstr option"
  expressionIndex :: nat

text \<open>The bindings of each element, elements in the order of their first binding; the key is undefined outside every element.\<close>

type_synonym element_bindings = "(nat option \<times> tbinding list) list"

record scan =
  withinTag :: bool
  withinAttribute :: bool
  elementIndexCounter :: nat
  elementIndexes :: "nat list"

text \<open>\<open>elementIndexCounter\<close> is one more than in the code, which starts at -1.\<close>

definition scan_start :: scan where
  "scan_start = \<lparr>withinTag = False, withinAttribute = False, elementIndexCounter = 0, elementIndexes = []\<rparr>"

definition scan_char :: "unit16 \<Rightarrow> jstr \<Rightarrow> scan \<Rightarrow> scan" where
  "scan_char c rest st =
     (if c = 60 then
        (if rest \<noteq> [] \<and> hd rest = 47 then st\<lparr>elementIndexes := butlast (elementIndexes st)\<rparr>
         else st\<lparr>withinTag := True, elementIndexes := elementIndexes st @ [elementIndexCounter st],
               elementIndexCounter := elementIndexCounter st + 1\<rparr>)
      else if c = 62 then st\<lparr>withinTag := False, withinAttribute := False\<rparr>
      else if c = 61 then st\<lparr>withinAttribute := True\<rparr>
      else st)"

fun scan_chars :: "jstr \<Rightarrow> scan \<Rightarrow> scan" where
  "scan_chars [] st = st"
| "scan_chars (c # cs) st = scan_chars cs (scan_char c cs st)"

text \<open>\<open>/(\S+)="?([^"=]*)$/.exec(token)\<close>: the groups hang on the last \<open>=\<close> of the token.\<close>

definition attr_match :: "jstr \<Rightarrow> (jstr \<times> jstr) option" where
  "attr_match token =
     (let r = dropWhile (\<lambda>c. c \<noteq> 61) (rev token);
          tail = rev (takeWhile (\<lambda>c. c \<noteq> 61) (rev token));
          val = (if tail \<noteq> [] \<and> hd tail = 34 then tl tail else tail);
          name = rev (takeWhile (\<lambda>c. \<not> is_trim_space c) (tl r))
      in if r = [] \<or> name = [] \<or> 34 \<in> set val then None else Some (name, val))"

text \<open>\<open>/^[^">]*/.exec(token)\<close>\<close>

definition attr_post :: "jstr \<Rightarrow> jstr" where
  "attr_post token = takeWhile (\<lambda>c. c \<noteq> 34 \<and> c \<noteq> 62) token"

definition add_binding :: "nat option \<Rightarrow> tbinding \<Rightarrow> element_bindings \<Rightarrow> element_bindings" where
  "add_binding k b m =
     (if k \<in> fst ` set m then map (\<lambda>(k', bs). (k', if k' = k then bs @ [b] else bs)) m else m @ [(k, [b])])"

definition elementIndex :: "scan \<Rightarrow> nat option" where
  "elementIndex st = (if elementIndexes st = [] then None else Some (last (elementIndexes st)))"

fun parse_tokens ::
    "nat \<Rightarrow> jstr list \<Rightarrow> scan \<Rightarrow> jstr \<Rightarrow> element_bindings \<Rightarrow> js_error + jstr \<times> element_bindings" where
  "parse_tokens i [] st html m = Inr (html, m)"
| "parse_tokens i [t] st html m = Inr (html @ t, m)"
| "parse_tokens i (t # t' # ts) st html m =
     (let st1 = scan_chars t st;
          html1 = html @ t @ (if \<not> withinTag st1 \<and> \<not> withinAttribute st1 then [32] else [])
      in if withinAttribute st1 then
           (case attr_match t of
              None \<Rightarrow> Inl TypeError
            | Some (name, pre) \<Rightarrow>
                parse_tokens (i + 1) (t' # ts) st1 html1
                  (add_binding (elementIndex st1)
                     \<lparr>attributeName = Some name, attributeValuePre = Some pre,
                      attributeValuePost = Some (attr_post t'), expressionIndex = i\<rparr> m))
         else
           parse_tokens (i + 1) (t' # ts) st1 html1
             (add_binding (elementIndex st1)
                \<lparr>attributeName = None, attributeValuePre = None, attributeValuePost = None,
                 expressionIndex = i\<rparr> m))"

definition template_parse :: "jstr list \<Rightarrow> js_error + jstr \<times> element_bindings" where
  "template_parse tokens = parse_tokens 0 tokens scan_start [] []"

section \<open>Printing a template\<close>

text \<open>
  The reference: a template as a tree. An attribute is static or has a hole between two texts; an
  element has a hole as its content, or nodes; a void element has neither content nor an end tag.
\<close>

datatype tattr = Static jstr jstr | Hole jstr jstr jstr

datatype ttree = TElem jstr "tattr list" tbody | TVoid jstr "tattr list" | TStr jstr
and tbody = THole | TNodes "ttree list"

datatype piece = Chr unit16 | Gap

definition chrs :: "jstr \<Rightarrow> piece list" where
  "chrs s = map Chr s"

fun print_attr :: "tattr \<Rightarrow> piece list" where
  "print_attr (Static n v) = chrs ([32] @ n @ [61, 34] @ v @ [34])"
| "print_attr (Hole n pre post) = chrs ([32] @ n @ [61, 34] @ pre) @ [Gap] @ chrs (post @ [34])"

fun print_tree :: "ttree \<Rightarrow> piece list" and print_body :: "tbody \<Rightarrow> piece list" and print_trees :: "ttree list \<Rightarrow> piece list" where
  "print_tree (TElem tg as b) =
     chrs ([60] @ tg) @ concat (map print_attr as) @ chrs [62] @ print_body b @ chrs ([60, 47] @ tg @ [62])"
| "print_tree (TVoid tg as) = chrs ([60] @ tg) @ concat (map print_attr as) @ chrs [62]"
| "print_tree (TStr s) = chrs s"
| "print_body THole = [Gap]"
| "print_body (TNodes ts) = print_trees ts"
| "print_trees [] = []"
| "print_trees (t # ts) = print_tree t @ print_trees ts"

fun split_gaps :: "piece list \<Rightarrow> jstr list" where
  "split_gaps [] = [[]]"
| "split_gaps (Gap # ps) = [] # split_gaps ps"
| "split_gaps (Chr c # ps) = (c # hd (split_gaps ps)) # tl (split_gaps ps)"

definition tokens_of :: "ttree \<Rightarrow> jstr list" where
  "tokens_of t = split_gaps (print_tree t)"

text \<open>The markup with nothing in the holes of attributes and a blank in the others.\<close>

fun flat_attr :: "tattr \<Rightarrow> jstr" where
  "flat_attr (Static n v) = [32] @ n @ [61, 34] @ v @ [34]"
| "flat_attr (Hole n pre post) = [32] @ n @ [61, 34] @ pre @ post @ [34]"

fun flat_tree :: "ttree \<Rightarrow> jstr" and flat_body :: "tbody \<Rightarrow> jstr" and flat_trees :: "ttree list \<Rightarrow> jstr" where
  "flat_tree (TElem tg as b) =
     [60] @ tg @ concat (map flat_attr as) @ [62] @ flat_body b @ [60, 47] @ tg @ [62]"
| "flat_tree (TVoid tg as) = [60] @ tg @ concat (map flat_attr as) @ [62]"
| "flat_tree (TStr s) = s"
| "flat_body THole = [32]"
| "flat_body (TNodes ts) = flat_trees ts"
| "flat_trees [] = []"
| "flat_trees (t # ts) = flat_tree t @ flat_trees ts"

text \<open>The holes in their order, each with the number of its element; elements are counted in document order.\<close>

type_synonym hole = "nat \<times> (jstr \<times> jstr \<times> jstr) option"

fun attr_holes :: "nat \<Rightarrow> tattr list \<Rightarrow> hole list" where
  "attr_holes k [] = []"
| "attr_holes k (Static n v # as) = attr_holes k as"
| "attr_holes k (Hole n pre post # as) = (k, Some (n, pre, post)) # attr_holes k as"

fun elems :: "ttree \<Rightarrow> nat" and elems_body :: "tbody \<Rightarrow> nat" and elems_list :: "ttree list \<Rightarrow> nat" where
  "elems (TElem tg as b) = Suc (elems_body b)"
| "elems (TVoid tg as) = 1"
| "elems (TStr s) = 0"
| "elems_body THole = 0"
| "elems_body (TNodes ts) = elems_list ts"
| "elems_list [] = 0"
| "elems_list (t # ts) = elems t + elems_list ts"

fun holes :: "nat \<Rightarrow> ttree \<Rightarrow> hole list" and holes_body :: "nat \<Rightarrow> tbody \<Rightarrow> hole list"
  and holes_list :: "nat \<Rightarrow> ttree list \<Rightarrow> hole list" where
  "holes k (TElem tg as b) = attr_holes k as @ (case b of THole \<Rightarrow> [(k, None)] | TNodes _ \<Rightarrow> holes_body (Suc k) b)"
| "holes k (TVoid tg as) = attr_holes k as"
| "holes k (TStr s) = []"
| "holes_body k THole = []"
| "holes_body k (TNodes ts) = holes_list k ts"
| "holes_list k [] = []"
| "holes_list k (t # ts) = holes k t @ holes_list (k + elems t) ts"

fun hole_binding :: "nat \<Rightarrow> (jstr \<times> jstr \<times> jstr) option \<Rightarrow> tbinding" where
  "hole_binding i None = \<lparr>attributeName = None, attributeValuePre = None, attributeValuePost = None, expressionIndex = i\<rparr>"
| "hole_binding i (Some (n, pre, post)) =
     \<lparr>attributeName = Some n, attributeValuePre = Some pre, attributeValuePost = Some post, expressionIndex = i\<rparr>"

fun bind_holes :: "nat \<Rightarrow> hole list \<Rightarrow> element_bindings \<Rightarrow> element_bindings" where
  "bind_holes i [] m = m"
| "bind_holes i ((k, h) # hs) m = bind_holes (Suc i) hs (add_binding (Some k) (hole_binding i h) m)"

text \<open>What the texts of a template must not contain.\<close>

definition no_angle :: "jstr \<Rightarrow> bool" where
  "no_angle s \<longleftrightarrow> 60 \<notin> set s \<and> 62 \<notin> set s"

fun wf_attr :: "tattr \<Rightarrow> bool" where
  "wf_attr (Static n v) = (no_angle n \<and> no_angle v)"
| "wf_attr (Hole n pre post) =
     (n \<noteq> [] \<and> no_angle n \<and> (\<forall>c\<in>set n. \<not> is_trim_space c) \<and>
      no_angle pre \<and> 61 \<notin> set pre \<and> 34 \<notin> set pre \<and> no_angle post \<and> 34 \<notin> set post)"

fun wf_tree :: "ttree \<Rightarrow> bool" and wf_body :: "tbody \<Rightarrow> bool" and wf_trees :: "ttree list \<Rightarrow> bool" where
  "wf_tree (TElem tg as b) = (tg \<noteq> [] \<and> no_angle tg \<and> hd tg \<noteq> 47 \<and> (\<forall>a\<in>set as. wf_attr a) \<and> wf_body b)"
| "wf_tree (TVoid tg as) = (tg \<noteq> [] \<and> no_angle tg \<and> hd tg \<noteq> 47 \<and> (\<forall>a\<in>set as. wf_attr a))"
| "wf_tree (TStr s) = (no_angle s \<and> 61 \<notin> set s)"
| "wf_body THole = True"
| "wf_body (TNodes ts) = wf_trees ts"
| "wf_trees [] = True"
| "wf_trees (t # ts) = (wf_tree t \<and> wf_trees ts)"

section \<open>Parsing what was printed\<close>

lemma scan_chars_append:
  "xs = [] \<or> last xs \<noteq> 60 \<Longrightarrow> scan_chars (xs @ ys) st = scan_chars ys (scan_chars xs st)"
proof (induction xs arbitrary: st)
  case (Cons x xs)
  have "scan_char x (xs @ ys) st = scan_char x xs st"
    using Cons.prems by (cases xs) (simp_all add: scan_char_def)
  then show ?case using Cons by (cases xs) auto
qed simp

lemma last_no_angle: "no_angle xs \<Longrightarrow> xs \<noteq> [] \<Longrightarrow> last xs \<noteq> 60"
  unfolding no_angle_def using last_in_set by metis

lemma scan_plain:
  "no_angle xs \<Longrightarrow> scan_chars xs st = st\<lparr>withinAttribute := withinAttribute st \<or> 61 \<in> set xs\<rparr>"
  by (induction xs arbitrary: st) (auto simp: scan_char_def no_angle_def)

text \<open>The parser in the middle of a token: what it has read of it, and the pieces that follow.\<close>

definition parse_pieces ::
    "nat \<Rightarrow> jstr \<Rightarrow> scan \<Rightarrow> jstr \<Rightarrow> element_bindings \<Rightarrow> piece list \<Rightarrow> js_error + jstr \<times> element_bindings" where
  "parse_pieces i cur st html m ps =
     parse_tokens i ((cur @ hd (split_gaps ps)) # tl (split_gaps ps)) st html m"

lemma split_gaps_Cons: "split_gaps ps = hd (split_gaps ps) # tl (split_gaps ps)"
  by (induction ps rule: split_gaps.induct) auto

lemma split_chrs: "hd (split_gaps (chrs xs @ ps)) = xs @ hd (split_gaps ps) \<and> tl (split_gaps (chrs xs @ ps)) = tl (split_gaps ps)"
  by (induction xs) (auto simp: chrs_def)

lemma pieces_chrs: "parse_pieces i cur st html m (chrs xs @ ps) = parse_pieces i (cur @ xs) st html m ps"
  by (simp add: parse_pieces_def split_chrs)

lemma pieces_text_gap:
  assumes "scan_chars cur st = st1" "\<not> withinAttribute st1" "\<not> withinTag st1"
  shows "parse_pieces i cur st html m (Gap # ps) =
    parse_pieces (Suc i) [] st1 (html @ cur @ [32]) (add_binding (elementIndex st1) (hole_binding i None) m) ps"
  using assms split_gaps_Cons [of ps] by (cases "split_gaps ps") (auto simp: parse_pieces_def Let_def)

lemma pieces_attr_gap:
  assumes "scan_chars cur st = st1" "withinAttribute st1" "withinTag st1" "attr_match cur = Some (n, pre)"
    and "attr_post (hd (split_gaps ps)) = post"
  shows "parse_pieces i cur st html m (Gap # ps) =
    parse_pieces (Suc i) [] st1 (html @ cur) (add_binding (elementIndex st1) (hole_binding i (Some (n, pre, post))) m) ps"
  using assms split_gaps_Cons [of ps] by (cases "split_gaps ps") (auto simp: parse_pieces_def Let_def)

lemma while_stop:
  "\<forall>c\<in>set xs. P c \<Longrightarrow> \<not> P y \<Longrightarrow> takeWhile P (xs @ y # ys) = xs \<and> dropWhile P (xs @ y # ys) = y # ys"
  by (induction xs) auto

lemma attr_match_name:
  assumes "wf_attr (Hole n pre post)"
  shows "attr_match (cur @ [32] @ n @ [61, 34] @ pre) = Some (n, pre)"
proof -
  let ?t = "cur @ [32] @ n @ [61, 34] @ pre"
  have r: "rev ?t = (rev pre @ [34]) @ 61 # rev n @ 32 # rev cur" by simp
  have p: "\<forall>c\<in>set (rev pre @ [34 :: unit16]). c \<noteq> 61" using assms by auto
  have tail: "takeWhile (\<lambda>c. c \<noteq> 61) (rev ?t) = rev pre @ [34]"
    and rest: "dropWhile (\<lambda>c. c \<noteq> 61) (rev ?t) = 61 # rev n @ 32 # rev cur"
    unfolding r using while_stop [OF p, of 61 "rev n @ 32 # rev cur"] by blast+
  have name: "takeWhile (\<lambda>c. \<not> is_trim_space c) (rev n @ 32 # rev cur) = rev n"
    using assms while_stop [of "rev n" "\<lambda>c. \<not> is_trim_space c" 32 "rev cur"]
    by (simp add: is_trim_space_def is_white_space_def)
  show ?thesis
    unfolding attr_match_def Let_def tail rest using assms by (simp add: name)
qed

lemma attr_post_quote: "34 \<notin> set post \<Longrightarrow> no_angle post \<Longrightarrow> attr_post (post @ 34 # ys) = post"
  unfolding attr_post_def no_angle_def by (subst takeWhile_append2) auto

text \<open>Where the parser stands.\<close>

record cursor =
  c_index :: nat
  c_token :: jstr
  c_start :: scan
  c_html :: jstr
  c_map :: element_bindings

definition parse_at :: "cursor \<Rightarrow> piece list \<Rightarrow> js_error + jstr \<times> element_bindings" where
  "parse_at c ps = parse_pieces (c_index c) (c_token c) (c_start c) (c_html c) (c_map c) ps"

definition scan_at :: "cursor \<Rightarrow> scan" where
  "scan_at c = scan_chars (c_token c) (c_start c)"

definition text_at :: "cursor \<Rightarrow> jstr" where
  "text_at c = c_html c @ c_token c"

definition smooth :: "cursor \<Rightarrow> bool" where
  "smooth c \<longleftrightarrow> c_token c = [] \<or> last (c_token c) \<noteq> 60"

text \<open>Reading \<open>ps\<close> from \<open>c\<close> leads to \<open>c'\<close>.\<close>

definition leads :: "cursor \<Rightarrow> piece list \<Rightarrow> cursor \<Rightarrow> bool" where
  "leads c ps c' \<longleftrightarrow> (\<forall>qs. parse_at c (ps @ qs) = parse_at c' qs)"

lemma leads_append: "leads c ps c1 \<Longrightarrow> leads c1 qs c2 \<Longrightarrow> leads c (ps @ qs) c2"
  by (simp add: leads_def)

lemma leads_Nil: "leads c [] c"
  by (simp add: leads_def)

lemma leads_chrs: "leads c (chrs xs) (c\<lparr>c_token := c_token c @ xs\<rparr>)"
  by (simp add: leads_def parse_at_def pieces_chrs)

lemma read_chrs:
  assumes "smooth c" "xs \<noteq> []" "last xs \<noteq> 60"
  obtains c' where "leads c (chrs xs) c'" "smooth c'" "scan_at c' = scan_chars xs (scan_at c)"
    "text_at c' = text_at c @ xs" "c_map c' = c_map c" "c_index c' = c_index c" "c_token c' = c_token c @ xs"
proof
  let ?c = "c\<lparr>c_token := c_token c @ xs\<rparr>"
  show "leads c (chrs xs) ?c" by (rule leads_chrs)
  show "scan_at ?c = scan_chars xs (scan_at c)"
    using assms(1) scan_chars_append [of "c_token c"] by (simp add: scan_at_def smooth_def)
qed (use assms in \<open>auto simp: smooth_def text_at_def\<close>)

lemma read_plain:
  assumes "smooth c" "no_angle xs"
  obtains c' where "leads c (chrs xs) c'" "smooth c'"
    "scan_at c' = (scan_at c)\<lparr>withinAttribute := withinAttribute (scan_at c) \<or> 61 \<in> set xs\<rparr>"
    "text_at c' = text_at c @ xs" "c_map c' = c_map c" "c_index c' = c_index c" "c_token c' = c_token c @ xs"
proof (cases "xs = []")
  case True
  then show ?thesis using that [of c] assms(1) by (simp add: leads_Nil chrs_def)
next
  case False
  have "last xs \<noteq> 60" using assms(2) last_in_set [OF False] by (auto simp: no_angle_def)
  from read_chrs [OF assms(1) False this] that show ?thesis by (metis scan_plain assms(2))
qed

lemma elementIndex_within [simp]:
  "elementIndex (s\<lparr>withinAttribute := b\<rparr>) = elementIndex s" "elementIndex (s\<lparr>withinTag := b\<rparr>) = elementIndex s"
  by (simp_all add: elementIndex_def)

text \<open>Inside the tag of element \<open>k\<close>.\<close>

definition in_tag :: "nat \<Rightarrow> nat \<Rightarrow> cursor \<Rightarrow> bool" where
  "in_tag k n c \<longleftrightarrow> smooth c \<and> withinTag (scan_at c) \<and> elementIndexCounter (scan_at c) = n \<and> elementIndex (scan_at c) = Some k"

lemma read_attr:
  assumes "in_tag k n c" "wf_attr a"
  obtains c' where "leads c (print_attr a) c'" "in_tag k n c'" "text_at c' = text_at c @ flat_attr a"
    "c_map c' = bind_holes (c_index c) (attr_holes k [a]) (c_map c)"
    "c_index c' = c_index c + length (attr_holes k [a])"
proof (cases a)
  case (Static m v)
  have "smooth c" using assms(1) by (simp add: in_tag_def)
  moreover have "no_angle ([32] @ m @ [61, 34] @ v @ [34])" using assms(2) Static by (auto simp: no_angle_def)
  ultimately obtain c' where "leads c (chrs ([32] @ m @ [61, 34] @ v @ [34])) c'" "smooth c'"
    "scan_at c' = (scan_at c)\<lparr>withinAttribute := withinAttribute (scan_at c) \<or> 61 \<in> set ([32] @ m @ [61, 34] @ v @ [34])\<rparr>"
    "text_at c' = text_at c @ [32] @ m @ [61, 34] @ v @ [34]" "c_map c' = c_map c" "c_index c' = c_index c"
    by (rule read_plain)
  then show ?thesis using that [of c'] assms(1) Static by (simp add: in_tag_def)
next
  case (Hole m pre post)
  have s: "smooth c" using assms(1) by (simp add: in_tag_def)
  have a1: "no_angle ([32] @ m @ [61, 34] @ pre)" and a2: "no_angle (post @ [34])"
    using assms(2) Hole by (auto simp: no_angle_def)
  from s a1 obtain c1 where c1: "leads c (chrs ([32] @ m @ [61, 34] @ pre)) c1" "smooth c1"
    "scan_at c1 = (scan_at c)\<lparr>withinAttribute := withinAttribute (scan_at c) \<or> 61 \<in> set ([32] @ m @ [61, 34] @ pre)\<rparr>"
    "text_at c1 = text_at c @ [32] @ m @ [61, 34] @ pre" "c_map c1 = c_map c" "c_index c1 = c_index c"
    "c_token c1 = c_token c @ [32] @ m @ [61, 34] @ pre"
    by (rule read_plain)
  have m: "attr_match (c_token c1) = Some (m, pre)"
    unfolding c1(7) using attr_match_name assms(2) Hole by blast
  let ?st = "scan_at c1"
  let ?m = "add_binding (Some k) (hole_binding (c_index c) (Some (m, pre, post))) (c_map c)"
  let ?c2 = "\<lparr>c_index = Suc (c_index c), c_token = [], c_start = ?st, c_html = text_at c1, c_map = ?m\<rparr>"
  have st: "withinAttribute ?st" "withinTag ?st" "elementIndex ?st = Some k" "elementIndexCounter ?st = n"
    using c1(3) assms(1) by (auto simp: in_tag_def)
  have "parse_at c1 (([Gap] @ chrs (post @ [34])) @ qs) = parse_at ?c2 (chrs (post @ [34]) @ qs)" for qs
  proof -
    have "attr_post (hd (split_gaps (chrs (post @ [34]) @ qs))) = post"
      using assms(2) Hole split_chrs [of "post @ [34]" qs] attr_post_quote [of post] by simp
    from pieces_attr_gap [OF _ st(1,2) m this] show ?thesis
      using st c1 by (simp add: parse_at_def scan_at_def text_at_def)
  qed
  then have g: "leads c1 ([Gap] @ chrs (post @ [34])) c3" if "leads ?c2 (chrs (post @ [34])) c3" for c3
    using that by (simp add: leads_def)
  have "smooth ?c2" by (simp add: smooth_def)
  from this a2 obtain c3 where c3: "leads ?c2 (chrs (post @ [34])) c3" "smooth c3"
    "scan_at c3 = (scan_at ?c2)\<lparr>withinAttribute := withinAttribute (scan_at ?c2) \<or> 61 \<in> set (post @ [34])\<rparr>"
    "text_at c3 = text_at ?c2 @ post @ [34]" "c_map c3 = c_map ?c2" "c_index c3 = c_index ?c2"
    by (rule read_plain)
  have "scan_at ?c2 = ?st" "text_at ?c2 = text_at c1" by (simp_all add: scan_at_def text_at_def)
  then show ?thesis
    using that [of c3] leads_append [OF c1(1) g [OF c3(1)]] c3 c1 st Hole by (simp add: in_tag_def)
qed

text \<open>Reading \<open>ps\<close> from \<open>c\<close> ends in a cursor with \<open>P\<close>, having written \<open>txt\<close> and bound \<open>hs\<close>.\<close>

definition steps :: "cursor \<Rightarrow> piece list \<Rightarrow> (cursor \<Rightarrow> bool) \<Rightarrow> jstr \<Rightarrow> hole list \<Rightarrow> bool" where
  "steps c ps P txt hs \<longleftrightarrow> (\<exists>c'. leads c ps c' \<and> P c' \<and> text_at c' = text_at c @ txt \<and>
     c_map c' = bind_holes (c_index c) hs (c_map c) \<and> c_index c' = c_index c + length hs)"

lemma bind_holes_append: "bind_holes i (xs @ ys) m = bind_holes (i + length xs) ys (bind_holes i xs m)"
  by (induction xs arbitrary: i m) auto

lemma steps_append:
  assumes "steps c ps P txt hs" "\<And>c1. P c1 \<Longrightarrow> steps c1 qs Q txt2 hs2"
  shows "steps c (ps @ qs) Q (txt @ txt2) (hs @ hs2)"
proof -
  from assms(1) obtain c1 where c1: "leads c ps c1" "P c1" "text_at c1 = text_at c @ txt"
    "c_map c1 = bind_holes (c_index c) hs (c_map c)" "c_index c1 = c_index c + length hs"
    unfolding steps_def by blast
  from assms(2) [OF c1(2)] obtain c2 where "leads c1 qs c2" "Q c2" "text_at c2 = text_at c1 @ txt2"
    "c_map c2 = bind_holes (c_index c1) hs2 (c_map c1)" "c_index c2 = c_index c1 + length hs2"
    unfolding steps_def by blast
  with c1 leads_append [OF c1(1), of qs c2] show ?thesis
    unfolding steps_def by (intro exI [of _ c2]) (simp add: bind_holes_append)
qed

lemma steps_Nil: "P c \<Longrightarrow> steps c [] P [] []"
  by (auto simp: steps_def intro: leads_Nil)

lemma steps_chrs:
  assumes "smooth c" "xs \<noteq> []" "last xs \<noteq> 60"
    and "\<And>c'. smooth c' \<Longrightarrow> scan_at c' = scan_chars xs (scan_at c) \<Longrightarrow> P c'"
  shows "steps c (chrs xs) P xs []"
  using read_chrs [OF assms(1-3)] assms(4) unfolding steps_def by (metis add_0_right bind_holes.simps(1) list.size(3))

definition between_tags :: "nat \<Rightarrow> cursor \<Rightarrow> bool" where
  "between_tags n c \<longleftrightarrow> smooth c \<and> \<not> withinTag (scan_at c) \<and> \<not> withinAttribute (scan_at c) \<and>
     elementIndexCounter (scan_at c) = n"

definition entered :: "nat \<Rightarrow> nat \<Rightarrow> cursor \<Rightarrow> bool" where
  "entered k n c \<longleftrightarrow> between_tags n c \<and> elementIndex (scan_at c) = Some k"

lemma steps_attrs:
  "in_tag k n c \<Longrightarrow> \<forall>a\<in>set as. wf_attr a \<Longrightarrow>
   steps c (concat (map print_attr as)) (in_tag k n) (concat (map flat_attr as)) (attr_holes k as)"
proof (induction as arbitrary: c)
  case (Cons a as)
  have "steps c (print_attr a) (in_tag k n) (flat_attr a) (attr_holes k [a])"
    using read_attr [OF Cons.prems(1), of a] Cons.prems(2) unfolding steps_def by (metis list.set_intros(1))
  moreover have "attr_holes k (a # as) = attr_holes k [a] @ attr_holes k as" by (cases a) auto
  ultimately show ?case using steps_append [OF _ Cons.IH] Cons.prems(2) by simp
qed (simp add: steps_Nil)

lemma steps_open:
  assumes "between_tags n c" "tg \<noteq> []" "no_angle tg" "hd tg \<noteq> 47"
  shows "steps c (chrs ([60] @ tg)) (in_tag n (Suc n)) ([60] @ tg) []"
proof (rule steps_chrs)
  show "in_tag n (Suc n) c'" if "smooth c'" "scan_at c' = scan_chars ([60] @ tg) (scan_at c)" for c'
    using that assms scan_plain [OF assms(3)]
    by (simp add: in_tag_def between_tags_def scan_char_def elementIndex_def)
qed (use assms last_no_angle [of tg] in \<open>auto simp: between_tags_def\<close>)

lemma steps_close: "in_tag k n c \<Longrightarrow> steps c (chrs [62]) (entered k n) [62] []"
  by (rule steps_chrs) (auto simp: in_tag_def entered_def between_tags_def scan_char_def)

lemma steps_end:
  assumes "between_tags n c" "no_angle tg"
  shows "steps c (chrs ([60, 47] @ tg @ [62])) (between_tags n) ([60, 47] @ tg @ [62]) []"
proof (rule steps_chrs)
  show "between_tags n c'" if "smooth c'" "scan_at c' = scan_chars ([60, 47] @ tg @ [62]) (scan_at c)" for c'
  proof -
    have "scan_chars (tg @ [62]) st = scan_chars [62] (scan_chars tg st)" for st
      using last_no_angle [OF assms(2)] by (intro scan_chars_append) blast
    then show ?thesis using that assms scan_plain [OF assms(2)] by (simp add: between_tags_def scan_char_def)
  qed
qed (use assms in \<open>auto simp: between_tags_def\<close>)

lemma steps_text:
  assumes "between_tags n c" "no_angle s" "61 \<notin> set s"
  shows "steps c (chrs s) (between_tags n) s []"
proof (cases "s = []")
  case True
  then show ?thesis using steps_Nil [of "between_tags n" c] assms(1) by (simp add: chrs_def)
next
  case False
  show ?thesis
  proof (rule steps_chrs)
    show "between_tags n c'" if "smooth c'" "scan_at c' = scan_chars s (scan_at c)" for c'
      using that assms scan_plain [OF assms(2)] by (simp add: between_tags_def)
  qed (use assms False last_no_angle [of s] in \<open>auto simp: between_tags_def\<close>)
qed

lemma steps_hole:
  assumes "entered k n c"
  shows "steps c [Gap] (between_tags n) [32] [(k, None)]"
proof -
  let ?st = "scan_at c"
  let ?c = "\<lparr>c_index = Suc (c_index c), c_token = [], c_start = ?st, c_html = text_at c @ [32],
    c_map = add_binding (Some k) (hole_binding (c_index c) None) (c_map c)\<rparr>"
  have st: "\<not> withinAttribute ?st" "\<not> withinTag ?st" "elementIndex ?st = Some k"
    using assms by (auto simp: entered_def between_tags_def)
  have "leads c [Gap] ?c"
    using pieces_text_gap [OF _ st(1,2)] st(3) by (simp add: leads_def parse_at_def scan_at_def text_at_def)
  moreover have "between_tags n ?c" using assms by (simp add: entered_def between_tags_def smooth_def scan_at_def)
  ultimately show ?thesis unfolding steps_def by (intro exI [of _ ?c]) (simp add: text_at_def)
qed

lemma steps_tree:
  "between_tags n c \<Longrightarrow> wf_tree t \<Longrightarrow> steps c (print_tree t) (between_tags (n + elems t)) (flat_tree t) (holes n t)"
  "b \<noteq> THole \<Longrightarrow> between_tags n c \<Longrightarrow> wf_body b \<Longrightarrow>
   steps c (print_body b) (between_tags (n + elems_body b)) (flat_body b) (holes_body n b)"
  "between_tags n c \<Longrightarrow> wf_trees ts \<Longrightarrow>
   steps c (print_trees ts) (between_tags (n + elems_list ts)) (flat_trees ts) (holes_list n ts)"
proof (induction t and b and ts arbitrary: n c and n c and n c rule: print_tree_print_body_print_trees.induct)
  case (1 tg as b)
  then have wf: "tg \<noteq> []" "no_angle tg" "hd tg \<noteq> 47" "\<forall>a\<in>set as. wf_attr a" "wf_body b" by auto
  let ?inner = "case b of THole \<Rightarrow> [(n, None)] | TNodes _ \<Rightarrow> holes_body (Suc n) b"
  have body: "steps c1 (print_body b) (between_tags (Suc n + elems_body b)) (flat_body b) ?inner"
    if "entered n (Suc n) c1" for c1
  proof (cases b)
    case THole
    then show ?thesis using steps_hole [OF that] by simp
  next
    case (TNodes ts)
    then show ?thesis using 1(1) [of "Suc n" c1] that wf(5) by (simp add: entered_def)
  qed
  have "steps c (chrs ([60] @ tg) @ concat (map print_attr as) @ chrs [62] @ print_body b @ chrs ([60, 47] @ tg @ [62]))
      (between_tags (Suc n + elems_body b))
      (([60] @ tg) @ concat (map flat_attr as) @ [62] @ flat_body b @ [60, 47] @ tg @ [62])
      ([] @ attr_holes n as @ [] @ ?inner @ [])"
    by (rule steps_append [OF steps_open [OF 1(2) wf(1-3)]], rule steps_append [OF steps_attrs [OF _ wf(4)]], assumption,
        rule steps_append [OF steps_close], assumption, rule steps_append [OF body], assumption, rule steps_end [OF _ wf(2)])
  then show ?case by simp
next
  case (2 tg as)
  then have wf: "tg \<noteq> []" "no_angle tg" "hd tg \<noteq> 47" "\<forall>a\<in>set as. wf_attr a" by auto
  have close: "steps c1 (chrs [62]) (between_tags (Suc n)) [62] []" if "in_tag n (Suc n) c1" for c1
    using steps_append [OF steps_close [OF that] steps_Nil, of "between_tags (Suc n)"] by (simp add: entered_def)
  have "steps c (chrs ([60] @ tg) @ concat (map print_attr as) @ chrs [62]) (between_tags (Suc n))
      (([60] @ tg) @ concat (map flat_attr as) @ [62]) ([] @ attr_holes n as @ [])"
    by (rule steps_append [OF steps_open [OF 2(1) wf(1-3)]], rule steps_append [OF steps_attrs [OF _ wf(4)]], assumption, rule close)
  then show ?case by simp
next
  case (7 t ts)
  have "steps c1 (print_trees ts) (between_tags (n + elems t + elems_list ts)) (flat_trees ts) (holes_list (n + elems t) ts)"
    if "between_tags (n + elems t) c1" for c1
    using 7(2) that 7(4) by simp
  from steps_append [OF 7(1) [OF 7(3)] this] 7(4) show ?case by (simp add: add.assoc)
qed (simp_all add: steps_text steps_Nil)

lemma parse_tree:
  assumes "wf_tree t"
  shows "template_parse (tokens_of t) = Inr (flat_tree t, bind_holes 0 (holes 0 t) [])"
proof -
  let ?c = "\<lparr>c_index = 0, c_token = [], c_start = scan_start, c_html = [], c_map = []\<rparr>"
  have "between_tags 0 ?c" by (simp add: between_tags_def smooth_def scan_at_def scan_start_def)
  from steps_tree(1) [OF this assms] obtain c' where c': "leads ?c (print_tree t) c'"
    "text_at c' = flat_tree t" "c_map c' = bind_holes 0 (holes 0 t) []"
    by (auto simp: steps_def text_at_def)
  have "template_parse (tokens_of t) = parse_at ?c (print_tree t @ [])"
    using split_gaps_Cons [of "print_tree t"] by (simp add: template_parse_def tokens_of_def parse_at_def parse_pieces_def)
  also have "\<dots> = parse_at c' []" using c'(1) unfolding leads_def by blast
  also have "\<dots> = Inr (text_at c', c_map c')" by (simp add: parse_at_def parse_pieces_def text_at_def)
  finally show ?thesis using c' by simp
qed

text \<open>
  C13: parsing a template finds its holes. For every template tree whose texts keep to the rules of the grammar (void
  elements and any nesting included), the parser returns the markup with blanks for the holes in contents,
  and binds expression \<open>i\<close> to the element of the \<open>i\<close>-th hole, elements counted in document order, with
  the name of the attribute and the texts around the hole.
\<close>

theorem parse_finds_holes:
  assumes "wf_tree t"
  shows "template_parse (tokens_of t) = Inr (flat_tree t, bind_holes 0 (holes 0 t) [])"
  using assms by (rule parse_tree)

section \<open>The templates of the picker\<close>

definition stat :: "string \<Rightarrow> string \<Rightarrow> tattr" where
  "stat n v = Static (js n) (js v)"

definition dyn :: "string \<Rightarrow> tattr" where
  "dyn n = Hole (js n) [] []"

definition around :: "string \<Rightarrow> string \<Rightarrow> string \<Rightarrow> tattr" where
  "around n pre post = Hole (js n) (js pre) (js post)"

definition elem_with :: "string \<Rightarrow> tattr list \<Rightarrow> ttree list \<Rightarrow> ttree" where
  "elem_with tg as ts = TElem (js tg) as (TNodes ts)"

definition elem_hole :: "string \<Rightarrow> tattr list \<Rightarrow> ttree" where
  "elem_hole tg as = TElem (js tg) as THole"

definition emoji_button :: ttree where
  "emoji_button = elem_hole ''button''
     [dyn ''role'', dyn ''aria-selected'', dyn ''aria-label'', dyn ''title'', dyn ''class'', dyn ''id'', dyn ''style'']"

definition skintone_option :: ttree where
  "skintone_option = elem_hole ''div''
     [around ''id'' ''skintone-'' [], around ''class'' ''emoji '' [], dyn ''aria-selected'',
      stat ''role'' ''option'', dyn ''title'', dyn ''aria-label'']"

definition nav_button :: ttree where
  "nav_button = elem_with ''button''
     [stat ''role'' ''tab'', stat ''class'' ''nav-button'', around ''aria-controls'' ''tab-'' [], dyn ''aria-label'',
      dyn ''aria-selected'', dyn ''title'', dyn ''data-group-id'']
     [elem_hole ''div'' [stat ''class'' ''nav-emoji emoji'']]"

definition category_block :: ttree where
  "category_block = elem_with ''div'' []
     [elem_hole ''div'' [around ''id'' ''menu-label-'' [], around ''class'' ''category '' [], stat ''aria-hidden'' ''true''],
      elem_hole ''div'' [around ''class'' ''emoji-menu '' [], dyn ''style'', stat ''data-action'' ''updateOnIntersection'',
        dyn ''role'', around ''aria-labelledby'' ''menu-label-'' [], dyn ''id'']]"

definition search_row :: ttree where
  "search_row = elem_with ''div'' [stat ''class'' ''search-row'']
     [elem_with ''div'' [stat ''class'' ''search-wrapper'']
        [TVoid (js ''input'') [stat ''id'' ''search'', stat ''class'' ''search'', stat ''type'' ''search'',
           stat ''role'' ''combobox'', stat ''enterkeyhint'' ''search'', dyn ''placeholder'',
           stat ''autocapitalize'' ''none'', stat ''autocomplete'' ''off'', stat ''spellcheck'' ''true'',
           dyn ''aria-expanded'', stat ''aria-controls'' ''search-results'',
           stat ''aria-describedby'' ''search-description'', stat ''aria-autocomplete'' ''list'',
           dyn ''aria-activedescendant'', stat ''data-ref'' ''searchElement'',
           stat ''data-on-input'' ''onSearchInput'', stat ''data-on-keydown'' ''onSearchKeydown''],
         elem_hole ''label'' [stat ''class'' ''sr-only'', stat ''for'' ''search''],
         TStr (js '' ''),
         elem_hole ''span'' [stat ''id'' ''search-description'', stat ''class'' ''sr-only'']],
      elem_with ''div'' [around ''class'' ''skintone-button-wrapper '' []]
        [elem_hole ''button'' [stat ''id'' ''skintone-button'', around ''class'' ''emoji '' [], dyn ''aria-label'',
           dyn ''title'', stat ''aria-describedby'' ''skintone-description'', stat ''aria-haspopup'' ''listbox'',
           dyn ''aria-expanded'', stat ''aria-controls'' ''skintone-list'',
           stat ''data-on-click'' ''onClickSkinToneButton'']],
      elem_hole ''span'' [stat ''id'' ''skintone-description'', stat ''class'' ''sr-only''],
      elem_hole ''div'' [stat ''data-ref'' ''skinToneDropdown'', stat ''id'' ''skintone-list'',
        around ''class'' ''skintone-list hide-focus '' [], around ''style'' ''transform:translateY('' '')'',
        stat ''role'' ''listbox'', dyn ''aria-label'', around ''aria-activedescendant'' ''skintone-'' [],
        dyn ''aria-hidden'', stat ''tabIndex'' ''-1'', stat ''data-on-focusout'' ''onSkinToneOptionsFocusOut'',
        stat ''data-on-click'' ''onSkinToneOptionsClick'', stat ''data-on-keydown'' ''onSkinToneOptionsKeydown'',
        stat ''data-on-keyup'' ''onSkinToneOptionsKeyup'']]"

definition section_template :: ttree where
  "section_template = elem_with ''section''
     [stat ''data-ref'' ''rootElement'', stat ''class'' ''picker'', dyn ''aria-label'', dyn ''style'']
     [elem_with ''div'' [stat ''class'' ''pad-top''] [],
      search_row,
      elem_hole ''div'' [stat ''class'' ''nav'', stat ''role'' ''tablist'',
        around ''style'' ''grid-template-columns:repeat('' '',1fr)'', dyn ''aria-label'',
        stat ''data-on-keydown'' ''onNavKeydown'', stat ''data-on-click'' ''onNavClick''],
      elem_with ''div'' [stat ''class'' ''indicator-wrapper'']
        [elem_with ''div'' [stat ''class'' ''indicator'', around ''style'' ''transform:translateX('' ''%)''] []],
      elem_hole ''div'' [around ''class'' ''message '' [], stat ''role'' ''alert'', stat ''aria-live'' ''polite''],
      elem_with ''div'' [stat ''data-ref'' ''tabpanelElement'', around ''class'' ''tabpanel '' [], dyn ''role'',
        dyn ''aria-label'', dyn ''id'', stat ''tabIndex'' ''0'', stat ''data-on-click'' ''onEmojiClick'']
        [elem_hole ''div'' [stat ''data-action'' ''calculateEmojiGridStyle'']],
      elem_hole ''div'' [around ''class'' ''favorites onscreen emoji-menu '' [], stat ''role'' ''menu'', dyn ''aria-label'',
        stat ''data-on-click'' ''onEmojiClick''],
      elem_with ''button'' [stat ''data-ref'' ''baselineEmoji'', stat ''aria-hidden'' ''true'', stat ''tabindex'' ''-1'',
        stat ''class'' ''abs-pos hidden emoji baseline-emoji''] [TStr [0xD83D, 0xDE00]]]"

definition templates :: "ttree list" where
  "templates = [section_template, emoji_button, skintone_option, nav_button, category_block]"

text \<open>The rules of the grammar for texts written as characters.\<close>

definition plain_name :: "string \<Rightarrow> bool" where
  "plain_name n \<longleftrightarrow> n \<noteq> [] \<and> list_all (\<lambda>c. c \<in> set ''abcdefghijklmnopqrstuvwxyz-'') n"

definition angle_free :: "string \<Rightarrow> bool" where
  "angle_free s \<longleftrightarrow> list_all (\<lambda>c. c \<noteq> CHR ''<'' \<and> c \<noteq> CHR ''>'') s"

lemma chr16_marks: "chr16 CHR ''<'' = 60" "chr16 CHR ''>'' = 62" "chr16 CHR ''='' = 61" "chr16 CHR 0x22 = 34"
    "chr16 CHR ''/'' = 47"
  by (simp_all add: chr16_def)

lemma mark_in_js: "60 \<in> set (js s) \<longleftrightarrow> CHR ''<'' \<in> set s" "62 \<in> set (js s) \<longleftrightarrow> CHR ''>'' \<in> set s"
    "61 \<in> set (js s) \<longleftrightarrow> CHR ''='' \<in> set s" "34 \<in> set (js s) \<longleftrightarrow> CHR 0x22 \<in> set s"
  unfolding js_def by (metis chr16_marks inj_chr16 inj_image_mem_iff list.set_map)+

lemma no_angle_js: "no_angle (js s) \<longleftrightarrow> angle_free s"
  by (auto simp: no_angle_def angle_free_def mark_in_js list_all_iff)

lemma plain_name_ok:
  assumes "plain_name n"
  shows "angle_free n \<and> (\<forall>c\<in>set (js n). \<not> is_trim_space c)"
proof -
  have "list_all (\<lambda>c. c \<noteq> CHR ''<'' \<and> c \<noteq> CHR ''>'' \<and> \<not> is_trim_space (chr16 c)) ''abcdefghijklmnopqrstuvwxyz-''"
    by (simp add: is_trim_space_def is_white_space_def chr16_def)
  then have "c \<noteq> CHR ''<'' \<and> c \<noteq> CHR ''>'' \<and> \<not> is_trim_space (chr16 c)" if "c \<in> set n" for c
    using assms that unfolding plain_name_def list_all_iff by blast
  then show ?thesis by (auto simp: angle_free_def js_def list_all_iff)
qed

lemma wf_written:
  "wf_attr (stat n v) \<longleftrightarrow> angle_free n \<and> angle_free v"
  "plain_name n \<Longrightarrow> wf_attr (dyn n)"
  "plain_name n \<Longrightarrow> angle_free pre \<Longrightarrow> angle_free post \<Longrightarrow> CHR ''='' \<notin> set pre \<Longrightarrow> CHR 0x22 \<notin> set pre \<Longrightarrow>
   CHR 0x22 \<notin> set post \<Longrightarrow> wf_attr (around n pre post)"
  "plain_name tg \<Longrightarrow> hd tg \<noteq> CHR ''/'' \<Longrightarrow> wf_tree (elem_hole tg as) \<longleftrightarrow> (\<forall>a\<in>set as. wf_attr a)"
  "plain_name tg \<Longrightarrow> hd tg \<noteq> CHR ''/'' \<Longrightarrow> wf_tree (elem_with tg as ts) \<longleftrightarrow> (\<forall>a\<in>set as. wf_attr a) \<and> wf_trees ts"
proof -
  have slash: "hd (js tg) \<noteq> 47" if "plain_name tg" "hd tg \<noteq> CHR ''/''" for tg
    using that chr16_eq_iff [of "hd tg" "CHR ''/''"] by (cases tg) (auto simp: plain_name_def js_def chr16_marks)
  have ne: "js n \<noteq> []" if "plain_name n" for n using that by (simp add: plain_name_def js_def)
  show "wf_attr (stat n v) \<longleftrightarrow> angle_free n \<and> angle_free v" by (simp add: stat_def no_angle_js)
  show "wf_attr (dyn n)" if "plain_name n"
    using plain_name_ok [OF that] ne [OF that] by (simp add: dyn_def no_angle_js) (simp add: no_angle_def)
  show "wf_attr (around n pre post)" if "plain_name n" "angle_free pre" "angle_free post" "CHR ''='' \<notin> set pre"
      "CHR 0x22 \<notin> set pre" "CHR 0x22 \<notin> set post"
    using plain_name_ok [OF that(1)] ne [OF that(1)] that by (simp add: around_def no_angle_js mark_in_js)
  show "wf_tree (elem_hole tg as) \<longleftrightarrow> (\<forall>a\<in>set as. wf_attr a)" if "plain_name tg" "hd tg \<noteq> CHR ''/''"
    using plain_name_ok [OF that(1)] ne [OF that(1)] slash [OF that] by (simp add: elem_hole_def no_angle_js)
  show "wf_tree (elem_with tg as ts) \<longleftrightarrow> (\<forall>a\<in>set as. wf_attr a) \<and> wf_trees ts" if "plain_name tg" "hd tg \<noteq> CHR ''/''"
    using plain_name_ok [OF that(1)] ne [OF that(1)] slash [OF that] by (simp add: elem_with_def no_angle_js)
qed

lemma plain_letters: "plain_name (c # s) \<longleftrightarrow> c \<in> set ''abcdefghijklmnopqrstuvwxyz-'' \<and> (s = [] \<or> plain_name s)"
  by (cases s) (simp_all add: plain_name_def)

lemma wf_button: "wf_tree emoji_button"
  by (simp add: emoji_button_def wf_written plain_letters)

lemma wf_option: "wf_tree skintone_option"
  by (simp add: skintone_option_def wf_written plain_letters angle_free_def)

lemma wf_nav: "wf_tree nav_button"
  by (simp add: nav_button_def wf_written plain_letters angle_free_def)

lemma wf_category: "wf_tree category_block"
  by (simp add: category_block_def wf_written plain_letters angle_free_def)

lemma wf_search_row: "wf_tree search_row"
proof -
  have "hd (js ''input'') \<noteq> 47" by (simp add: js_def chr16_def)
  then show ?thesis
    by (simp add: search_row_def wf_written plain_letters angle_free_def no_angle_js mark_in_js)
qed

lemma wf_section: "wf_tree section_template"
  by (simp add: section_template_def wf_written plain_letters angle_free_def wf_search_row no_angle_def)

lemma templates_wf: "\<forall>t\<in>set templates. wf_tree t"
  by (simp add: templates_def wf_section wf_button wf_option wf_nav wf_category)

text \<open>Every template of the picker is one of the grammar, the void input element included.\<close>

theorem parse_finds_holes_witness:
  "map (\<lambda>t. template_parse (tokens_of t)) templates =
     map (\<lambda>t. Inr (flat_tree t, bind_holes 0 (holes 0 t) [])) templates"
  using templates_wf parse_finds_holes by (intro map_cong) auto

end
