(* ===== verification/PickerTemplate.thy ===== *)
theory PickerTemplate
  imports PickerSupport PickerParse
begin

text \<open>
  The small template framework of \<open>picker.js\<close> (\<open>createFramework\<close> and what it calls) and what the picker
  does with it. The nodes of the shadow tree are a store; \<open>patch\<close> brings bindings up to date with
  the expressions of a render, \<open>traverseAndSetupBindings\<close> and \<open>parseHtml\<close> make instances of parsed
  templates, \<open>html\<close> and \<open>map\<close> reuse them by key, \<open>emojiList\<close> is the list of buttons in the grid, and the
  end of \<open>render\<close> binds events, references and actions. The HTML parser of the browser is a parameter
  (\<open>r_innerHTML\<close>). The theorems: patching shows the last expressions, the
  grid shows the emoji of the last render whatever was shown before, and an action runs once on a node.
\<close>

section \<open>Nodes\<close>

text \<open>
  The nodes of the shadow tree that the framework writes, by number. A text node has no children.
\<close>

record vdom =
  vd_next :: nat
  vd_element :: "nat \<Rightarrow> bool"
  vd_attrs :: "nat \<Rightarrow> jstr \<rightharpoonup> jstr"
  vd_kids :: "nat \<Rightarrow> nat list"
  vd_value :: "nat \<Rightarrow> jstr"

definition firstChild :: "vdom \<Rightarrow> nat \<Rightarrow> nat option" where
  "firstChild d n = (case vd_kids d n of [] \<Rightarrow> None | c # _ \<Rightarrow> Some c)"

definition parentNode :: "vdom \<Rightarrow> nat \<Rightarrow> nat option" where
  "parentNode d n = find (\<lambda>p. n \<in> set (vd_kids d p)) [0..<vd_next d]"

definition setAttribute :: "nat \<Rightarrow> jstr \<Rightarrow> jstr \<Rightarrow> vdom \<Rightarrow> vdom" where
  "setAttribute n a v d = d\<lparr>vd_attrs := (vd_attrs d)(n := (vd_attrs d n)(a \<mapsto> v))\<rparr>"

text \<open>Writing \<open>nodeValue\<close> has no effect on an element.\<close>

definition set_nodeValue :: "nat \<Rightarrow> jstr \<Rightarrow> vdom \<Rightarrow> vdom" where
  "set_nodeValue n v d = (if vd_element d n then d else d\<lparr>vd_value := (vd_value d)(n := v)\<rparr>)"

text \<open>Nodes that are inserted somewhere leave the place where they were.\<close>

definition detach :: "nat list \<Rightarrow> vdom \<Rightarrow> vdom" where
  "detach ns d = d\<lparr>vd_kids := (\<lambda>p. filter (\<lambda>c. c \<notin> set ns) (vd_kids d p))\<rparr>"

text \<open>
  \<open>Element.prototype.replaceChildren\<close> and \<open>append\<close> collect their arguments in a fragment first, so of a node that
  is given twice the last place counts.
\<close>

definition native_replaceChildren :: "nat \<Rightarrow> nat list \<Rightarrow> vdom \<Rightarrow> vdom" where
  "native_replaceChildren p new d =
     (let d1 = detach new d in d1\<lparr>vd_kids := (vd_kids d1)(p := remdups new)\<rparr>)"

definition appendChild :: "nat \<Rightarrow> nat \<Rightarrow> vdom \<Rightarrow> vdom" where
  "appendChild p n d = (let d1 = detach [n] d in d1\<lparr>vd_kids := (vd_kids d1)(p := vd_kids d1 p @ [n])\<rparr>)"

definition clear_children :: "nat \<Rightarrow> vdom \<Rightarrow> vdom" where
  "clear_children p d = d\<lparr>vd_kids := (vd_kids d)(p := [])\<rparr>"

text \<open>\<open>replaceChildren\<close> of the framework, with the replacement for browsers that lack the method.\<close>

definition replaceChildren :: "bool \<Rightarrow> nat \<Rightarrow> nat list \<Rightarrow> vdom \<Rightarrow> vdom" where
  "replaceChildren hasReplaceChildren p new d =
     (if hasReplaceChildren then native_replaceChildren p new d
      else fold (appendChild p) new (clear_children p d))"

definition replaceWith :: "nat \<Rightarrow> nat \<Rightarrow> vdom \<Rightarrow> vdom" where
  "replaceWith old new d =
     (if old = new then d else
      let d1 = detach [new] d
      in d1\<lparr>vd_kids := (\<lambda>p. map (\<lambda>c. if c = old then new else c) (vd_kids d1 p))\<rparr>)"

section \<open>Patching\<close>

fun need_from :: "nat list \<Rightarrow> nat \<Rightarrow> nat list \<Rightarrow> bool" where
  "need_from [] oldChildrenCount newChildren = (oldChildrenCount \<noteq> length newChildren)"
| "need_from (oldChild # rest) oldChildrenCount newChildren =
     (if oldChildrenCount < length newChildren \<and> newChildren ! oldChildrenCount = oldChild
      then need_from rest (oldChildrenCount + 1) newChildren else True)"

definition doChildrenNeedRerender :: "nat \<Rightarrow> nat list \<Rightarrow> vdom \<Rightarrow> bool" where
  "doChildrenNeedRerender p newChildren d = need_from (vd_kids d p) 0 newChildren"

text \<open>The expressions of a template: primitive values, lists of nodes, a node.\<close>

datatype expr = EUndef | EStr jstr | EBool bool | EInt int | ENodes "nat list" | ENode nat

text \<open>\<open>===\<close>: every list is a new array.\<close>

fun same_expr :: "expr \<Rightarrow> expr \<Rightarrow> bool" where
  "same_expr (ENodes _) _ = False"
| "same_expr a b = (a = b)"

definition int_str :: "int \<Rightarrow> jstr" where
  "int_str i = (if i < 0 then js ''-'' @ decimal (nat (- i)) else decimal (nat i))"

text \<open>\<open>'' + value\<close>; the text of a node is the browser's.\<close>

fun expr_str :: "(nat \<Rightarrow> jstr) \<Rightarrow> expr \<Rightarrow> jstr" where
  "expr_str obj EUndef = js ''undefined''"
| "expr_str obj (EStr s) = s"
| "expr_str obj (EBool b) = (if b then js ''true'' else js ''false'')"
| "expr_str obj (EInt i) = int_str i"
| "expr_str obj (ENodes ns) = concat (map (\<lambda>i. (if i = 0 then [] else js '','') @ obj (ns ! i)) [0..<length ns])"
| "expr_str obj (ENode n) = obj n"

record instance_binding =
  ib_binding :: tbinding
  targetNode :: "nat option"
  targetParentNode :: "nat option"
  currentExpression :: expr

definition patchChildren ::
    "bool \<Rightarrow> nat list \<Rightarrow> instance_binding \<Rightarrow> vdom \<Rightarrow> (instance_binding \<times> vdom) outcome" where
  "patchChildren hasRC newChildren ib d =
     (case targetParentNode ib of
        Some p \<Rightarrow>
          Inr (ib, if doChildrenNeedRerender p newChildren d then replaceChildren hasRC p newChildren d else d)
      | None \<Rightarrow>
          (case targetNode ib of
             None \<Rightarrow> Inl (TypeError, (ib\<lparr>targetNode := None\<rparr>, d))
           | Some t \<Rightarrow>
               (case parentNode d t of
                  None \<Rightarrow> Inl (TypeError, (ib\<lparr>targetNode := None\<rparr>, d))
                | Some p \<Rightarrow> Inr (ib\<lparr>targetNode := None, targetParentNode := Some p\<rparr>, replaceChildren hasRC p newChildren d))))"

definition patch_text ::
    "bool \<Rightarrow> (nat \<Rightarrow> jstr) \<Rightarrow> expr \<Rightarrow> instance_binding \<Rightarrow> vdom \<Rightarrow> (instance_binding \<times> vdom) outcome" where
  "patch_text hasRC obj e ib d =
     (case e of
        ENodes ns \<Rightarrow> patchChildren hasRC ns ib d
      | ENode n \<Rightarrow>
          (case targetNode ib of
             None \<Rightarrow> Inl (TypeError, (ib, d))
           | Some t \<Rightarrow> Inr (ib\<lparr>targetNode := Some n\<rparr>, replaceWith t n d))
      | _ \<Rightarrow>
          (case targetNode ib of
             None \<Rightarrow> Inl (TypeError, (ib, d))
           | Some t \<Rightarrow> Inr (ib, set_nodeValue t (expr_str obj e) d)))"

definition patch_one ::
    "bool \<Rightarrow> (nat \<Rightarrow> jstr) \<Rightarrow> expr list \<Rightarrow> instance_binding \<Rightarrow> vdom \<Rightarrow> (instance_binding \<times> vdom) outcome" where
  "patch_one hasRC obj expressions ib d =
     (let b = ib_binding ib;
          e = (if expressionIndex b < length expressions then expressions ! expressionIndex b else EUndef);
          ib1 = ib\<lparr>currentExpression := e\<rparr>
      in if same_expr (currentExpression ib) e then Inr (ib, d)
         else if truthy_str (attributeName b) then
           (case targetNode ib of
              None \<Rightarrow> Inl (TypeError, (ib1, d))
            | Some t \<Rightarrow>
                Inr (ib1, setAttribute t (the (attributeName b))
                       (the (attributeValuePre b) @ expr_str obj e @ the (attributeValuePost b)) d))
         else patch_text hasRC obj e ib1 d)"

fun patch ::
    "bool \<Rightarrow> (nat \<Rightarrow> jstr) \<Rightarrow> expr list \<Rightarrow> instance_binding list \<Rightarrow> vdom \<Rightarrow> (instance_binding list \<times> vdom) outcome" where
  "patch hasRC obj expressions [] d = Inr ([], d)"
| "patch hasRC obj expressions (ib # ibs) d =
     (case patch_one hasRC obj expressions ib d of
        Inl (er, (ib1, d1)) \<Rightarrow> Inl (er, (ib1 # ibs, d1))
      | Inr (ib1, d1) \<Rightarrow>
          (case patch hasRC obj expressions ibs d1 of
             Inl (er, (ibs1, d2)) \<Rightarrow> Inl (er, (ib1 # ibs1, d2))
           | Inr (ibs1, d2) \<Rightarrow> Inr (ib1 # ibs1, d2)))"

section \<open>Lists of nodes\<close>

lemma need_from_iff: "i \<le> length new \<Longrightarrow> need_from old i new \<longleftrightarrow> old \<noteq> drop i new"
proof (induction old arbitrary: i)
  case (Cons c old)
  show ?case
  proof (cases "i < length new")
    case True
    then show ?thesis using Cons.IH [of "Suc i"] by (auto simp: Cons_nth_drop_Suc [symmetric])
  qed (use Cons.prems in simp)
qed auto

lemma rerender_iff: "doChildrenNeedRerender p new d \<longleftrightarrow> vd_kids d p \<noteq> new"
  by (simp add: doChildrenNeedRerender_def need_from_iff)

lemma vdom_eqI:
  "vd_next d = vd_next d' \<Longrightarrow> vd_element d = vd_element d' \<Longrightarrow> vd_attrs d = vd_attrs d' \<Longrightarrow> vd_kids d = vd_kids d' \<Longrightarrow>
   vd_value d = vd_value d' \<Longrightarrow> d = (d' :: vdom)"
  by (cases d; cases d') simp

lemma appendChild_kids:
  "vd_kids (appendChild p n d) q = filter (\<lambda>c. c \<noteq> n) (vd_kids d q) @ (if q = p then [n] else [])"
  by (simp add: appendChild_def detach_def Let_def)

lemma append_fold:
  "vd_kids (fold (appendChild p) new d) q =
     filter (\<lambda>c. c \<notin> set new) (vd_kids d q) @ (if q = p then remdups new else [])"
proof (induction new arbitrary: q rule: rev_induct)
  case (snoc n new)
  have r: "remdups (new @ [n]) = filter (\<lambda>c. c \<noteq> n) (remdups new) @ [n]"
    by (induction new) auto
  show ?case by (auto simp: appendChild_kids snoc r intro: filter_cong)
qed simp

lemma append_fold_frame:
  "vd_next (fold (appendChild p) new d) = vd_next d \<and> vd_element (fold (appendChild p) new d) = vd_element d \<and>
   vd_attrs (fold (appendChild p) new d) = vd_attrs d \<and> vd_value (fold (appendChild p) new d) = vd_value d"
  by (induction new arbitrary: d) (auto simp: appendChild_def detach_def Let_def)

lemma replaceChildren_native: "replaceChildren b p new d = native_replaceChildren p new d"
proof (cases b)
  case False
  then show ?thesis
    unfolding replaceChildren_def using append_fold_frame [of p new "clear_children p d"]
    by (auto intro!: vdom_eqI ext simp: append_fold native_replaceChildren_def clear_children_def detach_def Let_def)
qed (simp add: replaceChildren_def)

text \<open>A node is in one place.\<close>

definition one_place :: "vdom \<Rightarrow> bool" where
  "one_place d \<longleftrightarrow> (\<forall>p. distinct (vd_kids d p)) \<and> (\<forall>p q. p \<noteq> q \<longrightarrow> set (vd_kids d p) \<inter> set (vd_kids d q) = {})"

lemma native_kids:
  "vd_kids (native_replaceChildren p new d) q =
     (if q = p then remdups new else filter (\<lambda>c. c \<notin> set new) (vd_kids d q))"
  by (simp add: native_replaceChildren_def detach_def Let_def)

lemma one_place_replace: "one_place d \<Longrightarrow> one_place (native_replaceChildren p new d)"
  unfolding one_place_def native_kids by auto

lemma replace_same: "one_place d \<Longrightarrow> native_replaceChildren p (vd_kids d p) d = d"
  by (rule vdom_eqI) (auto simp: native_replaceChildren_def detach_def Let_def one_place_def distinct_remdups_id
      disjoint_iff intro!: ext filter_True)

lemma patchChildren_replaces:
  assumes "one_place d" "targetParentNode ib = Some p"
  shows "patchChildren b new ib d = Inr (ib, native_replaceChildren p new d)"
  using assms replace_same [OF assms(1), of p] by (auto simp: patchChildren_def rerender_iff replaceChildren_native)

definition patch_lists :: "bool \<Rightarrow> (instance_binding \<times> nat list) list \<Rightarrow> vdom \<Rightarrow> vdom" where
  "patch_lists b pls d = fold (\<lambda>(ib, new) d. snd (final_state (patchChildren b new ib d))) pls d"

text \<open>
  C14: the lists of a render are shown. Patching any number of rendered lists, one after the other, leaves under
  each parent exactly its new children in their order, also when nodes move from one list to another (an
  emoji that changes its category), provided no node is wanted twice; skipping a list whose nodes are
  already there changes nothing, and browsers without \<open>replaceChildren\<close> get the same tree.
\<close>

theorem patched_lists_shown:
  assumes "one_place d" "map (\<lambda>x. targetParentNode (fst x)) pls = map Some ps" "distinct ps" "distinct (concat (map snd pls))"
  shows "one_place (patch_lists b pls d) \<and> map (vd_kids (patch_lists b pls d)) ps = map snd pls \<and>
    patch_lists b pls d = fold (\<lambda>(p, new). native_replaceChildren p new) (zip ps (map snd pls)) d"
  using assms
proof (induction pls arbitrary: d ps)
  case (Cons x pls)
  obtain ib new where x: "x = (ib, new)" by fastforce
  obtain p qs where ps: "ps = p # qs" "targetParentNode ib = Some p" "map (\<lambda>x. targetParentNode (fst x)) pls = map Some qs"
    using Cons.prems(2) x by (cases ps) auto
  let ?d = "native_replaceChildren p new d"
  have step: "patch_lists b (x # pls) d = patch_lists b pls ?d"
    by (simp add: patch_lists_def x patchChildren_replaces [OF Cons.prems(1) ps(2)])
  have dq: "distinct qs" "distinct (concat (map snd pls))" using Cons.prems(3,4) ps(1) by (simp_all add: x)
  have IH: "one_place (patch_lists b pls ?d)" "map (vd_kids (patch_lists b pls ?d)) qs = map snd pls"
    and eq: "patch_lists b pls ?d = fold (\<lambda>(p, new). native_replaceChildren p new) (zip qs (map snd pls)) ?d"
    using Cons.IH [OF one_place_replace [OF Cons.prems(1)] ps(3) dq, where new1 = new and p1 = p] by blast+
  have keep: "vd_kids (fold (\<lambda>(p, new). native_replaceChildren p new) rs e) p = vd_kids e p"
    if "p \<notin> set (map fst rs)" "set (concat (map snd rs)) \<inter> set (vd_kids e p) = {}" for rs e
    using that
  proof (induction rs arbitrary: e)
    case (Cons r rs)
    obtain q l where r: "r = (q, l)" by fastforce
    have "vd_kids (native_replaceChildren q l e) p = vd_kids e p"
      using Cons.prems by (auto simp: native_kids r intro!: filter_True)
    then show ?case using Cons.IH [of "native_replaceChildren q l e"] Cons.prems by (auto simp: r)
  qed simp
  have l: "length qs = length pls" using ps(3) by (metis length_map)
  have "vd_kids ?d p = new" using Cons.prems(4) by (simp add: native_kids x distinct_remdups_id)
  moreover have "vd_kids (patch_lists b pls ?d) p = vd_kids ?d p"
    unfolding eq using keep [of "zip qs (map snd pls)" ?d] Cons.prems(3,4) ps l calculation by (auto simp: x)
  ultimately have "map (vd_kids (patch_lists b (x # pls) d)) ps = map snd (x # pls)"
    unfolding step ps(1) using IH(2) by (simp add: x)
  moreover have "patch_lists b (x # pls) d =
      fold (\<lambda>(p, new). native_replaceChildren p new) (zip ps (map snd (x # pls))) d"
    unfolding step eq by (simp add: ps(1) x)
  ultimately show ?case using IH(1) step by simp
qed (simp add: patch_lists_def)

definition two_lists :: vdom where
  "two_lists = \<lparr>vd_next = 6, vd_element = (\<lambda>_. True), vd_attrs = (\<lambda>_. Map.empty),
     vd_kids = (\<lambda>p. if p = 0 then [2, 3, 4] else if p = 1 then [5] else []), vd_value = (\<lambda>_. [])\<rparr>"

definition list_slot :: "nat \<Rightarrow> instance_binding" where
  "list_slot p = \<lparr>ib_binding = hole_binding 0 None, targetNode = None, targetParentNode = Some p, currentExpression = EUndef\<rparr>"

theorem patched_lists_shown_witness:
  "map (vd_kids (patch_lists False [(list_slot 0, [4, 2]), (list_slot 1, [3, 5])] two_lists)) [0, 1] = [[4, 2], [3, 5]]"
proof -
  let ?pls = "[(list_slot 0, [4, 2]), (list_slot 1, [3, 5])] :: (instance_binding \<times> nat list) list"
  have 1: "one_place two_lists" by (auto simp: one_place_def two_lists_def)
  have 2: "map (\<lambda>x. targetParentNode (fst x)) ?pls = map Some [0, 1]" by (simp add: list_slot_def)
  have 3: "distinct [0 :: nat, 1]" "distinct (concat (map snd ?pls))" by simp_all
  have "map (vd_kids (patch_lists False ?pls two_lists)) [0, 1] = map snd ?pls"
    using patched_lists_shown [OF 1 2 3] by blast
  then show ?thesis by simp
qed

section \<open>Instances of a template\<close>

text \<open>What the browser's parser makes of markup.\<close>

datatype markup = MElem jstr "(jstr \<times> jstr) list" "markup list" | MText jstr

fun clone :: "markup \<Rightarrow> vdom \<Rightarrow> vdom" and clones :: "markup list \<Rightarrow> vdom \<Rightarrow> nat list \<times> vdom" where
  "clone (MText s) d =
     d\<lparr>vd_next := Suc (vd_next d), vd_element := (vd_element d)(vd_next d := False),
       vd_attrs := (vd_attrs d)(vd_next d := Map.empty), vd_kids := (vd_kids d)(vd_next d := []),
       vd_value := (vd_value d)(vd_next d := s)\<rparr>"
| "clone (MElem tg as ms) d =
     (let n = vd_next d;
          (ns, d1) = clones ms (d\<lparr>vd_next := Suc n, vd_element := (vd_element d)(n := True),
            vd_attrs := (vd_attrs d)(n := map_of as), vd_kids := (vd_kids d)(n := [])\<rparr>)
      in d1\<lparr>vd_kids := (vd_kids d1)(n := ns)\<rparr>)"
| "clones [] d = ([], d)"
| "clones (m # ms) d =
     (let n = vd_next d; (ns, d1) = clones ms (clone m d) in (n # ns, d1))"

text \<open>
  The tree walker visits the elements in document order. A tree of \<open>vd_next d\<close> nodes is not deeper than that
  many levels.
\<close>

fun walker :: "nat \<Rightarrow> vdom \<Rightarrow> nat \<Rightarrow> nat list" where
  "walker 0 d n = []"
| "walker (Suc f) d n = (if vd_element d n then n # concat (map (walker f d) (vd_kids d n)) else [])"

definition applyBindings :: "tbinding list \<Rightarrow> nat \<Rightarrow> vdom \<Rightarrow> instance_binding list" where
  "applyBindings bs element d =
     map (\<lambda>b. \<lparr>ib_binding = b,
                targetNode = (if truthy_str (attributeName b) then Some element else firstChild d element),
                targetParentNode = None, currentExpression = EUndef\<rparr>) bs"

fun walk_bindings :: "nat \<Rightarrow> nat list \<Rightarrow> element_bindings \<Rightarrow> vdom \<Rightarrow> instance_binding list" where
  "walk_bindings i [] etb d = []"
| "walk_bindings i (n # ns) etb d =
     (case map_of etb (Some i) of Some bs \<Rightarrow> applyBindings bs n d | None \<Rightarrow> []) @ walk_bindings (i + 1) ns etb d"

definition traverseAndSetupBindings :: "nat \<Rightarrow> element_bindings \<Rightarrow> vdom \<Rightarrow> instance_binding list" where
  "traverseAndSetupBindings rootElement etb d =
     (case map_of etb (Some 0) of
        Some bs \<Rightarrow>
          if length etb = 1 then applyBindings bs rootElement d else walk_bindings 0 (walker (vd_next d) d rootElement) etb d
      | None \<Rightarrow> walk_bindings 0 (walker (vd_next d) d rootElement) etb d)"

text \<open>The first element of the parsed markup.\<close>

fun first_markup_element :: "markup list \<Rightarrow> markup option" where
  "first_markup_element [] = None"
| "first_markup_element (MElem tg as ms # _) = Some (MElem tg as ms)"
| "first_markup_element (MText _ # ms) = first_markup_element ms"

definition parseHtml ::
    "(jstr \<Rightarrow> markup list) \<Rightarrow> jstr list \<Rightarrow> vdom \<Rightarrow> js_error + nat \<times> instance_binding list \<times> vdom" where
  "parseHtml innerHTML tokens d =
     (case template_parse tokens of
        Inl er \<Rightarrow> Inl er
      | Inr (html, etb) \<Rightarrow>
          (case first_markup_element (innerHTML html) of
             None \<Rightarrow> Inl TypeError
           | Some m \<Rightarrow>
               let rootElement = vd_next d; d1 = clone m d
               in Inr (rootElement, traverseAndSetupBindings rootElement etb d1, d1)))"

section \<open>The framework\<close>

datatype cache_key = Unkeyed | Keyed jstr | KeyedInt int

text \<open>A template is named by the number of its tagged literal; \<open>Unkeyed\<close> is the symbol of the code.\<close>

record framework =
  fw_dom :: vdom
  domInstances :: "nat \<Rightarrow> cache_key \<rightharpoonup> nat \<times> instance_binding list"
  domInstanceCacheKey :: cache_key

text \<open>What the browser gives: its parser, the text of a node, \<open>JSON.stringify\<close>, and whether it has \<open>replaceChildren\<close>.\<close>

record renderer =
  r_innerHTML :: "jstr \<Rightarrow> markup list"
  r_text :: "nat \<Rightarrow> jstr"
  r_stringify :: "jstr option \<Rightarrow> jstr"
  r_hasRC :: bool

definition updateDomInstance ::
    "renderer \<Rightarrow> nat \<Rightarrow> nat \<Rightarrow> instance_binding list \<Rightarrow> expr list \<Rightarrow> framework \<Rightarrow>
     (js_error \<times> framework) + (nat \<times> framework)" where
  "updateDomInstance r tid n ibs expressions fw =
     (let store = (\<lambda>ibs1 d1. fw\<lparr>fw_dom := d1, domInstances := (domInstances fw)(tid :=
            (domInstances fw tid)(domInstanceCacheKey fw \<mapsto> (n, ibs1)))\<rparr>)
      in case patch (r_hasRC r) (r_text r) expressions ibs (fw_dom fw) of
           Inl (er, (ibs1, d1)) \<Rightarrow> Inl (er, store ibs1 d1)
         | Inr (ibs1, d1) \<Rightarrow> Inr (n, store ibs1 d1))"

definition html_tag ::
    "renderer \<Rightarrow> jstr list \<Rightarrow> nat \<Rightarrow> expr list \<Rightarrow> framework \<Rightarrow> (js_error \<times> framework) + (nat \<times> framework)" where
  "html_tag r tokens tid expressions fw =
     (case domInstances fw tid (domInstanceCacheKey fw) of
        Some (n, ibs) \<Rightarrow> updateDomInstance r tid n ibs expressions fw
      | None \<Rightarrow>
          (case parseHtml (r_innerHTML r) tokens (fw_dom fw) of
             Inl er \<Rightarrow> Inl (er, fw)
           | Inr (n, ibs, d) \<Rightarrow> updateDomInstance r tid n ibs expressions (fw\<lparr>fw_dom := d\<rparr>)))"

fun map_items ::
    "('a \<Rightarrow> nat \<Rightarrow> framework \<Rightarrow> (js_error \<times> framework) + (nat \<times> framework)) \<Rightarrow> ('a \<Rightarrow> cache_key) \<Rightarrow> nat \<Rightarrow>
     'a list \<Rightarrow> framework \<Rightarrow> (js_error \<times> framework) + (nat list \<times> framework)" where
  "map_items callback keyFunction i [] fw = Inr ([], fw)"
| "map_items callback keyFunction i (x # xs) fw =
     (let originalCacheKey = domInstanceCacheKey fw
      in case callback x i (fw\<lparr>domInstanceCacheKey := keyFunction x\<rparr>) of
           Inl (er, fw1) \<Rightarrow> Inl (er, fw1\<lparr>domInstanceCacheKey := originalCacheKey\<rparr>)
         | Inr (n, fw1) \<Rightarrow>
             (case map_items callback keyFunction (i + 1) xs (fw1\<lparr>domInstanceCacheKey := originalCacheKey\<rparr>) of
                Inl er \<Rightarrow> Inl er
              | Inr (ns, fw2) \<Rightarrow> Inr (n # ns, fw2)))"

text \<open>The expressions of an emoji button, and the list of buttons.\<close>

definition str_or_undefined :: "jstr option \<Rightarrow> jstr" where
  "str_or_undefined s = (case s of None \<Rightarrow> js ''undefined'' | Some w \<Rightarrow> w)"

definition emoji_key :: "jstr \<Rightarrow> emoji_summary \<Rightarrow> jstr" where
  "emoji_key pfx emoji = pfx @ js ''-'' @ str_or_undefined (su_id emoji)"

definition emoji_exprs ::
    "renderer \<Rightarrow> int \<Rightarrow> int \<Rightarrow> bool \<Rightarrow> jstr \<Rightarrow> emoji_summary \<Rightarrow> nat \<Rightarrow> expr list" where
  "emoji_exprs r activeSearchItem currentSkinTone searchMode pfx emoji i =
     [EStr (if searchMode then js ''option'' else js ''menuitem''),
      if searchMode then EBool (int i = activeSearchItem) else EStr [],
      EStr (labelWithSkin emoji currentSkinTone),
      EStr (titleForEmoji emoji),
      EStr (js ''emoji'' @ (if searchMode \<and> int i = activeSearchItem then js '' active'' else []) @
        (if truthy_str (su_unicode emoji) then [] else js '' custom-emoji'')),
      EStr (emoji_key pfx emoji),
      EStr (if truthy_str (su_unicode emoji) then []
            else js ''--custom-emoji-background: url('' @ r_stringify r (su_url emoji) @ js '')''),
      EStr (if truthy_str (su_unicode emoji) then the (unicodeWithSkin emoji currentSkinTone) else [])]"

definition EMOJI_TID :: nat where
  "EMOJI_TID = 1"

definition emojiList ::
    "renderer \<Rightarrow> int \<Rightarrow> int \<Rightarrow> emoji_summary list \<Rightarrow> bool \<Rightarrow> jstr \<Rightarrow> framework \<Rightarrow>
     (js_error \<times> framework) + (nat list \<times> framework)" where
  "emojiList r activeSearchItem currentSkinTone emojis searchMode pfx fw =
     map_items
       (\<lambda>emoji i. html_tag r (tokens_of emoji_button) EMOJI_TID
          (emoji_exprs r activeSearchItem currentSkinTone searchMode pfx emoji i))
       (\<lambda>emoji. Keyed (emoji_key pfx emoji)) 0 emojis fw"

section \<open>What a patched instance shows\<close>

fun primitive :: "expr \<Rightarrow> bool" where
  "primitive (EStr _) = True"
| "primitive (EBool _) = True"
| "primitive (EInt _) = True"
| "primitive _ = False"

text \<open>The place of a binding: an attribute of a node, or the value of a text node.\<close>

definition slot :: "instance_binding \<Rightarrow> nat \<times> jstr option" where
  "slot ib = (the (targetNode ib), attributeName (ib_binding ib))"

definition slot_text :: "(nat \<Rightarrow> jstr) \<Rightarrow> tbinding \<Rightarrow> expr \<Rightarrow> jstr" where
  "slot_text obj b e =
     (case attributeName b of
        None \<Rightarrow> expr_str obj e
      | Some _ \<Rightarrow> the (attributeValuePre b) @ expr_str obj e @ the (attributeValuePost b))"

definition slot_value :: "vdom \<Rightarrow> nat \<times> jstr option \<Rightarrow> jstr option" where
  "slot_value d sl = (case snd sl of None \<Rightarrow> Some (vd_value d (fst sl)) | Some a \<Rightarrow> vd_attrs d (fst sl) a)"

definition slot_ready :: "vdom \<Rightarrow> instance_binding \<Rightarrow> bool" where
  "slot_ready d ib \<longleftrightarrow> targetNode ib \<noteq> None \<and> attributeName (ib_binding ib) \<noteq> Some [] \<and>
     (attributeName (ib_binding ib) = None \<longrightarrow> \<not> vd_element d (the (targetNode ib)))"

definition slot_shows :: "(nat \<Rightarrow> jstr) \<Rightarrow> vdom \<Rightarrow> instance_binding \<Rightarrow> bool" where
  "slot_shows obj d ib \<longleftrightarrow>
     (currentExpression ib = EUndef \<or> slot_value d (slot ib) = Some (slot_text obj (ib_binding ib) (currentExpression ib)))"

text \<open>Writing a slot.\<close>

definition write_slot :: "nat \<times> jstr option \<Rightarrow> jstr \<Rightarrow> vdom \<Rightarrow> vdom" where
  "write_slot sl v d =
     (case snd sl of
        None \<Rightarrow> d\<lparr>vd_value := (vd_value d)(fst sl := v)\<rparr>
      | Some a \<Rightarrow> setAttribute (fst sl) a v d)"

lemma slot_write: "slot_value (write_slot sl v d) sl' = (if sl' = sl then Some v else slot_value d sl')"
  by (cases sl; cases sl') (auto simp: slot_value_def write_slot_def setAttribute_def split: option.split)

lemma write_slot_frame [simp]:
  "vd_next (write_slot sl v d) = vd_next d" "vd_element (write_slot sl v d) = vd_element d"
  "vd_kids (write_slot sl v d) = vd_kids d"
  by (simp_all add: write_slot_def setAttribute_def split: option.split)

lemma patch_one_primitive:
  assumes "slot_ready d ib" "slot_shows obj d ib" "expressionIndex (ib_binding ib) < length es"
    and "primitive (es ! expressionIndex (ib_binding ib))"
  shows "\<exists>d1. patch_one rc obj es ib d = Inr (ib\<lparr>currentExpression := es ! expressionIndex (ib_binding ib)\<rparr>, d1) \<and>
    (\<forall>sl. slot_value d1 sl = (if sl = slot ib then Some (slot_text obj (ib_binding ib) (es ! expressionIndex (ib_binding ib)))
        else slot_value d sl)) \<and>
    vd_next d1 = vd_next d \<and> vd_element d1 = vd_element d \<and> vd_kids d1 = vd_kids d"
proof -
  let ?e = "es ! expressionIndex (ib_binding ib)" and ?b = "ib_binding ib"
  obtain t where t: "targetNode ib = Some t" using assms(1) by (auto simp: slot_ready_def)
  show ?thesis
  proof (cases "same_expr (currentExpression ib) ?e")
    case True
    then have c: "currentExpression ib = ?e" using assms(4) by (cases "currentExpression ib"; cases ?e) auto
    then have "slot_value d (slot ib) = Some (slot_text obj ?b ?e)"
      using assms(2,4) by (auto simp: slot_shows_def)
    moreover have "ib\<lparr>currentExpression := ?e\<rparr> = ib" using c by (cases ib) simp
    ultimately show ?thesis
      using True assms(3) by (intro exI [of _ d]) (auto simp: patch_one_def Let_def)
  next
    case False
    have "patch_one rc obj es ib d = Inr (ib\<lparr>currentExpression := ?e\<rparr>, write_slot (slot ib) (slot_text obj ?b ?e) d)"
    proof (cases "attributeName ?b")
      case None
      then have "set_nodeValue t v d = write_slot (t, None) v d" for v
        using assms(1) t by (simp add: set_nodeValue_def write_slot_def slot_ready_def)
      then show ?thesis
        using False assms(3,4) t None
        by (cases ?e) (simp_all add: patch_one_def Let_def patch_text_def slot_def slot_text_def)
    next
      case (Some a)
      then show ?thesis
        using False assms(1,3) t by (simp add: patch_one_def Let_def slot_def slot_text_def write_slot_def slot_ready_def)
    qed
    then show ?thesis by (auto simp: slot_write)
  qed
qed

text \<open>
  A patched instance shows its expressions. When every place of an instance shows the expression that was
  last written to it, or none was written yet, patching with primitive values leaves every place with the
  text of its new expression, although places whose expression is the same as before are skipped; no other
  attribute, text or child changes.
\<close>

theorem patch_shows_expressions:
  assumes "list_all (\<lambda>ib. slot_ready d ib \<and> slot_shows obj d ib \<and> expressionIndex (ib_binding ib) < length es) ibs"
    and "list_all primitive es" "distinct (map slot ibs)"
  shows "\<exists>d1. patch rc obj es ibs d = Inr (map (\<lambda>ib. ib\<lparr>currentExpression := es ! expressionIndex (ib_binding ib)\<rparr>) ibs, d1) \<and>
    map (\<lambda>ib. slot_value d1 (slot ib)) ibs =
      map (\<lambda>ib. Some (slot_text obj (ib_binding ib) (es ! expressionIndex (ib_binding ib)))) ibs \<and>
    (\<forall>sl. sl \<in> slot ` set ibs \<or> slot_value d1 sl = slot_value d sl) \<and>
    vd_next d1 = vd_next d \<and> vd_element d1 = vd_element d \<and> vd_kids d1 = vd_kids d"
  using assms
proof (induction ibs arbitrary: d)
  case (Cons ib ibs)
  let ?e = "es ! expressionIndex (ib_binding ib)"
  have "primitive ?e" using Cons.prems(1,2) by (simp add: list_all_iff)
  then obtain d1 where d1: "patch_one rc obj es ib d = Inr (ib\<lparr>currentExpression := ?e\<rparr>, d1)"
    "\<And>sl. slot_value d1 sl = (if sl = slot ib then Some (slot_text obj (ib_binding ib) ?e) else slot_value d sl)"
    "vd_next d1 = vd_next d" "vd_element d1 = vd_element d" "vd_kids d1 = vd_kids d"
    using patch_one_primitive [of d ib obj es rc] Cons.prems(1) by auto
  have "list_all (\<lambda>ib. slot_ready d1 ib \<and> slot_shows obj d1 ib \<and> expressionIndex (ib_binding ib) < length es) ibs"
    unfolding list_all_iff
  proof (intro ballI)
    fix j assume j: "j \<in> set ibs"
    have "slot ib \<notin> set (map slot ibs)" "slot j \<in> set (map slot ibs)" using Cons.prems(3) j by simp_all
    then have "slot j \<noteq> slot ib" by metis
    then show "slot_ready d1 j \<and> slot_shows obj d1 j \<and> expressionIndex (ib_binding j) < length es"
      using Cons.prems(1) j d1(4) by (simp add: list_all_iff slot_ready_def slot_shows_def d1(2))
  qed
  from Cons.IH [OF this Cons.prems(2)] Cons.prems(3) obtain d2 where d2:
    "patch rc obj es ibs d1 = Inr (map (\<lambda>ib. ib\<lparr>currentExpression := es ! expressionIndex (ib_binding ib)\<rparr>) ibs, d2)"
    "map (\<lambda>ib. slot_value d2 (slot ib)) ibs =
      map (\<lambda>ib. Some (slot_text obj (ib_binding ib) (es ! expressionIndex (ib_binding ib)))) ibs"
    "\<And>sl. sl \<in> slot ` set ibs \<or> slot_value d2 sl = slot_value d1 sl"
    "vd_next d2 = vd_next d1" "vd_element d2 = vd_element d1" "vd_kids d2 = vd_kids d1"
    by auto
  have "slot_value d2 (slot ib) = Some (slot_text obj (ib_binding ib) ?e)"
    using d2(3) [of "slot ib"] d1(2) Cons.prems(3) by auto
  moreover have "sl \<in> slot ` set (ib # ibs) \<or> slot_value d2 sl = slot_value d sl" for sl
    using d2(3) [of sl] d1(2) [of sl] by auto
  ultimately show ?case
    using d1 d2 by (intro exI [of _ d2]) simp
qed simp

section \<open>The list of emoji\<close>

definition button_names :: "string list" where
  "button_names = [''role'', ''aria-selected'', ''aria-label'', ''title'', ''class'', ''id'', ''style'']"

text \<open>What the parser of the browser makes of the markup of an emoji button.\<close>

definition button_markup :: markup where
  "button_markup = MElem (js ''button'') (map (\<lambda>a. (js a, [])) button_names) [MText [32]]"

definition button_hole :: "nat \<Rightarrow> (jstr \<times> jstr \<times> jstr) option" where
  "button_hole i = (if i < 7 then Some (js (button_names ! i), [], []) else None)"

definition button_ib :: "nat \<Rightarrow> expr list \<Rightarrow> nat \<Rightarrow> instance_binding" where
  "button_ib n es i = \<lparr>ib_binding = hole_binding i (button_hole i),
     targetNode = Some (if i < 7 then n else Suc n), targetParentNode = None, currentExpression = es ! i\<rparr>"

definition button_ibs :: "nat \<Rightarrow> expr list \<Rightarrow> instance_binding list" where
  "button_ibs n es = map (button_ib n es) [0..<8]"

lemma upt_8: "[0..<8] = [0, Suc 0, 2, 3, 4, 5, 6, 7]"
  by (simp add: upt_rec)

lemma button_holes: "holes 0 emoji_button = map (\<lambda>i. (0, button_hole i)) [0..<8]"
  by (simp add: emoji_button_def elem_hole_def dyn_def button_hole_def button_names_def upt_8)

lemma parse_button:
  assumes "innerHTML (flat_tree emoji_button) = [button_markup]"
  shows "parseHtml innerHTML (tokens_of emoji_button) d =
    Inr (vd_next d, button_ibs (vd_next d) (replicate 8 EUndef), clone button_markup d)"
proof -
  have "bind_holes 0 (holes 0 emoji_button) [] = [(Some 0, map (\<lambda>i. hole_binding i (button_hole i)) [0..<8])]"
    unfolding button_holes by (simp add: upt_8 add_binding_def numeral_eq_Suc)
  moreover have "firstChild (clone button_markup d) (vd_next d) = Some (Suc (vd_next d))"
    by (simp add: button_markup_def firstChild_def Let_def)
  ultimately show ?thesis
    using assms parse_tree [OF wf_button]
    by (simp add: parseHtml_def traverseAndSetupBindings_def Let_def button_markup_def applyBindings_def button_ibs_def button_ib_def
        button_hole_def upt_8 button_names_def js_def)
qed

definition button_slot :: "nat \<Rightarrow> nat \<Rightarrow> nat \<times> jstr option" where
  "button_slot n i = (if i < 7 then (n, Some (js (button_names ! i))) else (Suc n, None))"

lemma button_ib_facts:
  "slot (button_ib n es i) = button_slot n i" "expressionIndex (ib_binding (button_ib n es i)) = i"
  "slot_text obj (ib_binding (button_ib n es i)) e = expr_str obj e" "currentExpression (button_ib n es i) = es ! i"
  "targetNode (button_ib n es i) = Some (fst (button_slot n i))"
  "attributeName (ib_binding (button_ib n es i)) = None \<longleftrightarrow> \<not> i < 7"
  "(button_ib n es i)\<lparr>currentExpression := es' ! i\<rparr> = button_ib n es' i"
  by (auto simp: button_ib_def slot_def button_slot_def slot_text_def button_hole_def)

lemma button_name_nonempty: "attributeName (ib_binding (button_ib n es i)) \<noteq> Some []"
proof (cases "i < 7")
  case True
  have "\<forall>x\<in>set button_names. js x \<noteq> []" by (simp add: button_names_def)
  moreover have "button_names ! i \<in> set button_names" using True by (intro nth_mem) (simp add: button_names_def)
  ultimately have "js (button_names ! i) \<noteq> []" by blast
  then show ?thesis using True by (simp add: button_ib_def button_hole_def)
qed (simp add: button_ib_def button_hole_def)

lemma button_slot_node: "fst (button_slot n i) \<in> {n, Suc n}" "\<not> i < 7 \<Longrightarrow> fst (button_slot n i) = Suc n"
  by (auto simp: button_slot_def)

lemma button_slots: "map slot (button_ibs n es) = map (button_slot n) [0..<8]"
  by (simp add: button_ibs_def button_ib_facts)

lemma distinct_button_slots: "distinct (map (button_slot n) [0..<8])"
  by (simp add: upt_8 button_slot_def button_names_def)

text \<open>
  The cached buttons: each has its own two nodes, the button and its text, and shows what was last written.
\<close>

definition button_ok :: "renderer \<Rightarrow> vdom \<Rightarrow> nat \<times> instance_binding list \<Rightarrow> bool" where
  "button_ok r d x \<longleftrightarrow>
     (\<exists>es. snd x = button_ibs (fst x) es) \<and> Suc (fst x) < vd_next d \<and> \<not> vd_element d (Suc (fst x)) \<and>
     list_all (slot_shows (r_text r) d) (snd x)"

definition buttons_ok :: "renderer \<Rightarrow> framework \<Rightarrow> bool" where
  "buttons_ok r fw \<longleftrightarrow>
     (\<forall>k x. domInstances fw EMOJI_TID k = Some x \<longrightarrow> button_ok r (fw_dom fw) x) \<and>
     (\<forall>k k' x x'. domInstances fw EMOJI_TID k = Some x \<longrightarrow> domInstances fw EMOJI_TID k' = Some x' \<longrightarrow> k \<noteq> k' \<longrightarrow>
        {fst x, Suc (fst x)} \<inter> {fst x', Suc (fst x')} = {})"

lemma buttons_okD: "buttons_ok r fw \<Longrightarrow> domInstances fw EMOJI_TID k = Some x \<Longrightarrow> button_ok r (fw_dom fw) x"
  unfolding buttons_ok_def by blast

lemma button_ok_cong:
  assumes "button_ok r d x" "vd_next d \<le> vd_next d'" "vd_element d' (Suc (fst x)) = vd_element d (Suc (fst x))"
    and "\<And>sl. fst sl \<in> {fst x, Suc (fst x)} \<Longrightarrow> slot_value d' sl = slot_value d sl"
  shows "button_ok r d' x"
proof -
  obtain es where es: "snd x = button_ibs (fst x) es" using assms(1) by (auto simp: button_ok_def)
  have "slot_shows (r_text r) d' ib" if "ib \<in> set (snd x)" for ib
  proof -
    have "fst (slot ib) \<in> {fst x, Suc (fst x)}"
      using that es by (auto simp: button_ibs_def button_ib_facts button_slot_def split: if_splits)
    from assms(4) [OF this] show ?thesis
      using assms(1) that by (simp add: button_ok_def slot_shows_def list_all_iff)
  qed
  then show ?thesis using assms by (auto simp: button_ok_def list_all_iff)
qed

lemma update_button:
  assumes "button_ok r (fw_dom fw) (n, ibs)" "length es = 8" "list_all primitive es"
  shows "\<exists>d1. updateDomInstance r EMOJI_TID n ibs es fw =
      Inr (n, fw\<lparr>fw_dom := d1, domInstances := (domInstances fw)(EMOJI_TID :=
         (domInstances fw EMOJI_TID)(domInstanceCacheKey fw \<mapsto> (n, button_ibs n es)))\<rparr>) \<and>
    button_ok r d1 (n, button_ibs n es) \<and> vd_next d1 = vd_next (fw_dom fw) \<and> vd_element d1 = vd_element (fw_dom fw) \<and>
    (\<forall>sl. fst sl \<in> {n, Suc n} \<or> slot_value d1 sl = slot_value (fw_dom fw) sl)"
proof -
  let ?d = "fw_dom fw" and ?obj = "r_text r"
  obtain es0 where ibs: "ibs = button_ibs n es0" and n: "Suc n < vd_next ?d" "\<not> vd_element ?d (Suc n)"
    and sh: "list_all (slot_shows ?obj ?d) ibs" using assms(1) by (auto simp: button_ok_def)
  have ib: "slot_ready ?d ib \<and> expressionIndex (ib_binding ib) < length es" if "ib \<in> set ibs" for ib
    using that n assms(2) by (auto simp: ibs button_ibs_def button_ib_facts slot_ready_def button_slot_node(2) button_name_nonempty)
  have "list_all (\<lambda>ib. slot_ready ?d ib \<and> slot_shows ?obj ?d ib \<and> expressionIndex (ib_binding ib) < length es) ibs"
    using ib sh by (auto simp: list_all_iff)
  moreover have "distinct (map slot ibs)" unfolding ibs button_slots by (rule distinct_button_slots)
  ultimately obtain d1 where d1: "patch (r_hasRC r) ?obj es ibs ?d =
      Inr (map (\<lambda>ib. ib\<lparr>currentExpression := es ! expressionIndex (ib_binding ib)\<rparr>) ibs, d1)"
    "map (\<lambda>ib. slot_value d1 (slot ib)) ibs =
      map (\<lambda>ib. Some (slot_text ?obj (ib_binding ib) (es ! expressionIndex (ib_binding ib)))) ibs"
    "\<And>sl. sl \<in> slot ` set ibs \<or> slot_value d1 sl = slot_value ?d sl"
    "vd_next d1 = vd_next ?d" "vd_element d1 = vd_element ?d"
    using patch_shows_expressions [of ?d ?obj es ibs "r_hasRC r"] assms(3) by blast
  have new: "map (\<lambda>ib. ib\<lparr>currentExpression := es ! expressionIndex (ib_binding ib)\<rparr>) ibs = button_ibs n es"
    unfolding ibs by (simp add: button_ibs_def button_ib_facts)
  have "slot_value d1 (button_slot n i) = Some (expr_str ?obj (es ! i))" if "i < 8" for i
    using d1(2) that by (simp add: ibs button_ibs_def button_ib_facts)
  then have "slot_shows ?obj d1 ib" if "ib \<in> set (button_ibs n es)" for ib
    using that by (auto simp: button_ibs_def slot_shows_def button_ib_facts)
  then have "button_ok r d1 (n, button_ibs n es)" using n d1(4,5) by (auto simp: button_ok_def list_all_iff)
  moreover have "fst sl \<in> {n, Suc n} \<or> slot_value d1 sl = slot_value ?d sl" for sl
  proof (cases "sl \<in> slot ` set ibs")
    case True
    then obtain ib where "ib \<in> set ibs" "sl = slot ib" by auto
    then show ?thesis by (auto simp: ibs button_ibs_def button_ib_facts button_slot_def)
  qed (use d1(3) in blast)
  ultimately show ?thesis using d1(1,4,5) by (intro exI [of _ d1]) (simp add: updateDomInstance_def Let_def new)
qed

lemma clone_button:
  "vd_next (clone button_markup d) = Suc (Suc (vd_next d))"
  "n < vd_next d \<Longrightarrow> vd_element (clone button_markup d) n = vd_element d n"
  "fst sl < vd_next d \<Longrightarrow> slot_value (clone button_markup d) sl = slot_value d sl"
  "\<not> vd_element (clone button_markup d) (Suc (vd_next d))"
  by (auto simp: button_markup_def Let_def slot_value_def split: option.split)

text \<open>One button: what the template tag does for a key.\<close>

lemma html_button:
  assumes "buttons_ok r fw" "r_innerHTML r (flat_tree emoji_button) = [button_markup]"
    and "length es = 8" "list_all primitive es"
  shows "\<exists>n fw1. html_tag r (tokens_of emoji_button) EMOJI_TID es fw = Inr (n, fw1) \<and> buttons_ok r fw1 \<and>
    domInstances fw1 EMOJI_TID = (domInstances fw EMOJI_TID)(domInstanceCacheKey fw \<mapsto> (n, button_ibs n es)) \<and>
    domInstanceCacheKey fw1 = domInstanceCacheKey fw \<and>
    (\<forall>x. domInstances fw EMOJI_TID (domInstanceCacheKey fw) = Some x \<longrightarrow> fst x = n)"
proof -
  let ?k = "domInstanceCacheKey fw" and ?I = "domInstances fw EMOJI_TID"
  obtain n ibs d where ready: "button_ok r d (n, ibs)"
    "html_tag r (tokens_of emoji_button) EMOJI_TID es fw = updateDomInstance r EMOJI_TID n ibs es (fw\<lparr>fw_dom := d\<rparr>)"
    and same: "\<forall>x. ?I ?k = Some x \<longrightarrow> fst x = n"
    and others: "\<And>k x. ?I k = Some x \<Longrightarrow> k \<noteq> ?k \<Longrightarrow> button_ok r d x \<and> {fst x, Suc (fst x)} \<inter> {n, Suc n} = {}"
  proof (cases "?I ?k")
    case (Some x)
    show ?thesis
    proof (rule that)
      show "button_ok r (fw_dom fw) (fst x, snd x)"
        using buttons_okD [OF assms(1) Some] by simp
      show "html_tag r (tokens_of emoji_button) EMOJI_TID es fw =
          updateDomInstance r EMOJI_TID (fst x) (snd x) es (fw\<lparr>fw_dom := fw_dom fw\<rparr>)"
        using Some by (simp add: html_tag_def split: prod.split)
      show "button_ok r (fw_dom fw) y \<and> {fst y, Suc (fst y)} \<inter> {fst x, Suc (fst x)} = {}"
        if "?I k = Some y" "k \<noteq> ?k" for k y
        using that Some assms(1) unfolding buttons_ok_def by metis
    qed (simp add: Some)
  next
    case None
    let ?d = "clone button_markup (fw_dom fw)" and ?n = "vd_next (fw_dom fw)"
    have "button_ok r ?d (?n, button_ibs ?n (replicate 8 EUndef))"
      by (auto simp: button_ok_def clone_button list_all_iff button_ibs_def slot_shows_def button_ib_facts)
    moreover have "button_ok r ?d x \<and> {fst x, Suc (fst x)} \<inter> {?n, Suc ?n} = {}" if "?I k = Some x" for k x
    proof -
      have x: "button_ok r (fw_dom fw) x" using buttons_okD [OF assms(1) that] .
      then have lt: "Suc (fst x) < ?n" by (simp add: button_ok_def)
      have "button_ok r ?d x"
        by (rule button_ok_cong [OF x]) (use lt in \<open>auto simp: clone_button\<close>)
      with lt show ?thesis by auto
    qed
    ultimately show ?thesis
      using that [of ?d ?n] None parse_button [of "r_innerHTML r", OF assms(2)] by (simp add: html_tag_def)
  qed
  have "\<exists>d1. updateDomInstance r EMOJI_TID n ibs es (fw\<lparr>fw_dom := d\<rparr>) =
      Inr (n, fw\<lparr>fw_dom := d1, domInstances := (domInstances fw)(EMOJI_TID := ?I(?k \<mapsto> (n, button_ibs n es)))\<rparr>) \<and>
    button_ok r d1 (n, button_ibs n es) \<and> vd_next d1 = vd_next d \<and> vd_element d1 = vd_element d \<and>
    (\<forall>sl. fst sl \<in> {n, Suc n} \<or> slot_value d1 sl = slot_value d sl)"
    using update_button [of r "fw\<lparr>fw_dom := d\<rparr>" n ibs es] ready(1) assms(3,4) by simp
  then obtain d1 where d1: "updateDomInstance r EMOJI_TID n ibs es (fw\<lparr>fw_dom := d\<rparr>) =
      Inr (n, fw\<lparr>fw_dom := d1, domInstances := (domInstances fw)(EMOJI_TID := ?I(?k \<mapsto> (n, button_ibs n es)))\<rparr>)"
    "button_ok r d1 (n, button_ibs n es)" "vd_next d1 = vd_next d" "vd_element d1 = vd_element d"
    "\<And>sl. fst sl \<in> {n, Suc n} \<or> slot_value d1 sl = slot_value d sl"
    by blast
  have keep: "button_ok r d1 x" if "?I k = Some x" "k \<noteq> ?k" for k x
  proof (rule button_ok_cong)
    show "slot_value d1 sl = slot_value d sl" if "fst sl \<in> {fst x, Suc (fst x)}" for sl
      using others [OF \<open>?I k = Some x\<close> \<open>k \<noteq> ?k\<close>] that d1(5) [of sl] by blast
  qed (use others [OF that] d1(3,4) in auto)
  let ?fw = "fw\<lparr>fw_dom := d1, domInstances := (domInstances fw)(EMOJI_TID := ?I(?k \<mapsto> (n, button_ibs n es)))\<rparr>"
  have "buttons_ok r ?fw"
    unfolding buttons_ok_def
  proof (intro conjI allI impI)
    show "button_ok r (fw_dom ?fw) x" if "domInstances ?fw EMOJI_TID k = Some x" for k x
      using that keep d1(2) by (cases "k = ?k") auto
    show "{fst x, Suc (fst x)} \<inter> {fst x', Suc (fst x')} = {}"
      if kk: "domInstances ?fw EMOJI_TID k = Some x" "domInstances ?fw EMOJI_TID k' = Some x'" "k \<noteq> k'" for k k' x x'
    proof -
      consider "k = ?k" "k' \<noteq> ?k" | "k' = ?k" "k \<noteq> ?k" | "k \<noteq> ?k" "k' \<noteq> ?k" using kk(3) by metis
      then show ?thesis
      proof cases
        case 1
        then show ?thesis using kk others [of k' x'] by auto
      next
        case 2
        then show ?thesis using kk others [of k x] by auto
      next
        case 3
        then have "?I k = Some x" "?I k' = Some x'" using kk(1,2) by simp_all
        then show ?thesis using kk(3) assms(1) unfolding buttons_ok_def by blast
      qed
    qed
  qed
  then show ?thesis using ready(2) d1(1) same by (intro exI [of _ n] exI [of _ ?fw]) simp
qed

lemma emoji_exprs_ok: "length (emoji_exprs r a t sm pfx e i) = 8" "list_all primitive (emoji_exprs r a t sm pfx e i)"
  by (simp_all add: emoji_exprs_def)

lemma map_buttons:
  assumes "buttons_ok r fw" "r_innerHTML r (flat_tree emoji_button) = [button_markup]"
    and "distinct (map kf xs)" "\<And>x i. length (ex x i) = 8 \<and> list_all primitive (ex x i)"
  shows "\<exists>ns fw1. map_items (\<lambda>x i. html_tag r (tokens_of emoji_button) EMOJI_TID (ex x i)) kf j xs fw = Inr (ns, fw1) \<and>
    buttons_ok r fw1 \<and> length ns = length xs \<and> domInstanceCacheKey fw1 = domInstanceCacheKey fw \<and>
    (\<forall>i < length xs. domInstances fw1 EMOJI_TID (kf (xs ! i)) = Some (ns ! i, button_ibs (ns ! i) (ex (xs ! i) (j + i)))) \<and>
    (\<forall>k. k \<notin> kf ` set xs \<longrightarrow> domInstances fw1 EMOJI_TID k = domInstances fw EMOJI_TID k) \<and>
    (\<forall>i < length xs. \<forall>x. domInstances fw EMOJI_TID (kf (xs ! i)) = Some x \<longrightarrow> fst x = ns ! i)"
  using assms(1,3)
proof (induction xs arbitrary: fw j)
  case (Cons x xs)
  let ?fw = "fw\<lparr>domInstanceCacheKey := kf x\<rparr>"
  have "buttons_ok r ?fw" using Cons.prems(1) by (simp add: buttons_ok_def)
  from html_button [OF this assms(2), of "ex x j"] assms(4) obtain n fw1 where f1:
    "html_tag r (tokens_of emoji_button) EMOJI_TID (ex x j) ?fw = Inr (n, fw1)" "buttons_ok r fw1"
    "domInstances fw1 EMOJI_TID = (domInstances fw EMOJI_TID)(kf x \<mapsto> (n, button_ibs n (ex x j)))"
    "\<forall>y. domInstances fw EMOJI_TID (kf x) = Some y \<longrightarrow> fst y = n" by auto
  let ?fw1 = "fw1\<lparr>domInstanceCacheKey := domInstanceCacheKey fw\<rparr>"
  have "buttons_ok r ?fw1" using f1(2) by (simp add: buttons_ok_def)
  from Cons.IH [OF this, of "Suc j"] Cons.prems(2) obtain ns fw2 where f2:
    "map_items (\<lambda>x i. html_tag r (tokens_of emoji_button) EMOJI_TID (ex x i)) kf (Suc j) xs ?fw1 = Inr (ns, fw2)"
    "buttons_ok r fw2" "length ns = length xs" "domInstanceCacheKey fw2 = domInstanceCacheKey fw"
    "\<And>i. i < length xs \<Longrightarrow>
      domInstances fw2 EMOJI_TID (kf (xs ! i)) = Some (ns ! i, button_ibs (ns ! i) (ex (xs ! i) (Suc j + i)))"
    "\<And>k. k \<notin> kf ` set xs \<Longrightarrow> domInstances fw2 EMOJI_TID k = domInstances fw1 EMOJI_TID k"
    "\<And>i y. i < length xs \<Longrightarrow> domInstances fw1 EMOJI_TID (kf (xs ! i)) = Some y \<Longrightarrow> fst y = ns ! i" by auto
  have x: "kf x \<notin> kf ` set xs" using Cons.prems(2) by simp
  then have "domInstances fw2 EMOJI_TID (kf x) = Some (n, button_ibs n (ex x j))" using f2(6) f1(3) by simp
  then have 1: "domInstances fw2 EMOJI_TID (kf ((x # xs) ! i)) =
      Some ((n # ns) ! i, button_ibs ((n # ns) ! i) (ex ((x # xs) ! i) (j + i)))" if "i < length (x # xs)" for i
    using that f2(5) by (cases i) auto
  have 2: "fst y = (n # ns) ! i" if "i < length (x # xs)" "domInstances fw EMOJI_TID (kf ((x # xs) ! i)) = Some y" for i y
  proof (cases i)
    case 0
    then show ?thesis using that f1(4) by simp
  next
    case (Suc m)
    then have "kf (xs ! m) \<noteq> kf x" using that(1) x by (metis Suc_less_eq image_eqI length_Cons nth_mem)
    then show ?thesis using that Suc f1(3) f2(7) [of m y] by simp
  qed
  have 3: "domInstances fw2 EMOJI_TID k = domInstances fw EMOJI_TID k" if "k \<notin> kf ` set (x # xs)" for k
    using that f1(3) f2(6) by simp
  show ?case
    using f1(1) f2(1-4) 1 2 3 by (intro exI [of _ "n # ns"] exI [of _ fw2]) simp
qed (simp add: buttons_ok_def)

lemma button_shows:
  assumes "button_ok r d (n, button_ibs n es)" "length es = 8" "list_all primitive es"
  shows "map (\<lambda>a. vd_attrs d n (js a)) button_names @ [Some (vd_value d (Suc n))] = map (\<lambda>e. Some (expr_str (r_text r) e)) es"
proof -
  have v: "slot_value d (button_slot n i) = Some (expr_str (r_text r) (es ! i))" if "i < 8" for i
  proof -
    have "primitive (es ! i)" using assms(2,3) that by (simp add: list_all_length)
    then have "es ! i \<noteq> EUndef" by auto
    moreover have "slot_shows (r_text r) d (button_ib n es i)"
      using assms(1) that by (auto simp: button_ok_def list_all_iff button_ibs_def)
    ultimately show ?thesis by (simp add: slot_shows_def button_ib_facts)
  qed
  have "map (\<lambda>a. vd_attrs d n (js a)) button_names @ [Some (vd_value d (Suc n))] =
      map (\<lambda>i. slot_value d (button_slot n i)) [0..<8]"
    by (simp add: upt_8 button_slot_def slot_value_def button_names_def)
  also have "\<dots> = map (\<lambda>i. Some (expr_str (r_text r) (es ! i))) [0..<8]" using v by simp
  also have "\<dots> = map (\<lambda>e. Some (expr_str (r_text r) e)) es"
    using assms(2) by (intro nth_equalityI) auto
  finally show ?thesis .
qed

lemma emoji_list_dom:
  assumes "buttons_ok r fw" "r_innerHTML r (flat_tree emoji_button) = [button_markup]"
    and "distinct (map (emoji_key pfx) emojis)"
  shows "\<exists>ns fw1. emojiList r active tone emojis searchMode pfx fw = Inr (ns, fw1) \<and> buttons_ok r fw1 \<and>
    length ns = length emojis \<and> distinct ns \<and> domInstanceCacheKey fw1 = domInstanceCacheKey fw \<and>
    (\<forall>i < length emojis.
       map (\<lambda>a. vd_attrs (fw_dom fw1) (ns ! i) (js a)) button_names @ [Some (vd_value (fw_dom fw1) (Suc (ns ! i)))] =
         map (\<lambda>e. Some (expr_str (r_text r) e)) (emoji_exprs r active tone searchMode pfx (emojis ! i) i) \<and>
       (\<forall>x. domInstances fw EMOJI_TID (Keyed (emoji_key pfx (emojis ! i))) = Some x \<longrightarrow> fst x = ns ! i))"
proof -
  let ?kf = "\<lambda>e. Keyed (emoji_key pfx e)" and ?ex = "emoji_exprs r active tone searchMode pfx"
  have d: "distinct (map ?kf emojis)" using assms(3) by (simp add: distinct_map inj_on_def)
  from map_buttons [OF assms(1,2) d, of ?ex 0] emoji_exprs_ok obtain ns fw1 where f:
    "emojiList r active tone emojis searchMode pfx fw = Inr (ns, fw1)" "buttons_ok r fw1" "length ns = length emojis"
    "domInstanceCacheKey fw1 = domInstanceCacheKey fw"
    "\<And>i. i < length emojis \<Longrightarrow> domInstances fw1 EMOJI_TID (?kf (emojis ! i)) =
        Some (ns ! i, button_ibs (ns ! i) (?ex (emojis ! i) i))"
    "\<And>i x. i < length emojis \<Longrightarrow> domInstances fw EMOJI_TID (?kf (emojis ! i)) = Some x \<Longrightarrow> fst x = ns ! i"
    by (auto simp: emojiList_def)
  have "ns ! i \<noteq> ns ! j" if ij: "i < length emojis" "j < length emojis" "i \<noteq> j" for i j
  proof -
    have "?kf (emojis ! i) \<noteq> ?kf (emojis ! j)" using d ij by (simp add: distinct_conv_nth)
    then have "{ns ! i, Suc (ns ! i)} \<inter> {ns ! j, Suc (ns ! j)} = {}"
      using f(2) f(5) [OF ij(1)] f(5) [OF ij(2)] unfolding buttons_ok_def by (metis fst_conv)
    then show ?thesis by auto
  qed
  then have "distinct ns" using f(3) by (simp add: distinct_conv_nth)
  moreover have "map (\<lambda>a. vd_attrs (fw_dom fw1) (ns ! i) (js a)) button_names @ [Some (vd_value (fw_dom fw1) (Suc (ns ! i)))] =
      map (\<lambda>e. Some (expr_str (r_text r) e)) (?ex (emojis ! i) i)" if "i < length emojis" for i
    by (rule button_shows [OF buttons_okD [OF f(2) f(5) [OF that]] emoji_exprs_ok])
  ultimately show ?thesis using f by blast
qed

text \<open>
  C12: the list of emoji shows its emoji. Whatever lists were rendered before with the cached buttons, rendering
  a list of emoji with different ids gives one button for each, no two the same, each with exactly the role,
  label, title, class, id, style and text of its emoji; an emoji that had a button before gets the same
  node again, and the cache is fit for the next render.
\<close>

theorem emoji_list_shown:
  assumes "buttons_ok r fw" "r_innerHTML r (flat_tree emoji_button) = [button_markup]"
    and "distinct (map (emoji_key pfx) emojis)"
  shows "\<exists>ns fw1. emojiList r active tone emojis searchMode pfx fw = Inr (ns, fw1) \<and> buttons_ok r fw1 \<and>
    length ns = length emojis \<and> distinct ns \<and> domInstanceCacheKey fw1 = domInstanceCacheKey fw \<and>
    (\<forall>i < length emojis.
       map (\<lambda>a. vd_attrs (fw_dom fw1) (ns ! i) (js a)) button_names @ [Some (vd_value (fw_dom fw1) (Suc (ns ! i)))] =
         map (\<lambda>e. Some (expr_str (r_text r) e)) (emoji_exprs r active tone searchMode pfx (emojis ! i) i) \<and>
       (\<forall>x. domInstances fw EMOJI_TID (Keyed (emoji_key pfx (emojis ! i))) = Some x \<longrightarrow> fst x = ns ! i))"
  using assms by (rule emoji_list_dom)

definition plain_renderer :: renderer where
  "plain_renderer = \<lparr>r_innerHTML = (\<lambda>s. if s = flat_tree emoji_button then [button_markup] else []),
     r_text = (\<lambda>_. []), r_stringify = str_or_undefined, r_hasRC = True\<rparr>"

definition no_instances :: framework where
  "no_instances = \<lparr>fw_dom = \<lparr>vd_next = 0, vd_element = (\<lambda>_. False), vd_attrs = (\<lambda>_. Map.empty), vd_kids = (\<lambda>_. []),
     vd_value = (\<lambda>_. [])\<rparr>, domInstances = (\<lambda>_. Map.empty), domInstanceCacheKey = Unkeyed\<rparr>"

definition named_emoji :: "jstr \<Rightarrow> emoji_summary" where
  "named_emoji u = \<lparr>su_unicode = Some u, su_name = None, su_shortcodes = None, su_url = None, su_category = None,
     su_annotation = Some u, su_id = Some u, su_skins = None\<rparr>"

theorem emoji_list_shown_witness:
  "\<exists>ns fw. emojiList plain_renderer 0 0 [named_emoji [1], named_emoji [2]] True (js ''emo'') no_instances = Inr (ns, fw) \<and>
     length ns = 2 \<and> distinct ns \<and> vd_attrs (fw_dom fw) (ns ! 1) (js ''id'') = Some (js ''emo-'' @ [2])"
proof -
  have "buttons_ok plain_renderer no_instances" by (simp add: buttons_ok_def no_instances_def)
  moreover have "r_innerHTML plain_renderer (flat_tree emoji_button) = [button_markup]" by (simp add: plain_renderer_def)
  moreover have "distinct (map (emoji_key (js ''emo'')) [named_emoji [1], named_emoji [2]])"
    by (simp add: emoji_key_def named_emoji_def str_or_undefined_def)
  ultimately obtain ns fw where r:
    "emojiList plain_renderer 0 0 [named_emoji [1], named_emoji [2]] True (js ''emo'') no_instances = Inr (ns, fw)"
    "length ns = 2" "distinct ns"
    "\<And>i. i < 2 \<Longrightarrow> map (\<lambda>a. vd_attrs (fw_dom fw) (ns ! i) (js a)) button_names @ [Some (vd_value (fw_dom fw) (Suc (ns ! i)))] =
       map (\<lambda>e. Some (expr_str (r_text plain_renderer) e))
         (emoji_exprs plain_renderer 0 0 True (js ''emo'') ([named_emoji [1], named_emoji [2]] ! i) i)"
    using emoji_list_shown [of plain_renderer no_instances "js ''emo''" "[named_emoji [1], named_emoji [2]]" 0 0 True] by auto
  have "vd_attrs (fw_dom fw) (ns ! 1) (js ''id'') = Some (js ''emo-'' @ [2])"
    using r(4) [of 1] by (simp add: button_names_def emoji_exprs_def emoji_key_def named_emoji_def str_or_undefined_def
        js_append [symmetric])
  with r(1-3) show ?thesis by blast
qed

section \<open>The end of a render\<close>

text \<open>
  After the nodes are patched, \<open>render\<close> goes over the elements of the container: the first time it binds the
  events and finds the refs, every time it applies the actions. An element comes with its attributes, elements
  in document order.
\<close>

record page_binding =
  pb_container :: "nat list"
  pb_onAbort :: "nat list"
  pb_listeners :: "(nat \<times> string \<times> jstr) list"
  pb_refs :: "jstr \<rightharpoonup> nat"
  pb_actionContext :: "jstr \<Rightarrow> nat list"
  pb_applied :: "(jstr \<times> nat) list"

fun forElementWithAttribute :: "jstr \<Rightarrow> (nat \<times> (jstr \<rightharpoonup> jstr)) list \<Rightarrow> (nat \<times> jstr) list" where
  "forElementWithAttribute a [] = []"
| "forElementWithAttribute a ((n, attributes) # els) =
     (case attributes a of None \<Rightarrow> [] | Some v \<Rightarrow> [(n, v)]) @ forElementWithAttribute a els"

definition bound_events :: "string list" where
  "bound_events = [''click'', ''focusout'', ''input'', ''keydown'', ''keyup'']"

definition bind_events :: "(nat \<times> (jstr \<rightharpoonup> jstr)) list \<Rightarrow> page_binding \<Rightarrow> page_binding" where
  "bind_events els pb = pb\<lparr>pb_listeners := pb_listeners pb @
     concat (map (\<lambda>ev. map (\<lambda>(n, listener). (n, ev, listener)) (forElementWithAttribute (js (''data-on-'' @ ev)) els)) bound_events)\<rparr>"

definition find_refs :: "(nat \<times> (jstr \<rightharpoonup> jstr)) list \<Rightarrow> page_binding \<Rightarrow> page_binding" where
  "find_refs els pb =
     pb\<lparr>pb_refs := fold (\<lambda>(n, ref) m. m(ref \<mapsto> n)) (forElementWithAttribute (js ''data-ref'') els) (pb_refs pb)\<rparr>"

definition bind_action :: "nat \<times> jstr \<Rightarrow> page_binding \<Rightarrow> page_binding" where
  "bind_action x pb =
     (let (element, action) = x; boundActions = pb_actionContext pb action
      in if element \<in> set boundActions then pb
         else pb\<lparr>pb_actionContext := (pb_actionContext pb)(action := boundActions @ [element]),
                 pb_applied := pb_applied pb @ [(action, element)]\<rparr>)"

definition mount :: "nat \<Rightarrow> (nat \<times> (jstr \<rightharpoonup> jstr)) list \<Rightarrow> page_binding \<Rightarrow> page_binding" where
  "mount rootDom els pb =
     (let pb = find_refs els (bind_events els (pb\<lparr>pb_container := pb_container pb @ [rootDom]\<rparr>))
      in pb\<lparr>pb_onAbort := pb_onAbort pb @ [rootDom]\<rparr>)"

definition finish_render :: "nat \<Rightarrow> bool \<Rightarrow> (nat \<times> (jstr \<rightharpoonup> jstr)) list \<Rightarrow> page_binding \<Rightarrow> page_binding" where
  "finish_render rootDom firstRender els pb =
     fold bind_action (forElementWithAttribute (js ''data-action'') els) (if firstRender then mount rootDom els pb else pb)"

text \<open>The listener of the abort signal.\<close>

definition abort_render :: "page_binding \<Rightarrow> page_binding" where
  "abort_render pb = pb\<lparr>pb_container := filter (\<lambda>n. n \<notin> set (pb_onAbort pb)) (pb_container pb), pb_onAbort := []\<rparr>"

text \<open>The renders of one picker: only the first one mounts.\<close>

definition no_binding :: page_binding where
  "no_binding = \<lparr>pb_container = [], pb_onAbort = [], pb_listeners = [], pb_refs = Map.empty, pb_actionContext = (\<lambda>_. []), pb_applied = []\<rparr>"

fun renders :: "nat \<Rightarrow> (nat \<times> (jstr \<rightharpoonup> jstr)) list list \<Rightarrow> page_binding" where
  "renders rootDom [] = no_binding"
| "renders rootDom (els # rest) = fold (finish_render rootDom False) rest (finish_render rootDom True els no_binding)"

definition applied_ok :: "page_binding \<Rightarrow> bool" where
  "applied_ok pb \<longleftrightarrow> distinct (pb_applied pb) \<and> (\<forall>a n. (a, n) \<in> set (pb_applied pb) \<longleftrightarrow> n \<in> set (pb_actionContext pb a))"

definition actions_of :: "(nat \<times> (jstr \<rightharpoonup> jstr)) list \<Rightarrow> (jstr \<times> nat) set" where
  "actions_of els = (\<lambda>(n, a). (a, n)) ` set (forElementWithAttribute (js ''data-action'') els)"

definition mounted :: "page_binding \<Rightarrow> nat list \<times> nat list \<times> (nat \<times> string \<times> jstr) list \<times> (jstr \<rightharpoonup> nat)" where
  "mounted pb = (pb_container pb, pb_onAbort pb, pb_listeners pb, pb_refs pb)"

lemma bind_action_ok:
  "applied_ok pb \<Longrightarrow> applied_ok (bind_action (n, a) pb) \<and> mounted (bind_action (n, a) pb) = mounted pb \<and>
   set (pb_applied (bind_action (n, a) pb)) = insert (a, n) (set (pb_applied pb))"
  by (auto simp: bind_action_def Let_def applied_ok_def mounted_def)

lemma bind_actions_ok:
  "applied_ok pb \<Longrightarrow> applied_ok (fold bind_action xs pb) \<and> mounted (fold bind_action xs pb) = mounted pb \<and>
   set (pb_applied (fold bind_action xs pb)) = (\<lambda>(n, a). (a, n)) ` set xs \<union> set (pb_applied pb)"
proof (induction xs arbitrary: pb)
  case (Cons x xs)
  obtain n a where x: "x = (n, a)" by fastforce
  from bind_action_ok [OF Cons.prems, of n a] Cons.IH [of "bind_action x pb"] show ?case by (auto simp: x)
qed simp

lemma later_renders_ok:
  "applied_ok pb \<Longrightarrow> applied_ok (fold (finish_render rootDom False) rest pb) \<and>
   mounted (fold (finish_render rootDom False) rest pb) = mounted pb \<and>
   set (pb_applied (fold (finish_render rootDom False) rest pb)) = set (pb_applied pb) \<union> \<Union> (actions_of ` set rest)"
proof (induction rest arbitrary: pb)
  case (Cons els rest)
  have "applied_ok (finish_render rootDom False els pb) \<and> mounted (finish_render rootDom False els pb) = mounted pb \<and>
      set (pb_applied (finish_render rootDom False els pb)) = actions_of els \<union> set (pb_applied pb)"
    using bind_actions_ok [OF Cons.prems] by (simp add: finish_render_def actions_of_def)
  with Cons.IH [of "finish_render rootDom False els pb"] show ?case by auto
qed simp

lemma first_render_ok:
  "applied_ok (finish_render rootDom True els no_binding)"
  "mounted (finish_render rootDom True els no_binding) = mounted (mount rootDom els no_binding)"
  "set (pb_applied (finish_render rootDom True els no_binding)) = actions_of els"
proof -
  have "applied_ok (mount rootDom els no_binding)" "pb_applied (mount rootDom els no_binding) = []"
    by (simp_all add: applied_ok_def mount_def find_refs_def bind_events_def no_binding_def)
  with bind_actions_ok [OF this(1), of "forElementWithAttribute (js ''data-action'') els"]
  show "applied_ok (finish_render rootDom True els no_binding)"
    "mounted (finish_render rootDom True els no_binding) = mounted (mount rootDom els no_binding)"
    "set (pb_applied (finish_render rootDom True els no_binding)) = actions_of els"
    by (simp_all add: finish_render_def actions_of_def)
qed

text \<open>
  C15: over any sequence of renders of one picker: each action is applied to each element that asked for it exactly
  once, however often the element is rendered; the root is put into the container once, and later renders
  add no listener and change no ref; and aborting takes the root out again.
\<close>

theorem actions_applied_once:
  "distinct (pb_applied (renders rootDom (els # rest))) \<and>
   set (pb_applied (renders rootDom (els # rest))) = \<Union> (actions_of ` set (els # rest)) \<and>
   pb_container (renders rootDom (els # rest)) = [rootDom] \<and>
   pb_listeners (renders rootDom (els # rest)) = pb_listeners (bind_events els no_binding) \<and>
   pb_refs (renders rootDom (els # rest)) = pb_refs (find_refs els no_binding) \<and>
   pb_container (abort_render (renders rootDom (els # rest))) = []"
proof -
  have m: "mounted (mount rootDom els no_binding) =
      ([rootDom], [rootDom], pb_listeners (bind_events els no_binding), pb_refs (find_refs els no_binding))"
    by (simp add: mounted_def mount_def find_refs_def bind_events_def no_binding_def)
  from later_renders_ok [OF first_render_ok(1), of rootDom rest rootDom els] first_render_ok(2,3) [of rootDom els]
  have l: "applied_ok (renders rootDom (els # rest))"
    "mounted (renders rootDom (els # rest)) = mounted (mount rootDom els no_binding)"
    "set (pb_applied (renders rootDom (els # rest))) = \<Union> (actions_of ` set (els # rest))"
    by simp_all
  then show ?thesis unfolding m by (simp add: mounted_def applied_ok_def abort_render_def del: renders.simps)
qed

section \<open>Observers of the layout\<close>

text \<open>
  \<open>intersectionObserverAction\<close>: one observer for each scroll container, with the nodes it watches; it ends when
  the picker is destroyed. A node outside every \<open>.tabpanel\<close> has no container, and \<open>null\<close> cannot be the key of
  a \<open>WeakMap\<close>: the code then raises a type error.
\<close>

record layout_observers =
  intersectionObserverCache :: "nat \<rightharpoonup> nat list"
  io_created :: nat
  io_ended :: "nat list"
  io_onAbort :: "nat list"

definition observe :: "nat \<Rightarrow> nat \<Rightarrow> layout_observers \<Rightarrow> layout_observers" where
  "observe scrollRoot node s =
     (case intersectionObserverCache s scrollRoot of
        Some watched \<Rightarrow>
          s\<lparr>intersectionObserverCache := (intersectionObserverCache s)(scrollRoot \<mapsto> watched @ [node])\<rparr>
      | None \<Rightarrow>
          s\<lparr>intersectionObserverCache := (intersectionObserverCache s)(scrollRoot \<mapsto> [node]),
            io_created := io_created s + 1, io_onAbort := io_onAbort s @ [scrollRoot]\<rparr>)"

definition intersectionObserverAction ::
  "nat option \<Rightarrow> nat \<Rightarrow> layout_observers \<Rightarrow> js_error + layout_observers" where
  "intersectionObserverAction scrollRoot node s =
     (case scrollRoot of None \<Rightarrow> Inl TypeError | Some r \<Rightarrow> Inr (observe r node s))"

definition abort_observers :: "layout_observers \<Rightarrow> layout_observers" where
  "abort_observers s = s\<lparr>io_ended := io_ended s @ io_onAbort s, io_onAbort := []\<rparr>"

text \<open>\<open>updateOnIntersection\<close>: an entry switches the class of its element.\<close>

definition on_intersection :: "(nat \<times> bool) list \<Rightarrow> (nat \<Rightarrow> bool) \<Rightarrow> nat \<Rightarrow> bool" where
  "on_intersection entries onscreen = fold (\<lambda>(target, isIntersecting) f. f(target := isIntersecting)) entries onscreen"

definition no_observers :: layout_observers where
  "no_observers = \<lparr>intersectionObserverCache = Map.empty, io_created = 0, io_ended = [], io_onAbort = []\<rparr>"

fun observe_all :: "(nat option \<times> nat) list \<Rightarrow> layout_observers \<Rightarrow> js_error + layout_observers" where
  "observe_all [] s = Inr s"
| "observe_all ((scrollRoot, node) # xs) s =
     (case intersectionObserverAction scrollRoot node s of Inl e \<Rightarrow> Inl e | Inr s1 \<Rightarrow> observe_all xs s1)"

lemma observe_step:
  "dom (intersectionObserverCache (observe r n s)) = insert r (dom (intersectionObserverCache s))"
  "io_created (observe r n s) = (if r \<in> dom (intersectionObserverCache s) then io_created s else io_created s + 1)"
  "set (io_onAbort (observe r n s)) =
     (if r \<in> dom (intersectionObserverCache s) then set (io_onAbort s) else insert r (set (io_onAbort s)))"
  by (auto simp: observe_def split: option.split)

definition observers_ok :: "layout_observers \<Rightarrow> bool" where
  "observers_ok s \<longleftrightarrow> finite (dom (intersectionObserverCache s)) \<and> io_created s = card (dom (intersectionObserverCache s)) \<and>
     set (io_onAbort s) = dom (intersectionObserverCache s)"

lemma observe_all_ok:
  "observers_ok s \<Longrightarrow> observe_all xs s = Inr s1 \<Longrightarrow>
   observers_ok s1 \<and> Some ` dom (intersectionObserverCache s1) = fst ` set xs \<union> Some ` dom (intersectionObserverCache s)"
proof (induction xs arbitrary: s)
  case (Cons x xs)
  obtain r n where x: "x = (Some r, n)" "observe_all xs (observe r n s) = Inr s1"
    using Cons.prems(2) by (cases x) (auto simp: intersectionObserverAction_def split: option.splits)
  have "observers_ok (observe r n s)"
    using Cons.prems(1) by (auto simp: observers_ok_def observe_step card_insert_if insert_absorb)
  from Cons.IH [OF this x(2)] show ?case by (auto simp: x(1) observe_step(1))
qed simp

text \<open>One observer serves each scroll container, and destroying the picker ends every observer that was made.\<close>

lemma one_observer_per_root:
  assumes "observe_all xs no_observers = Inr s"
  shows "io_created s = card (fst ` set xs)"
    and "Some ` dom (intersectionObserverCache s) = fst ` set xs"
    and "set (io_ended (abort_observers s)) \<supseteq> dom (intersectionObserverCache s)"
proof -
  have "observers_ok no_observers" by (simp add: observers_ok_def no_observers_def)
  from observe_all_ok [OF this assms] have s: "observers_ok s" "Some ` dom (intersectionObserverCache s) = fst ` set xs"
    by (simp_all add: no_observers_def)
  show "Some ` dom (intersectionObserverCache s) = fst ` set xs" by (rule s(2))
  show "io_created s = card (fst ` set xs)"
    using s by (metis card_image inj_Some observers_ok_def)
  show "set (io_ended (abort_observers s)) \<supseteq> dom (intersectionObserverCache s)"
    using s(1) by (simp add: abort_observers_def observers_ok_def)
qed

end
