(* ===== verification/PickerRender.thy ===== *)
theory PickerRender
  imports PickerTemplate PickerBehaviour
begin

text \<open>
  Rendering the picker: \<open>render\<close> of libs/emoji-picker-element/picker.js over the state of PickerState and the
  template framework of PickerTemplate. The expressions of the five templates are functions of the
  properties; the section makes its lists in the order of the code, reusing cached nodes. The page
  depends on nothing but what the render effect reads, so every visible change is rendered, and the
  active search result is the selected button. The texts of the picker are either given or missing.
\<close>

section \<open>The values of the page\<close>

text \<open>
  The expressions of a render, from the properties of the state. \<open>text_of\<close> is \<open>value || ''\<close>; a missing entry
  of the texts is undefined.
\<close>

fun truthy_text :: "pval \<Rightarrow> bool" where
  "truthy_text (VStr s) = (s \<noteq> [])"
| "truthy_text _ = False"

definition text_of :: "pval \<Rightarrow> expr" where
  "text_of v = EStr (if truthy_text v then str_of v else [])"

definition text_or_undefined :: "jstr option \<Rightarrow> expr" where
  "text_or_undefined s = (case s of None \<Rightarrow> EUndef | Some w \<Rightarrow> EStr w)"

fun pval_expr :: "pval \<Rightarrow> expr" where
  "pval_expr (VStr s) = EStr s"
| "pval_expr (VBool b) = EBool b"
| "pval_expr (VInt i) = EInt i"
| "pval_expr _ = EUndef"

definition group_of :: "pval \<Rightarrow> emoji_group" where
  "group_of g = (case g of VGroup x \<Rightarrow> x | _ \<Rightarrow> \<lparr>gid = 0, gemoji = [], gname = []\<rparr>)"

fun is_group :: "pval \<Rightarrow> bool" where
  "is_group (VGroup _) = True"
| "is_group _ = False"

definition class_if :: "bool \<Rightarrow> string \<Rightarrow> expr" where
  "class_if b c = EStr (if b then js c else [])"

text \<open>\<open>Math.ceil(length / numColumns)\<close>, as text.\<close>

definition num_rows :: "nat \<Rightarrow> int \<Rightarrow> jstr" where
  "num_rows len numColumns =
     (if numColumns = 0 then js (if len = 0 then ''NaN'' else ''Infinity'')
      else int_str (- ((- int len) div numColumns)))"

definition SKINTONE_TID :: nat where "SKINTONE_TID = 2"
definition NAV_TID :: nat where "NAV_TID = 3"
definition CATEGORY_TID :: nat where "CATEGORY_TID = 4"
definition SECTION_TID :: nat where "SECTION_TID = 0"

definition skintone_exprs :: "i18n \<Rightarrow> (pprop \<Rightarrow> pval) \<Rightarrow> jstr \<Rightarrow> nat \<Rightarrow> expr list" where
  "skintone_exprs x t skinTone i =
     (let active = (t ActiveSkinTone = VInt (int i));
          name = text_or_undefined (at_index (skinToneNames x) (int i))
      in [EInt (int i), class_if active ''active'', EBool active, name, name, EStr skinTone])"

definition nav_exprs :: "i18n \<Rightarrow> (pprop \<Rightarrow> pval) \<Rightarrow> emoji_group \<Rightarrow> expr list" where
  "nav_exprs x t g =
     (let name = text_or_undefined (categories x (gname g))
      in [EInt (gid g), name,
          EBool (\<not> bool_of (t SearchMode) \<and> gid (group_of (t CurrentGroup)) = gid g),
          name, EInt (gid g), EStr (gemoji g)])"

text \<open>The expressions of a category; \<open>ns\<close> are the buttons of its emoji.\<close>

definition category_exprs ::
    "i18n \<Rightarrow> (pprop \<Rightarrow> pval) \<Rightarrow> jstr \<times> emoji_summary list \<Rightarrow> nat \<Rightarrow> nat list \<Rightarrow> expr list" where
  "category_exprs x t c i ns =
     (let cats = categories_of (t CurrentEmojisWithCategories);
          searchMode = bool_of (t SearchMode);
          g = group_of (t CurrentGroup)
      in [EInt (int i),
          class_if (length cats = 1 \<and> fst (hd cats) = []) ''gone'',
          if searchMode then EStr (searchResultsLabel x)
          else if fst c \<noteq> [] then EStr (fst c)
          else if 1 < length cats then text_or_undefined (categories x (js ''custom''))
          else text_or_undefined (categories x (gname g)),
          class_if (i \<noteq> 0 \<and> \<not> searchMode \<and> gid g = -1) ''visibility-auto'',
          EStr (js ''--num-rows: '' @ num_rows (length (snd c)) (int_of (t NumColumns))),
          EStr (js (if searchMode then ''listbox'' else ''menu'')),
          EInt (int i),
          class_if searchMode ''search-results'',
          ENodes ns])"

text \<open>
  The expressions of the whole section; the four lists are the nodes of the skin tones, of the
  navigation, of the categories and of the favourites.
\<close>

definition active_descendant :: "(pprop \<Rightarrow> pval) \<Rightarrow> expr" where
  "active_descendant t =
     EStr (if truthy_text (t ActiveSearchItemId) then js ''emo-'' @ str_of (t ActiveSearchItemId) else [])"

definition section_exprs ::
    "i18n \<Rightarrow> (pprop \<Rightarrow> pval) \<Rightarrow> nat list \<Rightarrow> nat list \<Rightarrow> nat list \<Rightarrow> nat list \<Rightarrow> expr list" where
  "section_exprs x t tones navs cats favs =
     (let searchMode = bool_of (t SearchMode);
          expanded = bool_of (t SkinTonePickerExpanded);
          g = group_of (t CurrentGroup);
          toneLabel = pval_expr (t SkinToneButtonLabel)
      in [EStr (regionLabel x), text_of (t PickerStyle),
          EStr (searchLabel x), EBool (searchMode \<and> emojis_of (t CurrentEmojis) \<noteq> []), active_descendant t,
          EStr (searchLabel x), EStr (searchDescription x),
          class_if (bool_of (t SkinTonePickerExpandedAfterAnimation)) ''expanded'',
          class_if expanded ''hide-focus'', toneLabel, toneLabel, EBool expanded, text_of (t SkinToneButtonText),
          EStr (skinToneDescription x),
          class_if (\<not> expanded) ''hidden no-animate'',
          if expanded then EInt 0 else EStr (js ''calc(-1 * var(--num-skintones) * var(--total-emoji-size))''),
          EStr (skinTonesLabel x), pval_expr (t ActiveSkinTone), EBool (\<not> expanded), ENodes tones,
          EInt (int (length (groups_of (t Groups)))), EStr (categoriesLabel x), ENodes navs,
          EInt ((if bool_of (t IsRtl) then -1 else 1) * int_of (t CurrentGroupIndex) * 100),
          class_if (\<not> truthy_text (t Message)) ''gone'', text_of (t Message),
          class_if (\<not> bool_of (t DatabaseLoaded) \<or> truthy_text (t Message)) ''gone'',
          EStr (js (if searchMode then ''region'' else ''tabpanel'')),
          if searchMode then EStr (searchResultsLabel x) else text_or_undefined (categories x (gname g)),
          EStr (if searchMode then [] else js ''tab-'' @ int_str (gid g)),
          ENodes cats,
          class_if (truthy_text (t Message)) ''gone'', EStr (favoritesLabel x), ENodes favs])"

section \<open>The section\<close>

text \<open>One category: first the buttons of its emoji, then the block around them.\<close>

definition render_category ::
    "renderer \<Rightarrow> i18n \<Rightarrow> (pprop \<Rightarrow> pval) \<Rightarrow> jstr \<times> emoji_summary list \<Rightarrow> nat \<Rightarrow> framework \<Rightarrow>
     (js_error \<times> framework) + (nat \<times> framework)" where
  "render_category r x t c i fw =
     (case emojiList r (int_of (t ActiveSearchItem)) (int_of (t CurrentSkinTone)) (snd c) (bool_of (t SearchMode))
             (js ''emo'') fw of
        Inl er \<Rightarrow> Inl er
      | Inr (ns, fw1) \<Rightarrow> html_tag r (tokens_of category_block) CATEGORY_TID (category_exprs x t c i ns) fw1)"

definition render_tones ::
    "renderer \<Rightarrow> i18n \<Rightarrow> (pprop \<Rightarrow> pval) \<Rightarrow> framework \<Rightarrow> (js_error \<times> framework) + (nat list \<times> framework)" where
  "render_tones r x t fw =
     map_items (\<lambda>skinTone i. html_tag r (tokens_of skintone_option) SKINTONE_TID (skintone_exprs x t skinTone i))
       Keyed 0 (strs_of (t SkinTones)) fw"

definition render_nav ::
    "renderer \<Rightarrow> i18n \<Rightarrow> (pprop \<Rightarrow> pval) \<Rightarrow> framework \<Rightarrow> (js_error \<times> framework) + (nat list \<times> framework)" where
  "render_nav r x t fw =
     map_items (\<lambda>g i. html_tag r (tokens_of nav_button) NAV_TID (nav_exprs x t g))
       (\<lambda>g. KeyedInt (gid g)) 0 (groups_of (t Groups)) fw"

definition render_categories ::
    "renderer \<Rightarrow> i18n \<Rightarrow> (pprop \<Rightarrow> pval) \<Rightarrow> framework \<Rightarrow> (js_error \<times> framework) + (nat list \<times> framework)" where
  "render_categories r x t fw =
     map_items (render_category r x t) (\<lambda>c. Keyed (fst c)) 0 (categories_of (t CurrentEmojisWithCategories)) fw"

definition render_favorites ::
    "renderer \<Rightarrow> (pprop \<Rightarrow> pval) \<Rightarrow> framework \<Rightarrow> (js_error \<times> framework) + (nat list \<times> framework)" where
  "render_favorites r t fw =
     emojiList r (int_of (t ActiveSearchItem)) (int_of (t CurrentSkinTone)) (emojis_of (t CurrentFavorites)) False (js ''fav'') fw"

fun chain :: "(js_error \<times> 's) + ('a \<times> 's) \<Rightarrow> ('a \<Rightarrow> 's \<Rightarrow> (js_error \<times> 's) + ('b \<times> 's)) \<Rightarrow> (js_error \<times> 's) + ('b \<times> 's)" where
  "chain (Inl er) k = Inl er"
| "chain (Inr (a, s)) k = k a s"

text \<open>
  The lists are made in the order of their expressions. Without texts nothing can be written; without a
  current group the navigation raises, unless a search is shown.
\<close>

definition render_section ::
    "renderer \<Rightarrow> (pprop \<Rightarrow> pval) \<Rightarrow> framework \<Rightarrow> (js_error \<times> framework) + (nat \<times> framework)" where
  "render_section r t fw =
     (case t I18n of
        VTexts x \<Rightarrow>
          chain (render_tones r x t fw) (\<lambda>tones fw1.
            if \<not> bool_of (t SearchMode) \<and> \<not> is_group (t CurrentGroup) then Inl (TypeError, fw1)
            else chain (render_nav r x t fw1) (\<lambda>navs fw2.
              chain (render_categories r x t fw2) (\<lambda>cats fw3.
                chain (render_favorites r t fw3) (\<lambda>favs fw4.
                  html_tag r (tokens_of section_template) SECTION_TID (section_exprs x t tones navs cats favs) fw4))))
      | _ \<Rightarrow> Inl (TypeError, fw))"

text \<open>\<open>render\<close>: a new framework on the cached instances, the section, and what follows it.\<close>

record rendering =
  rn_framework :: framework
  rn_binding :: page_binding

definition render ::
    "renderer \<Rightarrow> (pprop \<Rightarrow> pval) \<Rightarrow> bool \<Rightarrow> rendering \<Rightarrow> rendering outcome" where
  "render r t firstRender s =
     (case render_section r t ((rn_framework s)\<lparr>domInstanceCacheKey := Unkeyed\<rparr>) of
        Inl (er, fw) \<Rightarrow> Inl (er, s\<lparr>rn_framework := fw\<rparr>)
      | Inr (rootDom, fw) \<Rightarrow>
          let d = fw_dom fw; els = map (\<lambda>n. (n, vd_attrs d n)) (walker (vd_next d) d rootDom)
          in Inr (s\<lparr>rn_framework := fw, rn_binding := finish_render rootDom firstRender els (rn_binding s)\<rparr>))"

text \<open>The template of the section has as many holes as there are expressions.\<close>

lemma section_holes: "length (holes 0 section_template) = length (section_exprs x t tones navs cats favs)"
  by (simp add: section_exprs_def Let_def section_template_def search_row_def elem_with_def elem_hole_def stat_def dyn_def
      around_def)

lemma block_holes:
  "length (holes 0 skintone_option) = length (skintone_exprs x t tone i)"
  "length (holes 0 nav_button) = length (nav_exprs x t g)"
  "length (holes 0 category_block) = length (category_exprs x t c i ns)"
  "length (holes 0 emoji_button) = length (emoji_exprs r active tn sm pfx e i)"
  by (simp_all add: skintone_exprs_def nav_exprs_def category_exprs_def emoji_exprs_def Let_def skintone_option_def nav_button_def
      category_block_def emoji_button_def elem_with_def elem_hole_def stat_def dyn_def around_def)

section \<open>What a render depends on\<close>

lemma path_reads_reads [simp]: "path_reads (reads ps k) t = set ps \<union> path_reads k t"
  by (induction ps) auto

lemma map_items_cong:
  "(\<And>x i. x \<in> set xs \<Longrightarrow> f x i = g x i) \<Longrightarrow> map_items f kf i xs fw = map_items g kf i xs fw"
proof (induction xs arbitrary: i fw)
  case (Cons x xs)
  have "map_items f kf j xs w = map_items g kf j xs w" for j w using Cons by simp
  then show ?case using Cons.prems [of x] by (simp add: Let_def split: sum.split)
qed simp

lemma emojiList_cong:
  assumes "es \<noteq> [] \<Longrightarrow> searchMode \<Longrightarrow> active' = active" "es \<noteq> [] \<Longrightarrow> tone' = tone"
  shows "emojiList r active' tone' es searchMode pfx fw = emojiList r active tone es searchMode pfx fw"
  unfolding emojiList_def
proof (rule map_items_cong)
  fix e i
  assume "e \<in> set es"
  then have ne: "es \<noteq> []" by auto
  then have "emoji_exprs r active' tone' searchMode pfx e i = emoji_exprs r active tone searchMode pfx e i"
    using assms(1) [OF ne] assms(2) [OF ne] by (cases searchMode) (simp_all add: emoji_exprs_def)
  then show "html_tag r (tokens_of emoji_button) EMOJI_TID (emoji_exprs r active' tone' searchMode pfx e i) =
      html_tag r (tokens_of emoji_button) EMOJI_TID (emoji_exprs r active tone searchMode pfx e i)" by simp
qed

lemma render_rest_reads:
  "path_reads (render_rest m) t =
     {IsRtl, CurrentGroupIndex, Message, DatabaseLoaded, CurrentEmojisWithCategories, CurrentFavorites} \<union>
     (if categories_of (t CurrentEmojisWithCategories) = [] then {} else {NumColumns}) \<union>
     (if m \<and> concat (map snd (categories_of (t CurrentEmojisWithCategories))) \<noteq> [] then {ActiveSearchItem} else {}) \<union>
     (if concat (map snd (categories_of (t CurrentEmojisWithCategories))) @ emojis_of (t CurrentFavorites) \<noteq> []
      then {CurrentSkinTone} else {})"
  unfolding render_rest_def by (auto simp del: concat_eq_Nil_conv concat.simps split: if_splits)

lemma render_reads:
  assumes "t I18n = VTexts x"
  shows "path_reads eff_render t =
    {I18n, PickerStyle, SearchMode, ActiveSearchItemId, SkinTonePickerExpandedAfterAnimation, SkinTonePickerExpanded,
     SkinToneButtonLabel, SkinToneButtonText, ActiveSkinTone, SkinTones, Groups} \<union>
    (if bool_of (t SearchMode) then {CurrentEmojis} else {CurrentGroup}) \<union>
    (if bool_of (t SearchMode) \<or> is_group (t CurrentGroup) then path_reads (render_rest (bool_of (t SearchMode))) t else {})"
  unfolding eff_render_def using assms by (auto split: pval.splits)

text \<open>The page is a function of the properties that the render effect reads.\<close>

lemma section_depends_on_reads:
  assumes same: "\<And>p. p \<in> path_reads eff_render t \<Longrightarrow> t' p = t p"
  shows "render_section r t' fw = render_section r t fw"
proof (cases "t I18n")
  case (VTexts x)
  note reads = render_reads [of t x, OF VTexts]
  let ?m = "bool_of (t SearchMode)"
  have base: "t' p = t p" if "p \<in> {I18n, PickerStyle, SearchMode, ActiveSearchItemId, SkinTonePickerExpandedAfterAnimation,
      SkinTonePickerExpanded, SkinToneButtonLabel, SkinToneButtonText, ActiveSkinTone, SkinTones, Groups}" for p
    using that by (intro same) (simp only: reads Un_iff simp_thms)
  note b [simp] = base [of I18n, simplified] base [of PickerStyle, simplified] base [of SearchMode, simplified]
    base [of ActiveSearchItemId, simplified] base [of SkinTonePickerExpandedAfterAnimation, simplified]
    base [of SkinTonePickerExpanded, simplified] base [of SkinToneButtonLabel, simplified]
    base [of SkinToneButtonText, simplified] base [of ActiveSkinTone, simplified] base [of SkinTones, simplified]
    base [of Groups, simplified]
  have cg: "\<not> ?m \<Longrightarrow> t' CurrentGroup = t CurrentGroup" and ce: "?m \<Longrightarrow> t' CurrentEmojis = t CurrentEmojis"
    using same [of CurrentGroup] same [of CurrentEmojis] by (simp_all add: reads)
  have tones: "render_tones r x t' = render_tones r x t" by (intro ext) (simp add: render_tones_def skintone_exprs_def)
  show ?thesis
  proof (cases "?m \<or> is_group (t CurrentGroup)")
    case True
    have rest: "t' p = t p" if "p \<in> path_reads (render_rest ?m) t" for p
      using that True by (intro same) (simp add: reads)
    note c [simp] = rest [of IsRtl, simplified render_rest_reads, simplified] rest [of CurrentGroupIndex, simplified render_rest_reads, simplified]
      rest [of Message, simplified render_rest_reads, simplified] rest [of DatabaseLoaded, simplified render_rest_reads, simplified]
      rest [of CurrentEmojisWithCategories, simplified render_rest_reads, simplified]
      rest [of CurrentFavorites, simplified render_rest_reads, simplified]
    have nav: "render_nav r x t' = render_nav r x t"
      using cg by (intro ext) (cases ?m; simp add: render_nav_def nav_exprs_def Let_def)
    have fav: "render_favorites r t' = render_favorites r t"
      unfolding render_favorites_def c using rest [of CurrentSkinTone, unfolded render_rest_reads]
      by (intro ext emojiList_cong) auto
    have cats: "render_categories r x t' = render_categories r x t"
    proof
      fix fw
      show "render_categories r x t' fw = render_categories r x t fw"
        unfolding render_categories_def c
      proof (rule map_items_cong, rule ext)
        fix cat i w
        assume cat: "cat \<in> set (categories_of (t CurrentEmojisWithCategories))"
        then have "NumColumns \<in> path_reads (render_rest ?m) t" by (auto simp: render_rest_reads)
        from rest [OF this] have "category_exprs x t' cat i ns = category_exprs x t cat i ns" for ns
          using cg by (cases ?m) (simp_all add: category_exprs_def Let_def)
        moreover have "emojiList r (int_of (t' ActiveSearchItem)) (int_of (t' CurrentSkinTone)) (snd cat) ?m (js ''emo'') w =
            emojiList r (int_of (t ActiveSearchItem)) (int_of (t CurrentSkinTone)) (snd cat) ?m (js ''emo'') w"
        proof (rule emojiList_cong)
          assume ne: "snd cat \<noteq> []"
          then have "concat (map snd (categories_of (t CurrentEmojisWithCategories))) \<noteq> []" using cat by auto
          then have "CurrentSkinTone \<in> path_reads (render_rest ?m) t" "?m \<Longrightarrow> ActiveSearchItem \<in> path_reads (render_rest ?m) t"
            unfolding render_rest_reads by (simp_all del: concat_eq_Nil_conv)
          then show "int_of (t' CurrentSkinTone) = int_of (t CurrentSkinTone)"
            "?m \<Longrightarrow> int_of (t' ActiveSearchItem) = int_of (t ActiveSearchItem)" using rest by simp_all
        qed
        ultimately show "render_category r x t' cat i w = render_category r x t cat i w"
          by (simp add: render_category_def split: sum.split)
      qed
    qed
    have ex: "section_exprs x t' = section_exprs x t"
      using cg ce by (intro ext) (cases ?m; simp add: section_exprs_def Let_def active_descendant_def)
    have "(\<not> bool_of (t' SearchMode) \<and> \<not> is_group (t' CurrentGroup)) = (\<not> ?m \<and> \<not> is_group (t CurrentGroup))"
      using cg by auto
    then show ?thesis unfolding render_section_def b(1) VTexts pval.case tones nav fav cats ex by simp
  next
    case False
    then show ?thesis using cg by (simp add: render_section_def VTexts tones)
  qed
qed (use same [of I18n] in \<open>simp_all add: render_section_def eff_render_def\<close>)

text \<open>
  C10: every visible change is rendered. In any state that the picker reaches before it is destroyed, a write to
  a property that changes what the section shows, whichever property it is and whatever was queued before,
  marks the render effect and leaves a flush under way.
\<close>

theorem visible_change_is_rendered:
  assumes "createRoot m pp = Inr s0" "pk_run h (m, s0) es = Inr (m', s)" "\<not> rx_destroyed s"
    and "render_section r (props (put p v s)) fw \<noteq> render_section r (props s) fw"
  shows "1 \<in> set (dirtyObservers (put p v s)) \<and> queued (put p v s) \<and> 0 < microtasks (put p v s)"
proof -
  have inv: "pk_inv s" "observers s = 19"
    using pk_run_inv [OF assms(2)] createRoot_inv [OF assms(1)] by simp_all
  have p: "p \<in> path_reads eff_render (props s)"
  proof (rule ccontr)
    assume "p \<notin> path_reads eff_render (props s)"
    then have "render_section r ((props s)(p := v)) fw = render_section r (props s) fw"
      by (intro section_depends_on_reads) auto
    then show False using assms(4) by simp
  qed
  have ns: "\<not> strict_same (props s p) v" using assms(4) strict_same_sound [of "props s p" v] by auto
  have q: "queue_ok s" using inv(1) assms(3) by (simp add: rx_inv_def)
  have d: "1 \<in> set (dirtyObservers (put p v s))"
  proof (cases "1 \<in> set (dirtyObservers s)")
    case True
    then show ?thesis by (simp add: proxy_set_def queue_flush_def Let_def set_fold_set_add)
  next
    case False
    have "rx_inv (picker_eff m) picker_own s" using inv(1) pk_inv_memo by blast
    then have up: "\<forall>i<19. i \<in> set (dirtyObservers s) \<or> up_to_date (picker_eff m) picker_own i s"
      using inv(2) by (simp add: rx_inv_def)
    from up [rule_format, of 1] False have "up_to_date (picker_eff m) picker_own 1 s" by simp
    then have "1 \<in> set (propsToObservers s p)" using p by (simp add: up_to_date_def picker_eff_nth)
    then show ?thesis using ns by (auto simp: proxy_set_def queue_flush_def Let_def set_fold_set_add)
  qed
  moreover have "queue_ok (put p v s)" using q by (rule queue_ok_proxy_set)
  ultimately show ?thesis unfolding queue_ok_def by (auto split: if_splits)
qed

text \<open>A framework in which every template but the section has an instance without bindings.\<close>

definition message_binding :: instance_binding where
  "message_binding = \<lparr>ib_binding = hole_binding 25 None, targetNode = Some 1, targetParentNode = None, currentExpression = EUndef\<rparr>"

definition message_only :: framework where
  "message_only = no_instances\<lparr>domInstances := (\<lambda>tid k. Some (0, if tid = SECTION_TID then [message_binding] else []))\<rparr>"

lemma message_only_other:
  assumes "fw = message_only\<lparr>domInstanceCacheKey := k\<rparr>" "tid \<noteq> SECTION_TID"
  shows "html_tag r tokens tid es fw = Inr (0, fw)"
  using assms by (simp add: html_tag_def updateDomInstance_def message_only_def fun_upd_idem)

lemma message_only_map:
  assumes "\<And>x i k. f x i (message_only\<lparr>domInstanceCacheKey := k\<rparr>) = Inr (0, message_only\<lparr>domInstanceCacheKey := k\<rparr>)"
  shows "map_items f kf i xs (message_only\<lparr>domInstanceCacheKey := k\<rparr>) =
    Inr (replicate (length xs) 0, message_only\<lparr>domInstanceCacheKey := k\<rparr>)"
  by (induction xs arbitrary: i) (simp_all add: assms Let_def)

lemma message_only_section:
  assumes "t I18n = VTexts x" "is_group (t CurrentGroup)"
  shows "\<exists>fw. render_section r t message_only = Inr (0, fw) \<and> vd_value (fw_dom fw) 1 = (if truthy_text (t Message) then str_of (t Message) else [])"
proof -
  have k: "message_only\<lparr>domInstanceCacheKey := Unkeyed\<rparr> = message_only" by (simp add: message_only_def no_instances_def)
  note other = message_only_other [OF refl]
  have tids: "SKINTONE_TID \<noteq> SECTION_TID" "NAV_TID \<noteq> SECTION_TID" "CATEGORY_TID \<noteq> SECTION_TID" "EMOJI_TID \<noteq> SECTION_TID"
    by (simp_all add: SKINTONE_TID_def NAV_TID_def CATEGORY_TID_def SECTION_TID_def EMOJI_TID_def)
  have emo: "emojiList r a tn es sm pfx (message_only\<lparr>domInstanceCacheKey := c\<rparr>) =
      Inr (replicate (length es) 0, message_only\<lparr>domInstanceCacheKey := c\<rparr>)" for a tn es sm pfx c
    unfolding emojiList_def by (rule message_only_map) (rule other [OF tids(4)])
  have cat: "render_category r x t c i (message_only\<lparr>domInstanceCacheKey := k\<rparr>) = Inr (0, message_only\<lparr>domInstanceCacheKey := k\<rparr>)"
    for c i k unfolding render_category_def emo by (simp add: other [OF tids(3)])
  have items: "map_items f kf i xs message_only = Inr (replicate (length xs) 0, message_only)"
    if "\<And>x i k. f x i (message_only\<lparr>domInstanceCacheKey := k\<rparr>) = Inr (0, message_only\<lparr>domInstanceCacheKey := k\<rparr>)"
    for f and kf :: "'a \<Rightarrow> cache_key" and i xs
    using message_only_map [of f kf i xs Unkeyed] that by (simp add: k)
  have "render_tones r x t message_only = Inr (replicate (length (strs_of (t SkinTones))) 0, message_only)"
    unfolding render_tones_def by (rule items) (rule other [OF tids(1)])
  moreover have "render_nav r x t message_only = Inr (replicate (length (groups_of (t Groups))) 0, message_only)"
    unfolding render_nav_def by (rule items) (rule other [OF tids(2)])
  moreover have "render_categories r x t message_only =
      Inr (replicate (length (categories_of (t CurrentEmojisWithCategories))) 0, message_only)"
    unfolding render_categories_def by (rule items) (rule cat)
  moreover have "render_favorites r t message_only = Inr (replicate (length (emojis_of (t CurrentFavorites))) 0, message_only)"
    unfolding render_favorites_def using emo [where c = Unkeyed] by (simp add: k)
  ultimately obtain ns1 ns2 ns3 ns4 where "render_tones r x t message_only = Inr (ns1, message_only)"
    "render_nav r x t message_only = Inr (ns2, message_only)" "render_categories r x t message_only = Inr (ns3, message_only)"
    "render_favorites r t message_only = Inr (ns4, message_only)" by blast
  then have "render_section r t message_only =
      html_tag r (tokens_of section_template) SECTION_TID (section_exprs x t ns1 ns2 ns3 ns4) message_only"
    using assms by (simp add: render_section_def)
  moreover have "25 < length (section_exprs x t ns1 ns2 ns3 ns4)" "section_exprs x t ns1 ns2 ns3 ns4 ! 25 = text_of (t Message)"
    by (simp_all add: section_exprs_def Let_def)
  ultimately show ?thesis
    by (simp add: html_tag_def updateDomInstance_def message_only_def message_binding_def patch_one_def patch_text_def
        text_of_def set_nodeValue_def no_instances_def)
qed

theorem visible_change_is_rendered_witness:
  "\<exists>s v. createRoot no_memo plain_props = Inr s \<and> 1 \<in> set (dirtyObservers (put Message v s)) \<and> 0 < microtasks (put Message v s)"
proof -
  obtain s where s: "createRoot no_memo plain_props = Inr s" "typed_state pk_ok s" "\<not> rx_destroyed s"
    using plain_start by blast
  then have "pk_ok I18n (props s I18n)" "pk_ok CurrentGroup (props s CurrentGroup)" by (simp_all only: typed_state_def)
  then obtain x where x: "props s I18n = VTexts x" "is_group (props s CurrentGroup)"
    by (cases "props s CurrentGroup") (auto simp: pk_ok_def split: pval.splits)
  define v where "v = VStr (if props s Message = VStr [65] then [66] else [65])"
  obtain fw1 fw2 where
    "render_section plain_renderer (props s) message_only = Inr (0, fw1)"
    "vd_value (fw_dom fw1) 1 = (if truthy_text (props s Message) then str_of (props s Message) else [])"
    "render_section plain_renderer (props (put Message v s)) message_only = Inr (0, fw2)"
    "vd_value (fw_dom fw2) 1 = str_of v"
    using message_only_section [of "props s" x plain_renderer] message_only_section [of "props (put Message v s)" x plain_renderer] x
    by (auto simp: v_def split: if_splits)
  moreover have "str_of v \<noteq> (if truthy_text (props s Message) then str_of (props s Message) else [])"
    by (cases "props s Message") (auto simp: v_def)
  ultimately have "render_section plain_renderer (props (put Message v s)) message_only \<noteq> render_section plain_renderer (props s) message_only"
    by auto
  from visible_change_is_rendered [OF s(1) _ s(3) this, of plain_host "[]"] s(1) show ?thesis by auto
qed

section \<open>The active search result\<close>

text \<open>A picker at rest: all effects are up to date and nothing is queued.\<close>

definition at_rest :: "picker \<Rightarrow> bool" where
  "at_rest s \<longleftrightarrow> (\<forall>i<19. up_to_date (picker_eff no_memo) picker_own i s) \<and> \<not> rx_destroyed s \<and> microtasks s = 0"

lemma reached_at_rest:
  assumes "createRoot m pp = Inr s0" "pk_run h (m, s0) es = Inr (m', s)" "\<not> rx_destroyed s" "microtasks s = 0"
  shows "at_rest s"
proof -
  have inv: "pk_inv s \<and> observers s = 19"
    using pk_run_inv [OF assms(2)] createRoot_inv [OF assms(1)] by simp
  then show ?thesis
    unfolding at_rest_def using px.quiescent [OF conjunct1 [OF inv] assms(3,4)] up_to_date_memo assms(3,4) by metis
qed

text \<open>
  C11: the active search result is the selected button. When the picker is at rest with search results and an
  active item, rendering the results gives one button per result; the attribute
  \<open>aria-activedescendant\<close> of the search field names the id of the button at the active position, and
  that button alone is marked as selected.
\<close>

theorem active_descendant_is_selected:
  assumes "at_rest s" "props s SearchMode = VBool True" "props s CustomCategorySorting = VSorting f"
    and "at_index (emojis s) (int_of (props s ActiveSearchItem)) = Some y" "truthy_str (su_id y)"
    and "buttons_ok r fw" "r_innerHTML r (flat_tree emoji_button) = [button_markup]"
    and "distinct (map (emoji_key (js ''emo'')) (emojis s))"
  shows "\<exists>shown ns fw1.
    categories_of (props s CurrentEmojisWithCategories) = [([], shown)] \<and> map su_id shown = map su_id (emojis s) \<and>
    emojiList r (int_of (props s ActiveSearchItem)) (int_of (props s CurrentSkinTone)) shown True (js ''emo'') fw = Inr (ns, fw1) \<and>
    length ns = length (emojis s) \<and>
    vd_attrs (fw_dom fw1) (ns ! nat (int_of (props s ActiveSearchItem))) (js ''id'') =
      Some (expr_str (r_text r) (active_descendant (props s))) \<and>
    (\<forall>j < length ns. vd_attrs (fw_dom fw1) (ns ! j) (js ''aria-selected'') = Some (js ''true'') \<longleftrightarrow>
       int j = int_of (props s ActiveSearchItem))"
proof -
  let ?a = "int_of (props s ActiveSearchItem)"
  note d = derived_from_effects [OF conjunct1 [OF assms(1) [unfolded at_rest_def]]]
  have "arraysAreEqualByFunction compareCurrentEmojisWithCategories (categories_of (props s CurrentEmojisWithCategories))
      [([], emojis s)]"
    using d(7) [OF assms(3)] assms(2) by (simp add: calculateCurrentEmojisWithCategories_def)
  then obtain shown where shown: "categories_of (props s CurrentEmojisWithCategories) = [([], shown)]"
    "map su_id shown = map su_id (emojis s)"
    by (auto simp: arraysAreEqualByFunction_def [of compareCurrentEmojisWithCategories] compareCurrentEmojisWithCategories_def
        compare_ids length_Suc_conv)
  have keys: "map (emoji_key (js ''emo'')) shown = map (emoji_key (js ''emo'')) (emojis s)"
  proof -
    have "map (emoji_key (js ''emo'')) xs = map (\<lambda>i. js ''emo'' @ js ''-'' @ str_or_undefined i) (map su_id xs)" for xs
      by (simp add: emoji_key_def)
    then show ?thesis using shown(2) by presburger
  qed
  have y: "0 \<le> ?a" "nat ?a < length shown" "su_id (shown ! nat ?a) = su_id y" "length shown = length (emojis s)"
    using assms(4) shown(2) by (auto simp: at_index_def list_eq_iff_nth_eq split: if_splits)
  obtain i where i: "su_id y = Some i" "i \<noteq> []" using assms(5) by (cases "su_id y") auto
  from emoji_list_dom [OF assms(6,7), of "js ''emo''" shown ?a "int_of (props s CurrentSkinTone)" True] assms(8) keys
  obtain ns fw1 where e: "emojiList r ?a (int_of (props s CurrentSkinTone)) shown True (js ''emo'') fw = Inr (ns, fw1)"
    "length ns = length shown"
    "\<And>j. j < length shown \<Longrightarrow>
       map (\<lambda>a. vd_attrs (fw_dom fw1) (ns ! j) (js a)) button_names @ [Some (vd_value (fw_dom fw1) (Suc (ns ! j)))] =
         map (\<lambda>e. Some (expr_str (r_text r) e)) (emoji_exprs r ?a (int_of (props s CurrentSkinTone)) True (js ''emo'') (shown ! j) j)"
    by auto
  have sel: "vd_attrs (fw_dom fw1) (ns ! j) (js ''aria-selected'') = Some (js (if int j = ?a then ''true'' else ''false''))"
    if "j < length shown" for j
    using e(3) [OF that] by (simp add: button_names_def emoji_exprs_def)
  have id: "vd_attrs (fw_dom fw1) (ns ! nat ?a) (js ''id'') = Some (js ''emo-'' @ i)"
    using e(3) [OF y(2)] y(3) i by (simp add: button_names_def emoji_exprs_def emoji_key_def str_or_undefined_def js_append [symmetric])
  have "active_descendant (props s) = EStr (js ''emo-'' @ i)"
    using d(9) [OF assms(4)] i by (simp add: active_descendant_def opt_str_def)
  then show ?thesis using shown e(1,2) id sel y(4) by (intro exI [of _ shown] exI [of _ ns] exI [of _ fw1]) auto
qed

text \<open>A picker at rest with two results, the second active.\<close>

definition two_results :: "emoji_summary list" where
  "two_results = [named_emoji [1], named_emoji [2]]"

definition found_props :: "pprop \<Rightarrow> pval" where
  "found_props = (initial_state plain_props)
     (CurrentEmojis := VEmojis two_results, CurrentEmojisWithCategories := VCategories [([], two_results)],
      SearchMode := VBool True, ActiveSearchItem := VInt 1, ActiveSearchItemId := VStr [2],
      CurrentGroup := VGroup (hd native_groups), PickerStyle := VStr (picker_style (length native_groups) True),
      SkinTones := VStrs (map (applySkinTone DEFAULT_SKIN_TONE_EMOJI) [0..<NUM_SKIN_TONES]),
      SkinToneButtonText := opt_str (at_index (map (applySkinTone DEFAULT_SKIN_TONE_EMOJI) [0..<NUM_SKIN_TONES]) 0),
      SkinToneButtonLabel := VStr (skin_tone_label enI18n 0))"

definition found_picker :: picker where
  "found_picker = (createState found_props)\<lparr>propsToObservers := (\<lambda>_. [0..<19]), observers := 19\<rparr>"

lemma found_props_eval:
  "found_props CurrentEmojis = VEmojis two_results" "found_props CurrentEmojisWithCategories = VCategories [([], two_results)]"
  "found_props SearchMode = VBool True" "found_props ActiveSearchItem = VInt 1" "found_props ActiveSearchItemId = VStr [2]"
  "found_props CurrentGroup = VGroup (hd native_groups)" "found_props Groups = VGroups native_groups"
  "found_props CurrentGroupIndex = VInt 0" "found_props CustomEmojis = VNull" "found_props CurrentSkinTone = VInt 0"
  "found_props SkinToneEmoji = VStr DEFAULT_SKIN_TONE_EMOJI" "found_props I18n = VTexts enI18n"
  "found_props CustomCategorySorting = VSorting DEFAULT_CATEGORY_SORTING"
  "found_props SkinTones = VStrs (map (applySkinTone DEFAULT_SKIN_TONE_EMOJI) [0..<NUM_SKIN_TONES])"
  "found_props PickerStyle = VStr (picker_style (length native_groups) True)"
  "found_props SkinToneButtonText = opt_str (at_index (map (applySkinTone DEFAULT_SKIN_TONE_EMOJI) [0..<NUM_SKIN_TONES]) 0)"
  "found_props SkinToneButtonLabel = VStr (skin_tone_label enI18n 0)"
  by (simp_all add: found_props_def initial_state_def plain_props_def)

lemma found_at_rest: "at_rest found_picker"
proof -
  have g: "group_at (VGroups native_groups) (VInt 0) = VGroup (hd native_groups)"
    by (simp add: group_at_def at_index_def native_groups_def allGroups_def)
  have own: "found_props q = v"
    if "picker_own q = Some i" "last_write (picker_eff no_memo i) found_props q = Some v" for q i v
    using that
    by (cases q) (auto simp: picker_own_def picker_eff_nth effect_defs found_props_eval g strict_same_def put_categories_def
        calculateCurrentEmojisWithCategories_def at_index_def two_results_def named_emoji_def opt_str_def split: if_splits)
  then show ?thesis
    by (auto simp: at_rest_def up_to_date_def found_picker_def createState_def)
qed

theorem active_descendant_is_selected_witness:
  "\<exists>ns fw1. emojiList plain_renderer 1 0 two_results True (js ''emo'') no_instances = Inr (ns, fw1) \<and>
     vd_attrs (fw_dom fw1) (ns ! 1) (js ''id'') = Some (js ''emo-'' @ [2]) \<and>
     vd_attrs (fw_dom fw1) (ns ! 1) (js ''aria-selected'') = Some (js ''true'')"
proof -
  have p: "props found_picker = found_props" by (simp add: found_picker_def createState_def)
  have 1: "at_index (emojis found_picker) (int_of (props found_picker ActiveSearchItem)) = Some (named_emoji [2])"
    by (simp add: p found_props_eval at_index_def two_results_def)
  have 2: "buttons_ok plain_renderer no_instances" by (simp add: buttons_ok_def no_instances_def)
  have 3: "r_innerHTML plain_renderer (flat_tree emoji_button) = [button_markup]" by (simp add: plain_renderer_def)
  have 4: "distinct (map (emoji_key (js ''emo'')) (emojis found_picker))"
    by (simp add: p found_props_eval two_results_def emoji_key_def named_emoji_def str_or_undefined_def)
  have 5: "truthy_str (su_id (named_emoji [2]))" by (simp add: named_emoji_def)
  have 6: "props found_picker SearchMode = VBool True" "props found_picker CustomCategorySorting = VSorting DEFAULT_CATEGORY_SORTING"
    by (simp_all add: p found_props_eval)
  from active_descendant_is_selected [OF found_at_rest 6 1 5 2 3 4]
  show ?thesis by (auto simp: p found_props_eval active_descendant_def two_results_def)
qed

end
