(* ===== verification/Spec2Isabelle.thy ===== *)
theory Spec2Isabelle
  imports DirectMessages PostNavigation TextInsert Clipboard PageInit WebSocket Badges EmojiInsert
    EmojiDatabase EmojiShutdown Page PickerElement PickerRender
begin

text \<open>
  A verification library for the browser code of Rostra, a peer-to-peer social network whose web interface
  (crates/rostra-web-ui) serves HTML pages with one script, assets/app.js, a small module,
  assets/emoji-init.js, and the libraries text-field-edit and emoji-picker-element under assets/libs.

  \<^bold>\<open>The program.\<close> The script is a set of components on one document. Some are plain listeners (keyboard
  navigation, dialogs, the help, persona tags, media upload, clipboard, page initialisation), some are Alpine
  components with their own data (direct message history, notifications, text autocomplete, shoutbox
  composer, WebSocket, badge counts). They meet in the document (focus, classes, open dialogs), in the
  keyboard (five keydown listeners on the document, in the order of the source) and in window events
  (\<open>notify\<close>, \<open>ajax:error\<close>). The emoji picker keeps its data in IndexedDB through the class \<open>Database\<close>.

  \<^bold>\<open>How the code is modelled.\<close> A string is a list of 16-bit code units. An element is a number; \<open>Dom\<close>
  holds the tree of the document, the attributes, classes, styles and text-field state of each element, the
  focus and the loose trees, with the queries and updates of the platform that the scripts call. A handler
  takes its event and its state and returns the new state, the effects outside the document (\<open>effect\<close> of
  Events: navigation, synthetic clicks, submissions, prevented defaults), and, where it can raise, a sum whose left
  side carries the error with the state reached. Asynchronous code is cut at its awaits: each continuation is
  an operation of its own, and timers, answers of servers and of the clipboard are events that may come in
  any order the browser allows. Clicks and focus events that a script causes are delivered as later events.

  \<^item> Prelude, JsValue, Events, TextField, Dom: strings, JSON values and their comparison, events, text
    fields, the document (\<open>activeElementDeep\<close> and \<open>isTextInputFocused\<close> of app.js among them). Generic
    interfaces: \<open>machine\<close> and \<open>transition_system\<close> for event-driven components, \<open>caret_insertion\<close> for
    every edit that replaces a range of a text field.
  \<^item> DirectMessages (\<open>directMessageHistory\<close>): a step relation over the live refresh and the loading of
    older pages. The two never run at once, no wakeup is lost, a wakeup requests every page of a
    backlog, merged messages go to their side without duplicates, the scroll position is kept.
  \<^item> Notifications (\<open>notifications\<close>): no duplicate toasts, every toast goes away, what a failed request
    shows.
  \<^item> Autocomplete, Fuzzy (\<open>textAutocomplete\<close>, \<open>fuzzyMatch\<close>): what is recognised as a trigger, what
    choosing a result writes, the score of the greedy match with the rounding of binary64, and two states in
    which a choice damages the text.
  \<^item> Shoutbox (\<open>shoutboxComposer\<close>): when a key release sends.
  \<^item> KeyboardNav: the selection is the only highlighted item, under laws on what the rest of the page does
    with the document (\<open>page_change\<close>), how j and k move with the page scrolled in between, restoration.
  \<^item> Dialogs: \<open>syncRostraDialogs\<close> settles, closing returns the focus, the enlarged image.
  \<^item> TextInsert, PostNavigation: media and link insertion, the picker toggle, post clicks, external media.
  \<^item> MediaUpload: the preview and its closures, the upload request; cancelling restores the dialog, but two
    previews at once leave the handler of the first. \<open>retry_gives_up\<close> bounds the retries by 50.
  \<^item> PersonaTags, Clipboard, Shortcuts, PageInit, WebSocket, Badges: the remaining components of app.js.
  \<^item> TextFieldEdit, EmojiInsert (libs/text-field-edit/index.js, emoji-init.js): borrowing the focus for an
    edit comes to the edit itself, replacing is \<open>String.prototype.replace\<close> but for the dollar patterns
    of a string.
  \<^item> EmojiTokens, EmojiTrie, EmojiDatabase (libs/emoji-picker-element/database.js): \<open>token_search\<close> is the
    contract of an index searched by tokens, which the trie of the custom emoji and the token index of
    IndexedDB both meet; the trie refines the list of items with their tokens; the scan in batches of 50 is a
    \<open>partial_function\<close>, proved to end with the first match on every store in key order; the stores stay well
    formed, updates settle, an emoji is found by its shortcodes, favourites are ranked by their counts.
  \<^item> EmojiLifecycle, EmojiShutdown: opening, closing and deleting the emoji database by several instances of
    \<open>Database\<close>; closing takes the connection from everyone who holds it, a start that failed is not
    repeated, and a shutdown that comes to its end leaves no connection open.
  \<^item> PickerSupport, PickerReactive, PickerState, Picker, PickerBehaviour, PickerElement
    (libs/emoji-picker-element/picker.js). PickerReactive is \<open>createState\<close>: a program over reads, writes and
    calls is an effect, and the locales \<open>reactive_client\<close>, \<open>ranked_effects\<close>, \<open>typed_client\<close> and \<open>ranked_client\<close>
    give, for any effects that meet their laws, that derived properties are up to date when nothing is dirty,
    that the microtasks end, also when effects raise, and when none raises. PickerState has the initial state and the nineteen effects of \<open>createRoot\<close>, Picker the
    handlers and the continuations after each await; the locales are interpreted on them, with twelve
    microtasks as the bound. PickerBehaviour: ranges, search answers, the order of answers, and the states
    in which a late answer or a shorter list damages the view. PickerElement: the class \<open>PickerElement\<close>,
    its attributes, properties and life cycle, and when it creates and closes its database.
  \<^item> PickerParse, PickerTemplate (the template framework of picker.js): a template is a tree with holes;
    parsing what it prints finds every hole, and the five templates of \<open>render\<close> are such trees. The tree of
    nodes is a store; patched lists show their nodes, the emoji list shows its emoji with cached buttons,
    actions and listeners are bound once, each scroll container has one observer.
  \<^item> PickerRender (\<open>render\<close>): the section as a function of the state. The page depends only on what the render
    effect reads, so every visible change is rendered; the active search result is the selected button.
  \<^item> Page and this theory: the components together, from the click on a rendered emoji to the text field.

  \<^bold>\<open>Parameters.\<close> Code outside the repository is an argument of the definitions that use it: \<open>JSON.parse\<close>,
  the parsers of HTML and selectors, \<open>toLowerCase\<close>, the resolution of URLs, the rounding of floating-point
  arithmetic where it is not written out, \<open>Alpine.morph\<close>, the answers of the servers, the matches of a
  regular expression that a caller passes, the digest of the browser. Layout values (rectangles, heights) are
  rational numbers.

  \<^bold>\<open>Not modelled.\<close> The style sheets of the picker, the canvas and the text measurements it asks the browser for,
  the other vendored libraries (Alpine, Alpine AJAX, MathJax, Prism), the selection ranges of editable elements that are
  not text fields, console output, the drawing of the slides (docs/rostra-presenterm), and the Rust crates that
  emit the pages (one handler attribute of the shoutbox template is modelled in Page).
\<close>

section \<open>The keyboard of the page\<close>

text \<open>
  C23: typing is undisturbed. While a text input has the focus, a key other than Enter and Escape passes all
  keydown listeners of the document without an effect and without a change of the page: no shortcut,
  no selection, no dialog.
\<close>

theorem typing_is_undisturbed:
  assumes "isTextInputFocused (pg_dom p)" "key e \<noteq> js ''Enter''" "key e \<noteq> js ''Escape''"
  shows "page_keydown lower parse_html e p = ([], p)"
proof (rule all_ignore)
  show "\<forall>f\<in>set (listeners lower parse_html e). f p = ([], p)"
    using assms
    by (simp add: listeners_def listen_dom_def persona_keydown_def persona_enter_def help_keydown_def
        escape_keydown_def nav_keydown_def Let_def)
qed

definition writing_page :: page where
  "writing_page = \<lparr>pg_dom = (mk_dom (Node 0 [Node 2 []]) [(2, new_element ''TEXTAREA'')])\<lparr>activeElement := Some 2\<rparr>,
     pg_selectedEl = None, pg_selectedHref = None, pg_helpDialog = None, pg_previousFocus = None, pg_closing = 0\<rparr>"

theorem typing_is_undisturbed_witness:
  "page_keydown (\<lambda>s. s) (\<lambda>_. []) (plain_event\<lparr>key := js ''j''\<rparr>) writing_page = ([], writing_page)"
  by (rule typing_is_undisturbed)
    (simp_all add: writing_page_def isTextInputFocused_def activeElementDeep_def deep_from.simps dom_eval)

text \<open>
  C24: an open dialog has the keyboard. After the synchronisation of the dialogs on a page with an active
  dialog, no key moves the selection, switches tabs or navigates, and a key other than Escape does not open the
  help over it.
\<close>

theorem dialog_blocks_shortcuts:
  assumes "doc_querySelector (dl_dom s) active_dialog_sel = Some x"
    and "nav_dom n = dl_dom (syncRostraDialogs s)" "sc_dom h = dl_dom (syncRostraDialogs s)"
  shows "nav_keydown e n = ([], n) \<and> (key e \<noteq> js ''Escape'' \<longrightarrow> help_keydown e h = ([], Inr h))"
proof -
  have "doc_querySelector (dl_dom (syncRostraDialogs s)) open_dialog_sel \<noteq> None"
    using assms(1) sync_opens [OF assms(1)] by (intro dialog_is_found [of _ x]) (simp_all add: sync_query)
  then show ?thesis
    using assms(2,3) by (auto simp: nav_keydown_def help_keydown_def dialog_selectors Let_def)
qed

definition preview_page :: dialogs where
  "preview_page = \<lparr>dl_dom = mk_dom (Node 0 [Node 2 []])
       [(2, (new_element ''DIALOG'')\<lparr>classList := [''o-previewDialog'', ''-active'']\<rparr>)],
     rostraDialogFocus = Map.empty, activeRostraDialog = None\<rparr>"

theorem dialog_blocks_shortcuts_witness:
  "let d = dl_dom (syncRostraDialogs preview_page);
       n = \<lparr>nav_dom = d, selectedEl = None, selectedHref = None\<rparr>
   in nav_keydown (plain_event\<lparr>key := js ''q''\<rparr>) n = ([], n)"
proof -
  have "doc_querySelector (dl_dom preview_page) active_dialog_sel = Some 2"
    by (simp add: preview_page_def active_dialog_sel_def dialog_class_def image_dialog_sel_def dom_eval)
  from dialog_blocks_shortcuts [OF this, of "\<lparr>nav_dom = dl_dom (syncRostraDialogs preview_page),
      selectedEl = None, selectedHref = None\<rparr>" "\<lparr>sc_dom = dl_dom (syncRostraDialogs preview_page),
      sc_dialog = None, previousFocus = None, sc_closing = 0\<rparr>"]
  show ?thesis by (simp add: Let_def)
qed

section \<open>The shoutbox field\<close>

text \<open>
  C25: Enter sends or chooses, never both. A first press of plain Enter and its release submit the form
  exactly once and leave the field alone when the dropdown is closed; when it is open they never submit, and
  with no results yet they do nothing at all.
\<close>

theorem enter_sends_or_chooses:
  assumes "key e = js ''Enter''" "\<not> shiftKey e" "\<not> composition_key e" "\<not> repeat e" "\<not> composition_key up"
  shows "let (c', es, r) = shout_keydown e c f;
             sent = snd (handleSendKeyup up form c')
         in filter is_submit es = [] \<and> (if showDropdown (snd f) then sent = [] else sent = [RequestSubmit form] \<and> r = Inr f) \<and>
            (showDropdown (snd f) \<and> results (snd f) = [] \<longrightarrow> r = Inr f)"
proof -
  have k: "\<not> is_next_key e" "\<not> is_prev_key e" "js ''Enter'' \<noteq> js ''Escape''"
    using assms(1) by (auto simp: is_next_key_def is_prev_key_def)
  have "filter is_submit (fst (handleKeydown e f)) = []"
    using assms(1) k by (simp add: handleKeydown_def Let_def)
  then show ?thesis
    using assms k
    by (auto simp: shout_keydown_def handleSendKeydown_def handleSendKeyup_def composition_key_def Let_def
        handleKeydown_def split: prod.splits)
qed

theorem enter_sends_or_chooses_witness:
  "let e = plain_event\<lparr>key := js ''Enter''\<rparr>;
       (c', es, r) = shout_keydown e composer_init (None, ac_init)
   in snd (handleSendKeyup e 7 c') = [RequestSubmit 7]"
  using enter_sends_or_chooses [of "plain_event\<lparr>key := js ''Enter''\<rparr>" "plain_event\<lparr>key := js ''Enter''\<rparr>"
      composer_init "(None, ac_init)" 7]
  by (simp add: plain_event_def composition_key_def ac_init_def Let_def case_prod_unfold)

section \<open>Choosing an emoji\<close>

text \<open>
  C26: a chosen emoji is typed. The click on the button that the render made for an emoji with a character, in
  the grid or among the favourites, leads through the two answers of the database to one
  \<open>emoji-click\<close> event that carries the emoji in the current skin tone; its listener puts exactly this text in place of the
  selection of the picker's field, with the caret behind it, and returns the focus.
\<close>

theorem chosen_emoji_is_typed:
  assumes "su_id e = Some u" "List.find (\<lambda>y. su_id y = Some u) (emojis s @ emojis_of (props s CurrentFavorites)) = Some e"
    and "truthy_str (su_unicode e)" "props s Database = VDatabase b" "pfx \<in> {js ''emo'', js ''fav''}"
    and "find_textarea parse picker d = Inr (Some x)" "editable d x" "wf_field (field (dat d x))"
  shows "let s1 = snd (onEmojiClick True (emoji_key pfx e) s);
             s2 = clicked_answer (length (calls s)) (Inr h) s1;
             (fx, s3) = counted_answer (length (calls s)) s2;
             tone = int_of (props s CurrentSkinTone);
             v = the (unicodeWithSkin e tone)
         in fx = [FireEmojiClick h tone (Some v) (truthy_part (su_name e))] \<and>
            (\<exists>d'. on_emoji_click parse br picker v d = ([InputEvent x], Inr d') \<and>
               (let f = field (dat d x); f' = field (dat d' x)
                in take (selectionStart f') (tvalue f') = take (selectionStart f) (tvalue f) @ v \<and>
                   drop (selectionStart f') (tvalue f') = drop (selectionEnd f) (tvalue f) \<and>
                   selectionEnd f' = selectionStart f') \<and>
               activeElement d' = activeElement d)"
proof -
  let ?tone = "int_of (props s CurrentSkinTone)" and ?k = "length (calls s)"
  have u: "substring_from (emoji_key pfx e) 4 = u"
    using assms(1,5) by (auto simp: emoji_key_def str_or_undefined_def substring_from_def)
  then have s1: "snd (onEmojiClick True (emoji_key pfx e) s) = call (AskClicked u) s"
    using assms(4) by (simp add: onEmojiClick_def clickEmoji_def)
  obtain v where v: "unicodeWithSkin e ?tone = Some v" "v \<noteq> []"
  proof -
    have "truthy_str (unicodeWithSkin e ?tone)" using assms(3) by (simp add: unicodeWithSkin_def or_str_def)
    then show ?thesis using that by (cases "unicodeWithSkin e ?tone") auto
  qed
  have "clicked_answer ?k (Inr h) (call (AskClicked u) s) = continue ?k (CountClicked u h e (Some v)) (call (AskClicked u) s)"
    using assms(2,3) v by (simp add: clicked_answer_def call_at_def call_def)
  then have "fst (counted_answer ?k (clicked_answer ?k (Inr h) (snd (onEmojiClick True (emoji_key pfx e) s)))) =
      [FireEmojiClick h ?tone (Some v) (truthy_part (su_name e))]"
    using v by (simp add: s1 counted_answer_def call_at_def continue_def call_def truthy_part_def)
  then show ?thesis
    using emoji_click_inserts [OF assms(6-8) v(2), of br] v(1) by (simp add: Let_def case_prod_unfold)
qed

definition one_emoji_picker :: picker where
  "one_emoji_picker = createState ((initial_state plain_props)(CurrentEmojis := VEmojis [named_emoji [0x2764]]))"

theorem chosen_emoji_is_typed_witness:
  "let s1 = snd (onEmojiClick True (js ''emo-'' @ [0x2764]) one_emoji_picker);
       (fx, s3) = counted_answer 0 (clicked_answer 0 (Inr None) s1)
   in fx = [FireEmojiClick None 0 (Some [0x2764]) None] \<and>
      fst (on_emoji_click (\<lambda>_. None) plain_browser 4 [0x2764] emoji_page) = [InputEvent 2]"
proof -
  have p: "props one_emoji_picker = (initial_state plain_props)(CurrentEmojis := VEmojis [named_emoji [0x2764]])"
    "calls one_emoji_picker = []" by (simp_all add: one_emoji_picker_def createState_def)
  have 1: "List.find (\<lambda>y. su_id y = Some [0x2764])
      (emojis one_emoji_picker @ emojis_of (props one_emoji_picker CurrentFavorites)) = Some (named_emoji [0x2764])"
    and 2: "su_id (named_emoji [0x2764]) = Some [0x2764]" "truthy_str (su_unicode (named_emoji [0x2764]))"
      "su_name (named_emoji [0x2764]) = None" "unicodeWithSkin (named_emoji [0x2764]) 0 = Some [0x2764]"
    and 3: "props one_emoji_picker Database = VDatabase 0" "props one_emoji_picker CurrentSkinTone = VInt 0"
    and 4: "js ''emo'' \<in> {js ''emo'', js ''fav''}"
    and 5: "emoji_key (js ''emo'') (named_emoji [0x2764]) = js ''emo-'' @ [0x2764]"
    by (simp_all add: p initial_state_def plain_props_def named_emoji_def unicodeWithSkin_def or_str_def emoji_key_def
        str_or_undefined_def js_append [symmetric])
  have 6: "find_textarea (\<lambda>_. None) 4 emoji_page = Inr (Some 2)" "editable emoji_page 2" "wf_field (field (dat emoji_page 2))"
    by (simp_all add: emoji_page_def find_textarea_def editable_def isNativeField_def wf_field_def dom_eval)
  show ?thesis
    using chosen_emoji_is_typed [OF 2(1) 1 2(2) 3(1) 4 6, of None plain_browser]
    by (auto simp: Let_def case_prod_unfold p(2) 2 3 5 truthy_part_def)
qed

section \<open>Uploads and toasts\<close>

text \<open>
  C39: a failed upload is reported. An answer outside 200..299 or a network error hides the progress
  bar, empties the file input, takes the request off the list and ends in an error toast: with the message
  the server sent when its answer is an object with one, and otherwise one that names the status.
\<close>

theorem failed_upload_is_reported:
  assumes "\<not> (200 \<le> st \<and> st < 300)"
  shows "let (es, s') = on_load parse scripts_of u st txt s;
             m = upload_message parse st txt
         in es = [] \<and> s' = notify_error m (settle_upload u s) \<and> shows_error m (deliver (notified s') n) \<and>
            shows_error (JStr (js ''Upload failed - network error'')) (deliver (notified (on_upload_error u s)) n) \<and>
            m = (case parse txt of
                   Some (JObj fs) \<Rightarrow>
                     (case map_of fs (js ''message'') of
                        Some v \<Rightarrow> if truthy v then v else JStr (js ''Upload failed ('' @ decimal st @ js '')'')
                      | None \<Rightarrow> JStr (js ''Upload failed ('' @ decimal st @ js '')''))
                 | _ \<Rightarrow> JStr (js ''Upload failed ('' @ decimal st @ js '')''))"
proof -
  have "upload_message parse st txt = (case parse txt of
                   Some (JObj fs) \<Rightarrow>
                     (case map_of fs (js ''message'') of
                        Some v \<Rightarrow> if truthy v then v else JStr (js ''Upload failed ('' @ decimal st @ js '')'')
                      | None \<Rightarrow> JStr (js ''Upload failed ('' @ decimal st @ js '')''))
                 | _ \<Rightarrow> JStr (js ''Upload failed ('' @ decimal st @ js '')''))"
    by (auto simp: upload_message_def Let_def split: option.split json.split)
  moreover have "on_load parse scripts_of u st txt s = ([], notify_error (upload_message parse st txt) (settle_upload u s))"
    using assms by (auto simp: on_load_def Let_def)
  ultimately show ?thesis by (simp add: notify_error_def on_upload_error_def deliver_last)
qed

definition idle_media :: media where
  "idle_media = \<lparr>md_dom = mk_dom (Node 0 []) [], onclick = Map.empty, blobs = [], nextBlob = 0, retries = [],
     uploads = [], notified = []\<rparr>"

theorem failed_upload_is_reported_witness:
  "let u = \<lparr>up_file = \<lparr>fname = js ''a.png'', ftype = js ''image/png''\<rparr>, up_input = None, up_progress = None,
        up_fill = None, up_text = None\<rparr>
   in shows_error (JStr (js ''Upload failed (500)''))
        (deliver (notified (snd (on_load (\<lambda>_. None) (\<lambda>_. []) u 500 [] idle_media))) notif_init)"
proof -
  have "js ''Upload failed ('' @ decimal 500 @ js '')'' = js ''Upload failed (500)''"
    by (simp add: js_def chr16_def decimal.simps)
  then have "shows_error (JStr (js ''Upload failed (500)''))
      (deliver (notified (snd (on_load (\<lambda>_. None) (\<lambda>_. []) u 500 [] idle_media))) notif_init)" for u
    using failed_upload_is_reported [of 500 "\<lambda>_. None" "\<lambda>_. []" u "[]" idle_media notif_init]
    by (simp add: Let_def case_prod_unfold) metis
  then show ?thesis unfolding Let_def .
qed

end
